(* ===== verification/FINS_Prelude.thy ===== *)
theory FINS_Prelude
  imports Main "HOL-Library.Word"
begin

unbundle bit_operations_syntax

text \<open>
  Shared vocabulary of the development: the fixed width integers of the C sources, the outcome type
  of an operation that may leave the normal path, the byte order conversions of the network headers,
  and the generic lemmas the components use.

  A C function is a HOL function. Where the C code can stop the process (\<^verbatim>\<open>exit(-1)\<close>), dereference
  a pointer that is NULL, freed or out of bounds, or loop for ever, the model returns \<open>Inl\<close> with
  the kind of the failure; a normal return is \<open>Inr\<close>. Addresses are natural numbers and \<open>0\<close> is
  the NULL pointer.
\<close>

type_synonym u8 = "8 word"
type_synonym u16 = "16 word"
type_synonym u32 = "32 word"
type_synonym u64 = "64 word"
type_synonym byte = "8 word"
type_synonym addr = nat

datatype fault =
    ExitFailure  \<comment> \<open>the code calls \<^verbatim>\<open>exit(-1)\<close>\<close>
  | MemFault     \<comment> \<open>a NULL, freed or out of bounds pointer is used\<close>
  | Diverge      \<comment> \<open>a loop of the code does not end\<close>

type_synonym 'a res = "fault + 'a"

definition andThen :: "'a res \<Rightarrow> ('a \<Rightarrow> 'b res) \<Rightarrow> 'b res" where
  "andThen m f = (case m of Inl e \<Rightarrow> Inl e | Inr x \<Rightarrow> f x)"

named_theorems outcome \<comment> \<open>rewriting of sequenced operations\<close>

lemma andThen_Inr [simp, outcome]: "andThen (Inr x) f = f x"
  by (simp add: andThen_def)

lemma andThen_Inl [simp, outcome]: "andThen (Inl e) f = Inl e"
  by (simp add: andThen_def)

lemma andThen_eq_Inr [outcome]: "andThen m f = Inr y \<longleftrightarrow> (\<exists>x. m = Inr x \<and> f x = Inr y)"
  by (cases m) auto

lemma andThen_eq_Inl: "andThen m f = Inl e \<longleftrightarrow> m = Inl e \<or> (\<exists>x. m = Inr x \<and> f x = Inl e)"
  by (cases m) auto

lemma andThen_split:
  "P (andThen m f) \<longleftrightarrow> (\<forall>e. m = Inl e \<longrightarrow> P (Inl e)) \<and> (\<forall>x. m = Inr x \<longrightarrow> P (f x))"
  by (cases m) auto

text \<open>Counters of 32 bits as natural numbers, as long as they do not wrap.\<close>

lemma unat_u32_bound: "unat (x :: u32) < 4294967296"
proof -
  have "unat x < 2 ^ LENGTH(32)" by (rule unsigned_less)
  then show ?thesis by simp
qed

lemma unat_plus_one_u32: "unat (x :: u32) + 1 < 2 ^ 32 \<Longrightarrow> unat (x + 1) = unat x + 1"
  by (subst unat_add_lem [THEN iffD1]) simp_all

lemma unat_minus_one_u32: "(x :: u32) \<noteq> 0 \<Longrightarrow> unat (x - 1) = unat x - 1"
  by (rule unat_minus_one)

end
