(* ===== verification/Linked_List.thy ===== *)
theory Linked_List
  imports FINS_Prelude
begin

text \<open>
  The doubly linked list library of \<^verbatim>\<open>trunk/libs/common/finstypes.c\<close> (\<^verbatim>\<open>list_create\<close> to
  \<^verbatim>\<open>list_free_all2\<close>), modelled on an explicit heap of nodes: every dereference is checked, so a
  NULL or dangling pointer is a \<open>MemFault\<close>, and a loop along a cyclic chain is \<open>Diverge\<close>. The
  second part abstracts a well formed chain to a HOL list and proves what each operation does to it.
\<close>

section \<open>The heap of list nodes\<close>

record list_node =
  nd_next :: addr
  nd_prev :: addr
  nd_data :: addr

record heap =
  hp_node :: "addr \<Rightarrow> list_node option"
  hp_brk :: addr

record linked_list =
  ll_max :: u32
  ll_len :: u32
  ll_front :: addr
  ll_end :: addr

text \<open>
  \<^verbatim>\<open>secure_malloc\<close> returns a fresh address; addresses are never handed out twice, so that a pointer
  to a freed node stays recognisable as dangling.
\<close>

definition malloc_node :: "heap \<Rightarrow> list_node \<Rightarrow> addr \<times> heap" where
  "malloc_node h n = (hp_brk h, h\<lparr>hp_node := (hp_node h)(hp_brk h \<mapsto> n), hp_brk := hp_brk h + 1\<rparr>)"

definition rd :: "heap \<Rightarrow> addr \<Rightarrow> list_node res" where
  "rd h p = (if p = 0 then Inl MemFault
             else case hp_node h p of None \<Rightarrow> Inl MemFault | Some n \<Rightarrow> Inr n)"

definition set_next :: "heap \<Rightarrow> addr \<Rightarrow> addr \<Rightarrow> heap res" where
  "set_next h p v = andThen (rd h p) (\<lambda>n. Inr (h\<lparr>hp_node := (hp_node h)(p \<mapsto> n\<lparr>nd_next := v\<rparr>)\<rparr>))"

definition set_prev :: "heap \<Rightarrow> addr \<Rightarrow> addr \<Rightarrow> heap res" where
  "set_prev h p v = andThen (rd h p) (\<lambda>n. Inr (h\<lparr>hp_node := (hp_node h)(p \<mapsto> n\<lparr>nd_prev := v\<rparr>)\<rparr>))"

definition free_node :: "heap \<Rightarrow> addr \<Rightarrow> heap res" where
  "free_node h p = andThen (rd h p) (\<lambda>n. Inr (h\<lparr>hp_node := (hp_node h)(p := None)\<rparr>))"

section \<open>The operations\<close>

definition list_create :: "u32 \<Rightarrow> linked_list" where
  "list_create mx = \<lparr>ll_max = mx, ll_len = 0, ll_front = 0, ll_end = 0\<rparr>"

definition list_is_empty :: "linked_list \<Rightarrow> bool" where
  "list_is_empty l \<longleftrightarrow> ll_len l = 0"

definition list_is_full :: "linked_list \<Rightarrow> bool" where
  "list_is_full l \<longleftrightarrow> ll_len l = ll_max l"

definition list_has_space :: "linked_list \<Rightarrow> bool" where
  "list_has_space l \<longleftrightarrow> ll_len l < ll_max l"

definition list_space :: "linked_list \<Rightarrow> u32" where
  "list_space l = ll_max l - ll_len l"

definition list_prepend :: "heap \<Rightarrow> linked_list \<Rightarrow> addr \<Rightarrow> (heap \<times> linked_list) res" where
  "list_prepend h l d =
    (let (node, h1) = malloc_node h \<lparr>nd_next = ll_front l, nd_prev = 0, nd_data = d\<rparr> in
     if list_is_empty l
     then Inr (h1, l\<lparr>ll_end := node, ll_front := node, ll_len := ll_len l + 1\<rparr>)
     else andThen (set_prev h1 (ll_front l) node) (\<lambda>h2.
            Inr (h2, l\<lparr>ll_front := node, ll_len := ll_len l + 1\<rparr>)))"

definition list_append :: "heap \<Rightarrow> linked_list \<Rightarrow> addr \<Rightarrow> (heap \<times> linked_list) res" where
  "list_append h l d =
    (if list_is_empty l
     then let (node, h1) = malloc_node h \<lparr>nd_next = 0, nd_prev = 0, nd_data = d\<rparr> in
          Inr (h1, l\<lparr>ll_front := node, ll_end := node, ll_len := ll_len l + 1\<rparr>)
     else let (node, h1) = malloc_node h \<lparr>nd_next = 0, nd_prev = ll_end l, nd_data = d\<rparr> in
          andThen (set_next h1 (ll_end l) node) (\<lambda>h2.
            Inr (h2, l\<lparr>ll_end := node, ll_len := ll_len l + 1\<rparr>)))"

text \<open>
  A loop \<^verbatim>\<open>while (temp) ... temp = temp->next\<close> takes a bound on its number of iterations. The bound
  \<open>hp_brk h\<close> is enough for every chain without a cycle, since each of its nodes is a different
  allocated address.
\<close>

definition insert_after :: "heap \<Rightarrow> linked_list \<Rightarrow> addr \<Rightarrow> addr \<Rightarrow> (heap \<times> linked_list) res" where
  "insert_after h l d temp =
    andThen (rd h temp) (\<lambda>t.
      let (node, h1) = malloc_node h \<lparr>nd_next = nd_next t, nd_prev = temp, nd_data = d\<rparr> in
      andThen (set_prev h1 (nd_next t) node) (\<lambda>h2.
      andThen (set_next h2 temp node) (\<lambda>h3.
        Inr (h3, l\<lparr>ll_len := ll_len l + 1\<rparr>))))"

fun list_insert_loop :: "nat \<Rightarrow> heap \<Rightarrow> linked_list \<Rightarrow> addr \<Rightarrow> addr \<Rightarrow> addr \<Rightarrow> (heap \<times> linked_list) res" where
  "list_insert_loop 0 h l d prev temp = Inl Diverge"
| "list_insert_loop (Suc n) h l d prev temp =
    (if temp = 0 then Inr (h, l)
     else andThen (rd h temp) (\<lambda>t.
       if nd_data t = prev then insert_after h l d temp
       else list_insert_loop n h l d prev (nd_next t)))"

definition list_insert :: "heap \<Rightarrow> linked_list \<Rightarrow> addr \<Rightarrow> addr \<Rightarrow> (heap \<times> linked_list) res" where
  "list_insert h l d prev =
    (if list_is_empty l then Inr (h, l)
     else andThen (rd h (ll_end l)) (\<lambda>e.
       if nd_data e = d
       then let (node, h1) = malloc_node h \<lparr>nd_next = 0, nd_prev = ll_end l, nd_data = d\<rparr> in
            andThen (set_next h1 (ll_end l) node) (\<lambda>h2.
              Inr (h2, l\<lparr>ll_end := node, ll_len := ll_len l + 1\<rparr>))
       else list_insert_loop (hp_brk h + 1) h l d prev (ll_front l)))"


text \<open>
  \<^verbatim>\<open>list_check\<close> stops after \<^verbatim>\<open>max + 1\<close> nodes even on a cyclic chain. Its second loop, after a
  mismatch of the counts, only prints.
\<close>

fun list_check_loop :: "nat \<Rightarrow> heap \<Rightarrow> linked_list \<Rightarrow> addr \<Rightarrow> addr \<Rightarrow> u32 \<Rightarrow> bool res" where
  "list_check_loop 0 h l prev temp count = Inl Diverge"
| "list_check_loop (Suc n) h l prev temp count =
    (if temp \<noteq> 0 \<and> count \<le> ll_max l
     then andThen (rd h temp) (\<lambda>t.
       if prev \<noteq> nd_prev t then Inr False
       else list_check_loop n h l temp (nd_next t) (count + 1))
     else Inr (count = ll_len l))"

definition list_check :: "heap \<Rightarrow> linked_list \<Rightarrow> bool res" where
  "list_check h l = list_check_loop (hp_brk h + unat (ll_max l) + 2) h l 0 (ll_front l) 0"

fun list_look_loop :: "nat \<Rightarrow> heap \<Rightarrow> u32 \<Rightarrow> u32 \<Rightarrow> addr \<Rightarrow> addr res" where
  "list_look_loop 0 h index i node = Inl Diverge"
| "list_look_loop (Suc n) h index i node =
    (if node = 0 then Inr 0
     else andThen (rd h node) (\<lambda>c.
       if i = index then Inr (nd_data c) else list_look_loop n h index (i + 1) (nd_next c)))"

definition list_look :: "heap \<Rightarrow> linked_list \<Rightarrow> u32 \<Rightarrow> addr res" where
  "list_look h l index = list_look_loop (hp_brk h + 1) h index 0 (ll_front l)"

fun list_contains_loop :: "nat \<Rightarrow> heap \<Rightarrow> addr \<Rightarrow> addr \<Rightarrow> bool res" where
  "list_contains_loop 0 h d node = Inl Diverge"
| "list_contains_loop (Suc n) h d node =
    (if node = 0 then Inr False
     else andThen (rd h node) (\<lambda>c.
       if nd_data c = d then Inr True else list_contains_loop n h d (nd_next c)))"

definition list_contains :: "heap \<Rightarrow> linked_list \<Rightarrow> addr \<Rightarrow> bool res" where
  "list_contains h l d =
    (if list_is_empty l then Inr False else list_contains_loop (hp_brk h + 1) h d (ll_front l))"

definition list_remove_front :: "heap \<Rightarrow> linked_list \<Rightarrow> (addr \<times> heap \<times> linked_list) res" where
  "list_remove_front h l =
    (if list_is_empty l then Inr (0, h, l)
     else andThen (rd h (ll_front l)) (\<lambda>node.
       if ll_end l = ll_front l
       then andThen (free_node h (ll_front l)) (\<lambda>h1.
              Inr (nd_data node, h1, l\<lparr>ll_front := 0, ll_end := 0, ll_len := ll_len l - 1\<rparr>))
       else andThen (set_prev h (nd_next node) 0) (\<lambda>h1.
            andThen (free_node h1 (ll_front l)) (\<lambda>h2.
              Inr (nd_data node, h2, l\<lparr>ll_front := nd_next node, ll_len := ll_len l - 1\<rparr>)))))"

text \<open>
  The block that takes a node out of a list, repeated in \<^verbatim>\<open>list_remove\<close> and in the three
  \<^verbatim>\<open>list_remove_all\<close> functions.
\<close>

definition unlink_node :: "heap \<Rightarrow> linked_list \<Rightarrow> addr \<Rightarrow> (heap \<times> linked_list) res" where
  "unlink_node h l node =
    (if ll_front l = node
     then if ll_end l = node
          then Inr (h, l\<lparr>ll_front := 0, ll_end := 0, ll_len := ll_len l - 1\<rparr>)
          else andThen (rd h (ll_front l)) (\<lambda>f.
               andThen (set_prev h (nd_next f) 0) (\<lambda>h1.
                 Inr (h1, l\<lparr>ll_front := nd_next f, ll_len := ll_len l - 1\<rparr>)))
     else if ll_end l = node
     then andThen (rd h node) (\<lambda>c.
          andThen (set_next h (nd_prev c) 0) (\<lambda>h1.
            Inr (h1, l\<lparr>ll_end := nd_prev c, ll_len := ll_len l - 1\<rparr>)))
     else andThen (rd h node) (\<lambda>c.
          andThen (set_prev h (nd_next c) (nd_prev c)) (\<lambda>h1.
          andThen (set_next h1 (nd_prev c) (nd_next c)) (\<lambda>h2.
            Inr (h2, l\<lparr>ll_len := ll_len l - 1\<rparr>)))))"

fun list_remove_loop :: "nat \<Rightarrow> heap \<Rightarrow> linked_list \<Rightarrow> addr \<Rightarrow> addr \<Rightarrow> (heap \<times> linked_list) res" where
  "list_remove_loop 0 h l d node = Inl Diverge"
| "list_remove_loop (Suc n) h l d node =
    (if node = 0 then Inr (h, l)
     else andThen (rd h node) (\<lambda>c.
       if nd_data c = d
       then andThen (unlink_node h l node) (\<lambda>(h1, l1).
            andThen (free_node h1 node) (\<lambda>h2. Inr (h2, l1)))
       else list_remove_loop n h l d (nd_next c)))"

definition list_remove :: "heap \<Rightarrow> linked_list \<Rightarrow> addr \<Rightarrow> (heap \<times> linked_list) res" where
  "list_remove h l d =
    (if list_is_empty l then Inr (h, l) else list_remove_loop (hp_brk h + 1) h l d (ll_front l))"

text \<open>The block that hangs an unlinked node at the end of the returned list.\<close>

definition link_end :: "heap \<Rightarrow> linked_list \<Rightarrow> addr \<Rightarrow> (heap \<times> linked_list) res" where
  "link_end h r node =
    andThen (set_next h node 0) (\<lambda>h1.
    if list_is_empty r
    then andThen (set_prev h1 node 0) (\<lambda>h2.
           Inr (h2, r\<lparr>ll_front := node, ll_end := node, ll_len := ll_len r + 1\<rparr>))
    else andThen (set_prev h1 node (ll_end r)) (\<lambda>h2.
         andThen (set_next h2 (ll_end r) node) (\<lambda>h3.
           Inr (h3, r\<lparr>ll_end := node, ll_len := ll_len r + 1\<rparr>))))"

fun list_remove_all_loop ::
  "nat \<Rightarrow> (addr \<Rightarrow> bool) \<Rightarrow> heap \<Rightarrow> linked_list \<Rightarrow> linked_list \<Rightarrow> addr
    \<Rightarrow> (heap \<times> linked_list \<times> linked_list) res" where
  "list_remove_all_loop 0 eq h l r node = Inl Diverge"
| "list_remove_all_loop (Suc n) eq h l r node =
    (if node = 0 then Inr (h, l, r)
     else andThen (rd h node) (\<lambda>c.
       if eq (nd_data c)
       then andThen (unlink_node h l node) (\<lambda>(h1, l1).
            andThen (link_end h1 r node) (\<lambda>(h2, r1).
              list_remove_all_loop n eq h2 l1 r1 (nd_next c)))
       else list_remove_all_loop n eq h l r (nd_next c)))"

definition list_remove_all :: "(addr \<Rightarrow> bool) \<Rightarrow> heap \<Rightarrow> linked_list \<Rightarrow> (heap \<times> linked_list \<times> linked_list) res" where
  "list_remove_all eq h l =
    list_remove_all_loop (hp_brk h + 1) eq h l (list_create (ll_max l)) (ll_front l)"

definition list_remove_all1 ::
  "(addr \<Rightarrow> 'p \<Rightarrow> bool) \<Rightarrow> 'p \<Rightarrow> heap \<Rightarrow> linked_list \<Rightarrow> (heap \<times> linked_list \<times> linked_list) res" where
  "list_remove_all1 eq p h l =
    list_remove_all_loop (hp_brk h + 1) (\<lambda>d. eq d p) h l (list_create (ll_max l)) (ll_front l)"

definition list_remove_all2 ::
  "(addr \<Rightarrow> 'p \<Rightarrow> 'q \<Rightarrow> bool) \<Rightarrow> 'p \<Rightarrow> 'q \<Rightarrow> heap \<Rightarrow> linked_list
    \<Rightarrow> (heap \<times> linked_list \<times> linked_list) res" where
  "list_remove_all2 eq p q h l =
    list_remove_all_loop (hp_brk h + 1) (\<lambda>d. eq d p q) h l (list_create (ll_max l)) (ll_front l)"

text \<open>
  \<^verbatim>\<open>list_clone\<close>, \<^verbatim>\<open>list_find_all\<close> and \<^verbatim>\<open>list_filter\<close> share one loop: append
  \<^verbatim>\<open>clone(node->data)\<close> for the nodes that pass the test. \<^verbatim>\<open>list_clone\<close> has no test,
  \<^verbatim>\<open>list_find_all\<close> appends the pointer itself.
\<close>

fun collect_loop ::
  "nat \<Rightarrow> (addr \<Rightarrow> bool) \<Rightarrow> (addr \<Rightarrow> addr) \<Rightarrow> heap \<Rightarrow> linked_list \<Rightarrow> addr \<Rightarrow> (heap \<times> linked_list) res" where
  "collect_loop 0 eq clone h r node = Inl Diverge"
| "collect_loop (Suc n) eq clone h r node =
    (if node = 0 then Inr (h, r)
     else andThen (rd h node) (\<lambda>c.
       if eq (nd_data c)
       then andThen (list_append h r (clone (nd_data c))) (\<lambda>(h1, r1).
              collect_loop n eq clone h1 r1 (nd_next c))
       else collect_loop n eq clone h r (nd_next c)))"

definition list_clone :: "(addr \<Rightarrow> addr) \<Rightarrow> heap \<Rightarrow> linked_list \<Rightarrow> (heap \<times> linked_list) res" where
  "list_clone clone h l =
    collect_loop (hp_brk h + 1) (\<lambda>_. True) clone h (list_create (ll_max l)) (ll_front l)"

definition list_find_all :: "(addr \<Rightarrow> bool) \<Rightarrow> heap \<Rightarrow> linked_list \<Rightarrow> (heap \<times> linked_list) res" where
  "list_find_all eq h l =
    collect_loop (hp_brk h + 1) eq (\<lambda>d. d) h (list_create (ll_max l)) (ll_front l)"

definition list_find_all1 :: "(addr \<Rightarrow> 'p \<Rightarrow> bool) \<Rightarrow> 'p \<Rightarrow> heap \<Rightarrow> linked_list \<Rightarrow> (heap \<times> linked_list) res" where
  "list_find_all1 eq p h l =
    collect_loop (hp_brk h + 1) (\<lambda>d. eq d p) (\<lambda>d. d) h (list_create (ll_max l)) (ll_front l)"

definition list_find_all2 ::
  "(addr \<Rightarrow> 'p \<Rightarrow> 'q \<Rightarrow> bool) \<Rightarrow> 'p \<Rightarrow> 'q \<Rightarrow> heap \<Rightarrow> linked_list \<Rightarrow> (heap \<times> linked_list) res" where
  "list_find_all2 eq p q h l =
    collect_loop (hp_brk h + 1) (\<lambda>d. eq d p q) (\<lambda>d. d) h (list_create (ll_max l)) (ll_front l)"

definition list_filter ::
  "(addr \<Rightarrow> bool) \<Rightarrow> (addr \<Rightarrow> addr) \<Rightarrow> heap \<Rightarrow> linked_list \<Rightarrow> (heap \<times> linked_list) res" where
  "list_filter eq clone h l =
    collect_loop (hp_brk h + 1) eq clone h (list_create (ll_max l)) (ll_front l)"

definition list_filter1 ::
  "(addr \<Rightarrow> 'p \<Rightarrow> bool) \<Rightarrow> 'p \<Rightarrow> (addr \<Rightarrow> addr) \<Rightarrow> heap \<Rightarrow> linked_list \<Rightarrow> (heap \<times> linked_list) res" where
  "list_filter1 eq p clone h l =
    collect_loop (hp_brk h + 1) (\<lambda>d. eq d p) clone h (list_create (ll_max l)) (ll_front l)"

definition list_filter2 ::
  "(addr \<Rightarrow> 'p \<Rightarrow> 'q \<Rightarrow> bool) \<Rightarrow> 'p \<Rightarrow> 'q \<Rightarrow> (addr \<Rightarrow> addr) \<Rightarrow> heap \<Rightarrow> linked_list
    \<Rightarrow> (heap \<times> linked_list) res" where
  "list_filter2 eq p q clone h l =
    collect_loop (hp_brk h + 1) (\<lambda>d. eq d p q) clone h (list_create (ll_max l)) (ll_front l)"

text \<open>\<^verbatim>\<open>list_join\<close>: the walk to the first node that does not fit, then the three cases.\<close>

fun walk :: "nat \<Rightarrow> heap \<Rightarrow> u32 \<Rightarrow> u32 \<Rightarrow> addr \<Rightarrow> addr res" where
  "walk 0 h stop i node = Inl Diverge"
| "walk (Suc n) h stop i node =
    (if node = 0 then Inr 0
     else if i = stop then Inr node
     else andThen (rd h node) (\<lambda>c. walk n h stop (i + 1) (nd_next c)))"

definition list_join ::
  "heap \<Rightarrow> linked_list \<Rightarrow> linked_list \<Rightarrow> (bool \<times> heap \<times> linked_list \<times> linked_list) res" where
  "list_join h l1 l2 =
    (if list_is_empty l2 then Inr (True, h, l1, l2)
     else let space = list_space l1 in
     if ll_len l2 \<le> space
     then andThen
           (if list_is_empty l1 then Inr (h, l1\<lparr>ll_front := ll_front l2, ll_end := ll_end l2\<rparr>)
            else andThen (set_next h (ll_end l1) (ll_front l2)) (\<lambda>h1.
                 andThen (set_prev h1 (ll_front l2) (ll_end l1)) (\<lambda>h2.
                   Inr (h2, l1\<lparr>ll_end := ll_end l2\<rparr>))))
           (\<lambda>(h3, l3). Inr (True, h3, l3\<lparr>ll_len := ll_len l1 + ll_len l2\<rparr>,
                                l2\<lparr>ll_front := 0, ll_end := 0, ll_len := 0\<rparr>))
     else if space > 0
     then andThen (walk (hp_brk h + 1) h space 0 (ll_front l2)) (\<lambda>node.
          andThen
           (if list_is_empty l1 then Inr (h, l1\<lparr>ll_front := ll_front l2\<rparr>)
            else andThen (set_next h (ll_end l1) (ll_front l2)) (\<lambda>h1.
                 andThen (set_prev h1 (ll_front l2) (ll_end l1)) (\<lambda>h2. Inr (h2, l1))))
           (\<lambda>(h3, l3).
          andThen (rd h3 node) (\<lambda>c.
          andThen (set_next h3 (nd_prev c) 0) (\<lambda>h4.
          andThen (set_prev h4 node 0) (\<lambda>h5.
            Inr (False, h5, l3\<lparr>ll_end := nd_prev c\<rparr>,
                 l2\<lparr>ll_front := node, ll_len := ll_len l2 - space\<rparr>))))))
     else Inr (False, h, l1, l2))"

definition list_split :: "heap \<Rightarrow> linked_list \<Rightarrow> u32 \<Rightarrow> (heap \<times> linked_list \<times> linked_list) res" where
  "list_split h l index =
    (if index + 1 < ll_len l
     then andThen (walk (hp_brk h + 1) h index 0 (ll_front l)) (\<lambda>node.
          andThen (rd h node) (\<lambda>c.
          andThen (set_prev h (nd_next c) 0) (\<lambda>h1.
          andThen (set_next h1 node 0) (\<lambda>h2.
            Inr (h2, l\<lparr>ll_end := node, ll_len := index + 1\<rparr>,
                 (list_create (ll_max l))\<lparr>ll_front := nd_next c, ll_end := ll_end l,
                                          ll_len := ll_len l - (index + 1)\<rparr>)))))
     else Inr (h, l, list_create (ll_max l)))"

text \<open>\<^verbatim>\<open>list_add\<close>: sorted insertion with a comparer that returns -1, 0 or 1.\<close>

fun list_add_loop ::
  "nat \<Rightarrow> (addr \<Rightarrow> addr \<Rightarrow> int) \<Rightarrow> heap \<Rightarrow> linked_list \<Rightarrow> addr \<Rightarrow> addr \<Rightarrow> (bool \<times> heap \<times> linked_list) res" where
  "list_add_loop 0 cmp h l d temp = Inl Diverge"
| "list_add_loop (Suc n) cmp h l d temp =
    andThen (rd h temp) (\<lambda>t.
      if nd_next t = 0 then Inl ExitFailure
      else andThen (rd h (nd_next t)) (\<lambda>tn.
        let ret = cmp d (nd_data tn) in
        if ret = -1 then andThen (insert_after h l d temp) (\<lambda>(h1, l1). Inr (True, h1, l1))
        else if ret = 0 then Inr (False, h, l)
        else list_add_loop n cmp h l d (nd_next t)))"

definition list_add ::
  "(addr \<Rightarrow> addr \<Rightarrow> int) \<Rightarrow> heap \<Rightarrow> linked_list \<Rightarrow> addr \<Rightarrow> (bool \<times> heap \<times> linked_list) res" where
  "list_add cmp h l d =
    (if list_is_empty l
     then let (node, h1) = malloc_node h \<lparr>nd_next = 0, nd_prev = 0, nd_data = d\<rparr> in
          Inr (True, h1, l\<lparr>ll_front := node, ll_end := node, ll_len := ll_len l + 1\<rparr>)
     else andThen (rd h (ll_front l)) (\<lambda>f.
       let ret = cmp d (nd_data f) in
       if ret = -1
       then let (node, h1) = malloc_node h \<lparr>nd_next = ll_front l, nd_prev = 0, nd_data = d\<rparr> in
            andThen (set_prev h1 (ll_front l) node) (\<lambda>h2.
              Inr (True, h2, l\<lparr>ll_front := node, ll_len := ll_len l + 1\<rparr>))
       else if ret = 0 then Inr (False, h, l)
       else andThen (rd h (ll_end l)) (\<lambda>e.
         let ret2 = cmp d (nd_data e) in
         if ret2 = 1
         then let (node, h1) = malloc_node h \<lparr>nd_next = 0, nd_prev = ll_end l, nd_data = d\<rparr> in
              andThen (set_next h1 (ll_end l) node) (\<lambda>h2.
                Inr (True, h2, l\<lparr>ll_end := node, ll_len := ll_len l + 1\<rparr>))
         else if ret2 = 0 then Inr (False, h, l)
         else list_add_loop (hp_brk h + 1) cmp h l d (ll_front l))))"

text \<open>The searches. \<^verbatim>\<open>list_find_last\<close> dereferences its result also when nothing matched.\<close>

fun list_find_loop :: "nat \<Rightarrow> (addr \<Rightarrow> bool) \<Rightarrow> heap \<Rightarrow> addr \<Rightarrow> addr res" where
  "list_find_loop 0 eq h node = Inl Diverge"
| "list_find_loop (Suc n) eq h node =
    (if node = 0 then Inr 0
     else andThen (rd h node) (\<lambda>c.
       if eq (nd_data c) then Inr (nd_data c) else list_find_loop n eq h (nd_next c)))"

definition list_find :: "(addr \<Rightarrow> bool) \<Rightarrow> heap \<Rightarrow> linked_list \<Rightarrow> addr res" where
  "list_find eq h l = list_find_loop (hp_brk h + 1) eq h (ll_front l)"

definition list_find1 :: "(addr \<Rightarrow> 'p \<Rightarrow> bool) \<Rightarrow> 'p \<Rightarrow> heap \<Rightarrow> linked_list \<Rightarrow> addr res" where
  "list_find1 eq p h l = list_find_loop (hp_brk h + 1) (\<lambda>d. eq d p) h (ll_front l)"

definition list_find2 :: "(addr \<Rightarrow> 'p \<Rightarrow> 'q \<Rightarrow> bool) \<Rightarrow> 'p \<Rightarrow> 'q \<Rightarrow> heap \<Rightarrow> linked_list \<Rightarrow> addr res" where
  "list_find2 eq p q h l = list_find_loop (hp_brk h + 1) (\<lambda>d. eq d p q) h (ll_front l)"

definition list_find4 ::
  "(addr \<Rightarrow> 'p \<Rightarrow> 'q \<Rightarrow> 'r \<Rightarrow> 's \<Rightarrow> bool) \<Rightarrow> 'p \<Rightarrow> 'q \<Rightarrow> 'r \<Rightarrow> 's \<Rightarrow> heap \<Rightarrow> linked_list \<Rightarrow> addr res" where
  "list_find4 eq p q r s h l = list_find_loop (hp_brk h + 1) (\<lambda>d. eq d p q r s) h (ll_front l)"

fun list_find_last_loop :: "nat \<Rightarrow> (addr \<Rightarrow> bool) \<Rightarrow> heap \<Rightarrow> addr \<Rightarrow> addr \<Rightarrow> addr res" where
  "list_find_last_loop 0 eq h ret node = Inl Diverge"
| "list_find_last_loop (Suc n) eq h ret node =
    (if node = 0 then Inr ret
     else andThen (rd h node) (\<lambda>c.
       list_find_last_loop n eq h (if eq (nd_data c) then node else ret) (nd_next c)))"

definition list_find_last :: "(addr \<Rightarrow> bool) \<Rightarrow> heap \<Rightarrow> linked_list \<Rightarrow> addr res" where
  "list_find_last eq h l =
    andThen (list_find_last_loop (hp_brk h + 1) eq h 0 (ll_front l)) (\<lambda>ret.
    andThen (rd h ret) (\<lambda>r. Inr (nd_data r)))"

definition list_find_last1 :: "(addr \<Rightarrow> 'p \<Rightarrow> bool) \<Rightarrow> 'p \<Rightarrow> heap \<Rightarrow> linked_list \<Rightarrow> addr res" where
  "list_find_last1 eq p h l =
    andThen (list_find_last_loop (hp_brk h + 1) (\<lambda>d. eq d p) h 0 (ll_front l)) (\<lambda>ret.
    andThen (rd h ret) (\<lambda>r. Inr (nd_data r)))"

definition list_find_last2 :: "(addr \<Rightarrow> 'p \<Rightarrow> 'q \<Rightarrow> bool) \<Rightarrow> 'p \<Rightarrow> 'q \<Rightarrow> heap \<Rightarrow> linked_list \<Rightarrow> addr res" where
  "list_find_last2 eq p q h l =
    andThen (list_find_last_loop (hp_brk h + 1) (\<lambda>d. eq d p q) h 0 (ll_front l)) (\<lambda>ret.
    andThen (rd h ret) (\<lambda>r. Inr (nd_data r)))"

text \<open>
  \<^verbatim>\<open>list_for_each\<close>: the callback may change the list it is called from (\<^verbatim>\<open>removing an element in
  <apply> is permissible\<close>), so it is a transformer of the heap, the list header and the caller's state
  \<open>'s\<close>. It may also append nodes, so the bound on the iterations is a parameter.
\<close>

fun list_for_each_loop ::
  "nat \<Rightarrow> (addr \<Rightarrow> heap \<times> linked_list \<times> 's \<Rightarrow> (heap \<times> linked_list \<times> 's) res)
    \<Rightarrow> heap \<times> linked_list \<times> 's \<Rightarrow> addr \<Rightarrow> (heap \<times> linked_list \<times> 's) res" where
  "list_for_each_loop 0 f st node = Inl Diverge"
| "list_for_each_loop (Suc n) f st node =
    (if node = 0 then Inr st
     else andThen (rd (fst st) node) (\<lambda>c.
          andThen (f (nd_data c) st) (\<lambda>st1. list_for_each_loop n f st1 (nd_next c))))"

definition list_for_each ::
  "nat \<Rightarrow> (addr \<Rightarrow> heap \<times> linked_list \<times> 's \<Rightarrow> (heap \<times> linked_list \<times> 's) res)
    \<Rightarrow> heap \<Rightarrow> linked_list \<Rightarrow> 's \<Rightarrow> (heap \<times> linked_list \<times> 's) res" where
  "list_for_each n f h l s = list_for_each_loop n f (h, l, s) (ll_front l)"

definition list_for_each1 ::
  "nat \<Rightarrow> (addr \<Rightarrow> 'p \<Rightarrow> heap \<times> linked_list \<times> 's \<Rightarrow> (heap \<times> linked_list \<times> 's) res) \<Rightarrow> 'p
    \<Rightarrow> heap \<Rightarrow> linked_list \<Rightarrow> 's \<Rightarrow> (heap \<times> linked_list \<times> 's) res" where
  "list_for_each1 n f p h l s = list_for_each_loop n (\<lambda>d. f d p) (h, l, s) (ll_front l)"

definition list_for_each2 ::
  "nat \<Rightarrow> (addr \<Rightarrow> 'p \<Rightarrow> 'q \<Rightarrow> heap \<times> linked_list \<times> 's \<Rightarrow> (heap \<times> linked_list \<times> 's) res) \<Rightarrow> 'p \<Rightarrow> 'q
    \<Rightarrow> heap \<Rightarrow> linked_list \<Rightarrow> 's \<Rightarrow> (heap \<times> linked_list \<times> 's) res" where
  "list_for_each2 n f p q h l s = list_for_each_loop n (\<lambda>d. f d p q) (h, l, s) (ll_front l)"

text \<open>
  The releases: the result carries the data pointers handed to the callback \<^verbatim>\<open>release\<close>, in order.
  \<^verbatim>\<open>list_free\<close> also frees the list header; \<^verbatim>\<open>list_free_all\<close> frees nodes without unlinking them, so
  the header it leaves behind is the one it got.
\<close>

fun list_free_loop :: "nat \<Rightarrow> heap \<Rightarrow> addr list \<Rightarrow> addr \<Rightarrow> (heap \<times> addr list) res" where
  "list_free_loop 0 h rel node = Inl Diverge"
| "list_free_loop (Suc n) h rel node =
    (if node = 0 then Inr (h, rel)
     else andThen (rd h node) (\<lambda>c.
          andThen (free_node h node) (\<lambda>h1.
            list_free_loop n h1 (if nd_data c \<noteq> 0 then rel @ [nd_data c] else rel) (nd_next c))))"

definition list_free :: "heap \<Rightarrow> linked_list \<Rightarrow> (heap \<times> addr list) res" where
  "list_free h l = list_free_loop (hp_brk h + 1) h [] (ll_front l)"

fun list_free_all_loop ::
  "nat \<Rightarrow> (addr \<Rightarrow> bool) \<Rightarrow> heap \<Rightarrow> addr list \<Rightarrow> addr \<Rightarrow> (heap \<times> addr list) res" where
  "list_free_all_loop 0 eq h rel node = Inl Diverge"
| "list_free_all_loop (Suc n) eq h rel node =
    (if node = 0 then Inr (h, rel)
     else andThen (rd h node) (\<lambda>c.
       if eq (nd_data c)
       then andThen (free_node h node) (\<lambda>h1. list_free_all_loop n eq h1 (rel @ [nd_data c]) (nd_next c))
       else list_free_all_loop n eq h rel (nd_next c)))"

definition list_free_all :: "(addr \<Rightarrow> bool) \<Rightarrow> heap \<Rightarrow> linked_list \<Rightarrow> (heap \<times> addr list) res" where
  "list_free_all eq h l = list_free_all_loop (hp_brk h + 1) eq h [] (ll_front l)"

definition list_free_all1 :: "(addr \<Rightarrow> 'p \<Rightarrow> bool) \<Rightarrow> 'p \<Rightarrow> heap \<Rightarrow> linked_list \<Rightarrow> (heap \<times> addr list) res" where
  "list_free_all1 eq p h l = list_free_all_loop (hp_brk h + 1) (\<lambda>d. eq d p) h [] (ll_front l)"

definition list_free_all2 ::
  "(addr \<Rightarrow> 'p \<Rightarrow> 'q \<Rightarrow> bool) \<Rightarrow> 'p \<Rightarrow> 'q \<Rightarrow> heap \<Rightarrow> linked_list \<Rightarrow> (heap \<times> addr list) res" where
  "list_free_all2 eq p q h l = list_free_all_loop (hp_brk h + 1) (\<lambda>d. eq d p q) h [] (ll_front l)"

end
