(* ===== verification/List_Refine.thy ===== *)
theory List_Refine
  imports Linked_List
begin

text \<open>
  Correctness of the linked list library: \<open>is_list h l ps\<close> says that the header \<open>l\<close> heads a well
  formed doubly linked chain through the node addresses \<open>ps\<close>; \<open>rep h l ds\<close> hides the addresses and
  keeps the data pointers. Every operation is shown to succeed on a well formed list and to implement
  the corresponding function on HOL lists.
\<close>

section \<open>Well formed chains\<close>

definition hd0 :: "addr list \<Rightarrow> addr \<Rightarrow> addr" where
  "hd0 ps q = (case ps of [] \<Rightarrow> q | a # _ \<Rightarrow> a)"

definition last0 :: "addr list \<Rightarrow> addr \<Rightarrow> addr" where
  "last0 ps p = (if ps = [] then p else last ps)"

primrec dseg :: "heap \<Rightarrow> addr \<Rightarrow> addr list \<Rightarrow> addr \<Rightarrow> bool" where
  "dseg h p [] q = True"
| "dseg h p (a # ps) q =
    (a \<noteq> 0 \<and> (case hp_node h a of None \<Rightarrow> False | Some n \<Rightarrow> nd_prev n = p \<and> nd_next n = hd0 ps q)
     \<and> dseg h a ps q)"

definition dat :: "heap \<Rightarrow> addr \<Rightarrow> addr" where
  "dat h a = (case hp_node h a of None \<Rightarrow> 0 | Some n \<Rightarrow> nd_data n)"

definition heap_ok :: "heap \<Rightarrow> bool" where
  "heap_ok h \<longleftrightarrow> 0 < hp_brk h \<and> (\<forall>a. hp_node h a \<noteq> None \<longrightarrow> a < hp_brk h)"

definition is_list :: "heap \<Rightarrow> linked_list \<Rightarrow> addr list \<Rightarrow> bool" where
  "is_list h l ps \<longleftrightarrow> heap_ok h \<and> distinct ps \<and> dseg h 0 ps 0 \<and> ll_front l = hd0 ps 0
     \<and> ll_end l = last0 ps 0 \<and> unat (ll_len l) = length ps"

definition rep :: "heap \<Rightarrow> linked_list \<Rightarrow> addr list \<Rightarrow> bool" where
  "rep h l ds \<longleftrightarrow> (\<exists>ps. is_list h l ps \<and> map (dat h) ps = ds)"

text \<open>One node more: the fresh one, with the data now reading \<open>ds\<close>.\<close>

definition added :: "heap \<Rightarrow> linked_list \<Rightarrow> addr list \<Rightarrow> heap \<Rightarrow> linked_list \<Rightarrow> addr list \<Rightarrow> bool" where
  "added h l ps h' l' ds \<longleftrightarrow> (\<exists>ps'. is_list h' l' ps' \<and> map (dat h') ps' = ds
     \<and> (\<forall>a. a \<notin> set ps \<longrightarrow> a < hp_brk h \<longrightarrow> hp_node h' a = hp_node h a)
     \<and> set ps' = insert (hp_brk h) (set ps) \<and> hp_brk h' = hp_brk h + 1 \<and> ll_max l' = ll_max l)"

text \<open>What an operation leaves alone: the nodes outside a footprint, and the data of every node it keeps.\<close>

definition keeps :: "heap \<Rightarrow> heap \<Rightarrow> addr set \<Rightarrow> bool" where
  "keeps h h' S \<longleftrightarrow> hp_brk h \<le> hp_brk h'
     \<and> (\<forall>a. a \<notin> S \<longrightarrow> a < hp_brk h \<longrightarrow> hp_node h' a = hp_node h a)"

lemma hd0_simps [simp]: "hd0 [] q = q" "hd0 (a # ps) q = a"
  by (simp_all add: hd0_def)

lemma hd0_append [simp]: "hd0 (xs @ ys) q = hd0 xs (hd0 ys q)"
  by (cases xs) simp_all

lemma last0_simps [simp]: "last0 [] p = p" "last0 (a # ps) p = last0 ps a" "last0 (xs @ [a]) p = a"
  by (simp_all add: last0_def)

lemma last0_append [simp]: "last0 (xs @ ys) p = last0 ys (last0 xs p)"
  by (simp add: last0_def)

lemma dseg_append [simp]:
  "dseg h p (xs @ ys) q \<longleftrightarrow> dseg h p xs (hd0 ys q) \<and> dseg h (last0 xs p) ys q"
  by (induction xs arbitrary: p) (auto split: option.splits)

lemma dseg_cong:
  "dseg h p ps q \<Longrightarrow> \<forall>a \<in> set ps. hp_node h' a = hp_node h a \<Longrightarrow> dseg h' p ps q"
  by (induction ps arbitrary: p) (auto split: option.splits)

lemma dseg_nodes: "dseg h p ps q \<Longrightarrow> a \<in> set ps \<Longrightarrow> a \<noteq> 0 \<and> hp_node h a \<noteq> None"
  by (induction ps arbitrary: p) (auto split: option.splits)

lemma dseg_below: "dseg h p ps q \<Longrightarrow> heap_ok h \<Longrightarrow> a \<in> set ps \<Longrightarrow> 0 < a \<and> a < hp_brk h"
  using dseg_nodes [of h p ps q a] by (auto simp: heap_ok_def)

lemma dseg_short:
  assumes "dseg h p ps q" "heap_ok h" "distinct ps"
  shows "length ps < hp_brk h"
proof -
  have "set ps \<subseteq> {0<..<hp_brk h}" using dseg_below [OF assms(1,2)] by auto
  then have "card (set ps) \<le> card {0<..<hp_brk h}" by (intro card_mono) simp_all
  with assms(2,3) show ?thesis by (auto simp: distinct_card heap_ok_def)
qed

lemma dseg_split:
  "dseg h p (xs @ a # ys) q \<longleftrightarrow>
    dseg h p xs a \<and> a \<noteq> 0
    \<and> (\<exists>d. hp_node h a = Some \<lparr>nd_next = hd0 ys q, nd_prev = last0 xs p, nd_data = d\<rparr>) \<and> dseg h a ys q"
  by (auto split: option.splits) (metis list_node.surjective old.unit.exhaust)

lemma rd_node: "a \<noteq> 0 \<Longrightarrow> hp_node h a = Some n \<Longrightarrow> rd h a = Inr n"
  by (simp add: rd_def)

lemma rd_null [simp]: "rd h 0 = Inl MemFault"
  by (simp add: rd_def)

lemma is_listD:
  assumes "is_list h l ps"
  shows "heap_ok h" "distinct ps" "dseg h 0 ps 0" "ll_front l = hd0 ps 0" "ll_end l = last0 ps 0"
    "unat (ll_len l) = length ps"
  using assms by (simp_all add: is_list_def)

lemma is_list_empty: "is_list h l ps \<Longrightarrow> list_is_empty l \<longleftrightarrow> ps = []"
  by (metis is_listD(6) length_0_conv list_is_empty_def unat_0_iff)

lemma is_list_below: "is_list h l ps \<Longrightarrow> a \<in> set ps \<Longrightarrow> 0 < a \<and> a < hp_brk h"
  by (meson dseg_below is_list_def)

lemma is_list_fuel: "is_list h l ps \<Longrightarrow> length ps < hp_brk h + 1"
  using dseg_short by (fastforce simp: is_list_def)

lemma is_list_keeps:
  "is_list h l ps \<Longrightarrow> keeps h h' S \<Longrightarrow> heap_ok h' \<Longrightarrow> set ps \<inter> S = {} \<Longrightarrow> is_list h' l ps"
  unfolding is_list_def keeps_def by (smt (verit, best) disjoint_iff dseg_below dseg_cong)


text \<open>Heap updates seen from a chain.\<close>

lemma dseg_upd [simp]:
  "a \<notin> set ps \<Longrightarrow> dseg (h\<lparr>hp_node := f(a := v)\<rparr>) p ps q = dseg (h\<lparr>hp_node := f\<rparr>) p ps q"
  "dseg (h\<lparr>hp_node := hp_node h\<rparr>) p ps q = dseg h p ps q"
  "dseg (h\<lparr>hp_brk := b\<rparr>) p ps q = dseg h p ps q"
  by (induction ps arbitrary: p) simp_all

lemma dat_upd [simp]:
  "dat (h\<lparr>hp_node := f(a := v)\<rparr>) b =
    (if b = a then (case v of None \<Rightarrow> 0 | Some n \<Rightarrow> nd_data n) else dat (h\<lparr>hp_node := f\<rparr>) b)"
  "dat (h\<lparr>hp_node := hp_node h\<rparr>) b = dat h b"
  "dat (h\<lparr>hp_brk := k\<rparr>) b = dat h b"
  by (simp_all add: dat_def)

lemma heap_ok_upd [simp]:
  "heap_ok (h\<lparr>hp_node := f\<rparr>) \<Longrightarrow> a < hp_brk h \<Longrightarrow> heap_ok (h\<lparr>hp_node := f(a := v)\<rparr>)"
  "heap_ok h \<Longrightarrow> heap_ok (h\<lparr>hp_node := hp_node h\<rparr>)"
  by (auto simp: heap_ok_def)

lemma heap_ok_malloc: "heap_ok h \<Longrightarrow> malloc_node h n = (a, h') \<Longrightarrow> heap_ok h'"
  by (auto simp: heap_ok_def malloc_node_def less_Suc_eq)

lemma heap_ok_brk: "heap_ok h \<Longrightarrow> hp_node h (hp_brk h) = None" "heap_ok h \<Longrightarrow> 0 < hp_brk h"
  by (auto simp: heap_ok_def)

lemmas heap_ops = malloc_node_def rd_def set_next_def set_prev_def free_node_def Let_def

lemma list_create_ok [simp]: "heap_ok h \<Longrightarrow> is_list h (list_create mx) []"
  by (simp add: is_list_def list_create_def)

lemma list_append_ok:
  assumes l: "is_list h l ps" and len: "length ps + 1 < 2 ^ 32"
  shows "\<exists>h' l'. list_append h l d = Inr (h', l') \<and> is_list h' l' (ps @ [hp_brk h])
    \<and> map (dat h') (ps @ [hp_brk h]) = map (dat h) ps @ [d] \<and> keeps h h' (set ps)
    \<and> hp_brk h' = hp_brk h + 1 \<and> ll_max l' = ll_max l"
proof (cases ps rule: rev_cases)
  case Nil
  with l have "list_is_empty l" by (simp add: is_list_empty)
  with Nil l len show ?thesis
    by (auto simp: list_append_def heap_ops is_list_def keeps_def heap_ok_def less_Suc_eq unat_plus_one_u32)
next
  case (snoc xs e)
  note w = is_listD [OF l, unfolded snoc dseg_split]
  obtain n where n: "hp_node h e = Some n" "nd_next n = 0" "nd_prev n = last0 xs 0" "nd_data n = dat h e"
    using w(3) by (auto simp: dat_def)
  have e: "0 < e" "e < hp_brk h" "hp_brk h \<notin> set xs"
    using is_list_below [OF l] snoc by auto
  have "\<not> list_is_empty l" using l snoc by (simp add: is_list_empty)
  with w n e snoc len show ?thesis
    by (auto simp: list_append_def heap_ops is_list_def keeps_def heap_ok_def less_Suc_eq unat_plus_one_u32)
qed

lemma list_prepend_ok:
  assumes l: "is_list h l ps" and len: "length ps + 1 < 2 ^ 32"
  shows "\<exists>h' l'. list_prepend h l d = Inr (h', l') \<and> is_list h' l' (hp_brk h # ps)
    \<and> map (dat h') (hp_brk h # ps) = d # map (dat h) ps \<and> keeps h h' (set ps)
    \<and> hp_brk h' = hp_brk h + 1 \<and> ll_max l' = ll_max l"
proof (cases ps)
  case Nil
  with l have "list_is_empty l" by (simp add: is_list_empty)
  with Nil l len show ?thesis
    by (auto simp: list_prepend_def heap_ops is_list_def keeps_def heap_ok_def less_Suc_eq unat_plus_one_u32)
next
  case (Cons a xs)
  note w = is_listD [OF l, unfolded Cons]
  obtain n where n: "hp_node h a = Some n" "nd_next n = hd0 xs 0" "nd_prev n = 0" "nd_data n = dat h a"
    using w(3) by (auto simp: dat_def split: option.splits)
  have e: "0 < a" "a < hp_brk h" "hp_brk h \<notin> set xs"
    using is_list_below [OF l] Cons by auto
  have "\<not> list_is_empty l" using l Cons by (simp add: is_list_empty)
  with w n e Cons len show ?thesis
    by (auto simp: list_prepend_def heap_ops is_list_def keeps_def heap_ok_def less_Suc_eq unat_plus_one_u32)
qed


section \<open>Loops that only read\<close>

lemma list_look_loop_ok:
  "dseg h p ps 0 \<Longrightarrow> length ps < n \<Longrightarrow> unat i + length ps < 2 ^ 32 \<Longrightarrow>
    list_look_loop n h index i (hd0 ps 0) =
      Inr (if i \<le> index \<and> unat (index - i) < length ps then dat h (ps ! unat (index - i)) else 0)"
proof (induction ps arbitrary: p n i)
  case (Cons a ps)
  then obtain m where n: "n = Suc m" by (cases n) auto
  obtain c where c: "hp_node h a = Some c" "nd_next c = hd0 ps 0" "a \<noteq> 0"
    using Cons.prems(1) by (auto split: option.splits)
  have i: "unat (i + 1) = unat i + 1" using Cons.prems(3) by (simp add: unat_plus_one_u32)
  have step: "unat (index - i) = Suc (unat (index - (i + 1)))" "i + 1 \<le> index" if "i \<noteq> index" "i \<le> index"
  proof -
    have "unat i < unat index" using that by (metis order_less_le word_less_nat_alt)
    with i show "i + 1 \<le> index" by (simp add: word_le_nat_alt)
    with that i \<open>unat i < unat index\<close> show "unat (index - i) = Suc (unat (index - (i + 1)))"
      by (simp add: unat_sub)
  qed
  have "\<not> i + 1 \<le> index" if "\<not> i \<le> index" using that i by (simp add: word_le_nat_alt)
  moreover have "list_look_loop m h index (i + 1) (hd0 ps 0) =
      Inr (if i + 1 \<le> index \<and> unat (index - (i + 1)) < length ps then dat h (ps ! unat (index - (i + 1))) else 0)"
    using Cons.prems n i by (intro Cons.IH [of a]) auto
  ultimately show ?case using c n step
    by (cases "i = index"; cases "i \<le> index") (simp_all add: rd_node dat_def)
next
  case Nil
  then show ?case by (cases n) simp_all
qed

lemma list_contains_loop_ok:
  "dseg h p ps 0 \<Longrightarrow> length ps < n \<Longrightarrow>
    list_contains_loop n h d (hd0 ps 0) = Inr (d \<in> set (map (dat h) ps))"
proof (induction ps arbitrary: p n)
  case (Cons a ps)
  then show ?case by (cases n) (auto simp: rd_node dat_def split: option.splits)
next
  case Nil
  then show ?case by (cases n) simp_all
qed

lemma list_find_loop_ok:
  "dseg h p ps 0 \<Longrightarrow> length ps < n \<Longrightarrow>
    list_find_loop n eq h (hd0 ps 0) = Inr (case find eq (map (dat h) ps) of None \<Rightarrow> 0 | Some d \<Rightarrow> d)"
proof (induction ps arbitrary: p n)
  case (Cons a ps)
  then show ?case by (cases n) (auto simp: rd_node dat_def split: option.splits)
next
  case Nil
  then show ?case by (cases n) simp_all
qed

lemma list_find_last_loop_ok:
  "dseg h p ps 0 \<Longrightarrow> length ps < n \<Longrightarrow>
    list_find_last_loop n eq h ret (hd0 ps 0) = Inr (last0 (filter (eq \<circ> dat h) ps) ret)"
proof (induction ps arbitrary: p n ret)
  case (Cons a ps)
  then show ?case by (cases n) (auto simp: rd_node dat_def split: option.splits)
next
  case Nil
  then show ?case by (cases n) simp_all
qed

lemma walk_ok:
  "dseg h p (xs @ a # ys) 0 \<Longrightarrow> length xs < n \<Longrightarrow> unat stop = unat i + length xs \<Longrightarrow>
    walk n h stop i (hd0 (xs @ a # ys) 0) = Inr a"
proof (induction xs arbitrary: p n i)
  case Nil
  then have "i = stop" by (simp add: word_unat_eq_iff)
  with Nil show ?case by (cases n) auto
next
  case (Cons b xs)
  have "unat i + 1 < 2 ^ 32" using Cons.prems(3) unat_u32_bound [of stop] by simp
  then have i: "unat (i + 1) = unat i + 1" by (rule unat_plus_one_u32)
  obtain m where n: "n = Suc m" "length xs < m" using Cons.prems(2) by (cases n) auto
  obtain c where c: "hp_node h b = Some c" "nd_next c = hd0 (xs @ a # ys) 0" "b \<noteq> 0"
    using Cons.prems(1) by (auto split: option.splits)
  have "walk m h stop (i + 1) (hd0 (xs @ a # ys) 0) = Inr a"
    using Cons.prems i n by (intro Cons.IH [of b]) auto
  with c n Cons.prems(3) show ?case by (auto simp: rd_node)
qed

lemma list_check_loop_ok:
  "dseg h p ps 0 \<Longrightarrow> length ps < n \<Longrightarrow> unat count + length ps \<le> unat (ll_max l) \<Longrightarrow>
    list_check_loop n h l p (hd0 ps 0) count = Inr (unat (ll_len l) = unat count + length ps)"
proof (induction ps arbitrary: p n count)
  case Nil
  then show ?case by (cases n) (auto simp: word_unat_eq_iff)
next
  case (Cons a ps)
  then obtain m where n: "n = Suc m" "length ps < m" by (cases n) auto
  obtain c where c: "hp_node h a = Some c" "nd_next c = hd0 ps 0" "nd_prev c = p" "a \<noteq> 0"
    using Cons.prems(1) by (auto split: option.splits)
  have "unat count + 1 < 2 ^ 32" using Cons.prems(3) unat_u32_bound [of "ll_max l"] by auto
  then have i: "unat (count + 1) = unat count + 1" by (rule unat_plus_one_u32)
  have "count \<le> ll_max l" using Cons.prems(3) by (simp add: word_le_nat_alt)
  with c n i Cons.prems Cons.IH [of a m "count + 1"] show ?case by (simp add: rd_node)
qed

lemma list_find_ok:
  "is_list h l ps \<Longrightarrow> list_find eq h l = Inr (case find eq (map (dat h) ps) of None \<Rightarrow> 0 | Some d \<Rightarrow> d)"
  by (metis is_listD(3,4) is_list_fuel list_find_def list_find_loop_ok)

lemma list_contains_ok: "is_list h l ps \<Longrightarrow> list_contains h l d = Inr (d \<in> set (map (dat h) ps))"
  unfolding list_contains_def
  by (metis is_listD(3,4) is_list_fuel is_list_empty list_contains_loop_ok empty_set empty_iff list.map(1))

lemma list_look_ok:
  "is_list h l ps \<Longrightarrow> list_look h l i = Inr (if unat i < length ps then map (dat h) ps ! unat i else 0)"
  using list_look_loop_ok [of h 0 ps "hp_brk h + 1" 0 i] is_list_fuel [of h l ps] unat_u32_bound [of "ll_len l"]
  by (simp add: list_look_def is_list_def)

lemma list_find_last_ok:
  assumes "is_list h l ps"
  shows "list_find_last eq h l =
    (if filter eq (map (dat h) ps) = [] then Inl MemFault else Inr (last (filter eq (map (dat h) ps))))"
proof -
  let ?m = "filter (eq \<circ> dat h) ps"
  have loop: "list_find_last_loop (hp_brk h + 1) eq h 0 (ll_front l) = Inr (last0 ?m 0)"
    using assms list_find_last_loop_ok is_list_fuel is_listD(3,4) by metis
  show ?thesis
  proof (cases "?m = []")
    case False
    then have "last ?m \<in> set ps" using last_in_set by fastforce
    then obtain n where "hp_node h (last ?m) = Some n" "last ?m \<noteq> 0"
      using dseg_nodes is_listD(3) [OF assms] by blast
    with False loop show ?thesis
      by (simp add: list_find_last_def last0_def rd_def dat_def filter_map last_map
            del: list_find_last_loop.simps)
  qed (use loop in \<open>simp add: list_find_last_def filter_map del: list_find_last_loop.simps\<close>)
qed


section \<open>Operations that take nodes out or put nodes in\<close>

lemma dseg_Cons:
  "dseg h p (a # ps) q \<longleftrightarrow> 0 < a
    \<and> (\<exists>d. hp_node h a = Some \<lparr>nd_next = hd0 ps q, nd_prev = p, nd_data = d\<rparr>) \<and> dseg h a ps q"
  using dseg_split [of h p "[]" a ps q] by simp

declare dseg.simps(2) [simp del] dseg_Cons [simp]

lemma node_at:
  assumes "dseg h p (xs @ a # ys) q"
  obtains d where "hp_node h a = Some \<lparr>nd_next = hd0 ys q, nd_prev = last0 xs p, nd_data = d\<rparr>" "0 < a"
  using assms unfolding dseg_split by auto

lemma len_minus_one: "unat (n :: u32) = Suc k \<Longrightarrow> unat (n - 1) = k"
  by (metis diff_Suc_1 nat.distinct(1) unat_0 unat_minus_one_u32)

lemma last0_in: "last0 ps p = a \<Longrightarrow> a \<notin> set ps \<Longrightarrow> ps = [] \<and> p = a"
  by (metis last0_def last_in_set)

lemma hd0_in: "hd0 ps q = a \<Longrightarrow> a \<notin> set ps \<Longrightarrow> ps = [] \<and> q = a"
  by (cases ps) auto

lemma unlink_ok:
  assumes l: "is_list h l (xs @ a # ys)"
  shows "\<exists>h' l'. unlink_node h l a = Inr (h', l') \<and> is_list h' l' (xs @ ys)
    \<and> (\<forall>b. b \<notin> set (xs @ ys) \<longrightarrow> hp_node h' b = hp_node h b) \<and> (\<forall>b. dat h' b = dat h b)
    \<and> hp_brk h' = hp_brk h \<and> ll_max l' = ll_max l"
proof -
  note w = is_listD [OF l]
  obtain d where a: "hp_node h a = Some \<lparr>nd_next = hd0 ys 0, nd_prev = last0 xs 0, nd_data = d\<rparr>" "0 < a"
    using w(3) by (rule node_at)
  have len: "unat (ll_len l - 1) = length (xs @ ys)" using w(6) by (intro len_minus_one) simp
  have fr: "ll_front l = a \<longleftrightarrow> xs = []" using w(2,4) hd0_in [of xs a a] by auto
  have en: "ll_end l = a \<longleftrightarrow> ys = []" using w(2,5) last0_in [of ys a a] by auto
  note below = is_list_below [OF l]
  note defs = unlink_node_def heap_ops is_list_def dat_def
  show ?thesis
  proof (cases xs rule: rev_cases)
    case xs: Nil
    show ?thesis
    proof (cases ys)
      case Nil
      with xs w a len fr en show ?thesis by (simp add: defs)
    next
      case (Cons y zs)
      obtain e where "hp_node h y = Some \<lparr>nd_next = hd0 zs 0, nd_prev = a, nd_data = e\<rparr>"
        using w(3) xs Cons by auto
      with xs Cons w a len fr en below [of y] show ?thesis by (simp add: defs)
    qed
  next
    case xs: (snoc us x)
    obtain f where x: "hp_node h x = Some \<lparr>nd_next = a, nd_prev = last0 us 0, nd_data = f\<rparr>"
      using w(3) xs by auto
    show ?thesis
    proof (cases ys)
      case Nil
      with xs x w a len fr en below [of x] show ?thesis by (simp add: defs)
    next
      case (Cons y zs)
      obtain e where "hp_node h y = Some \<lparr>nd_next = hd0 zs 0, nd_prev = a, nd_data = e\<rparr>"
        using w(3) xs Cons by auto
      with xs x Cons w a len fr en below [of x] below [of y] show ?thesis by (simp add: defs)
    qed
  qed
qed

lemma is_list_free:
  "is_list h l ps \<Longrightarrow> a \<notin> set ps \<Longrightarrow> is_list (h\<lparr>hp_node := (hp_node h)(a := None)\<rparr>) l ps"
  by (auto simp: is_list_def heap_ok_def)

lemma list_remove_front_ok:
  assumes l: "is_list h l (a # ps)"
  shows "\<exists>h' l'. list_remove_front h l = Inr (dat h a, h', l') \<and> is_list h' l' ps
    \<and> map (dat h') ps = map (dat h) ps \<and> keeps h h' (set (a # ps)) \<and> hp_brk h' = hp_brk h
    \<and> ll_max l' = ll_max l"
proof -
  note w = is_listD [OF l]
  obtain d where a: "hp_node h a = Some \<lparr>nd_next = hd0 ps 0, nd_prev = 0, nd_data = d\<rparr>" "0 < a"
    using w(3) by auto
  have ne: "\<not> list_is_empty l" using l by (simp add: is_list_empty)
  have en: "ll_end l = a \<longleftrightarrow> ps = []" using w(2,5) last0_in [of ps a a] by auto
  note below = is_list_below [OF l]
  have len: "unat (ll_len l - 1) = length ps" using w(6) by (intro len_minus_one) simp
  note defs = list_remove_front_def heap_ops is_list_def dat_def keeps_def
  show ?thesis
  proof (cases ps)
    case Nil
    with w a len ne en below [of a] show ?thesis by (simp add: defs)
  next
    case (Cons y zs)
    obtain e where "hp_node h y = Some \<lparr>nd_next = hd0 zs 0, nd_prev = a, nd_data = e\<rparr>"
      using w(3) Cons by auto
    with Cons w a len ne en below [of a] below [of y] show ?thesis by (simp add: defs)
  qed
qed

text \<open>The first node that carries a given pointer, and the two parts of the chain around it.\<close>

lemma split_data:
  assumes "d \<in> f ` set ps"
  obtains xs a ys where "ps = xs @ a # ys" "f a = d" "d \<notin> f ` set xs"
proof -
  from assms have "\<exists>x \<in> set ps. f x = d" by auto
  from split_list_first_prop [OF this]
  obtain xs a ys where "ps = xs @ a # ys" "f a = d" "\<forall>y \<in> set xs. f y \<noteq> d" by blast
  then show thesis by (intro that) auto
qed

lemma list_remove_loop_miss:
  "dseg h p (xs @ ys) 0 \<Longrightarrow> d \<notin> dat h ` set xs \<Longrightarrow> length xs < n \<Longrightarrow>
    list_remove_loop n h l d (hd0 (xs @ ys) 0) = list_remove_loop (n - length xs) h l d (hd0 ys 0)"
proof (induction xs arbitrary: p n)
  case (Cons a xs)
  then obtain m where n: "n = Suc m" "length xs < m" by (cases n) auto
  obtain c where c: "hp_node h a = Some c" "nd_next c = hd0 (xs @ ys) 0" "a \<noteq> 0"
    using Cons.prems(1) by (auto split: option.splits)
  have "list_remove_loop m h l d (hd0 (xs @ ys) 0) = list_remove_loop (m - length xs) h l d (hd0 ys 0)"
    using Cons.prems n by (intro Cons.IH [of a]) auto
  with c n Cons.prems(2) show ?case by (auto simp: rd_node dat_def)
qed simp

lemma list_remove_hit:
  assumes l: "is_list h l (xs @ a # ys)" and d: "dat h a = d" "d \<notin> dat h ` set xs"
  shows "\<exists>h' l'. list_remove h l d = Inr (h', l') \<and> is_list h' l' (xs @ ys)
    \<and> map (dat h') (xs @ ys) = map (dat h) (xs @ ys) \<and> keeps h h' (set (xs @ a # ys))
    \<and> hp_brk h' = hp_brk h \<and> hp_node h' a = None \<and> ll_max l' = ll_max l"
proof -
  note w = is_listD [OF l]
  obtain e where a: "hp_node h a = Some \<lparr>nd_next = hd0 ys 0, nd_prev = last0 xs 0, nd_data = e\<rparr>" "0 < a"
    using w(3) by (rule node_at)
  obtain h1 l1 where u: "unlink_node h l a = Inr (h1, l1)" "is_list h1 l1 (xs @ ys)"
      "\<forall>b. b \<notin> set (xs @ ys) \<longrightarrow> hp_node h1 b = hp_node h b" "\<forall>b. dat h1 b = dat h b"
      "hp_brk h1 = hp_brk h" "ll_max l1 = ll_max l"
    using unlink_ok [OF l] by auto
  define h2 where "h2 = h1\<lparr>hp_node := (hp_node h1)(a := None)\<rparr>"
  have na: "a \<notin> set (xs @ ys)" using w(2) by auto
  have fuel: "length xs < hp_brk h + 1" using is_list_fuel [OF l] by simp
  have "list_remove h l d = list_remove_loop (hp_brk h + 1) h l d (hd0 (xs @ a # ys) 0)"
    using l w(4) by (simp add: list_remove_def is_list_empty)
  also have "\<dots> = list_remove_loop (hp_brk h + 1 - length xs) h l d a"
    using list_remove_loop_miss [OF w(3) d(2) fuel] by simp
  also have "\<dots> = Inr (h2, l1)"
    using fuel a u(1,3) na d(1)
    by (cases "hp_brk h + 1 - length xs") (auto simp: rd_node free_node_def dat_def h2_def)
  finally show ?thesis using is_list_free [OF u(2) na] u na unfolding h2_def
    by (auto simp: keeps_def)
qed

lemma list_remove_miss:
  assumes l: "is_list h l ps" and d: "d \<notin> dat h ` set ps"
  shows "list_remove h l d = Inr (h, l)"
proof -
  have "list_remove_loop (hp_brk h + 1) h l d (hd0 ps 0) = Inr (h, l)"
    using list_remove_loop_miss [of h 0 ps "[]" d "hp_brk h + 1" l] is_listD(3) [OF l] is_list_fuel [OF l] d
    by (cases "hp_brk h + 1 - length ps") auto
  then show ?thesis using is_listD(4) [OF l] by (simp add: list_remove_def)
qed


lemma link_end_ok:
  assumes r: "is_list h r qs" and a: "hp_node h a = Some n" "0 < a" "a \<notin> set qs"
    and len: "length qs + 1 < 2 ^ 32"
  shows "\<exists>h' r'. link_end h r a = Inr (h', r') \<and> is_list h' r' (qs @ [a])
    \<and> (\<forall>b. b \<notin> set (qs @ [a]) \<longrightarrow> hp_node h' b = hp_node h b) \<and> (\<forall>b. dat h' b = dat h b)
    \<and> hp_brk h' = hp_brk h \<and> ll_max r' = ll_max r"
proof -
  note w = is_listD [OF r]
  have below: "a < hp_brk h" using a(1) w(1) by (auto simp: heap_ok_def)
  have len': "unat (ll_len r + 1) = length qs + 1" using len w(6) by (simp add: unat_plus_one_u32)
  note defs = link_end_def heap_ops is_list_def dat_def
  obtain nx pv d where n: "n = \<lparr>nd_next = nx, nd_prev = pv, nd_data = d\<rparr>" by (cases n)
  show ?thesis
  proof (cases qs rule: rev_cases)
    case Nil
    with r have "list_is_empty r" by (simp add: is_list_empty)
    with Nil w a below len' n show ?thesis by (simp add: defs)
  next
    case (snoc us e)
    obtain f where e: "hp_node h e = Some \<lparr>nd_next = 0, nd_prev = last0 us 0, nd_data = f\<rparr>"
      using w(3) snoc by auto
    have "\<not> list_is_empty r" using r snoc by (simp add: is_list_empty)
    with snoc w e a below len' n is_list_below [OF r, of e] show ?thesis by (simp add: defs)
  qed
qed

text \<open>Two disjoint lists in one heap: what changes one leaves the other.\<close>

lemma is_list_frame:
  "is_list h l ps \<Longrightarrow> heap_ok h' \<Longrightarrow> \<forall>a \<in> set ps. hp_node h' a = hp_node h a \<Longrightarrow> is_list h' l ps"
  by (auto simp: is_list_def intro: dseg_cong)

lemma list_remove_all_loop_ok:
  assumes "is_list h l (xs @ ys)" "is_list h r qs" "set (xs @ ys) \<inter> set qs = {}"
    "length (xs @ ys) + length qs < 2 ^ 32" "length ys < n"
  shows "\<exists>h' l' r'. list_remove_all_loop n eq h l r (hd0 ys 0) = Inr (h', l', r')
    \<and> is_list h' l' (xs @ filter (\<lambda>a. \<not> eq (dat h a)) ys) \<and> is_list h' r' (qs @ filter (\<lambda>a. eq (dat h a)) ys)
    \<and> (\<forall>b. b \<notin> set (xs @ ys @ qs) \<longrightarrow> hp_node h' b = hp_node h b) \<and> (\<forall>b. dat h' b = dat h b)
    \<and> hp_brk h' = hp_brk h \<and> ll_max l' = ll_max l \<and> ll_max r' = ll_max r"
  using assms
proof (induction ys arbitrary: xs qs h l r n)
  case Nil
  then show ?case by (cases n) auto
next
  case (Cons a ys)
  then obtain m where n: "n = Suc m" "length ys < m" by (cases n) auto
  obtain d where a: "hp_node h a = Some \<lparr>nd_next = hd0 ys 0, nd_prev = last0 xs 0, nd_data = d\<rparr>" "0 < a"
    using is_listD(3) [OF Cons.prems(1)] by (rule node_at)
  then have d: "dat h a = d" by (simp add: dat_def)
  show ?case
  proof (cases "eq d")
    case True
    obtain h1 l1 where u: "unlink_node h l a = Inr (h1, l1)" "is_list h1 l1 (xs @ ys)"
        "\<forall>b. b \<notin> set (xs @ ys) \<longrightarrow> hp_node h1 b = hp_node h b" "\<forall>b. dat h1 b = dat h b"
        "hp_brk h1 = hp_brk h" "ll_max l1 = ll_max l"
      using unlink_ok [OF Cons.prems(1)] by auto
    have na: "a \<notin> set (xs @ ys)" "a \<notin> set qs" using is_listD(2) [OF Cons.prems(1)] Cons.prems(3) by auto
    have r1: "is_list h1 r qs"
      using Cons.prems(2,3) u(3) is_listD(1) [OF u(2)] by (intro is_list_frame [of h r qs h1]) auto
    have "hp_node h1 a = hp_node h a" using u(3) na by blast
    with a obtain n1 where "hp_node h1 a = Some n1" by simp
    with r1 a(2) na(2) Cons.prems(4) obtain h2 r2 where e: "link_end h1 r a = Inr (h2, r2)"
        "is_list h2 r2 (qs @ [a])" "\<forall>b. b \<notin> set (qs @ [a]) \<longrightarrow> hp_node h2 b = hp_node h1 b"
        "\<forall>b. dat h2 b = dat h1 b" "hp_brk h2 = hp_brk h1" "ll_max r2 = ll_max r"
      using link_end_ok [of h1 r qs a n1] by auto
    have l2: "is_list h2 l1 (xs @ ys)"
      using u(2) e(3) is_listD(1) [OF e(2)] na Cons.prems(3)
      by (intro is_list_frame [of h1 l1 "xs @ ys" h2]) auto
    have step: "list_remove_all_loop n eq h l r (hd0 (a # ys) 0) = list_remove_all_loop m eq h2 l1 r2 (hd0 ys 0)"
      using a n u(1) e(1) True by (simp add: rd_node)
    have d2: "dat h2 b = dat h b" for b using e(4) u(4) by simp
    have dis: "set (xs @ ys) \<inter> set (qs @ [a]) = {}" "length (xs @ ys) + length (qs @ [a]) < 2 ^ 32"
      using Cons.prems(3,4) na by auto
    obtain h' l' r' where ih: "list_remove_all_loop m eq h2 l1 r2 (hd0 ys 0) = Inr (h', l', r')"
        "is_list h' l' (xs @ filter (\<lambda>a. \<not> eq (dat h a)) ys)"
        "is_list h' r' ((qs @ [a]) @ filter (\<lambda>a. eq (dat h a)) ys)"
        "\<forall>b. b \<notin> set (xs @ ys @ qs @ [a]) \<longrightarrow> hp_node h' b = hp_node h2 b" "\<forall>b. dat h' b = dat h2 b"
        "hp_brk h' = hp_brk h2" "ll_max l' = ll_max l1" "ll_max r' = ll_max r2"
      using Cons.IH [OF l2 e(2) dis n(2)] unfolding d2 by auto
    have "\<forall>b. b \<notin> set (xs @ (a # ys) @ qs) \<longrightarrow> hp_node h' b = hp_node h b"
      using ih(4) e(3) u(3) by simp
    with ih d d2 u(5,6) e(5,6) True show ?thesis unfolding step by simp
  next
    case False
    have step: "list_remove_all_loop n eq h l r (hd0 (a # ys) 0) = list_remove_all_loop m eq h l r (hd0 ys 0)"
      using a n False by (simp add: rd_node)
    have "is_list h l ((xs @ [a]) @ ys)" "set ((xs @ [a]) @ ys) \<inter> set qs = {}"
        "length ((xs @ [a]) @ ys) + length qs < 2 ^ 32"
      using Cons.prems by auto
    from Cons.IH [OF this(1) Cons.prems(2) this(2,3) n(2)] d False show ?thesis unfolding step by simp
  qed
qed


lemma keeps_dat: "keeps h h' S \<Longrightarrow> a \<notin> S \<Longrightarrow> a < hp_brk h \<Longrightarrow> dat h' a = dat h a"
  by (simp add: keeps_def dat_def)

lemma keeps_trans: "keeps h h1 S \<Longrightarrow> keeps h1 h2 T \<Longrightarrow> T \<subseteq> S \<union> {hp_brk h..} \<Longrightarrow> keeps h h2 S"
  unfolding keeps_def by (metis Un_iff atLeast_iff leD less_le_trans order_trans subsetD)

lemma collect_loop_ok:
  assumes "is_list h r qs" "dseg h p ys 0" "set ys \<inter> set qs = {}" "length qs + length ys < 2 ^ 32" "length ys < n"
  shows "\<exists>h' r' zs. collect_loop n eq clone h r (hd0 ys 0) = Inr (h', r') \<and> is_list h' r' (qs @ zs)
    \<and> map (dat h') (qs @ zs) = map (dat h) qs @ map clone (filter eq (map (dat h) ys))
    \<and> keeps h h' (set qs) \<and> set zs \<subseteq> {hp_brk h..} \<and> ll_max r' = ll_max r"
  using assms
proof (induction ys arbitrary: p qs h r n)
  case Nil
  then show ?case by (cases n) (auto simp: keeps_def)
next
  case (Cons a ys)
  then obtain m where n: "n = Suc m" "length ys < m" by (cases n) auto
  have ok: "heap_ok h" using Cons.prems(1) by (rule is_listD)
  obtain d where a: "hp_node h a = Some \<lparr>nd_next = hd0 ys 0, nd_prev = p, nd_data = d\<rparr>" "0 < a"
      and ys: "dseg h a ys 0"
    using Cons.prems(2) by auto
  then have d: "dat h a = d" by (simp add: dat_def)
  show ?case
  proof (cases "eq d")
    case True
    obtain h1 r1 where ap: "list_append h r (clone d) = Inr (h1, r1)" "is_list h1 r1 (qs @ [hp_brk h])"
        "map (dat h1) (qs @ [hp_brk h]) = map (dat h) qs @ [clone d]" "keeps h h1 (set qs)"
        "hp_brk h1 = hp_brk h + 1" "ll_max r1 = ll_max r"
      using list_append_ok [OF Cons.prems(1), of "clone d"] Cons.prems(4) by auto
    have out: "b \<notin> set qs \<and> b < hp_brk h" if "b \<in> set ys" for b
      using that dseg_below [OF ys ok] Cons.prems(3) by auto
    have "dseg h1 a ys 0" using ys ap(4) out by (auto simp: keeps_def intro: dseg_cong)
    moreover have "map (dat h1) ys = map (dat h) ys" using out keeps_dat [OF ap(4)] by simp
    moreover have "set ys \<inter> set (qs @ [hp_brk h]) = {}" using out by auto
    moreover have "length (qs @ [hp_brk h]) + length ys < 2 ^ 32" using Cons.prems(4) by simp
    ultimately obtain h' r' zs where ih: "collect_loop m eq clone h1 r1 (hd0 ys 0) = Inr (h', r')"
        "is_list h' r' ((qs @ [hp_brk h]) @ zs)"
        "map (dat h') ((qs @ [hp_brk h]) @ zs) = (map (dat h) qs @ [clone d]) @ map clone (filter eq (map (dat h) ys))"
        "keeps h1 h' (set (qs @ [hp_brk h]))" "set zs \<subseteq> {hp_brk h1..}" "ll_max r' = ll_max r1"
      using Cons.IH [OF ap(2) _ _ _ n(2)] ap(3) by metis
    have "keeps h h' (set qs)" using keeps_trans [OF ap(4) ih(4)] by simp
    moreover have "collect_loop n eq clone h r (hd0 (a # ys) 0) = Inr (h', r')"
      using a n ap(1) ih(1) True by (simp add: rd_node)
    moreover have "set (hp_brk h # zs) \<subseteq> {hp_brk h..}" using ih(5) ap(5) by auto
    ultimately show ?thesis using ih(2,3,6) ap(6) d True
      by (intro exI [of _ h'] exI [of _ r'] exI [of _ "hp_brk h # zs"]) simp
  next
    case False
    have "set ys \<inter> set qs = {}" "length qs + length ys < 2 ^ 32" using Cons.prems(3,4) by auto
    from Cons.IH [OF Cons.prems(1) ys this n(2)] show ?thesis using a n d False by (simp add: rd_node)
  qed
qed

lemma collect_ok:
  assumes l: "is_list h l ps"
  shows "\<exists>h' r' zs. collect_loop (hp_brk h + 1) eq clone h (list_create mx) (ll_front l) = Inr (h', r')
    \<and> is_list h' l ps \<and> map (dat h') ps = map (dat h) ps
    \<and> is_list h' r' zs \<and> map (dat h') zs = map clone (filter eq (map (dat h) ps))
    \<and> keeps h h' {} \<and> set ps \<inter> set zs = {} \<and> ll_max r' = mx"
proof -
  note w = is_listD [OF l]
  have "length ps < 2 ^ 32" using w(6) unat_u32_bound [of "ll_len l"] by simp
  with collect_loop_ok [OF list_create_ok [OF w(1)] w(3) _ _ is_list_fuel [OF l]] w(4)
  obtain h' r' zs where c: "collect_loop (hp_brk h + 1) eq clone h (list_create mx) (ll_front l) = Inr (h', r')"
      "is_list h' r' zs" "map (dat h') zs = map clone (filter eq (map (dat h) ps))" "keeps h h' {}"
      "set zs \<subseteq> {hp_brk h..}" "ll_max r' = mx"
    by (fastforce simp: list_create_def)
  have "is_list h' l ps" using is_list_keeps [OF l c(4) is_listD(1) [OF c(2)]] by simp
  moreover have "map (dat h') ps = map (dat h) ps" using keeps_dat [OF c(4)] is_list_below [OF l] by simp
  moreover have "set ps \<inter> set zs = {}" using c(5) is_list_below [OF l] by fastforce
  ultimately show ?thesis using c by blast
qed

lemma insert_after_ok:
  assumes l: "is_list h l (xs @ t # v # ys)" and len: "length (xs @ t # v # ys) + 1 < 2 ^ 32"
  shows "\<exists>h' l'. insert_after h l d t = Inr (h', l') \<and> is_list h' l' (xs @ t # hp_brk h # v # ys)
    \<and> map (dat h') (xs @ t # hp_brk h # v # ys) = map (dat h) (xs @ [t]) @ d # map (dat h) (v # ys)
    \<and> keeps h h' {t, v} \<and> hp_brk h' = hp_brk h + 1 \<and> ll_max l' = ll_max l"
proof -
  note w = is_listD [OF l]
  have fresh: "hp_brk h \<notin> set (xs @ t # v # ys)" using is_list_below [OF l] by blast
  have len': "unat (ll_len l + 1) = length (xs @ t # v # ys) + 1" using len w(6) by (simp add: unat_plus_one_u32)
  obtain e f where "hp_node h t = Some \<lparr>nd_next = v, nd_prev = last0 xs 0, nd_data = e\<rparr>"
      "hp_node h v = Some \<lparr>nd_next = hd0 ys 0, nd_prev = t, nd_data = f\<rparr>" "0 < t" "0 < v"
    using w(3) by auto
  with w fresh len' is_list_below [OF l, of t] is_list_below [OF l, of v] show ?thesis
    by (auto simp: insert_after_def heap_ops is_list_def dat_def keeps_def heap_ok_def less_Suc_eq)
qed

lemma insert_after_last: "hp_node h t = Some n \<Longrightarrow> nd_next n = 0 \<Longrightarrow> 0 < t \<Longrightarrow> insert_after h l d t = Inl MemFault"
  by (simp add: insert_after_def heap_ops)


section \<open>Sorted insertion\<close>

text \<open>
  What \<^verbatim>\<open>list_add\<close> means: behind every element the comparer puts before \<open>d\<close>, unless the next one
  collides.
\<close>

definition add_spec :: "(addr \<Rightarrow> addr \<Rightarrow> int) \<Rightarrow> addr \<Rightarrow> addr list \<Rightarrow> (addr list) option" where
  "add_spec cmp d ds =
    (let us = takeWhile (\<lambda>e. cmp d e = 1) ds; vs = dropWhile (\<lambda>e. cmp d e = 1) ds in
     if vs \<noteq> [] \<and> cmp d (hd vs) = 0 then None else Some (us @ d # vs))"

definition cmp_sorted :: "(addr \<Rightarrow> addr \<Rightarrow> int) \<Rightarrow> addr \<Rightarrow> addr list \<Rightarrow> bool" where
  "cmp_sorted cmp d ds \<longleftrightarrow> (\<forall>e \<in> set ds. cmp d e \<in> {-1, 0, 1}) \<and> sorted_wrt (\<ge>) (map (cmp d) ds)"

lemma list_add_loop_skip:
  "dseg h p (t # us @ vs) 0 \<Longrightarrow> \<forall>u \<in> set us. cmp d (dat h u) = 1 \<Longrightarrow> length us < n \<Longrightarrow>
    list_add_loop n cmp h l d t = list_add_loop (n - length us) cmp h l d (last0 us t)"
proof (induction us arbitrary: p t n)
  case (Cons a us)
  then obtain m where n: "n = Suc m" "length us < m" by (cases n) auto
  have "list_add_loop m cmp h l d a = list_add_loop (m - length us) cmp h l d (last0 us a)"
    using Cons.prems n by (intro Cons.IH [of t]) auto
  with Cons.prems n show ?case by (auto simp: rd_def dat_def)
qed simp

lemma cmp_sorted_span:
  assumes "cmp_sorted cmp d ds"
  obtains us vs where "ds = us @ vs" "\<forall>u \<in> set us. cmp d u = 1" "\<forall>v \<in> set vs. cmp d v \<noteq> 1"
    "add_spec cmp d ds = (if vs \<noteq> [] \<and> cmp d (hd vs) = 0 then None else Some (us @ d # vs))"
proof -
  let ?us = "takeWhile (\<lambda>e. cmp d e = 1) ds" and ?vs = "dropWhile (\<lambda>e. cmp d e = 1) ds"
  have vs: "cmp d v \<noteq> 1" if "v \<in> set ?vs" for v
  proof -
    have s: "sorted_wrt (\<ge>) (map (cmp d) ?us @ map (cmp d) ?vs)"
      using assms unfolding cmp_sorted_def by (metis map_append takeWhile_dropWhile_id)
    have "cmp d (hd ?vs) \<noteq> 1" using that hd_dropWhile [of "\<lambda>e. cmp d e = 1" ds] by fastforce
    moreover have "hd ?vs \<in> set ds"
      using that hd_in_set [of ?vs] set_dropWhileD [of "hd ?vs" "\<lambda>e. cmp d e = 1" ds] by fastforce
    ultimately have "cmp d (hd ?vs) < 1" using assms unfolding cmp_sorted_def by force
    moreover have "cmp d (hd ?vs) \<ge> cmp d v"
      using that s by (cases ?vs) (auto simp: sorted_wrt_append)
    ultimately show ?thesis by simp
  qed
  show thesis
  proof (rule that)
    show "ds = ?us @ ?vs" by simp
    show "\<forall>u \<in> set ?us. cmp d u = 1" by (metis set_takeWhileD)
    show "\<forall>v \<in> set ?vs. cmp d v \<noteq> 1" using vs by blast
    show "add_spec cmp d ds = (if ?vs \<noteq> [] \<and> cmp d (hd ?vs) = 0 then None else Some (?us @ d # ?vs))"
      by (simp only: add_spec_def Let_def)
  qed
qed

lemma list_prepend_added:
  "is_list h l ps \<Longrightarrow> length ps + 1 < 2 ^ 32 \<Longrightarrow>
    \<exists>h' l'. list_prepend h l d = Inr (h', l') \<and> added h l ps h' l' (d # map (dat h) ps)"
  using list_prepend_ok [of h l ps d] unfolding added_def keeps_def by (metis list.simps(15))

lemma list_append_added:
  "is_list h l ps \<Longrightarrow> length ps + 1 < 2 ^ 32 \<Longrightarrow>
    \<exists>h' l'. list_append h l d = Inr (h', l') \<and> added h l ps h' l' (map (dat h) ps @ [d])"
  using list_append_ok [of h l ps d] unfolding added_def keeps_def by (metis set_append Un_insert_right list.simps(15) empty_set sup_bot_right)

lemma insert_after_added:
  assumes "is_list h l (xs @ t # v # ys)" "length (xs @ t # v # ys) + 1 < 2 ^ 32"
  shows "\<exists>h' l'. insert_after h l d t = Inr (h', l')
    \<and> added h l (xs @ t # v # ys) h' l' (map (dat h) (xs @ [t]) @ d # map (dat h) (v # ys))"
proof -
  from insert_after_ok [OF assms, of d] obtain h' l' where
    "insert_after h l d t = Inr (h', l')" "is_list h' l' (xs @ t # hp_brk h # v # ys)"
    "map (dat h') (xs @ t # hp_brk h # v # ys) = map (dat h) (xs @ [t]) @ d # map (dat h) (v # ys)"
    "keeps h h' {t, v}" "hp_brk h' = hp_brk h + 1" "ll_max l' = ll_max l" by blast
  then show ?thesis unfolding added_def keeps_def
    by (intro exI [of _ h'] exI [of _ l'] conjI exI [of _ "xs @ t # hp_brk h # v # ys"]) auto
qed

lemma list_add_front:
  assumes l: "is_list h l ps" and len: "length ps + 1 < 2 ^ 32"
    and front: "ps = [] \<or> cmp d (dat h (hd ps)) = -1"
  shows "\<exists>h' l'. list_add cmp h l d = Inr (True, h', l') \<and> list_prepend h l d = Inr (h', l')"
proof (cases ps)
  case Nil
  with l have "list_is_empty l" "ll_front l = 0" by (simp_all add: is_list_empty is_listD)
  then show ?thesis by (simp add: list_add_def list_prepend_def heap_ops)
next
  case (Cons a us)
  obtain h' l' where pre: "list_prepend h l d = Inr (h', l')" using list_prepend_ok [OF l len] by blast
  have "\<not> list_is_empty l" using l Cons by (simp add: is_list_empty)
  moreover obtain n where "rd h a = Inr n" "nd_data n = dat h a" "ll_front l = a"
    using is_listD(3,4) [OF l] Cons by (auto simp: rd_def dat_def)
  ultimately show ?thesis using pre front Cons
    by (auto simp: list_add_def list_prepend_def Let_def andThen_eq_Inr split: prod.splits)
qed

lemma list_add_end:
  assumes l: "is_list h l ps" and len: "length ps + 1 < 2 ^ 32" and ne: "ps \<noteq> []"
    and front: "cmp d (dat h (hd ps)) = 1" and e: "cmp d (dat h (last ps)) = 1"
  shows "\<exists>h' l'. list_add cmp h l d = Inr (True, h', l') \<and> list_append h l d = Inr (h', l')"
proof -
  obtain h' l' where app: "list_append h l d = Inr (h', l')" using list_append_ok [OF l len] by blast
  have "\<not> list_is_empty l" using l ne by (simp add: is_list_empty)
  moreover obtain n where "rd h (hd ps) = Inr n" "nd_data n = dat h (hd ps)" "ll_front l = hd ps"
    using is_listD(3,4) [OF l] ne by (cases ps) (auto simp: rd_def dat_def)
  moreover obtain m where "rd h (last ps) = Inr m" "nd_data m = dat h (last ps)" "ll_end l = last ps"
    using is_listD(3,5) [OF l] ne by (cases ps rule: rev_cases) (auto simp: rd_def dat_def)
  ultimately show ?thesis using app front e
    by (auto simp: list_add_def list_append_def Let_def andThen_eq_Inr split: prod.splits)
qed

lemma list_add_reject:
  assumes l: "is_list h l ps" and ne: "ps \<noteq> []"
    and rej: "cmp d (dat h (hd ps)) = 0 \<or> cmp d (dat h (hd ps)) = 1 \<and> cmp d (dat h (last ps)) = 0"
  shows "list_add cmp h l d = Inr (False, h, l)"
proof -
  have "\<not> list_is_empty l" using l ne by (simp add: is_list_empty)
  moreover obtain n where "rd h (hd ps) = Inr n" "nd_data n = dat h (hd ps)" "ll_front l = hd ps"
    using is_listD(3,4) [OF l] ne by (cases ps) (auto simp: rd_def dat_def)
  moreover obtain m where "rd h (last ps) = Inr m" "nd_data m = dat h (last ps)" "ll_end l = last ps"
    using is_listD(3,5) [OF l] ne by (cases ps rule: rev_cases) (auto simp: rd_def dat_def)
  ultimately show ?thesis using rej by (auto simp: list_add_def Let_def)
qed

lemma list_add_middle:
  assumes l: "is_list h l (xs @ t # v # ys)"
    and before: "\<forall>u \<in> set (xs @ [t]). cmp d (dat h u) = 1"
    and v: "cmp d (dat h v) \<noteq> 1" and e: "cmp d (dat h (last (v # ys))) = -1"
  shows "list_add cmp h l d =
    (if cmp d (dat h v) = -1 then andThen (insert_after h l d t) (\<lambda>(h1, l1). Inr (True, h1, l1))
     else if cmp d (dat h v) = 0 then Inr (False, h, l)
     else list_add_loop (hp_brk h - length xs) cmp h l d v)"
proof -
  note w = is_listD [OF l]
  let ?f = "hd (xs @ [t])" and ?e = "last (v # ys)"
  have "\<not> list_is_empty l" using l by (simp add: is_list_empty)
  moreover obtain n where n: "rd h ?f = Inr n" "nd_data n = dat h ?f" "ll_front l = ?f"
    using w(3,4) by (cases xs) (auto simp: rd_def dat_def)
  moreover have "cmp d (dat h ?f) = 1" using before by (cases xs) auto
  moreover obtain m where m: "rd h ?e = Inr m" "nd_data m = dat h ?e" "ll_end l = ?e"
    using w(3,5) by (cases ys rule: rev_cases) (auto simp: rd_def dat_def)
  ultimately have start: "list_add cmp h l d = list_add_loop (hp_brk h + 1) cmp h l d ?f"
    using e by (simp add: list_add_def Let_def)
  have fuel: "length xs < hp_brk h + 1" using is_list_fuel [OF l] by simp
  have "list_add_loop (hp_brk h + 1) cmp h l d ?f = list_add_loop (Suc (hp_brk h - length xs)) cmp h l d t"
  proof (cases xs)
    case (Cons a us)
    have "hp_brk h + 1 - length (us @ [t]) = Suc (hp_brk h - length xs)" using Cons is_list_fuel [OF l] by simp
    with Cons list_add_loop_skip [of h 0 a "us @ [t]" "v # ys" cmp d "hp_brk h + 1" l] w(3) before is_list_fuel [OF l]
    show ?thesis by (simp del: list_add_loop.simps)
  qed (simp del: list_add_loop.simps)
  with start show ?thesis using w(3) by (auto simp: rd_def dat_def Let_def)
qed

lemma list_add_ok:
  assumes l: "is_list h l ps" and len: "length ps + 1 < 2 ^ 32" and c: "cmp_sorted cmp d (map (dat h) ps)"
  shows "case add_spec cmp d (map (dat h) ps) of
      None \<Rightarrow> list_add cmp h l d = Inr (False, h, l)
    | Some ds \<Rightarrow> \<exists>h' l'. list_add cmp h l d = Inr (True, h', l') \<and> added h l ps h' l' ds"
proof -
  obtain us vs where sp: "map (dat h) ps = us @ vs" "\<forall>u \<in> set us. cmp d u = 1" "\<forall>v \<in> set vs. cmp d v \<noteq> 1"
      "add_spec cmp d (map (dat h) ps) = (if vs \<noteq> [] \<and> cmp d (hd vs) = 0 then None else Some (us @ d # vs))"
    using cmp_sorted_span [OF c] .
  obtain xs ys where ps: "ps = xs @ ys" "map (dat h) xs = us" "map (dat h) ys = vs"
    using sp(1) by (metis map_eq_append_conv)
  have rng: "\<forall>v \<in> set ys. cmp d (dat h v) \<in> {-1, 0}"
    using c sp(3) ps by (auto simp: cmp_sorted_def)
  have front: "\<forall>u \<in> set xs. cmp d (dat h u) = 1" using sp(2) ps by auto
  note ops = list_prepend_added [OF l len, of d] list_append_added [OF l len, of d]
  show ?thesis
  proof (cases ys)
    case Nil
    show ?thesis
    proof (cases "ps = []")
      case True
      with list_add_front [OF l len, of cmp d] ops(1) sp(4) ps show ?thesis by auto
    next
      case False
      then have "cmp d (dat h (hd ps)) = 1" "cmp d (dat h (last ps)) = 1" using front ps Nil by auto
      with list_add_end [OF l len False, of cmp d] ops(2) sp(4) ps Nil False show ?thesis by auto
    qed
  next
    case (Cons v zs)
    have le: "cmp d (dat h (last ys)) \<le> cmp d (dat h v)"
      using c sp(1) ps Cons by (auto simp: cmp_sorted_def sorted_wrt_append)
    have rv: "cmp d (dat h v) = -1 \<or> cmp d (dat h v) = 0" using rng Cons by auto
    have rl: "cmp d (dat h (last ys)) = -1 \<or> cmp d (dat h (last ys)) = 0" using rng Cons last_in_set [of ys] by blast
    show ?thesis
    proof (cases xs rule: rev_cases)
      case Nil
      then have "us = []" "hd ps = v" "ps \<noteq> []" using ps Cons by auto
      with rv list_add_front [OF l len, of cmp d] ops(1) list_add_reject [OF l, of cmp d] sp(4) ps Cons
      show ?thesis by auto
    next
      case (snoc ws t)
      have f1: "cmp d (dat h (hd ps)) = 1" using front ps snoc by (cases ws) auto
      have ps': "ps = ws @ t # v # zs" using ps snoc Cons by simp
      show ?thesis
      proof (cases "cmp d (dat h (last ys)) = 0")
        case True
        then have "cmp d (dat h v) = 0" using rv le by auto
        with True f1 list_add_reject [OF l, of cmp d] sp(4) ps Cons show ?thesis by auto
      next
        case False
        have add: "list_add cmp h l d =
            (if cmp d (dat h v) = -1 then andThen (insert_after h l d t) (\<lambda>(h1, l1). Inr (True, h1, l1))
             else Inr (False, h, l))"
          using list_add_middle [of h l ws t v zs cmp d] l ps' front snoc rv rl False Cons by auto
        have us: "us = map (dat h) (ws @ [t])" "vs = map (dat h) (v # zs)" using ps snoc Cons by auto
        have sp4: "add_spec cmp d (map (dat h) ps) = (if cmp d (dat h v) = 0 then None
            else Some (map (dat h) (ws @ [t]) @ d # map (dat h) (v # zs)))"
          using sp(4) us by simp
        from add rv insert_after_added [OF l [unfolded ps'] len [unfolded ps'], of d, folded ps']
        show ?thesis unfolding sp4 by auto
      qed
    qed
  qed
qed

end
