(* ===== verification/List_Transfer.thy ===== *)
theory List_Transfer
  imports List_Refine
begin

text \<open>
  The operations of the list library that move whole chains (\<^verbatim>\<open>list_join\<close>, \<^verbatim>\<open>list_split\<close>), walk a list
  with a callback (\<^verbatim>\<open>list_for_each\<close>) or release it (\<^verbatim>\<open>list_free\<close>, \<^verbatim>\<open>list_free_all\<close>), and what goes
  wrong outside their intended use.
\<close>

section \<open>Callbacks used by the walks\<close>

text \<open>The callback of \<^verbatim>\<open>list_for_each\<close> that records what it sees and removes the matching elements.\<close>

definition visit_remove ::
  "(addr \<Rightarrow> bool) \<Rightarrow> addr \<Rightarrow> heap \<times> linked_list \<times> addr list \<Rightarrow> (heap \<times> linked_list \<times> addr list) res" where
  "visit_remove eq d = (\<lambda>(h, l, seen).
    if eq d then andThen (list_remove h l d) (\<lambda>(h1, l1). Inr (h1, l1, seen @ [d]))
    else Inr (h, l, seen @ [d]))"

section \<open>Joining and splitting\<close>

lemma list_join_all_ok:
  assumes l1: "is_list h l1 ps" and l2: "is_list h l2 qs" and dis: "set ps \<inter> set qs = {}"
    and fits: "length ps + length qs \<le> unat (ll_max l1)"
  shows "\<exists>h' l1' l2'. list_join h l1 l2 = Inr (True, h', l1', l2') \<and> is_list h' l1' (ps @ qs)
    \<and> is_list h' l2' [] \<and> (\<forall>b. dat h' b = dat h b) \<and> ll_max l1' = ll_max l1 \<and> ll_max l2' = ll_max l2"
proof (cases "qs = []")
  case True
  with l1 l2 show ?thesis by (auto simp: list_join_def is_list_empty)
next
  case ne: False
  note w1 = is_listD [OF l1] and w2 = is_listD [OF l2]
  have "unat (list_space l1) = unat (ll_max l1) - length ps"
    using fits w1(6) by (simp add: list_space_def unat_sub word_le_nat_alt)
  then have sp: "ll_len l2 \<le> list_space l1" using fits w2(6) by (simp add: word_le_nat_alt)
  have len: "unat (ll_len l1 + ll_len l2) = length ps + length qs"
    using fits w1(6) w2(6) unat_u32_bound [of "ll_max l1"] by (simp add: unat_word_ariths)
  have e2: "\<not> list_is_empty l2" using l2 ne by (simp add: is_list_empty)
  note defs = list_join_def heap_ops is_list_def dat_def
  show ?thesis
  proof (cases ps rule: rev_cases)
    case Nil
    with l1 have "list_is_empty l1" by (simp add: is_list_empty)
    with Nil sp len e2 w1 w2 show ?thesis by (simp add: defs)
  next
    case (snoc us e)
    obtain q vs where q: "qs = q # vs" using ne by (cases qs) auto
    obtain f where e: "hp_node h e = Some \<lparr>nd_next = 0, nd_prev = last0 us 0, nd_data = f\<rparr>" "0 < e"
      using w1(3) snoc by auto
    obtain g where "hp_node h q = Some \<lparr>nd_next = hd0 vs 0, nd_prev = 0, nd_data = g\<rparr>" "0 < q"
      using w2(3) q by auto
    moreover have "\<not> list_is_empty l1" using l1 snoc by (simp add: is_list_empty)
    ultimately show ?thesis
      using snoc q e sp len e2 w1 w2 dis is_list_below [OF l1, of e] is_list_below [OF l2, of q]
      by (simp add: defs Int_commute)
  qed
qed

lemma list_join_none_ok:
  assumes l1: "is_list h l1 ps" and l2: "is_list h l2 qs" and full: "list_is_full l1" and "qs \<noteq> []"
  shows "list_join h l1 l2 = Inr (False, h, l1, l2)"
proof -
  have "\<not> list_is_empty l2" "list_space l1 = 0"
    using assms by (simp_all add: is_list_empty list_space_def list_is_full_def)
  then show ?thesis by (simp add: list_join_def list_is_empty_def word_le_nat_alt unat_eq_0)
qed

text \<open>Only part of the second list fits: the chain moves, the length of the first list does not.\<close>

lemma list_join_part_ok:
  assumes l1: "is_list h l1 ps" and l2: "is_list h l2 (qs @ c # rs)" and dis: "set ps \<inter> set (qs @ c # rs) = {}"
    and part: "qs \<noteq> []" "length ps + length qs = unat (ll_max l1)"
  shows "\<exists>h' l1' l2'. list_join h l1 l2 = Inr (False, h', l1', l2') \<and> dseg h' 0 (ps @ qs) 0
    \<and> ll_front l1' = hd0 (ps @ qs) 0 \<and> ll_end l1' = last0 (ps @ qs) 0 \<and> ll_len l1' = ll_len l1
    \<and> is_list h' l2' (c # rs) \<and> (\<forall>b. dat h' b = dat h b) \<and> ll_max l1' = ll_max l1"
proof -
  note w1 = is_listD [OF l1] and w2 = is_listD [OF l2]
  let ?sp = "list_space l1"
  have sp: "unat ?sp = length qs"
    using part w1(6) by (simp add: list_space_def unat_sub word_le_nat_alt)
  then have gt: "\<not> ll_len l2 \<le> ?sp" "?sp > 0" "ll_len l2 \<ge> ?sp" 
    using w2(6) part(1) by (simp_all add: word_le_nat_alt word_less_nat_alt)
  have len: "unat (ll_len l2 - ?sp) = length (c # rs)" using gt(3) sp w2(6) by (simp add: unat_sub)
  have e2: "\<not> list_is_empty l2" using l2 by (simp add: is_list_empty)
  have walk: "walk (hp_brk h + 1) h ?sp 0 (ll_front l2) = Inr c"
    using walk_ok [OF w2(3), of "hp_brk h + 1" ?sp 0] is_list_fuel [OF l2] sp w2(4) by simp
  obtain f where c: "hp_node h c = Some \<lparr>nd_next = hd0 rs 0, nd_prev = last0 qs 0, nd_data = f\<rparr>" "0 < c"
    using w2(3) by auto
  obtain us m where qs: "qs = us @ [m]" using part(1) by (cases qs rule: rev_cases) auto
  obtain g where m: "hp_node h m = Some \<lparr>nd_next = c, nd_prev = last0 us 0, nd_data = g\<rparr>" "0 < m"
    using w2(3) qs by auto
  note below = is_list_below [OF l2, of c] is_list_below [OF l2, of m]
  note defs = list_join_def heap_ops is_list_def dat_def
  show ?thesis
  proof (cases ps rule: rev_cases)
    case Nil
    with l1 have "list_is_empty l1" by (simp add: is_list_empty)
    with Nil walk gt len e2 w1 w2 c qs m below show ?thesis by (simp add: defs del: walk.simps)
  next
    case (snoc vs e)
    have ne: "\<not> list_is_empty l1" using l1 snoc by (simp add: is_list_empty)
    obtain k where e: "hp_node h e = Some \<lparr>nd_next = 0, nd_prev = last0 vs 0, nd_data = k\<rparr>" "0 < e"
      using w1(3) snoc by auto
    show ?thesis
    proof (cases us)
      case Nil
      with snoc walk gt len e2 w1 w2 c qs m below e ne dis is_list_below [OF l1, of e]
      show ?thesis by (simp add: defs Int_commute del: walk.simps)
    next
      case (Cons q ws)
      obtain j where "hp_node h q = Some \<lparr>nd_next = hd0 ws m, nd_prev = 0, nd_data = j\<rparr>" "0 < q"
        using w2(3) qs Cons by auto
      with Cons snoc walk gt len e2 w1 w2 c qs m below e ne dis is_list_below [OF l1, of e] is_list_below [OF l2, of q]
      show ?thesis by (simp add: defs Int_commute del: walk.simps)
    qed
  qed
qed

lemma list_split_ok:
  assumes l: "is_list h l (xs @ a # b # ys)" and i: "unat index = length xs"
  shows "\<exists>h' l' r'. list_split h l index = Inr (h', l', r') \<and> is_list h' l' (xs @ [a]) \<and> is_list h' r' (b # ys)
    \<and> (\<forall>p. dat h' p = dat h p) \<and> ll_max l' = ll_max l \<and> ll_max r' = ll_max l"
proof -
  note w = is_listD [OF l]
  have i1: "unat (index + 1) = length xs + 1"
    using i w(6) unat_u32_bound [of "ll_len l"] unat_plus_one_u32 [of index] by simp
  then have lt: "index + 1 < ll_len l" using w(6) by (simp add: word_less_nat_alt)
  have len: "unat (ll_len l - (index + 1)) = length (b # ys)"
    using lt i1 w(6) by (simp add: unat_sub word_less_nat_alt word_le_nat_alt)
  have walk: "walk (hp_brk h + 1) h index 0 (ll_front l) = Inr a"
    using walk_ok [OF w(3), of "hp_brk h + 1" index 0] is_list_fuel [OF l] i w(4) by simp
  obtain d where a: "hp_node h a = Some \<lparr>nd_next = b, nd_prev = last0 xs 0, nd_data = d\<rparr>" "0 < a"
    using w(3) by auto
  obtain e where b: "hp_node h b = Some \<lparr>nd_next = hd0 ys 0, nd_prev = a, nd_data = e\<rparr>" "0 < b"
    using w(3) by auto
  show ?thesis using walk lt len i1 a b w is_list_below [OF l, of a] is_list_below [OF l, of b]
    by (simp add: list_split_def heap_ops is_list_def dat_def list_create_def del: walk.simps)
qed

lemma list_split_short:
  "is_list h l ps \<Longrightarrow> length ps \<le> unat index + 1 \<Longrightarrow> unat index + 1 < 2 ^ 32 \<Longrightarrow>
    list_split h l index = Inr (h, l, list_create (ll_max l))"
  by (auto simp: list_split_def word_less_nat_alt unat_plus_one_u32 is_list_def)


lemma walk_past:
  "dseg h p ps 0 \<Longrightarrow> length ps < n \<Longrightarrow> unat i + length ps \<le> unat stop \<Longrightarrow> walk n h stop i (hd0 ps 0) = Inr 0"
proof (induction ps arbitrary: p n i)
  case Nil
  then show ?case by (cases n) simp_all
next
  case (Cons a ps)
  then obtain m where n: "n = Suc m" "length ps < m" by (cases n) auto
  have i: "unat (i + 1) = unat i + 1"
    using Cons.prems(3) unat_u32_bound [of stop] by (intro unat_plus_one_u32) simp
  have "walk m h stop (i + 1) (hd0 ps 0) = Inr 0"
    using Cons.prems n i by (intro Cons.IH [of a]) auto
  moreover have "i \<noteq> stop" using Cons.prems(3) by auto
  ultimately show ?case using Cons.prems(1) n by (auto simp: rd_node)
qed

section \<open>Releasing\<close>

lemma list_free_loop_ok:
  "dseg h p ps 0 \<Longrightarrow> distinct ps \<Longrightarrow> length ps < n \<Longrightarrow>
    \<exists>h'. list_free_loop n h rel (hd0 ps 0) = Inr (h', rel @ filter (\<lambda>d. d \<noteq> 0) (map (dat h) ps))
      \<and> (\<forall>b. hp_node h' b = (if b \<in> set ps then None else hp_node h b)) \<and> hp_brk h' = hp_brk h"
proof (induction ps arbitrary: h p n rel)
  case Nil
  then show ?case by (cases n) auto
next
  case (Cons a ps)
  then obtain m where n: "n = Suc m" "length ps < m" by (cases n) auto
  obtain d where a: "hp_node h a = Some \<lparr>nd_next = hd0 ps 0, nd_prev = p, nd_data = d\<rparr>" "0 < a" "dseg h a ps 0"
    using Cons.prems(1) by auto
  then have d: "dat h a = d" by (simp add: dat_def)
  let ?h = "h\<lparr>hp_node := (hp_node h)(a := None)\<rparr>"
  have "dseg ?h a ps 0" "distinct ps" using a(3) Cons.prems(2) by auto
  from Cons.IH [OF this n(2)] obtain h' where
    "list_free_loop m ?h (if d \<noteq> 0 then rel @ [d] else rel) (hd0 ps 0) =
      Inr (h', (if d \<noteq> 0 then rel @ [d] else rel) @ filter (\<lambda>d. d \<noteq> 0) (map (dat ?h) ps))"
    "\<forall>b. hp_node h' b = (if b \<in> set ps then None else hp_node ?h b)" "hp_brk h' = hp_brk ?h"
    by blast
  moreover have "map (dat ?h) ps = map (dat h) ps" using Cons.prems(2) by auto
  ultimately show ?case using a n d by (auto simp: rd_node free_node_def)
qed

lemma list_free_all_loop_ok:
  "dseg h p ps 0 \<Longrightarrow> distinct ps \<Longrightarrow> length ps < n \<Longrightarrow>
    \<exists>h'. list_free_all_loop n eq h rel (hd0 ps 0) = Inr (h', rel @ filter eq (map (dat h) ps))
      \<and> (\<forall>b. hp_node h' b = (if b \<in> set ps \<and> eq (dat h b) then None else hp_node h b)) \<and> hp_brk h' = hp_brk h"
proof (induction ps arbitrary: h p n rel)
  case Nil
  then show ?case by (cases n) auto
next
  case (Cons a ps)
  then obtain m where n: "n = Suc m" "length ps < m" by (cases n) auto
  obtain d where a: "hp_node h a = Some \<lparr>nd_next = hd0 ps 0, nd_prev = p, nd_data = d\<rparr>" "0 < a" "dseg h a ps 0"
    using Cons.prems(1) by auto
  then have d: "dat h a = d" by (simp add: dat_def)
  have dis: "distinct ps" "a \<notin> set ps" using Cons.prems(2) by auto
  show ?case
  proof (cases "eq d")
    case True
    let ?h = "h\<lparr>hp_node := (hp_node h)(a := None)\<rparr>"
    have same: "map (dat ?h) ps = map (dat h) ps" "\<forall>b \<in> set ps. dat ?h b = dat h b" using dis(2) by auto
    have "dseg ?h a ps 0" using a(3) dis by auto
    from Cons.IH [OF this dis(1) n(2), of "rel @ [d]"] obtain h' where
      "list_free_all_loop m eq ?h (rel @ [d]) (hd0 ps 0) = Inr (h', (rel @ [d]) @ filter eq (map (dat h) ps))"
      "\<forall>b. hp_node h' b = (if b \<in> set ps \<and> eq (dat ?h b) then None else hp_node ?h b)" "hp_brk h' = hp_brk ?h"
      unfolding same(1) by blast
    then show ?thesis using a n d True same dis by (auto simp: rd_node free_node_def)
  next
    case False
    with Cons.IH [OF a(3) dis(1) n(2), of rel] a n d show ?thesis by (auto simp: rd_node)
  qed
qed

lemma find_faults:
  "dseg h p ps 0 \<Longrightarrow> \<exists>b \<in> set ps. gone b \<Longrightarrow> \<forall>b \<in> set ps. hp_node h' b = (if gone b then None else hp_node h b) \<Longrightarrow>
    length ps < n \<Longrightarrow> list_find_loop n (\<lambda>_. False) h' (hd0 ps 0) = Inl MemFault"
proof (induction ps arbitrary: p n)
  case (Cons a ps)
  then obtain m where n: "n = Suc m" "length ps < m" by (cases n) auto
  show ?case
  proof (cases "gone a")
    case True
    then show ?thesis using Cons.prems n by (simp add: rd_def)
  next
    case False
    then have "list_find_loop m (\<lambda>_. False) h' (hd0 ps 0) = Inl MemFault"
      using Cons.prems n by (intro Cons.IH [of a]) auto
    then show ?thesis using False Cons.prems n by (auto simp: rd_def)
  qed
qed simp

section \<open>Walking with a callback that removes\<close>

lemma visit_remove_loop:
  assumes "is_list h l (xs @ ys)" "distinct (map (dat h) (xs @ ys))" "length ys < n"
  shows "\<exists>h' l'. list_for_each_loop n (visit_remove eq) (h, l, seen) (hd0 ys 0) =
      Inr (h', l', seen @ map (dat h) ys)
    \<and> is_list h' l' (xs @ filter (\<lambda>a. \<not> eq (dat h a)) ys)
    \<and> map (dat h') (xs @ filter (\<lambda>a. \<not> eq (dat h a)) ys) = map (dat h) xs @ filter (\<lambda>d. \<not> eq d) (map (dat h) ys)
    \<and> ll_max l' = ll_max l"
  using assms
proof (induction ys arbitrary: xs h l n seen)
  case Nil
  then show ?case by (cases n) auto
next
  case (Cons a ys)
  then obtain m where n: "n = Suc m" "length ys < m" by (cases n) auto
  obtain d where a: "hp_node h a = Some \<lparr>nd_next = hd0 ys 0, nd_prev = last0 xs 0, nd_data = d\<rparr>" "0 < a"
    using is_listD(3) [OF Cons.prems(1)] by (rule node_at)
  then have d: "dat h a = d" by (simp add: dat_def)
  show ?case
  proof (cases "eq d")
    case True
    have "d \<notin> dat h ` set xs" using Cons.prems(2) d by auto
    then obtain h1 l1 where r: "list_remove h l d = Inr (h1, l1)" "is_list h1 l1 (xs @ ys)"
        "map (dat h1) (xs @ ys) = map (dat h) (xs @ ys)" "ll_max l1 = ll_max l"
      using list_remove_hit [OF Cons.prems(1) d] by blast
    have same: "map (dat h1) xs = map (dat h) xs" "map (dat h1) ys = map (dat h) ys" "\<forall>b \<in> set ys. dat h1 b = dat h b"
      using r(3) by auto
    have flt: "filter (\<lambda>a. \<not> eq (dat h1 a)) ys = filter (\<lambda>a. \<not> eq (dat h a)) ys"
      using same(3) by (auto intro: filter_cong)
    have "distinct (map (dat h1) (xs @ ys))" unfolding r(3) using Cons.prems(2) by simp
    from Cons.IH [OF r(2) this n(2), of "seen @ [d]"] show ?thesis
      unfolding same(1,2) flt using a n d r(1,4) True by (auto simp: rd_node visit_remove_def)
  next
    case False
    have "is_list h l ((xs @ [a]) @ ys)" "distinct (map (dat h) ((xs @ [a]) @ ys))" using Cons.prems by auto
    from Cons.IH [OF this n(2), of "seen @ [d]"] show ?thesis
      using a n d False by (auto simp: rd_node visit_remove_def)
  qed
qed

end
