(* ===== verification/List_Interface.thy ===== *)
theory List_Interface
  imports FINS_Prelude
begin

text \<open>
  The interface the protocol modules use of the list library: a list with a capacity, appended to at
  the end and drained from the front. \<open>R s xs\<close> says that the concrete state \<open>s\<close> holds the
  elements \<open>xs\<close>. The client operation below is the one of \<^verbatim>\<open>udp_out_fdf\<close>
  (\<^verbatim>\<open>modules/udp/udp_out.c\<close>): append, and when there is no space drop the front first.
\<close>

definition bounded_push ::
  "('s \<Rightarrow> bool) \<Rightarrow> ('s \<Rightarrow> 'a \<Rightarrow> 's res) \<Rightarrow> ('s \<Rightarrow> ('a \<times> 's) res) \<Rightarrow> 's \<Rightarrow> 'a \<Rightarrow> 's res" where
  "bounded_push has_space app remove_front s x =
    (if has_space s then app s x else andThen (remove_front s) (\<lambda>(old, s1). app s1 x))"

primrec bounded_pushes ::
  "('s \<Rightarrow> bool) \<Rightarrow> ('s \<Rightarrow> 'a \<Rightarrow> 's res) \<Rightarrow> ('s \<Rightarrow> ('a \<times> 's) res) \<Rightarrow> 's \<Rightarrow> 'a list \<Rightarrow> 's res" where
  "bounded_pushes has_space app remove_front s [] = Inr s"
| "bounded_pushes has_space app remove_front s (x # xs) =
    andThen (bounded_push has_space app remove_front s x) (\<lambda>s1. bounded_pushes has_space app remove_front s1 xs)"

text \<open>The elements a list of capacity \<open>c\<close> has kept: the newest ones.\<close>

definition newest :: "nat \<Rightarrow> 'a list \<Rightarrow> 'a list" where
  "newest c xs = drop (length xs - c) xs"

lemma newest_id: "length xs \<le> c \<Longrightarrow> newest c xs = xs"
  by (simp add: newest_def)

lemma newest_length [simp]: "length (newest c xs) = min c (length xs)"
  by (simp add: newest_def min_def)

lemma newest_push: "newest c (newest c xs @ ys) = newest c (xs @ ys)"
proof -
  let ?k = "length xs - c" and ?zs = "xs @ ys"
  have "newest c xs @ ys = drop ?k ?zs" by (simp add: newest_def)
  moreover have "length ?zs - ?k - c + ?k = length ?zs - c" by simp
  ultimately show ?thesis by (simp add: newest_def [of c ?zs] newest_def [of c "drop ?k ?zs"] add.commute del: drop_append length_append)
qed

locale bounded_list =
  fixes R :: "'s \<Rightarrow> 'a list \<Rightarrow> bool"
    and cap :: "'s \<Rightarrow> nat"
    and has_space :: "'s \<Rightarrow> bool"
    and app :: "'s \<Rightarrow> 'a \<Rightarrow> 's res"
    and remove_front :: "'s \<Rightarrow> ('a \<times> 's) res"
  assumes has_space_law: "R s xs \<Longrightarrow> has_space s \<longleftrightarrow> length xs < cap s"
    and append_law: "R s xs \<Longrightarrow> length xs < cap s \<Longrightarrow> \<exists>s'. app s x = Inr s' \<and> R s' (xs @ [x]) \<and> cap s' = cap s"
    and remove_front_law: "R s (x # xs) \<Longrightarrow> \<exists>s'. remove_front s = Inr (x, s') \<and> R s' xs \<and> cap s' = cap s"
begin

lemma push:
  assumes R: "R s xs" and le: "length xs \<le> cap s" and c: "0 < cap s"
  shows "\<exists>s'. bounded_push has_space app remove_front s x = Inr s' \<and> R s' (newest (cap s) (xs @ [x])) \<and> cap s' = cap s"
proof (cases "length xs < cap s")
  case True
  with append_law [OF R True] has_space_law [OF R] show ?thesis
    by (auto simp: bounded_push_def newest_id)
next
  case False
  with le c obtain y ys where xs: "xs = y # ys" by (cases xs) auto
  then obtain s1 where s1: "remove_front s = Inr (y, s1)" "R s1 ys" "cap s1 = cap s"
    using remove_front_law R by blast
  moreover have "newest (cap s) (xs @ [x]) = ys @ [x]" using False le xs by (simp add: newest_def)
  ultimately show ?thesis
    using append_law [OF s1(2), of x] False le xs has_space_law [OF R] by (auto simp: bounded_push_def)
qed

lemma pushes:
  "R s xs \<Longrightarrow> length xs \<le> cap s \<Longrightarrow> 0 < cap s \<Longrightarrow>
    \<exists>s'. bounded_pushes has_space app remove_front s ys = Inr s' \<and> R s' (newest (cap s) (xs @ ys)) \<and> cap s' = cap s"
proof (induction ys arbitrary: s xs)
  case Nil
  then show ?case by (auto simp: newest_id)
next
  case (Cons y ys)
  obtain s1 where s1: "bounded_push has_space app remove_front s y = Inr s1"
      "R s1 (newest (cap s) (xs @ [y]))" "cap s1 = cap s"
    using push [OF Cons.prems] by blast
  have "length (newest (cap s) (xs @ [y])) \<le> cap s1" using s1(3) by simp
  from Cons.IH [OF s1(2) this] obtain s' where
    "bounded_pushes has_space app remove_front s1 ys = Inr s'"
    "R s' (newest (cap s1) (newest (cap s) (xs @ [y]) @ ys))" "cap s' = cap s1"
    using s1(3) Cons.prems(3) by auto
  then show ?case using s1 newest_push [of "cap s" "xs @ [y]" ys] by auto
qed

end

end
