(* ===== verification/List_Props.thy ===== *)
theory List_Props
  imports List_Transfer List_Interface
begin

text \<open>
  The theorems about the linked list library, stated over well formed lists, and its interpretation
  as a provider of the list interface of the protocol modules.
\<close>

section \<open>Comparers of the sorted lists\<close>

definition comparer_ok :: "(addr \<Rightarrow> addr \<Rightarrow> int) \<Rightarrow> bool" where
  "comparer_ok cmp \<longleftrightarrow> (\<forall>x y. cmp x y \<in> {-1, 0, 1} \<and> (cmp x y = -1 \<longleftrightarrow> cmp y x = 1))
     \<and> (\<forall>x y z. cmp x y = -1 \<longrightarrow> cmp y z = -1 \<longrightarrow> cmp x z = -1)
     \<and> (\<forall>x y z. cmp x y = 0 \<longrightarrow> cmp y z = -1 \<longrightarrow> cmp x z = -1)"

definition cmp_ordered :: "(addr \<Rightarrow> addr \<Rightarrow> int) \<Rightarrow> addr list \<Rightarrow> bool" where
  "cmp_ordered cmp ds \<longleftrightarrow> sorted_wrt (\<lambda>x y. cmp x y = -1) ds"

section \<open>The heap list as a provider of the list interface\<close>

definition heap_rep :: "heap \<times> linked_list \<Rightarrow> addr list \<Rightarrow> bool" where
  "heap_rep s ds = rep (fst s) (snd s) ds"

definition heap_cap :: "heap \<times> linked_list \<Rightarrow> nat" where
  "heap_cap s = unat (ll_max (snd s))"

definition heap_has_space :: "heap \<times> linked_list \<Rightarrow> bool" where
  "heap_has_space s = list_has_space (snd s)"

definition heap_append :: "heap \<times> linked_list \<Rightarrow> addr \<Rightarrow> (heap \<times> linked_list) res" where
  "heap_append s d = list_append (fst s) (snd s) d"

definition heap_remove_front :: "heap \<times> linked_list \<Rightarrow> (addr \<times> heap \<times> linked_list) res" where
  "heap_remove_front s = list_remove_front (fst s) (snd s)"

text \<open>A heap with the list 7, 5, 9 on it, for the examples.\<close>

definition heap0 :: heap where
  "heap0 = \<lparr>hp_node = (\<lambda>_. None), hp_brk = 1\<rparr>"

definition ex_heap :: heap where
  "ex_heap = \<lparr>hp_node = [1 \<mapsto> \<lparr>nd_next = 2, nd_prev = 0, nd_data = 7\<rparr>,
                        2 \<mapsto> \<lparr>nd_next = 3, nd_prev = 1, nd_data = 5\<rparr>,
                        3 \<mapsto> \<lparr>nd_next = 0, nd_prev = 2, nd_data = 9\<rparr>], hp_brk = 4\<rparr>"

definition ex_list :: linked_list where
  "ex_list = \<lparr>ll_max = 4, ll_len = 3, ll_front = 1, ll_end = 3\<rparr>"

lemma heap_ok_heap0 [simp]: "heap_ok heap0"
  by (simp add: heap_ok_def heap0_def)

lemma heap_ok_ex [simp]: "heap_ok ex_heap"
  by (auto simp: heap_ok_def ex_heap_def)

lemma ex_is_list [simp]: "is_list ex_heap ex_list [Suc 0, 2, 3]" "is_list ex_heap ex_list [1, 2, 3]"
  by (simp_all add: is_list_def) (simp_all add: ex_heap_def ex_list_def)

lemma ex_dat [simp]: "dat ex_heap (Suc 0) = 7" "dat ex_heap 1 = 7" "dat ex_heap 2 = 5" "dat ex_heap 3 = 9"
  by (simp_all add: dat_def ex_heap_def)

lemma ll_max_create [simp]: "ll_max (list_create mx) = mx"
  by (simp add: list_create_def)

lemma rep_bound: "rep h l ds \<Longrightarrow> length ds = unat (ll_len l)"
  by (auto simp: rep_def is_list_def)

interpretation heap_list: bounded_list heap_rep heap_cap heap_has_space heap_append heap_remove_front
proof unfold_locales
  show "heap_has_space s \<longleftrightarrow> length xs < heap_cap s" if "heap_rep s xs" for s xs
    using that rep_bound by (fastforce simp: heap_rep_def heap_has_space_def heap_cap_def list_has_space_def word_less_nat_alt)
next
  fix s xs x assume R: "heap_rep s xs" and sp: "length xs < heap_cap s"
  then obtain ps where ps: "is_list (fst s) (snd s) ps" "map (dat (fst s)) ps = xs"
    by (auto simp: heap_rep_def rep_def)
  have "length ps + 1 < 2 ^ 32"
    using sp ps(2) unat_u32_bound [of "ll_max (snd s)"] by (auto simp: heap_cap_def)
  from list_append_ok [OF ps(1) this, of x] ps(2)
  show "\<exists>s'. heap_append s x = Inr s' \<and> heap_rep s' (xs @ [x]) \<and> heap_cap s' = heap_cap s"
    unfolding heap_rep_def heap_append_def heap_cap_def rep_def by fastforce
next
  fix s x xs assume "heap_rep s (x # xs)"
  then obtain a ps where ps: "is_list (fst s) (snd s) (a # ps)" "dat (fst s) a = x" "map (dat (fst s)) ps = xs"
    by (auto simp: heap_rep_def rep_def)
  from list_remove_front_ok [OF ps(1)] ps(2,3)
  show "\<exists>s'. heap_remove_front s = Inr (x, s') \<and> heap_rep s' xs \<and> heap_cap s' = heap_cap s"
    unfolding heap_rep_def heap_remove_front_def heap_cap_def rep_def by fastforce
qed

section \<open>Sorted insertion\<close>

lemma comparer_okD:
  assumes "comparer_ok cmp"
  shows "cmp x y = -1 \<or> cmp x y = 0 \<or> cmp x y = 1" "cmp x y = 1 \<Longrightarrow> cmp y x = -1"
    "cmp x y = -1 \<Longrightarrow> cmp y z = -1 \<Longrightarrow> cmp x z = -1" "cmp x y = 0 \<Longrightarrow> cmp y z = -1 \<Longrightarrow> cmp x z = -1"
  using assms unfolding comparer_ok_def by blast+

lemma comparer_sorted:
  assumes c: "comparer_ok cmp" and o: "cmp_ordered cmp ds"
  shows "cmp_sorted cmp d ds"
proof -
  note D = comparer_okD [OF c]
  have le: "cmp d x \<ge> cmp d y" if "cmp x y = -1" for x y
    using D(1) [of d x] D(1) [of d y] D(3) [OF _ that, of d] D(4) [OF _ that, of d] by auto
  have "sorted_wrt (\<lambda>x y. cmp d x \<ge> cmp d y) ds"
    by (rule sorted_wrt_mono_rel [OF _ o [unfolded cmp_ordered_def]]) (rule le)
  moreover have "\<forall>e \<in> set ds. cmp d e \<in> {-1, 0, 1}" using D(1) by blast
  ultimately show ?thesis unfolding cmp_sorted_def by (simp add: sorted_wrt_map)
qed

lemma add_spec_ordered:
  assumes c: "comparer_ok cmp" and o: "cmp_ordered cmp ds" and a: "add_spec cmp d ds = Some ds'"
  shows "cmp_ordered cmp ds'"
proof -
  note D = comparer_okD [OF c]
  obtain us vs where sp: "ds = us @ vs" "\<forall>u \<in> set us. cmp d u = 1" "\<forall>v \<in> set vs. cmp d v \<noteq> 1"
      "add_spec cmp d ds = (if vs \<noteq> [] \<and> cmp d (hd vs) = 0 then None else Some (us @ d # vs))"
    using cmp_sorted_span [OF comparer_sorted [OF c o, of d]] .
  have ds': "ds' = us @ d # vs" "vs \<noteq> [] \<longrightarrow> cmp d (hd vs) \<noteq> 0" using a sp(4) by (auto split: if_splits)
  have us: "\<forall>u \<in> set us. cmp u d = -1" using D(2) sp(2) by blast
  have ord: "sorted_wrt (\<lambda>x y. cmp x y = -1) us" "sorted_wrt (\<lambda>x y. cmp x y = -1) vs"
      "\<forall>u \<in> set us. \<forall>v \<in> set vs. cmp u v = -1"
    using o sp(1) unfolding cmp_ordered_def by (simp_all add: sorted_wrt_append)
  have vs: "\<forall>v \<in> set vs. cmp d v = -1"
  proof (cases vs)
    case (Cons v ws)
    then have v: "cmp d v = -1" using ds'(2) sp(3) D(1) [of d v] by simp
    moreover have "\<forall>w \<in> set ws. cmp v w = -1" using ord(2) Cons by simp
    ultimately show ?thesis using Cons D(3) [OF v] by simp
  qed simp
  show ?thesis using us vs ord unfolding cmp_ordered_def ds'(1) by (simp add: sorted_wrt_append)
qed


section \<open>Insertion behind a given element\<close>

lemma list_insert_loop_miss:
  "dseg h p (xs @ ys) 0 \<Longrightarrow> prev \<notin> dat h ` set xs \<Longrightarrow> length xs < n \<Longrightarrow>
    list_insert_loop n h l d prev (hd0 (xs @ ys) 0) = list_insert_loop (n - length xs) h l d prev (hd0 ys 0)"
proof (induction xs arbitrary: p n)
  case (Cons a xs)
  then obtain m where n: "n = Suc m" "length xs < m" by (cases n) auto
  obtain c where c: "hp_node h a = Some c" "nd_next c = hd0 (xs @ ys) 0" "a \<noteq> 0"
    using Cons.prems(1) by auto
  have "list_insert_loop m h l d prev (hd0 (xs @ ys) 0) = list_insert_loop (m - length xs) h l d prev (hd0 ys 0)"
    using Cons.prems n by (intro Cons.IH [of a]) auto
  with c n Cons.prems(2) show ?case by (auto simp: rd_node dat_def)
qed simp

lemma list_insert_hit:
  assumes l: "is_list h l (xs @ a # ys)" and prev: "dat h a = prev" "prev \<notin> dat h ` set xs"
    and other: "dat h (last (a # ys)) \<noteq> d"
  shows "list_insert h l d prev = insert_after h l d a"
proof -
  note w = is_listD [OF l]
  obtain e where e: "rd h (last (a # ys)) = Inr e" "nd_data e = dat h (last (a # ys))" "ll_end l = last (a # ys)"
    using w(3,5) by (cases ys rule: rev_cases) (auto simp: rd_def dat_def)
  obtain n where n: "rd h a = Inr n" "nd_data n = prev" "a \<noteq> 0" using w(3) prev(1) by (auto simp: rd_def dat_def)
  have "list_insert_loop (hp_brk h + 1) h l d prev (hd0 (xs @ a # ys) 0)
      = list_insert_loop (hp_brk h + 1 - length xs) h l d prev a"
    using list_insert_loop_miss [OF w(3) prev(2), of "hp_brk h + 1" l d] is_list_fuel [OF l] by simp
  also have "\<dots> = insert_after h l d a"
    using n is_list_fuel [OF l] by (cases "hp_brk h + 1 - length xs") auto
  finally show ?thesis
    using e other w(4) l by (simp add: list_insert_def is_list_empty)
qed

section \<open>The theorems\<close>

text \<open>
  C13: pushing any sequence of elements through \<^verbatim>\<open>list_has_space\<close>, \<^verbatim>\<open>list_remove_front\<close> and
  \<^verbatim>\<open>list_append\<close> the way \<^verbatim>\<open>udp_out_fdf\<close> does never touches an invalid pointer, and leaves a well formed
  list of exactly the newest \<^verbatim>\<open>max\<close> elements in order.
\<close>

theorem bounded_pushes_newest:
  assumes "heap_rep s xs" "length xs \<le> heap_cap s" "0 < heap_cap s"
  shows "\<exists>s'. bounded_pushes heap_has_space heap_append heap_remove_front s ys = Inr s'
    \<and> heap_rep s' (newest (heap_cap s) (xs @ ys)) \<and> heap_cap s' = heap_cap s"
  using assms by (rule heap_list.pushes)

theorem bounded_pushes_newest_witness:
  "\<exists>s'. bounded_pushes heap_has_space heap_append heap_remove_front (ex_heap, ex_list) [4, 8] = Inr s'
    \<and> heap_rep s' [5, 9, 4, 8] \<and> heap_cap s' = 4"
proof -
  have "heap_rep (ex_heap, ex_list) [7, 5, 9]" unfolding heap_rep_def rep_def
    by (rule exI [of _ "[1, 2, 3]"]) simp
  moreover have "heap_cap (ex_heap, ex_list) = 4" by (simp add: heap_cap_def ex_list_def)
  ultimately show ?thesis
    using bounded_pushes_newest [of "(ex_heap, ex_list)" "[7, 5, 9]" "[4, 8]"] by (simp add: newest_def)
qed

text \<open>
  C14: \<^verbatim>\<open>list_remove\<close> takes the first occurrence of a pointer out of the list, frees the node that held it,
  changes nothing when the pointer is absent, and leaves every other list in the heap intact.
\<close>

theorem list_remove_first:
  assumes "is_list h l ps" "is_list h k qs" "set ps \<inter> set qs = {}"
  shows "\<exists>h' l' ps'. list_remove h l d = Inr (h', l') \<and> is_list h' l' ps'
    \<and> map (dat h') ps' = remove1 d (map (dat h) ps)
    \<and> is_list h' k qs \<and> map (dat h') qs = map (dat h) qs
    \<and> card {a. hp_node h a \<noteq> None \<and> hp_node h' a = None} = (if d \<in> set (map (dat h) ps) then 1 else 0)"
proof (cases "d \<in> dat h ` set ps")
  case False
  then have "remove1 d (map (dat h) ps) = map (dat h) ps" by (auto simp: remove1_idem)
  moreover have "{a. hp_node h a \<noteq> None \<and> hp_node h a = None} = {}" by blast
  ultimately show ?thesis using False assms list_remove_miss [OF assms(1) False]
    by (intro exI [of _ h] exI [of _ l] exI [of _ ps]) (simp del: not_None_eq)
next
  case True
  then obtain xs a ys where ps: "ps = xs @ a # ys" and a: "dat h a = d" "d \<notin> dat h ` set xs"
    by (rule split_data)
  obtain h' l' where r: "list_remove h l d = Inr (h', l')" "is_list h' l' (xs @ ys)"
      "map (dat h') (xs @ ys) = map (dat h) (xs @ ys)" "keeps h h' (set ps)" "hp_brk h' = hp_brk h"
      "hp_node h' a = None"
    using list_remove_hit [OF assms(1) [unfolded ps] a] unfolding ps by blast
  have fr: "\<forall>b \<in> set qs. hp_node h' b = hp_node h b"
    using r(4) assms(3) is_list_below [OF assms(2)] by (auto simp: keeps_def)
  have "hp_node h a \<noteq> None" using is_listD(3) [OF assms(1)] unfolding ps by auto
  moreover have "b = a" if "hp_node h b \<noteq> None" "hp_node h' b = None" for b
  proof (rule ccontr)
    assume "b \<noteq> a"
    have "b < hp_brk h" using that(1) is_listD(1) [OF assms(1)] by (simp add: heap_ok_def)
    then have "b \<in> set ps" using that r(4) by (metis keeps_def)
    with \<open>b \<noteq> a\<close> ps have "b \<in> set (xs @ ys)" by auto
    then show False using that(2) dseg_nodes is_listD(3) [OF r(2)] by blast
  qed
  ultimately have "{b. hp_node h b \<noteq> None \<and> hp_node h' b = None} = {a}" using r(6) by blast
  moreover have "remove1 d (map (dat h) ps) = map (dat h) (xs @ ys)"
    using ps a by (auto simp: remove1_append image_iff)
  moreover have "map (dat h') qs = map (dat h) qs" using fr by (simp add: dat_def)
  ultimately show ?thesis
    using r True is_list_frame [OF assms(2) is_listD(1) [OF r(2)] fr] by (intro exI [of _ h'] exI [of _ l'] exI [of _ "xs @ ys"]) simp
qed

theorem list_remove_first_witness:
  "\<exists>h' l' ps'. list_remove ex_heap ex_list 5 = Inr (h', l') \<and> is_list h' l' ps' \<and> map (dat h') ps' = [7, 9]
    \<and> is_list h' (list_create 8) [] \<and> card {a. hp_node ex_heap a \<noteq> None \<and> hp_node h' a = None} = 1"
  using list_remove_first [of ex_heap ex_list "[1, 2, 3]" "list_create 8" "[]" 5] by simp

text \<open>
  \<^verbatim>\<open>list_remove_all\<close> splits a list in two: the elements the test rejects stay, in order, and the
  returned list holds the others, in order; no node is allocated or freed.
\<close>

theorem list_remove_all_partition:
  assumes "is_list h l ps"
  shows "\<exists>h' l' r'. list_remove_all eq h l = Inr (h', l', r')
    \<and> rep h' l' (filter (\<lambda>d. \<not> eq d) (map (dat h) ps)) \<and> rep h' r' (filter eq (map (dat h) ps))
    \<and> (\<forall>a. (hp_node h' a = None) = (hp_node h a = None))"
proof -
  note w = is_listD [OF assms]
  have "length ([] @ ps) + length [] < 2 ^ 32" using w(6) unat_u32_bound [of "ll_len l"] by simp
  from list_remove_all_loop_ok [of h l "[]" ps "list_create (ll_max l)" "[]" "hp_brk h + 1" eq] this
  obtain h' l' r' where r: "list_remove_all eq h l = Inr (h', l', r')"
      "is_list h' l' (filter (\<lambda>a. \<not> eq (dat h a)) ps)" "is_list h' r' (filter (\<lambda>a. eq (dat h a)) ps)"
      "\<forall>b. b \<notin> set ps \<longrightarrow> hp_node h' b = hp_node h b" "\<forall>b. dat h' b = dat h b"
    using assms is_list_fuel [OF assms] w(1,4) by (auto simp: list_remove_all_def)
  have "hp_node h' b \<noteq> None" if "b \<in> set ps" for b
    using that dseg_nodes [OF is_listD(3) [OF r(2)], of b] dseg_nodes [OF is_listD(3) [OF r(3)], of b] by auto
  then have "\<forall>a. (hp_node h' a = None) = (hp_node h a = None)"
    using r(4) dseg_nodes [OF w(3)] by metis
  moreover have "map (dat h') (filter (\<lambda>a. \<not> eq (dat h a)) ps) = filter (\<lambda>d. \<not> eq d) (map (dat h) ps)"
      "map (dat h') (filter (\<lambda>a. eq (dat h a)) ps) = filter eq (map (dat h) ps)"
    using r(5) by (simp_all add: filter_map o_def)
  ultimately show ?thesis using r unfolding rep_def by metis
qed

theorem list_remove_all_partition_witness:
  "\<exists>h' l' r'. list_remove_all (\<lambda>d. 6 < d) ex_heap ex_list = Inr (h', l', r') \<and> rep h' l' [5] \<and> rep h' r' [7, 9]"
  using list_remove_all_partition [of ex_heap ex_list "[1, 2, 3]" "\<lambda>d. 6 < d"] by auto


text \<open>
  C11: with a comparer that is a strict order, \<^verbatim>\<open>list_add\<close> on an ordered list never reaches its
  \<^verbatim>\<open>exit(-1)\<close>: it either rejects a colliding element and changes nothing, or it inserts the element so
  that the list stays ordered, all other elements and all other lists untouched.
\<close>

theorem list_add_ordered:
  assumes "is_list h l ps" "length ps + 1 < 2 ^ 32" "comparer_ok cmp" "cmp_ordered cmp (map (dat h) ps)"
  shows "(add_spec cmp d (map (dat h) ps) = None \<and> (\<exists>e \<in> set (map (dat h) ps). cmp d e = 0)
      \<and> list_add cmp h l d = Inr (False, h, l))
    \<or> (\<exists>h' l' ds. add_spec cmp d (map (dat h) ps) = Some ds \<and> list_add cmp h l d = Inr (True, h', l')
      \<and> added h l ps h' l' ds \<and> cmp_ordered cmp ds \<and> remove1 d ds = remove1 d (d # map (dat h) ps))"
proof -
  let ?ds = "map (dat h) ps"
  have c: "cmp_sorted cmp d ?ds" using comparer_sorted [OF assms(3,4)] .
  note spec = list_add_ok [OF assms(1,2) c]
  obtain us vs where sp: "?ds = us @ vs" "\<forall>u \<in> set us. cmp d u = 1" "\<forall>v \<in> set vs. cmp d v \<noteq> 1"
      "add_spec cmp d ?ds = (if vs \<noteq> [] \<and> cmp d (hd vs) = 0 then None else Some (us @ d # vs))"
    using cmp_sorted_span [OF c] .
  show ?thesis
  proof (cases "add_spec cmp d ?ds")
    case None
    then have vs: "vs \<noteq> []" "cmp d (hd vs) = 0" using sp(4) by (auto split: if_splits)
    then have "hd vs \<in> set ?ds" using sp(1) by simp
    then show ?thesis using None spec vs by auto
  next
    case (Some ds)
    then have ds: "ds = us @ d # vs" using sp(4) by (auto split: if_splits)
    have "cmp d d \<noteq> 1" using comparer_okD(2) [OF assms(3), of d d] by auto
    then have "d \<notin> set us" using sp(2) by auto
    then have "remove1 d ds = us @ vs" using ds by (simp add: remove1_append)
    then show ?thesis using Some spec add_spec_ordered [OF assms(3,4) Some] sp(1) by auto
  qed
qed

theorem list_add_ordered_witness:
  "list_add (\<lambda>x y. if x < y then -1 else if x = y then 0 else 1)
     (ex_heap\<lparr>hp_node := (hp_node ex_heap)(1 \<mapsto> \<lparr>nd_next = 2, nd_prev = 0, nd_data = 3\<rparr>)\<rparr>) ex_list 5
   = Inr (False, ex_heap\<lparr>hp_node := (hp_node ex_heap)(1 \<mapsto> \<lparr>nd_next = 2, nd_prev = 0, nd_data = 3\<rparr>)\<rparr>, ex_list)"
proof -
  let ?h = "ex_heap\<lparr>hp_node := (hp_node ex_heap)(1 \<mapsto> \<lparr>nd_next = 2, nd_prev = 0, nd_data = 3\<rparr>)\<rparr>"
  let ?cmp = "\<lambda>x y :: addr. if x < y then -1 else if x = y then 0 else (1 :: int)"
  have l: "is_list ?h ex_list [1, 2, 3]"
    by (simp add: is_list_def ex_heap_def ex_list_def heap_ok_def)
  have c: "comparer_ok ?cmp" by (auto simp: comparer_ok_def)
  have ds: "map (dat ?h) [1, 2, 3] = [3, 5, 9]" by (simp add: dat_def ex_heap_def)
  have o: "cmp_ordered ?cmp [3, 5, 9]" by (simp add: cmp_ordered_def)
  have a: "add_spec ?cmp 5 [3, 5, 9] = None" by (simp add: add_spec_def)
  show ?thesis using list_add_ordered [OF l _ c, of 5] o a unfolding ds by simp
qed

text \<open>
  \<^verbatim>\<open>list_join\<close> appends the whole second list when it fits, leaving it empty, and refuses when the first
  list is full.
\<close>

theorem list_join_fits:
  assumes "is_list h l1 ps" "is_list h l2 qs" "set ps \<inter> set qs = {}" "length ps + length qs \<le> unat (ll_max l1)"
  shows "\<exists>h' l1' l2'. list_join h l1 l2 = Inr (True, h', l1', l2')
    \<and> rep h' l1' (map (dat h) ps @ map (dat h) qs) \<and> rep h' l2' []"
proof -
  obtain h' l1' l2' where j: "list_join h l1 l2 = Inr (True, h', l1', l2')" "is_list h' l1' (ps @ qs)"
      "is_list h' l2' []" "\<forall>b. dat h' b = dat h b"
    using list_join_all_ok [OF assms] by blast
  then have "map (dat h') (ps @ qs) = map (dat h) ps @ map (dat h) qs" by simp
  with j show ?thesis unfolding rep_def by (metis list.simps(8))
qed

theorem list_join_fits_witness:
  "\<exists>h' l1' l2'. list_join ex_heap (list_create 4) ex_list = Inr (True, h', l1', l2') \<and> rep h' l1' [7, 5, 9] \<and> rep h' l2' []"
  using list_join_fits [of ex_heap "list_create 4" "[]" ex_list "[1, 2, 3]"] by simp

text \<open>
  when only part of the second list fits, \<^verbatim>\<open>list_join\<close> links that part behind the first list but keeps
  the old \<^verbatim>\<open>len\<close>: the header no longer matches its chain, and \<^verbatim>\<open>list_check\<close> says so.
\<close>

theorem list_join_part_breaks:
  assumes "is_list h l1 ps" "is_list h l2 (qs @ c # rs)" "set ps \<inter> set (qs @ c # rs) = {}" "qs \<noteq> []"
    "length ps + length qs = unat (ll_max l1)"
  shows "\<exists>h' l1' l2'. list_join h l1 l2 = Inr (False, h', l1', l2') \<and> list_check h' l1' = Inr False
    \<and> (\<forall>ds. \<not> rep h' l1' ds) \<and> rep h' l2' (map (dat h) (c # rs))"
proof -
  obtain h' l1' l2' where j: "list_join h l1 l2 = Inr (False, h', l1', l2')" "dseg h' 0 (ps @ qs) 0"
      "ll_front l1' = hd0 (ps @ qs) 0" "ll_len l1' = ll_len l1" "is_list h' l2' (c # rs)"
      "\<forall>b. dat h' b = dat h b" "ll_max l1' = ll_max l1"
    using list_join_part_ok [OF assms] by blast
  have bad: "unat (ll_len l1') \<noteq> length (ps @ qs)" using j(4) is_listD(6) [OF assms(1)] assms(4) by simp
  have le: "length (ps @ qs) \<le> unat (ll_max l1')" using assms(5) j(7) by simp
  have chk: "list_check h' l1' = Inr False"
    using list_check_loop_ok [OF j(2), of "hp_brk h' + unat (ll_max l1') + 2" 0 l1'] bad le j(3)
    by (simp add: list_check_def del: list_check_loop.simps)
  have "\<not> is_list h' l1' us" for us
  proof
    assume u: "is_list h' l1' us"
    have "length us < hp_brk h' + unat (ll_max l1') + 2" using is_list_fuel [OF u] by simp
    moreover have "length us \<le> unat (ll_max l1')"
      using is_listD(6) [OF u] is_listD(6) [OF assms(1)] j(4,7) assms(5) by simp
    ultimately have "list_check h' l1' = Inr True"
      using list_check_loop_ok [OF is_listD(3) [OF u], of "hp_brk h' + unat (ll_max l1') + 2" 0 l1'] is_listD(4,6) [OF u]
      by (simp add: list_check_def del: list_check_loop.simps)
    with chk show False by simp
  qed
  moreover have "rep h' l2' (map (dat h) (c # rs))" using j(5,6) unfolding rep_def by (intro exI [of _ "c # rs"]) simp
  ultimately show ?thesis using j(1) chk unfolding rep_def by blast
qed

theorem list_join_part_breaks_witness:
  "\<exists>h' l1' l2'. list_join ex_heap (list_create 2) ex_list = Inr (False, h', l1', l2') \<and> list_check h' l1' = Inr False
    \<and> (\<forall>ds. \<not> rep h' l1' ds) \<and> rep h' l2' [9]"
  using list_join_part_breaks [of ex_heap "list_create 2" "[]" ex_list "[1, 2]" 3 "[]"] by simp


text \<open>
  \<^verbatim>\<open>list_split\<close> keeps the elements up to and including \<^verbatim>\<open>index\<close> and returns the rest; for the largest
  index the sum \<^verbatim>\<open>index + 1\<close> wraps to 0 and a non-empty list makes it dereference NULL.
\<close>

theorem list_split_cut:
  assumes "is_list h l ps" "ps \<noteq> []"
  shows "(unat index + 1 < 2 ^ 32 \<longrightarrow> (\<exists>h' l' r'. list_split h l index = Inr (h', l', r')
      \<and> rep h' l' (take (unat index + 1) (map (dat h) ps)) \<and> rep h' r' (drop (unat index + 1) (map (dat h) ps))))
    \<and> list_split h l (- 1) = Inl MemFault"
proof (intro conjI impI)
  assume i: "unat index + 1 < 2 ^ 32"
  show "\<exists>h' l' r'. list_split h l index = Inr (h', l', r')
      \<and> rep h' l' (take (unat index + 1) (map (dat h) ps)) \<and> rep h' r' (drop (unat index + 1) (map (dat h) ps))"
  proof (cases "unat index + 1 < length ps")
    case True
    then have "ps = take (unat index) ps @ ps ! unat index # ps ! Suc (unat index) # drop (Suc (Suc (unat index))) ps"
      using id_take_nth_drop [of "unat index" ps] Cons_nth_drop_Suc [of "Suc (unat index)" ps] by simp
    moreover have "unat index = length (take (unat index) ps)" using True by simp
    ultimately obtain xs a b ys where ps: "ps = xs @ a # b # ys" "unat index = length xs" by blast
    obtain h' l' r' where r: "list_split h l index = Inr (h', l', r')" "is_list h' l' (xs @ [a])"
        "is_list h' r' (b # ys)" "\<forall>p. dat h' p = dat h p"
      using list_split_ok [OF assms(1) [unfolded ps(1)] ps(2)] by blast
    have "map (dat h') (xs @ [a]) = take (unat index + 1) (map (dat h) ps)"
        "map (dat h') (b # ys) = drop (unat index + 1) (map (dat h) ps)" using r(4) ps by simp_all
    with r show ?thesis unfolding rep_def by metis
  next
    case False
    then have "take (unat index + 1) (map (dat h) ps) = map (dat h) ps" "drop (unat index + 1) (map (dat h) ps) = []"
      by simp_all
    moreover have "rep h (list_create (ll_max l)) []" using is_listD(1) [OF assms(1)] unfolding rep_def by fastforce
    ultimately show ?thesis using list_split_short [OF assms(1) _ i] False assms(1) unfolding rep_def by auto
  qed
next
  note w = is_listD [OF assms(1)]
  have m: "unat (- 1 :: u32) = 4294967295" by (simp add: unsigned_minus_1_eq_mask mask_eq_exp_minus_1)
  have "walk (hp_brk h + 1) h (- 1) 0 (ll_front l) = Inr 0"
    using walk_past [OF w(3), of "hp_brk h + 1" 0 "- 1"] is_list_fuel [OF assms(1)] w(4,6) unat_u32_bound [of "ll_len l"] m
    by simp
  moreover have "(0 :: u32) < ll_len l" using w(6) assms(2) by (simp add: word_less_nat_alt)
  ultimately show "list_split h l (- 1) = Inl MemFault" by (simp add: list_split_def del: walk.simps)
qed

theorem list_split_cut_witness:
  "\<exists>h' l' r'. list_split ex_heap ex_list 1 = Inr (h', l', r') \<and> rep h' l' [7, 5] \<and> rep h' r' [9]"
  using list_split_cut [of ex_heap ex_list "[1, 2, 3]" 1] by simp

text \<open>
  C20: \<^verbatim>\<open>list_for_each\<close> may be given a callback that removes the element it is called on: every element of
  the original list is visited exactly once, in order, and the list ends with the elements kept.
\<close>

theorem list_for_each_removing:
  assumes "is_list h l ps" "distinct (map (dat h) ps)" "length ps < n"
  shows "\<exists>h' l'. list_for_each n (visit_remove eq) h l [] = Inr (h', l', map (dat h) ps)
    \<and> rep h' l' (filter (\<lambda>d. \<not> eq d) (map (dat h) ps))"
  using visit_remove_loop [of h l "[]" ps n eq "[]"] assms is_listD(4) [OF assms(1)]
  unfolding list_for_each_def rep_def by fastforce

theorem list_for_each_removing_witness:
  "\<exists>h' l'. list_for_each 5 (visit_remove (\<lambda>d. d = 7 \<or> d = 9)) ex_heap ex_list [] = Inr (h', l', [7, 5, 9]) \<and> rep h' l' [5]"
  using list_for_each_removing [of ex_heap ex_list "[1, 2, 3]" 5 "\<lambda>d. d = 7 \<or> d = 9"] by simp

text \<open>
  \<^verbatim>\<open>list_free\<close> hands every non-NULL element to the release callback, in order, and frees exactly the
  nodes of the list; \<^verbatim>\<open>list_free_all\<close> frees the matching nodes without unlinking them, so the next walk over
  the list it leaves uses a freed node.
\<close>

theorem list_free_exact:
  assumes "is_list h l ps"
  shows "(\<exists>h'. list_free h l = Inr (h', filter (\<lambda>d. d \<noteq> 0) (map (dat h) ps))
      \<and> (\<forall>a. hp_node h' a = (if a \<in> set ps then None else hp_node h a)))
    \<and> (\<exists>h'. list_free_all eq h l = Inr (h', filter eq (map (dat h) ps))
      \<and> (list_find (\<lambda>_. False) h' l = (if filter eq (map (dat h) ps) = [] then Inr 0 else Inl MemFault)))"
proof (intro conjI)
  note w = is_listD [OF assms] and fuel = is_list_fuel [OF assms]
  show "\<exists>h'. list_free h l = Inr (h', filter (\<lambda>d. d \<noteq> 0) (map (dat h) ps))
      \<and> (\<forall>a. hp_node h' a = (if a \<in> set ps then None else hp_node h a))"
    using list_free_loop_ok [OF w(3,2) fuel, of "[]"] w(4) by (auto simp: list_free_def)
  obtain h' where f: "list_free_all eq h l = Inr (h', filter eq (map (dat h) ps))"
      "\<forall>b. hp_node h' b = (if b \<in> set ps \<and> eq (dat h b) then None else hp_node h b)" "hp_brk h' = hp_brk h"
    using list_free_all_loop_ok [OF w(3,2) fuel, of eq "[]"] w(4) unfolding list_free_all_def by auto
  have "list_find (\<lambda>_. False) h' l = (if filter eq (map (dat h) ps) = [] then Inr 0 else Inl MemFault)"
  proof (cases "filter eq (map (dat h) ps) = []")
    case True
    then have "\<forall>b \<in> set ps. \<not> eq (dat h b)" by (auto simp: filter_empty_conv)
    then have "dseg h' 0 ps 0" using w(3) f(2) by (auto intro: dseg_cong)
    then have "list_find_loop (hp_brk h' + 1) (\<lambda>_. False) h' (hd0 ps 0) = Inr 0"
      using list_find_loop_ok [of h' 0 ps "hp_brk h' + 1" "\<lambda>_. False"] fuel f(3)
      by (simp add: find_None_iff2 [THEN iffD2] del: list_find_loop.simps split: option.splits) (auto simp: find_Some_iff)
    then show ?thesis using True w(4) by (simp add: list_find_def)
  next
    case False
    then have "\<exists>b \<in> set ps. eq (dat h b)" by (auto simp: filter_empty_conv)
    from find_faults [OF w(3) this, of h'] f(2) fuel f(3) w(4) False show ?thesis
      by (simp add: list_find_def del: list_find_loop.simps)
  qed
  with f(1) show "\<exists>h'. list_free_all eq h l = Inr (h', filter eq (map (dat h) ps))
      \<and> (list_find (\<lambda>_. False) h' l = (if filter eq (map (dat h) ps) = [] then Inr 0 else Inl MemFault))"
    by blast
qed

theorem list_free_exact_witness:
  "\<exists>h'. list_free_all (\<lambda>d. d = 5) ex_heap ex_list = Inr (h', [5]) \<and> list_find (\<lambda>_. False) h' ex_list = Inl MemFault"
  using list_free_exact [of ex_heap ex_list "[1, 2, 3]" "\<lambda>d. d = 5"] by simp

text \<open>
  \<^verbatim>\<open>list_insert\<close> puts the element behind the first occurrence of \<^verbatim>\<open>prev\<close> when that is not the last
  node, dereferences NULL when it is, and appends at the end whenever the last element equals the new one, no
  matter what \<^verbatim>\<open>prev\<close> is.
\<close>

theorem list_insert_cases:
  assumes "is_list h l (xs @ a # ys)" "length (xs @ a # ys) + 1 < 2 ^ 32" "dat h a = prev" "prev \<notin> dat h ` set xs"
  shows "(dat h (last (a # ys)) \<noteq> d \<and> ys \<noteq> [] \<longrightarrow> (\<exists>h' l'. list_insert h l d prev = Inr (h', l')
      \<and> rep h' l' (map (dat h) (xs @ [a]) @ d # map (dat h) ys)))
    \<and> (dat h (last (a # ys)) \<noteq> d \<and> ys = [] \<longrightarrow> list_insert h l d prev = Inl MemFault)
    \<and> (dat h (last (a # ys)) = d \<longrightarrow> list_insert h l d prev = list_append h l d)"
proof (intro conjI impI; (elim conjE)?)
  note w = is_listD [OF assms(1)]
  {
    assume d: "dat h (last (a # ys)) \<noteq> d" and "ys \<noteq> []"
    then obtain v zs where ys: "ys = v # zs" by (cases ys) auto
    from insert_after_added [OF assms(1,2) [unfolded ys], of d] list_insert_hit [OF assms(1,3,4) d] ys
    show "\<exists>h' l'. list_insert h l d prev = Inr (h', l') \<and> rep h' l' (map (dat h) (xs @ [a]) @ d # map (dat h) ys)"
      unfolding added_def rep_def by fastforce
  next
    assume "dat h (last (a # ys)) \<noteq> d" "ys = []"
    with list_insert_hit [OF assms(1,3,4), of d] w(3) insert_after_last [of h a] show "list_insert h l d prev = Inl MemFault"
      by auto
  next
    assume d: "dat h (last (a # ys)) = d"
    obtain e where "rd h (last (a # ys)) = Inr e" "nd_data e = dat h (last (a # ys))" "ll_end l = last (a # ys)"
      using w(3,5) by (cases ys rule: rev_cases) (auto simp: rd_def dat_def)
    with d assms(1) show "list_insert h l d prev = list_append h l d"
      by (simp add: list_insert_def list_append_def is_list_empty)
  }
qed

theorem list_insert_cases_witness:
  "(\<exists>h' l'. list_insert ex_heap ex_list 4 5 = Inr (h', l') \<and> rep h' l' [7, 5, 4, 9])
    \<and> list_insert ex_heap ex_list 4 9 = Inl MemFault"
  using list_insert_cases [of ex_heap ex_list "[1]" 2 "[3]" 5 4] list_insert_cases [of ex_heap ex_list "[1, 2]" 3 "[]" 9 4] by simp


text \<open>
  \<^verbatim>\<open>list_filter\<close> builds a list of copies of the matching elements, in order, out of fresh nodes: the
  source list and every other node of the heap are as before.
\<close>

theorem list_filter_copies:
  assumes "is_list h l ps"
  shows "\<exists>h' r zs. list_filter eq clone h l = Inr (h', r) \<and> is_list h' r zs
    \<and> map (dat h') zs = map clone (filter eq (map (dat h) ps))
    \<and> is_list h' l ps \<and> map (dat h') ps = map (dat h) ps \<and> set ps \<inter> set zs = {} \<and> keeps h h' {}"
  using collect_ok [OF assms, of eq clone "ll_max l"] unfolding list_filter_def by blast

theorem list_filter_copies_witness:
  "\<exists>h' r. list_filter (\<lambda>d. d < 8) (\<lambda>d. d + 100) ex_heap ex_list = Inr (h', r) \<and> rep h' r [107, 105] \<and> rep h' ex_list [7, 5, 9]"
  using list_filter_copies [of ex_heap ex_list "[1, 2, 3]" "\<lambda>d. d < 8" "\<lambda>d. d + 100"] unfolding rep_def by fastforce

text \<open>
  the searches on a well formed list return the first match (\<^verbatim>\<open>list_find\<close>), the element at a position
  (\<^verbatim>\<open>list_look\<close>), membership (\<^verbatim>\<open>list_contains\<close>), each with NULL or false when there is none, and the last
  match (\<^verbatim>\<open>list_find_last\<close>), which dereferences NULL when there is none.
\<close>

theorem list_searches:
  assumes "is_list h l ps" and ds: "ds = map (dat h) ps"
  shows "list_find eq h l = Inr (case find eq ds of None \<Rightarrow> 0 | Some d \<Rightarrow> d)
    \<and> list_look h l i = Inr (if unat i < length ds then ds ! unat i else 0)
    \<and> list_contains h l d = Inr (d \<in> set ds)
    \<and> list_find_last eq h l = (if filter eq ds = [] then Inl MemFault else Inr (last (filter eq ds)))"
  using list_find_ok [OF assms(1)] list_look_ok [OF assms(1)] list_contains_ok [OF assms(1)]
    list_find_last_ok [OF assms(1)] unfolding ds by simp

theorem list_searches_witness:
  "list_find (\<lambda>d. d < 6) ex_heap ex_list = Inr 5 \<and> list_look ex_heap ex_list 2 = Inr 9
    \<and> list_find_last (\<lambda>d. d > 20) ex_heap ex_list = Inl MemFault"
  using list_searches [of ex_heap ex_list "[1, 2, 3]" "[7, 5, 9]" "\<lambda>d. d < 6" 2 5]
    list_searches [of ex_heap ex_list "[1, 2, 3]" "[7, 5, 9]" "\<lambda>d. d > 20" 2 5] by simp

end
