(* ===== verification/Metadata.thy ===== *)
theory Metadata
  imports FINS_Prelude
begin

text \<open>
  The typed key/value store that travels with every frame: \<^verbatim>\<open>trunk/libs/common/metadata.c\<close> over the
  functions it calls of \<^verbatim>\<open>trunk/libs/config/lib/libconfig.c\<close>. A metadata is the list of the members of
  the root group, in the order they were added; a handle of a setting is its position in that list. A
  value read through a pointer of the wrong width is a \<open>MemFault\<close>.
\<close>

section \<open>Settings of libconfig\<close>

datatype cfg_value =
    CNone
  | CGroup "(string \<times> cfg_value) list"
  | CInt u32
  | CInt64 u64
  | CFloat u64
  | CString "string option"
  | CBool bool
  | CArray "cfg_value list"
  | CList "cfg_value list"

type_synonym settings = "(string \<times> cfg_value) list"

definition CONFIG_TYPE_NONE :: int where "CONFIG_TYPE_NONE = 0"
definition CONFIG_TYPE_GROUP :: int where "CONFIG_TYPE_GROUP = 1"
definition CONFIG_TYPE_INT :: int where "CONFIG_TYPE_INT = 2"
definition CONFIG_TYPE_INT64 :: int where "CONFIG_TYPE_INT64 = 3"
definition CONFIG_TYPE_FLOAT :: int where "CONFIG_TYPE_FLOAT = 4"
definition CONFIG_TYPE_STRING :: int where "CONFIG_TYPE_STRING = 5"
definition CONFIG_TYPE_BOOL :: int where "CONFIG_TYPE_BOOL = 6"
definition CONFIG_TYPE_ARRAY :: int where "CONFIG_TYPE_ARRAY = 7"
definition CONFIG_TYPE_LIST :: int where "CONFIG_TYPE_LIST = 8"

lemmas CONFIG_TYPE_defs = CONFIG_TYPE_NONE_def CONFIG_TYPE_GROUP_def CONFIG_TYPE_INT_def CONFIG_TYPE_INT64_def
  CONFIG_TYPE_FLOAT_def CONFIG_TYPE_STRING_def CONFIG_TYPE_BOOL_def CONFIG_TYPE_ARRAY_def CONFIG_TYPE_LIST_def

definition PATH_TOKENS :: string where "PATH_TOKENS = '':./''"

definition schar :: "char \<Rightarrow> int" where
  "schar c = (let n = of_char c in if n \<ge> 128 then n - 256 else n)"

fun config_name_compare :: "string \<Rightarrow> string \<Rightarrow> int" where
  "config_name_compare p q =
    (let pd = p = [] \<or> hd p \<in> set PATH_TOKENS; qd = q = [] \<or> hd q \<in> set PATH_TOKENS in
     if pd \<and> qd then 0
     else if pd then -1
     else if qd then 1
     else if schar (hd p) < schar (hd q) then -1
     else if schar (hd p) > schar (hd q) then 1
     else config_name_compare (tl p) (tl q))"

declare config_name_compare.simps [simp del]

fun config_list_search :: "settings \<Rightarrow> string \<Rightarrow> nat option" where
  "config_list_search [] name = None"
| "config_list_search ((n, v) # ms) name =
    (if config_name_compare name n = 0 then Some 0 else map_option Suc (config_list_search ms name))"

definition isalpha :: "char \<Rightarrow> bool" where
  "isalpha c \<longleftrightarrow> (let n = of_char c :: nat in 65 \<le> n \<and> n \<le> 90 \<or> 97 \<le> n \<and> n \<le> 122)"

definition isdigit :: "char \<Rightarrow> bool" where
  "isdigit c \<longleftrightarrow> (let n = of_char c :: nat in 48 \<le> n \<and> n \<le> 57)"

definition config_validate_name :: "string \<Rightarrow> bool" where
  "config_validate_name name =
    (case name of [] \<Rightarrow> False
     | c # cs \<Rightarrow> (isalpha c \<or> c = CHR ''*'') \<and> (\<forall>d \<in> set cs. isalpha d \<or> isdigit d \<or> d \<in> set ''*_-''))"

text \<open>A fresh setting of a type; \<^verbatim>\<open>_new\<close> clears the value.\<close>

definition cfg_new :: "int \<Rightarrow> cfg_value" where
  "cfg_new type =
    (if type = CONFIG_TYPE_GROUP then CGroup [] else if type = CONFIG_TYPE_INT then CInt 0
     else if type = CONFIG_TYPE_INT64 then CInt64 0 else if type = CONFIG_TYPE_FLOAT then CFloat 0
     else if type = CONFIG_TYPE_STRING then CString None else if type = CONFIG_TYPE_BOOL then CBool False
     else if type = CONFIG_TYPE_ARRAY then CArray [] else if type = CONFIG_TYPE_LIST then CList [] else CNone)"

fun config_setting_type :: "cfg_value \<Rightarrow> int" where
  "config_setting_type CNone = CONFIG_TYPE_NONE"
| "config_setting_type (CGroup _) = CONFIG_TYPE_GROUP"
| "config_setting_type (CInt _) = CONFIG_TYPE_INT"
| "config_setting_type (CInt64 _) = CONFIG_TYPE_INT64"
| "config_setting_type (CFloat _) = CONFIG_TYPE_FLOAT"
| "config_setting_type (CString _) = CONFIG_TYPE_STRING"
| "config_setting_type (CBool _) = CONFIG_TYPE_BOOL"
| "config_setting_type (CArray _) = CONFIG_TYPE_ARRAY"
| "config_setting_type (CList _) = CONFIG_TYPE_LIST"

text \<open>Adding a member to a group: the new list and the handle, or NULL.\<close>

definition config_setting_add :: "settings \<Rightarrow> string \<Rightarrow> int \<Rightarrow> (settings \<times> nat) option" where
  "config_setting_add parent name type =
    (if type < CONFIG_TYPE_NONE \<or> type > CONFIG_TYPE_LIST then None
     else if \<not> config_validate_name name then None
     else if config_list_search parent name \<noteq> None then None
     else Some (parent @ [(name, cfg_new type)], length parent))"

text \<open>
  The typed setters and getters. \<^verbatim>\<open>config_init\<close> clears the flags and nothing in the stack sets
  \<^verbatim>\<open>CONFIG_OPTION_AUTOCONVERT\<close> on a metadata, so a float is never converted.
\<close>

fun config_setting_set_int :: "cfg_value \<Rightarrow> u32 \<Rightarrow> bool \<times> cfg_value" where
  "config_setting_set_int CNone v = (True, CInt v)"
| "config_setting_set_int (CInt _) v = (True, CInt v)"
| "config_setting_set_int s v = (False, s)"

definition int32_of_int64 :: "u64 \<Rightarrow> u32" where
  "int32_of_int64 v = (if sint v > 2147483647 \<or> sint v < -2147483648 then 0 else ucast v)"

fun config_setting_set_int64 :: "cfg_value \<Rightarrow> u64 \<Rightarrow> bool \<times> cfg_value" where
  "config_setting_set_int64 CNone v = (True, CInt64 v)"
| "config_setting_set_int64 (CInt64 _) v = (True, CInt64 v)"
| "config_setting_set_int64 (CInt _) v = (True, CInt (int32_of_int64 v))"
| "config_setting_set_int64 s v = (False, s)"

fun config_setting_set_float :: "cfg_value \<Rightarrow> u64 \<Rightarrow> bool \<times> cfg_value" where
  "config_setting_set_float CNone v = (True, CFloat v)"
| "config_setting_set_float (CFloat _) v = (True, CFloat v)"
| "config_setting_set_float s v = (False, s)"

fun config_setting_set_string :: "cfg_value \<Rightarrow> string option \<Rightarrow> bool \<times> cfg_value" where
  "config_setting_set_string CNone v = (True, CString v)"
| "config_setting_set_string (CString _) v = (True, CString v)"
| "config_setting_set_string s v = (False, s)"

fun config_setting_get_int :: "cfg_value \<Rightarrow> u32 option" where
  "config_setting_get_int (CInt v) = Some v"
| "config_setting_get_int (CInt64 v) = Some (int32_of_int64 v)"
| "config_setting_get_int _ = None"

fun config_setting_get_int64 :: "cfg_value \<Rightarrow> u64 option" where
  "config_setting_get_int64 (CInt64 v) = Some v"
| "config_setting_get_int64 (CInt v) = Some (scast v)"
| "config_setting_get_int64 _ = None"

fun config_setting_get_string :: "cfg_value \<Rightarrow> string option" where
  "config_setting_get_string (CString s) = s"
| "config_setting_get_string _ = None"

section \<open>The metadata functions\<close>

text \<open>The value argument of a write, tagged with the type argument.\<close>

datatype mdata = DInt32 u32 | DInt64 u64 | DFloat u64 | DString "string option" | DBadType

definition metadata_create :: settings where
  "metadata_create = []"

text \<open>\<^verbatim>\<open>handle = get_member; if (handle == NULL) handle = add; status = set(handle, value)\<close>\<close>

definition set_or_add :: "settings \<Rightarrow> string \<Rightarrow> int \<Rightarrow> (cfg_value \<Rightarrow> bool \<times> cfg_value) \<Rightarrow> (bool \<times> settings) res" where
  "set_or_add ms target type setter =
    (case (case config_list_search ms target of
             Some i \<Rightarrow> Some (ms, i) | None \<Rightarrow> config_setting_add ms target type) of
       None \<Rightarrow> Inl MemFault
     | Some (ms1, i) \<Rightarrow>
        (case setter (snd (ms1 ! i)) of (status, v) \<Rightarrow> Inr (status, ms1[i := (fst (ms1 ! i), v)])))"

fun metadata_writeToElement :: "settings \<Rightarrow> string \<Rightarrow> mdata \<Rightarrow> (bool \<times> settings) res" where
  "metadata_writeToElement ms target (DInt32 v) =
    set_or_add ms target CONFIG_TYPE_INT (\<lambda>s. config_setting_set_int s v)"
| "metadata_writeToElement ms target (DInt64 v) =
    set_or_add ms target CONFIG_TYPE_INT64 (\<lambda>s. config_setting_set_int64 s v)"
| "metadata_writeToElement ms target (DFloat v) =
    set_or_add ms target CONFIG_TYPE_FLOAT (\<lambda>s. config_setting_set_float s v)"
| "metadata_writeToElement ms target (DString v) =
    set_or_add ms target CONFIG_TYPE_STRING (\<lambda>s. config_setting_set_string s v)"
| "metadata_writeToElement ms target DBadType = Inr (False, ms)"

text \<open>
  Reading: what is stored through the \<^verbatim>\<open>void *\<close> depends on the type of the stored setting, not on what
  the caller expects; \<open>None\<close> is \<^verbatim>\<open>META_FALSE\<close>.
\<close>

definition metadata_readFromElement :: "settings \<Rightarrow> string \<Rightarrow> cfg_value option" where
  "metadata_readFromElement ms target =
    (case config_list_search ms target of None \<Rightarrow> None
     | Some i \<Rightarrow>
       (case snd (ms ! i) of
          CInt v \<Rightarrow> Some (CInt v) | CInt64 v \<Rightarrow> Some (CInt64 v) | CString s \<Rightarrow> Some (CString s)
        | _ \<Rightarrow> None))"

definition metadata_setElement :: "settings \<Rightarrow> nat \<Rightarrow> mdata \<Rightarrow> (bool \<times> settings) res" where
  "metadata_setElement ms i d =
    (if i \<ge> length ms then Inl MemFault
     else case (snd (ms ! i), d) of
       (CInt _, DInt32 v) \<Rightarrow>
         (case config_setting_set_int (snd (ms ! i)) v of (st, w) \<Rightarrow> Inr (st, ms[i := (fst (ms ! i), w)]))
     | (CInt64 _, DInt64 v) \<Rightarrow>
         (case config_setting_set_int64 (snd (ms ! i)) v of (st, w) \<Rightarrow> Inr (st, ms[i := (fst (ms ! i), w)]))
     | (CString _, DString v) \<Rightarrow>
         (case config_setting_set_string (snd (ms ! i)) v of (st, w) \<Rightarrow> Inr (st, ms[i := (fst (ms ! i), w)]))
     | (CInt _, _) \<Rightarrow> Inl MemFault | (CInt64 _, _) \<Rightarrow> Inl MemFault | (CString _, _) \<Rightarrow> Inl MemFault
     | _ \<Rightarrow> Inr (False, ms))"

definition metadata_addElement :: "settings \<Rightarrow> string \<Rightarrow> int \<Rightarrow> (settings \<times> nat) option" where
  "metadata_addElement ms name type = config_setting_add ms name type"

text \<open>One iteration of the loop of \<^verbatim>\<open>metadata_copy\<close>, and the loop with its count of successes.\<close>

definition metadata_copy_elem :: "settings \<Rightarrow> string \<times> cfg_value \<Rightarrow> (bool \<times> settings) res" where
  "metadata_copy_elem cp e =
    (case e of (target, v) \<Rightarrow>
      case v of
        CInt w \<Rightarrow> set_or_add cp target CONFIG_TYPE_INT (\<lambda>s. config_setting_set_int s w)
      | CInt64 w \<Rightarrow> set_or_add cp target CONFIG_TYPE_INT64 (\<lambda>s. config_setting_set_int64 s w)
      | CString w \<Rightarrow> set_or_add cp target CONFIG_TYPE_STRING (\<lambda>s. config_setting_set_string s w)
      | _ \<Rightarrow> Inr (False, cp))"

fun metadata_copy_loop :: "settings \<Rightarrow> settings \<Rightarrow> nat \<Rightarrow> (nat \<times> settings) res" where
  "metadata_copy_loop [] cp tot = Inr (tot, cp)"
| "metadata_copy_loop (e # es) cp tot =
    andThen (metadata_copy_elem cp e) (\<lambda>(status, cp1).
      metadata_copy_loop es cp1 (if status then tot + 1 else tot))"

definition metadata_copy :: "settings \<Rightarrow> settings \<Rightarrow> (bool \<times> settings) res" where
  "metadata_copy ms cp =
    andThen (metadata_copy_loop ms cp 0) (\<lambda>(tot, cp1). Inr (tot = length ms, cp1))"

definition metadata_clone :: "settings \<Rightarrow> settings res" where
  "metadata_clone ms = andThen (metadata_copy ms metadata_create) (\<lambda>(status, cp). Inr cp)"

text \<open>The wrappers of \<^verbatim>\<open>finstypes.c\<close> that stop the process on failure, at the widths their callers use.\<close>

definition secure_metadata_read_u32 :: "settings \<Rightarrow> string \<Rightarrow> u32 res" where
  "secure_metadata_read_u32 ms target =
    (case metadata_readFromElement ms target of
       None \<Rightarrow> Inl ExitFailure | Some (CInt v) \<Rightarrow> Inr v | Some _ \<Rightarrow> Inl MemFault)"

definition secure_metadata_read_u64 :: "settings \<Rightarrow> string \<Rightarrow> u64 res" where
  "secure_metadata_read_u64 ms target =
    (case metadata_readFromElement ms target of
       None \<Rightarrow> Inl ExitFailure | Some (CInt64 v) \<Rightarrow> Inr v | Some _ \<Rightarrow> Inl MemFault)"

definition secure_metadata_writeToElement :: "settings \<Rightarrow> string \<Rightarrow> mdata \<Rightarrow> settings res" where
  "secure_metadata_writeToElement ms target d =
    andThen (metadata_writeToElement ms target d) (\<lambda>(status, ms1).
      if status then Inr ms1 else Inl ExitFailure)"

text \<open>The parameter descriptions of the modules: a group with an id and a type.\<close>

definition elem_add_param :: "settings \<Rightarrow> string \<Rightarrow> u32 \<Rightarrow> u32 \<Rightarrow> settings res" where
  "elem_add_param elem param_str param_id param_type =
    (case config_setting_add elem param_str CONFIG_TYPE_GROUP of None \<Rightarrow> Inl ExitFailure
     | Some (ms, i) \<Rightarrow>
       (case config_setting_add [] ''info___id'' CONFIG_TYPE_INT of None \<Rightarrow> Inl ExitFailure
        | Some (g1, j) \<Rightarrow>
          (case config_setting_set_int (snd (g1 ! j)) param_id of (st1, v1) \<Rightarrow>
           if \<not> st1 then Inl ExitFailure
           else case config_setting_add (g1[j := (''info___id'', v1)]) ''info___type'' CONFIG_TYPE_INT of None \<Rightarrow> Inl ExitFailure
             | Some (g2, k) \<Rightarrow>
               (case config_setting_set_int (snd (g2 ! k)) param_type of (st2, v2) \<Rightarrow>
                if \<not> st2 then Inl ExitFailure
                else Inr (ms[i := (param_str, CGroup (g2[k := (''info___type'', v2)]))])))))"


section \<open>Well formed metadata\<close>

definition plain :: "cfg_value \<Rightarrow> bool" where
  "plain v \<longleftrightarrow> config_setting_type v \<in> {CONFIG_TYPE_INT, CONFIG_TYPE_INT64, CONFIG_TYPE_STRING}"

definition meta_ok :: "settings \<Rightarrow> bool" where
  "meta_ok ms \<longleftrightarrow> distinct (map fst ms) \<and> list_all config_validate_name (map fst ms)"

fun mdata_value :: "mdata \<Rightarrow> cfg_value" where
  "mdata_value (DInt32 v) = CInt v"
| "mdata_value (DInt64 v) = CInt64 v"
| "mdata_value (DFloat v) = CFloat v"
| "mdata_value (DString s) = CString s"
| "mdata_value DBadType = CNone"

fun mdata_set :: "cfg_value \<Rightarrow> mdata \<Rightarrow> bool \<times> cfg_value" where
  "mdata_set s (DInt32 v) = config_setting_set_int s v"
| "mdata_set s (DInt64 v) = config_setting_set_int64 s v"
| "mdata_set s (DFloat v) = config_setting_set_float s v"
| "mdata_set s (DString v) = config_setting_set_string s v"
| "mdata_set s DBadType = (False, s)"

text \<open>Names under which a 32 bit value can be stored, and the write the modules use for it.\<close>

definition u32_key :: "settings \<Rightarrow> string \<Rightarrow> bool" where
  "u32_key ms t \<longleftrightarrow> config_validate_name t \<and> (case map_of ms t of None \<Rightarrow> True | Some v \<Rightarrow> config_setting_type v = CONFIG_TYPE_INT)"

definition put_u32 :: "settings \<Rightarrow> string \<Rightarrow> u32 \<Rightarrow> settings res" where
  "put_u32 ms t v = secure_metadata_writeToElement ms t (DInt32 v)"

lemma schar_inj: "schar c = schar d \<Longrightarrow> c = d"
proof -
  assume a: "schar c = schar d"
  have c: "0 \<le> (of_char c :: int) \<and> (of_char c :: int) < 256" "0 \<le> (of_char d :: int) \<and> (of_char d :: int) < 256"
    by (metis of_char_mod_256 pos_mod_bound pos_mod_sign zero_less_numeral)+
  with a have "(of_char c :: int) = of_char d" by (auto simp: schar_def Let_def split: if_splits)
  then show ?thesis by simp
qed

lemma valid_no_token: "config_validate_name n \<Longrightarrow> c \<in> set n \<Longrightarrow> c \<notin> set PATH_TOKENS"
  by (cases n) (auto simp: config_validate_name_def PATH_TOKENS_def isalpha_def isdigit_def Let_def)

lemma name_compare_plain:
  "\<forall>c \<in> set a. c \<notin> set PATH_TOKENS \<Longrightarrow> \<forall>c \<in> set b. c \<notin> set PATH_TOKENS \<Longrightarrow>
    config_name_compare a b = 0 \<longleftrightarrow> a = b"
proof (induction a arbitrary: b)
  case Nil
  then show ?case by (cases b) (simp_all add: config_name_compare.simps Let_def)
next
  case (Cons c a)
  show ?case
  proof (cases b)
    case Nil
    with Cons.prems show ?thesis by (simp add: config_name_compare.simps Let_def)
  next
    case (Cons d b')
    with Cons.IH [of b'] Cons.prems schar_inj [of c d] show ?thesis
      by (auto simp: config_name_compare.simps [of "c # a"] Let_def)
  qed
qed

lemma name_compare_valid:
  "config_validate_name a \<Longrightarrow> config_validate_name b \<Longrightarrow> config_name_compare a b = 0 \<longleftrightarrow> a = b"
  using name_compare_plain valid_no_token by blast

lemma meta_ok_Cons [simp]:
  "meta_ok (e # ms) \<longleftrightarrow> fst e \<notin> set (map fst ms) \<and> config_validate_name (fst e) \<and> meta_ok ms"
  by (auto simp: meta_ok_def)

lemma meta_ok_Nil [simp]: "meta_ok []"
  by (simp add: meta_ok_def)

lemma search_None:
  "meta_ok ms \<Longrightarrow> config_validate_name t \<Longrightarrow> config_list_search ms t = None \<longleftrightarrow> t \<notin> set (map fst ms)"
  by (induction ms) (auto simp: name_compare_valid split: if_splits)

lemma search_Some:
  "meta_ok ms \<Longrightarrow> config_validate_name t \<Longrightarrow>
    config_list_search ms t = Some i \<longleftrightarrow> i < length ms \<and> fst (ms ! i) = t"
proof (induction ms arbitrary: i)
  case (Cons e ms)
  then show ?case by (cases e; cases i) (auto simp: name_compare_valid)
qed simp

text \<open>Under the invariant a metadata is a finite map, and a search is a lookup in it.\<close>

lemma search_map_of:
  "meta_ok ms \<Longrightarrow> config_validate_name t \<Longrightarrow>
    (case config_list_search ms t of None \<Rightarrow> None | Some i \<Rightarrow> Some (snd (ms ! i))) = map_of ms t"
proof (induction ms)
  case (Cons e ms)
  then show ?case
    by (cases e) (auto simp: name_compare_valid split: option.splits)
qed simp

lemma read_map_of:
  "meta_ok ms \<Longrightarrow> config_validate_name t \<Longrightarrow>
    metadata_readFromElement ms t = (case map_of ms t of Some v \<Rightarrow> if plain v then Some v else None | None \<Rightarrow> None)"
  unfolding metadata_readFromElement_def search_map_of [symmetric]
  by (auto simp: plain_def CONFIG_TYPE_defs split: option.splits cfg_value.splits)

lemma set_or_add_ok:
  assumes ok: "meta_ok ms" and t: "config_validate_name t" and ty: "CONFIG_TYPE_NONE \<le> type" "type \<le> CONFIG_TYPE_LIST"
    and s: "setter (case map_of ms t of Some v \<Rightarrow> v | None \<Rightarrow> cfg_new type) = (st, w)"
  shows "\<exists>ms'. set_or_add ms t type setter = Inr (st, ms') \<and> meta_ok ms' \<and> map_of ms' = (map_of ms)(t \<mapsto> w)
    \<and> map fst ms' = (if t \<in> set (map fst ms) then map fst ms else map fst ms @ [t])"
proof (cases "config_list_search ms t")
  case None
  then have nt: "t \<notin> set (map fst ms)" using search_None [OF ok t] by simp
  then have "map_of ms t = None" by (simp add: map_of_eq_None_iff)
  then have "map_of (ms @ [(t, w)]) = (map_of ms)(t \<mapsto> w)"
    by (auto simp: map_add_def fun_eq_iff split: option.splits)
  with None nt ok t ty s \<open>map_of ms t = None\<close> show ?thesis
    by (auto simp: set_or_add_def config_setting_add_def meta_ok_def)
next
  case (Some i)
  then have i: "i < length ms" "fst (ms ! i) = t" using search_Some [OF ok t] by auto
  have mo: "map_of ms t = Some (snd (ms ! i))" using search_map_of [OF ok t] Some by simp
  have keys: "map fst (ms[i := (t, w)]) = map fst ms" using i by (simp add: map_update list_update_same_conv)
  have d: "distinct (map fst ms)" using ok by (simp add: meta_ok_def)
  have "map_of (ms[i := (t, w)]) x = ((map_of ms)(t \<mapsto> w)) x" for x
  proof (cases "x = t")
    case True
    have "(t, w) \<in> set (ms[i := (t, w)])" using i(1) by (simp add: set_update_memI)
    then show ?thesis using True d keys by simp
  next
    case False
    have "map_of (ms[i := (t, w)]) x = Some v \<longleftrightarrow> map_of ms x = Some v" for v
      using d keys i False by (auto simp: map_of_eq_Some_iff in_set_conv_nth nth_list_update) (metis fst_conv nth_list_update)+
    then show ?thesis using False by (metis fun_upd_apply not_Some_eq)
  qed
  then have "map_of (ms[i := (t, w)]) = (map_of ms)(t \<mapsto> w)" by blast
  moreover have "t \<in> set (map fst ms)" using i by (metis length_map nth_map nth_mem)
  ultimately show ?thesis using Some i mo s keys ok
    by (auto simp: set_or_add_def meta_ok_def)
qed


lemma set_or_add_new:
  assumes "meta_ok ms" "config_validate_name t" "t \<notin> set (map fst ms)"
    "CONFIG_TYPE_NONE \<le> type" "type \<le> CONFIG_TYPE_LIST" "setter (cfg_new type) = (st, w)"
  shows "set_or_add ms t type setter = Inr (st, ms @ [(t, w)])"
  using assms search_None [OF assms(1,2)] by (simp add: set_or_add_def config_setting_add_def)

lemma copy_loop_ok:
  "meta_ok (cp @ es) \<Longrightarrow> list_all plain (map snd es) \<Longrightarrow>
    metadata_copy_loop es cp n = Inr (n + length es, cp @ es)"
proof (induction es arbitrary: cp n)
  case (Cons e es)
  obtain t v where e: "e = (t, v)" by (cases e)
  have ok: "meta_ok cp" "config_validate_name t" "t \<notin> set (map fst cp)" "meta_ok ((cp @ [e]) @ es)"
    using Cons.prems(1) e by (auto simp: meta_ok_def)
  have "metadata_copy_elem cp e = Inr (True, cp @ [e])"
    using Cons.prems(2) e unfolding metadata_copy_elem_def plain_def
    by (cases v) (simp_all add: CONFIG_TYPE_defs set_or_add_new [OF ok(1-3)] cfg_new_def)
  moreover have "metadata_copy_loop es (cp @ [e]) (n + 1) = Inr (n + 1 + length es, (cp @ [e]) @ es)"
    using Cons.prems(2) by (intro Cons.IH [OF ok(4)]) simp
  ultimately show ?case by simp
qed simp

lemma metadata_copy_ok: "meta_ok ms \<Longrightarrow> list_all plain (map snd ms) \<Longrightarrow> metadata_copy ms [] = Inr (True, ms)"
  using copy_loop_ok [of "[]" ms 0] by (simp add: metadata_copy_def)

lemma metadata_write_set:
  "d \<noteq> DBadType \<Longrightarrow>
    metadata_writeToElement ms t d = set_or_add ms t (config_setting_type (mdata_value d)) (\<lambda>s. mdata_set s d)"
  by (cases d) simp_all

lemma mdata_set_ok:
  "d \<noteq> DBadType \<Longrightarrow> config_setting_type v = config_setting_type (mdata_value d) \<Longrightarrow> mdata_set v d = (True, mdata_value d)"
  by (cases d; cases v) (simp_all add: CONFIG_TYPE_defs)

lemma cfg_new_type: "CONFIG_TYPE_NONE \<le> type \<Longrightarrow> type \<le> CONFIG_TYPE_LIST \<Longrightarrow> config_setting_type (cfg_new type) = type"
  by (auto simp: cfg_new_def CONFIG_TYPE_defs)

lemma cfg_type_range: "CONFIG_TYPE_NONE \<le> config_setting_type v" "config_setting_type v \<le> CONFIG_TYPE_LIST"
  by (cases v; simp add: CONFIG_TYPE_defs)+

lemma metadata_write_ok:
  assumes "meta_ok ms" "config_validate_name t" "d \<noteq> DBadType"
    and "\<And>v. map_of ms t = Some v \<Longrightarrow> config_setting_type v = config_setting_type (mdata_value d)"
  shows "\<exists>ms'. metadata_writeToElement ms t d = Inr (True, ms') \<and> meta_ok ms'
    \<and> map_of ms' = (map_of ms)(t \<mapsto> mdata_value d)
    \<and> map fst ms' = (if t \<in> set (map fst ms) then map fst ms else map fst ms @ [t])"
proof -
  let ?ty = "config_setting_type (mdata_value d)"
  have "config_setting_type (case map_of ms t of Some v \<Rightarrow> v | None \<Rightarrow> cfg_new ?ty) = ?ty"
    using assms(4) cfg_new_type [OF cfg_type_range] by (simp split: option.splits)
  from mdata_set_ok [OF assms(3) this] show ?thesis
    using set_or_add_ok [OF assms(1,2) cfg_type_range, where setter = "\<lambda>s. mdata_set s d"]
    by (simp add: metadata_write_set [OF assms(3)])
qed

section \<open>Typed access of the modules\<close>

text \<open>The interface the modules use: 32 bit values under fixed names.\<close>

locale typed_store =
  fixes ok :: "'m \<Rightarrow> bool"
    and get :: "'m \<Rightarrow> 'k \<Rightarrow> 'v res"
    and put :: "'m \<Rightarrow> 'k \<Rightarrow> 'v \<Rightarrow> 'm res"
    and key :: "'m \<Rightarrow> 'k \<Rightarrow> bool"
  assumes put_law: "ok m \<Longrightarrow> key m k \<Longrightarrow> \<exists>m'. put m k v = Inr m' \<and> ok m' \<and> get m' k = Inr v
      \<and> (\<forall>j. j \<noteq> k \<longrightarrow> key m j \<longrightarrow> get m' j = get m j) \<and> (\<forall>j. key m j \<longrightarrow> key m' j)"
begin

lemma put_put:
  assumes "ok m" "key m j" "key m k" "j \<noteq> k"
  shows "\<exists>m1 m2. put m j u = Inr m1 \<and> put m1 k v = Inr m2 \<and> ok m2 \<and> get m2 j = Inr u \<and> get m2 k = Inr v"
proof -
  obtain m1 where m1: "put m j u = Inr m1" "ok m1" "get m1 j = Inr u" "\<forall>i. key m i \<longrightarrow> key m1 i"
    using put_law [OF assms(1,2)] by blast
  then obtain m2 where "put m1 k v = Inr m2" "ok m2" "get m2 k = Inr v" "\<forall>i. i \<noteq> k \<longrightarrow> key m1 i \<longrightarrow> get m2 i = get m1 i"
    using put_law [OF m1(2), of k v] assms(3) by blast
  with m1 assms show ?thesis by metis
qed

end

lemma read_u32_map_of:
  "meta_ok ms \<Longrightarrow> u32_key ms t \<Longrightarrow>
    secure_metadata_read_u32 ms t = (case map_of ms t of Some (CInt v) \<Rightarrow> Inr v | _ \<Rightarrow> Inl ExitFailure)"
  unfolding secure_metadata_read_u32_def u32_key_def
  by (auto simp: read_map_of plain_def CONFIG_TYPE_defs split: option.splits cfg_value.splits)

lemma put_u32_ok:
  assumes "meta_ok ms" "u32_key ms t"
  shows "\<exists>ms'. put_u32 ms t v = Inr ms' \<and> meta_ok ms' \<and> map_of ms' = (map_of ms)(t \<mapsto> CInt v)"
proof -
  have "config_validate_name t" using assms(2) by (simp add: u32_key_def)
  from metadata_write_ok [OF assms(1) this, of "DInt32 v"] assms(2) show ?thesis
    by (auto simp: put_u32_def secure_metadata_writeToElement_def u32_key_def split: option.splits)
qed

interpretation meta_u32: typed_store meta_ok secure_metadata_read_u32 put_u32 u32_key
proof unfold_locales
  fix m k v assume ok: "meta_ok m" "u32_key m k"
  then obtain m' where m': "put_u32 m k v = Inr m'" "meta_ok m'" "map_of m' = (map_of m)(k \<mapsto> CInt v)"
    using put_u32_ok by blast
  have key: "u32_key m' j" if "u32_key m j" for j
    using that m'(3) by (auto simp: u32_key_def CONFIG_TYPE_defs)
  have "secure_metadata_read_u32 m' j = secure_metadata_read_u32 m j" if "j \<noteq> k" "u32_key m j" for j
    using read_u32_map_of [OF m'(2) key] read_u32_map_of [OF ok(1)] that m'(3) by simp
  moreover have "secure_metadata_read_u32 m' k = Inr v"
    using read_u32_map_of [OF m'(2) key] ok(2) m'(3) by simp
  ultimately show "\<exists>m'. put_u32 m k v = Inr m' \<and> meta_ok m' \<and> secure_metadata_read_u32 m' k = Inr v
      \<and> (\<forall>j. j \<noteq> k \<longrightarrow> u32_key m j \<longrightarrow> secure_metadata_read_u32 m' j = secure_metadata_read_u32 m j)
      \<and> (\<forall>j. u32_key m j \<longrightarrow> u32_key m' j)"
    using m' key by blast
qed

section \<open>The theorems\<close>

text \<open>
  C16: writing an element of the metadata and reading it back gives the value written, keeps every other
  element and keeps the names valid and pairwise different, when the name is a valid one and is free or holds
  a value of the same type.
\<close>

theorem metadata_write_read:
  assumes "meta_ok ms" "config_validate_name t" "plain (mdata_value d)"
    and "\<forall>v. map_of ms t = Some v \<longrightarrow> config_setting_type v = config_setting_type (mdata_value d)"
  shows "\<exists>ms'. metadata_writeToElement ms t d = Inr (True, ms') \<and> meta_ok ms'
    \<and> metadata_readFromElement ms' t = Some (mdata_value d)
    \<and> (\<forall>u. config_validate_name u \<longrightarrow> u \<noteq> t \<longrightarrow> metadata_readFromElement ms' u = metadata_readFromElement ms u)"
proof -
  have "d \<noteq> DBadType" using assms(3) by (auto simp: plain_def CONFIG_TYPE_defs)
  then obtain ms' where "metadata_writeToElement ms t d = Inr (True, ms')" "meta_ok ms'"
      "map_of ms' = (map_of ms)(t \<mapsto> mdata_value d)"
    using metadata_write_ok [OF assms(1,2)] assms(4) by blast
  then show ?thesis using assms(1,2,3) by (simp add: read_map_of)
qed

theorem metadata_write_read_witness:
  "\<exists>ms'. metadata_writeToElement [(''send_src_ipv4'', CInt 1)] ''send_dst_ipv4'' (DInt32 7) = Inr (True, ms')
    \<and> metadata_readFromElement ms' ''send_dst_ipv4'' = Some (CInt 7)"
proof -
  have v: "config_validate_name ''send_dst_ipv4''" "config_validate_name ''send_src_ipv4''" by code_simp+
  then show ?thesis
    using metadata_write_read [of "[(''send_src_ipv4'', CInt 1)]" "''send_dst_ipv4''" "DInt32 7"]
    by (auto simp: plain_def)
qed

text \<open>
  a clone of a metadata that holds only 32 bit, 64 bit and string elements is equal to it, element by
  element and in the same order.
\<close>

theorem metadata_clone_equal:
  assumes "meta_ok ms" "list_all plain (map snd ms)"
  shows "metadata_clone ms = Inr ms \<and> metadata_copy ms metadata_create = Inr (True, ms)"
  using metadata_copy_ok [OF assms] by (simp add: metadata_clone_def metadata_create_def)

theorem metadata_clone_equal_witness:
  "metadata_clone [(''a'', CInt 3), (''b'', CString (Some ''x''))] = Inr [(''a'', CInt 3), (''b'', CString (Some ''x''))]"
proof -
  have "config_validate_name ''a''" "config_validate_name ''b''" by code_simp+
  then show ?thesis
    using metadata_clone_equal [of "[(''a'', CInt 3), (''b'', CString (Some ''x''))]"] by (simp add: plain_def)
qed

end
