(* ===== verification/Net_Bytes.thy ===== *)
theory Net_Bytes
  imports FINS_Prelude
begin

text \<open>
  Bytes of machine words on the little endian hosts the stack runs on (x86, ARM): the layout of an integer
  in memory, the byte order conversions \<^verbatim>\<open>htons\<close>, \<^verbatim>\<open>ntohs\<close>, \<^verbatim>\<open>htonl\<close> and \<^verbatim>\<open>ntohl\<close> of the C library, and
  bounds checked access to a buffer.
\<close>

definition hi8 :: "u16 \<Rightarrow> u8" where
  "hi8 w = ucast (drop_bit 8 w)"

definition lo8 :: "u16 \<Rightarrow> u8" where
  "lo8 w = ucast w"

definition mk16 :: "u8 \<Rightarrow> u8 \<Rightarrow> u16" where
  "mk16 hi lo = push_bit 8 (ucast hi) OR ucast lo"

definition byteof :: "nat \<Rightarrow> u32 \<Rightarrow> u8" where
  "byteof k w = ucast (drop_bit (8 * k) w)"

definition mk32 :: "u8 \<Rightarrow> u8 \<Rightarrow> u8 \<Rightarrow> u8 \<Rightarrow> u32" where
  "mk32 b3 b2 b1 b0 = push_bit 24 (ucast b3) OR push_bit 16 (ucast b2) OR push_bit 8 (ucast b1) OR ucast b0"

text \<open>An integer as it lies in memory, lowest address first.\<close>

definition mem16 :: "u16 \<Rightarrow> byte list" where
  "mem16 w = [lo8 w, hi8 w]"

definition mem32 :: "u32 \<Rightarrow> byte list" where
  "mem32 w = [byteof 0 w, byteof 1 w, byteof 2 w, byteof 3 w]"

definition htons :: "u16 \<Rightarrow> u16" where
  "htons w = mk16 (lo8 w) (hi8 w)"

definition ntohs :: "u16 \<Rightarrow> u16" where
  "ntohs w = mk16 (lo8 w) (hi8 w)"

definition htonl :: "u32 \<Rightarrow> u32" where
  "htonl w = mk32 (byteof 0 w) (byteof 1 w) (byteof 2 w) (byteof 3 w)"

definition ntohl :: "u32 \<Rightarrow> u32" where
  "ntohl w = mk32 (byteof 0 w) (byteof 1 w) (byteof 2 w) (byteof 3 w)"

text \<open>Loads from a buffer; an access that leaves the buffer is a \<open>MemFault\<close>.\<close>

definition load8 :: "byte list \<Rightarrow> int \<Rightarrow> u8 res" where
  "load8 buf i = (if 0 \<le> i \<and> i < int (length buf) then Inr (buf ! nat i) else Inl MemFault)"

definition load16 :: "byte list \<Rightarrow> int \<Rightarrow> u16 res" where
  "load16 buf i = andThen (load8 buf i) (\<lambda>b0. andThen (load8 buf (i + 1)) (\<lambda>b1. Inr (mk16 b1 b0)))"

definition load32 :: "byte list \<Rightarrow> int \<Rightarrow> u32 res" where
  "load32 buf i = andThen (load8 buf i) (\<lambda>b0. andThen (load8 buf (i + 1)) (\<lambda>b1.
     andThen (load8 buf (i + 2)) (\<lambda>b2. andThen (load8 buf (i + 3)) (\<lambda>b3. Inr (mk32 b3 b2 b1 b0)))))"

text \<open>\<^verbatim>\<open>memcpy\<close> out of a buffer.\<close>

definition slice :: "byte list \<Rightarrow> nat \<Rightarrow> nat \<Rightarrow> byte list res" where
  "slice buf i n = (if i + n \<le> length buf then Inr (take n (drop i buf)) else Inl MemFault)"

lemma mk16_split [simp]: "mk16 (hi8 w) (lo8 w) = w"
  by (rule bit_word_eqI) (auto simp: mk16_def hi8_def lo8_def bit_simps)

lemma split_mk16 [simp]: "hi8 (mk16 a b) = a" "lo8 (mk16 a b) = b"
  by (rule bit_word_eqI; auto simp: mk16_def hi8_def lo8_def bit_simps dest: bit_imp_le_length)+

lemma mk32_split [simp]: "mk32 (byteof 3 w) (byteof 2 w) (byteof (Suc 0) w) (byteof 0 w) = w"
proof (rule bit_word_eqI)
  fix n assume "n < LENGTH(32)"
  then consider "n < 8" | "8 \<le> n \<and> n < 16" | "16 \<le> n \<and> n < 24" | "24 \<le> n \<and> n < 32" by fastforce
  then show "bit (mk32 (byteof 3 w) (byteof 2 w) (byteof (Suc 0) w) (byteof 0 w)) n = bit w n"
    by cases (auto simp: mk32_def byteof_def bit_simps)
qed

lemma split_mk32 [simp]:
  "byteof 3 (mk32 a b c d) = a" "byteof 2 (mk32 a b c d) = b" "byteof (Suc 0) (mk32 a b c d) = c" "byteof 0 (mk32 a b c d) = d"
  by (rule bit_word_eqI; auto simp: mk32_def byteof_def bit_simps dest: bit_imp_le_length)+

lemma byte_order_inverse [simp]:
  "ntohs (htons w) = w" "htons (ntohs w) = w" "ntohl (htonl v) = v" "htonl (ntohl v) = v"
  by (simp_all add: ntohs_def htons_def ntohl_def htonl_def)

lemma mem_length [simp]: "length (mem16 w) = 2" "length (mem32 v) = 4"
  by (simp_all add: mem16_def mem32_def)

lemma load8_append:
  "load8 (xs @ ys) i = (if i < int (length xs) then load8 xs i else load8 ys (i - int (length xs)))"
  by (auto simp: load8_def nth_append nat_diff_distrib)

lemma load8_Cons:
  "load8 (x # xs) i = (if i = 0 then Inr x else load8 xs (i - 1))"
  by (auto simp: load8_def nth_Cons' nat_diff_distrib)

lemma load8_Nil [simp]: "load8 [] i = Inl MemFault"
  by (simp add: load8_def)

lemma load8_ok: "n < length buf \<Longrightarrow> load8 buf (int n) = Inr (buf ! n)"
  by (simp add: load8_def)

lemma slice_ok: "i + n \<le> length buf \<Longrightarrow> slice buf i n = Inr (take n (drop i buf))"
  by (simp add: slice_def)

lemmas loads = load32_def load16_def load8_Cons mem16_def mem32_def

text \<open>Folding the upper half of a counter into its lower half.\<close>

lemma unat_high_half: "unat (drop_bit 16 (w :: u32)) = unat w div 65536"
  by (simp only: unat_drop_bit_eq) (simp add: drop_bit_eq_div)

lemma fold_step: "unat ((w AND 0xFFFF) + drop_bit 16 w) = unat (w :: u32) mod 65536 + unat w div 65536"
proof -
  have "w AND 0xFFFF = take_bit 16 w" by (simp add: take_bit_eq_mask mask_eq_exp_minus_1)
  then have a: "unat (w AND 0xFFFF) = unat w mod 65536" by (simp only: unsigned_take_bit_eq) (simp add: take_bit_eq_mod)
  note b = unat_high_half [of w]
  have "unat w < 4294967296" by (rule unat_u32_bound)
  then have "unat w div 65536 < 65536" by (simp add: less_mult_imp_div_less)
  moreover have "unat w mod 65536 < 65536" by simp
  ultimately have "unat w mod 65536 + unat w div 65536 < 65536 + 65536" by (rule add_strict_mono [rotated])
  then have "unat w mod 65536 + unat w div 65536 < 2 ^ LENGTH(32)" by simp
  then show ?thesis using a b by (metis unat_add_lem)
qed

lemma high_half_zero: "drop_bit 16 (w :: u32) = 0 \<longleftrightarrow> unat w < 65536"
proof -
  have "drop_bit 16 w = 0 \<longleftrightarrow> unat (drop_bit 16 w) = 0" by (simp add: unat_eq_0)
  also have "\<dots> \<longleftrightarrow> unat w div 65536 = 0" by (simp only: unat_high_half)
  finally show ?thesis by (simp add: div_eq_0_iff)
qed

lemma fold_step_less: "drop_bit 16 (w :: u32) \<noteq> 0 \<Longrightarrow> unat ((w AND 0xFFFF) + drop_bit 16 w) < unat w"
  unfolding fold_step high_half_zero using div_mult_mod_eq [of "unat w" 65536] by linarith

lemma load16_ok: "i + 1 < length bs \<Longrightarrow> load16 bs (int i) = Inr (mk16 (bs ! (i + 1)) (bs ! i))"
  by (simp add: load16_def load8_def nat_add_distrib)

lemma unat_ucast_up: "unat (ucast (w :: u16) :: u32) = unat w"
proof -
  have "unat w < 2 ^ LENGTH(16)" by (rule unsigned_less)
  then show ?thesis by (simp only: unsigned_ucast_eq) (simp add: take_bit_eq_mod)
qed

lemma ntohs_mk16 [simp]: "ntohs (mk16 a b) = mk16 b a"
  by (simp add: ntohs_def)

end
