(* ===== verification/Fins_Frame.thy ===== *)
theory Fins_Frame
  imports Metadata Net_Bytes
begin

text \<open>
  The frames the modules exchange and the address records of \<^verbatim>\<open>trunk/libs/common/finstypes.c\<close>. A frame
  is the C struct with both members of its union; the code only uses the member its tag selects. The
  pointer \<^verbatim>\<open>data\<close> of a control frame is the structure it points to.
\<close>

section \<open>Constants and structures\<close>

definition FF_NONE :: u8 where "FF_NONE = 0"
definition FF_DATA :: u8 where "FF_DATA = 1"
definition FF_CONTROL :: u8 where "FF_CONTROL = 2"

definition DIR_NONE :: u8 where "DIR_NONE = 0"
definition DIR_UP :: u8 where "DIR_UP = 1"
definition DIR_DOWN :: u8 where "DIR_DOWN = 2"

definition CTRL_ALERT :: u16 where "CTRL_ALERT = 0"
definition CTRL_ALERT_REPLY :: u16 where "CTRL_ALERT_REPLY = 1"
definition CTRL_READ_PARAM :: u16 where "CTRL_READ_PARAM = 2"
definition CTRL_READ_PARAM_REPLY :: u16 where "CTRL_READ_PARAM_REPLY = 3"
definition CTRL_SET_PARAM :: u16 where "CTRL_SET_PARAM = 4"
definition CTRL_SET_PARAM_REPLY :: u16 where "CTRL_SET_PARAM_REPLY = 5"
definition CTRL_EXEC :: u16 where "CTRL_EXEC = 6"
definition CTRL_EXEC_REPLY :: u16 where "CTRL_EXEC_REPLY = 7"
definition CTRL_ERROR :: u16 where "CTRL_ERROR = 8"

definition FCF_TRUE :: u32 where "FCF_TRUE = 1"
definition FCF_FALSE :: u32 where "FCF_FALSE = 0"

lemmas FF_defs = FF_NONE_def FF_DATA_def FF_CONTROL_def
lemmas DIR_defs = DIR_NONE_def DIR_UP_def DIR_DOWN_def
lemmas CTRL_defs = CTRL_ALERT_def CTRL_ALERT_REPLY_def CTRL_READ_PARAM_def CTRL_READ_PARAM_REPLY_def
  CTRL_SET_PARAM_def CTRL_SET_PARAM_REPLY_def CTRL_EXEC_def CTRL_EXEC_REPLY_def CTRL_ERROR_def

record link_record =
  lk_id :: u32
  lk_src_index :: u32
  lk_dsts_num :: u32
  lk_dsts_index :: "u32 list"

record fins_module_flow =
  fl_link_id :: u32
  fl_link :: "link_record option"

record fins_module_table =
  mt_link_list :: "link_record list option"
  mt_flows_num :: u32
  mt_flows :: "fins_module_flow list"

datatype ctrl_data =
    CD_NULL
  | CD_BYTES "byte list"
  | CD_FLOWS "fins_module_flow list"
  | CD_LINKS "link_record list"
  | CD_TABLE fins_module_table
  | CD_SLICE u32 ctrl_data  \<comment> \<open>the first bytes of a structure, copied by \<^verbatim>\<open>memcpy\<close>\<close>

record finsDataFrame =
  directionFlag :: u8
  pduLength :: u32
  pdu :: "byte list option"

record finsCtrlFrame =
  sender_id :: u8
  serial_num :: u32
  opcode :: u16
  param_id :: u32
  ret_val :: u32
  data_len :: u32
  ctrl_dat :: ctrl_data

record finsFrame =
  dataOrCtrl :: u8
  destinationID :: u32
  metaData :: "settings option"
  dataFrame :: finsDataFrame
  ctrlFrame :: finsCtrlFrame

text \<open>\<^verbatim>\<open>secure_malloc(sizeof(struct finsFrame))\<close> clears the frame.\<close>

definition zeroFrame :: finsFrame where
  "zeroFrame = \<lparr>dataOrCtrl = 0, destinationID = 0, metaData = None,
     dataFrame = \<lparr>directionFlag = 0, pduLength = 0, pdu = None\<rparr>,
     ctrlFrame = \<lparr>sender_id = 0, serial_num = 0, opcode = 0, param_id = 0, ret_val = 0, data_len = 0,
                  ctrl_dat = CD_NULL\<rparr>\<rparr>"

definition sizeof_linked_list :: u32 where "sizeof_linked_list = 24"
definition sizeof_fins_module_table :: u32 where "sizeof_fins_module_table = 4112"

section \<open>Counters\<close>

definition uint32_increase :: "u32 \<Rightarrow> u32 \<Rightarrow> u32 \<Rightarrow> u32" where
  "uint32_increase data value mx = (if data + value < data \<or> mx < data + value then mx else data + value)"

definition uint32_decrease :: "u32 \<Rightarrow> u32 \<Rightarrow> u32" where
  "uint32_decrease data value = (if data > value then data - value else 0)"

definition gen_control_serial_num :: "u32 \<Rightarrow> u32 \<times> u32" where
  "gen_control_serial_num global_control_serial_num =
    (let num = global_control_serial_num + 1 in (num, num))"

section \<open>Frames\<close>

definition copy_fins_to_fins :: "finsFrame \<Rightarrow> finsFrame \<Rightarrow> finsFrame" where
  "copy_fins_to_fins dst src =
    (if dataOrCtrl src = FF_DATA
     then dst\<lparr>destinationID := destinationID src, dataOrCtrl := dataOrCtrl src,
              dataFrame := \<lparr>directionFlag = directionFlag (dataFrame src), pduLength = pduLength (dataFrame src),
                            pdu = pdu (dataFrame src)\<rparr>,
              metaData := metaData src\<rparr>
     else if dataOrCtrl src = FF_CONTROL
     then dst\<lparr>destinationID := destinationID src, dataOrCtrl := dataOrCtrl src,
              ctrlFrame := (ctrlFrame dst)\<lparr>opcode := opcode (ctrlFrame src), param_id := param_id (ctrlFrame src),
                            ctrl_dat := ctrl_dat (ctrlFrame src), sender_id := sender_id (ctrlFrame src),
                            serial_num := serial_num (ctrlFrame src)\<rparr>\<rparr>
     else dst)"

text \<open>\<^verbatim>\<open>malloc(len); memcpy(new, data, len)\<close> for the payloads of control frames.\<close>

fun clone_ctrl_data :: "u32 \<Rightarrow> ctrl_data \<Rightarrow> ctrl_data res" where
  "clone_ctrl_data len (CD_BYTES bs) = andThen (slice bs 0 (unat len)) (\<lambda>cs. Inr (CD_BYTES cs))"
| "clone_ctrl_data len (CD_LINKS ls) =
    (if len = sizeof_linked_list then Inr (CD_LINKS ls)
     else if len < sizeof_linked_list then Inr (CD_SLICE len (CD_LINKS ls)) else Inl MemFault)"
| "clone_ctrl_data len (CD_TABLE t) =
    (if len = sizeof_fins_module_table then Inr (CD_TABLE t)
     else if len < sizeof_fins_module_table then Inr (CD_SLICE len (CD_TABLE t)) else Inl MemFault)"
| "clone_ctrl_data len (CD_FLOWS fs) =
    (if unat len \<le> 16 * length fs then Inr (CD_SLICE len (CD_FLOWS fs)) else Inl MemFault)"
| "clone_ctrl_data len (CD_SLICE n d) = (if len \<le> n then Inr (CD_SLICE len d) else Inl MemFault)"
| "clone_ctrl_data len CD_NULL = Inl MemFault"

definition cloneFinsFrame :: "finsFrame \<Rightarrow> finsFrame res" where
  "cloneFinsFrame ff =
    andThen (case metaData ff of
               Some m \<Rightarrow> andThen (metadata_copy m metadata_create) (\<lambda>(status, cp). Inr cp)
             | None \<Rightarrow> Inr metadata_create) (\<lambda>meta_clone.
    let ff_clone = ff\<lparr>metaData := Some meta_clone\<rparr> in
    if dataOrCtrl ff = FF_CONTROL
    then if data_len (ctrlFrame ff) \<noteq> 0
         then andThen (clone_ctrl_data (data_len (ctrlFrame ff)) (ctrl_dat (ctrlFrame ff))) (\<lambda>d.
                Inr (ff_clone\<lparr>ctrlFrame := (ctrlFrame ff)\<lparr>ctrl_dat := d\<rparr>\<rparr>))
         else Inr (ff_clone\<lparr>ctrlFrame := (ctrlFrame ff)\<lparr>ctrl_dat := CD_NULL\<rparr>\<rparr>)
    else if dataOrCtrl ff = FF_DATA
    then if pduLength (dataFrame ff) \<noteq> 0
         then case pdu (dataFrame ff) of None \<Rightarrow> Inl MemFault
              | Some bs \<Rightarrow> andThen (slice bs 0 (unat (pduLength (dataFrame ff)))) (\<lambda>cs.
                  Inr (ff_clone\<lparr>dataFrame := (dataFrame ff)\<lparr>pdu := Some cs\<rparr>\<rparr>))
         else Inr (ff_clone\<lparr>dataFrame := (dataFrame ff)\<lparr>pdu := None\<rparr>\<rparr>)
    else Inl ExitFailure)"

text \<open>\<^verbatim>\<open>freeFinsFrame\<close>: what it returns; an unknown tag stops the process.\<close>

definition freeFinsFrame :: "finsFrame option \<Rightarrow> int res" where
  "freeFinsFrame ff =
    (case ff of None \<Rightarrow> Inr 0
     | Some f \<Rightarrow> if dataOrCtrl f = FF_CONTROL \<or> dataOrCtrl f = FF_DATA then Inr 1 else Inl ExitFailure)"

section \<open>Serialised control frames\<close>

fun strlen :: "byte list \<Rightarrow> nat" where
  "strlen [] = 0"
| "strlen (b # bs) = (if b = 0 then 0 else Suc (strlen bs))"

definition ctrl_known :: "u16 \<Rightarrow> bool" where
  "ctrl_known op \<longleftrightarrow> op \<in> {CTRL_READ_PARAM, CTRL_READ_PARAM_REPLY, CTRL_ALERT, CTRL_ERROR, CTRL_SET_PARAM, CTRL_EXEC}"

text \<open>The result is the return value, the offset \<^verbatim>\<open>*buffer\<close> is left at, and the 17 bytes allocated.\<close>

definition serializeCtrlFrame :: "finsFrame \<Rightarrow> nat \<times> nat \<times> byte list" where
  "serializeCtrlFrame ff =
    (let buf = [dataOrCtrl ff, byteof 0 (destinationID ff)] @ mem32 0 @ mem16 (opcode (ctrlFrame ff))
               @ [sender_id (ctrlFrame ff)] @ mem32 (serial_num (ctrlFrame ff)) @ [0, 0, 0, 0]
     in if ctrl_known (opcode (ctrlFrame ff)) then (strlen buf, 0, buf) else (0, 13, buf))"

definition unserializeCtrlFrame :: "byte list \<Rightarrow> finsFrame option res" where
  "unserializeCtrlFrame buf =
    andThen (load8 buf 0) (\<lambda>dc.
    andThen (load8 buf 1) (\<lambda>dst.
    andThen (load32 buf 2) (\<lambda>temp.
    let o1 = 6 + sint temp in
    andThen (load16 buf o1) (\<lambda>op.
    andThen (load8 buf (o1 + 2)) (\<lambda>sid.
    andThen (load32 buf (o1 + 3)) (\<lambda>serial.
    let ff = zeroFrame\<lparr>dataOrCtrl := dc, destinationID := ucast dst,
               ctrlFrame := (ctrlFrame zeroFrame)\<lparr>opcode := op, sender_id := sid, serial_num := serial\<rparr>\<rparr> in
    if op = CTRL_SET_PARAM then andThen (load32 buf (o1 + 7)) (\<lambda>_. Inr (Some ff))
    else if ctrl_known op then Inr (Some ff)
    else Inr None))))))"

section \<open>Addresses, interfaces and routes\<close>

record sockaddr4 =
  sin_family :: u16
  sin_port :: u16
  sin_addr :: u32

definition AF_INET :: nat where "AF_INET = 2"
definition AF_INET6 :: nat where "AF_INET6 = 10"

record addr_record =
  ad_if_index :: u32
  ad_family :: u32
  ad_ip :: sockaddr4
  ad_mask :: sockaddr4
  ad_gw :: sockaddr4
  ad_bdc :: sockaddr4
  ad_dst :: sockaddr4

record if_record =
  if_index :: u32
  if_name :: string
  if_mac :: u64
  if_mode :: u8
  if_mtu :: u32
  if_flags :: u32
  if_addr_list :: "addr_record list option"

record route_record =
  rt_if_index :: u32
  rt_family :: u32
  rt_dst :: sockaddr4
  rt_mask :: sockaddr4
  rt_gw :: sockaddr4
  rt_metric :: u32
  rt_timeout :: u32

definition IFF_RUNNING :: u32 where "IFF_RUNNING = 0x40"

definition addr_is_v4 :: "addr_record \<Rightarrow> bool" where
  "addr_is_v4 a \<longleftrightarrow> ad_family a = of_nat AF_INET"

definition addr_is_v6 :: "addr_record \<Rightarrow> bool" where
  "addr_is_v6 a \<longleftrightarrow> ad_family a = of_nat AF_INET6"

definition addr_ipv4_test :: "addr_record \<Rightarrow> u32 \<Rightarrow> bool" where
  "addr_ipv4_test a ip \<longleftrightarrow> sin_family (ad_ip a) = of_nat AF_INET \<and> sin_addr (ad_ip a) = ip"

definition addr_bdcv4_test :: "addr_record \<Rightarrow> u32 \<Rightarrow> bool" where
  "addr_bdcv4_test a ip \<longleftrightarrow> sin_family (ad_bdc a) = of_nat AF_INET \<and> sin_addr (ad_bdc a) = ip"

definition addr4_set_ip :: "sockaddr4 \<Rightarrow> u32 \<Rightarrow> sockaddr4" where
  "addr4_set_ip a ip = a\<lparr>sin_family := of_nat AF_INET, sin_addr := ip\<rparr>"

definition addr4_get_ip :: "sockaddr4 \<Rightarrow> u32" where
  "addr4_get_ip a = sin_addr a"

definition addr4_set_port :: "sockaddr4 \<Rightarrow> u16 \<Rightarrow> sockaddr4" where
  "addr4_set_port a port = a\<lparr>sin_family := of_nat AF_INET, sin_port := port\<rparr>"

definition addr4_get_port :: "sockaddr4 \<Rightarrow> u16" where
  "addr4_get_port a = sin_port a"

definition ifr_running_test :: "if_record \<Rightarrow> bool" where
  "ifr_running_test ifr \<longleftrightarrow> if_flags ifr AND IFF_RUNNING \<noteq> 0"

definition ifr_index_test :: "if_record \<Rightarrow> u32 \<Rightarrow> bool" where
  "ifr_index_test ifr index \<longleftrightarrow> if_index ifr = index"

definition ifr_name_test :: "if_record \<Rightarrow> string \<Rightarrow> bool" where
  "ifr_name_test ifr name \<longleftrightarrow> if_name ifr = name"

definition ifr_total_test :: "if_record \<Rightarrow> u32 \<Rightarrow> u32 res" where
  "ifr_total_test ifr tot =
    (case if_addr_list ifr of None \<Rightarrow> Inl MemFault | Some as \<Rightarrow> Inr (tot + of_nat (length as)))"

definition ifr_ipv4_test :: "if_record \<Rightarrow> u32 \<Rightarrow> bool" where
  "ifr_ipv4_test ifr ip =
    (case if_addr_list ifr of Some as \<Rightarrow> find (\<lambda>a. addr_ipv4_test a ip) as \<noteq> None | None \<Rightarrow> False)"

definition route_is_addr4 :: "route_record \<Rightarrow> bool" where
  "route_is_addr4 r \<longleftrightarrow> rt_family r = of_nat AF_INET"

definition route_is_addr6 :: "route_record \<Rightarrow> bool" where
  "route_is_addr6 r \<longleftrightarrow> rt_family r = of_nat AF_INET6"


section \<open>Well formed frames\<close>

definition ctrl_data_ok :: "finsCtrlFrame \<Rightarrow> bool" where
  "ctrl_data_ok c =
    (case ctrl_dat c of
       CD_NULL \<Rightarrow> data_len c = 0
     | CD_BYTES bs \<Rightarrow> data_len c \<noteq> 0 \<and> length bs = unat (data_len c)
     | CD_LINKS _ \<Rightarrow> data_len c = sizeof_linked_list
     | CD_TABLE _ \<Rightarrow> data_len c = sizeof_fins_module_table
     | _ \<Rightarrow> False)"

definition data_ok :: "finsDataFrame \<Rightarrow> bool" where
  "data_ok d =
    (case pdu d of None \<Rightarrow> pduLength d = 0 | Some bs \<Rightarrow> pduLength d \<noteq> 0 \<and> length bs = unat (pduLength d))"

definition frame_ok :: "finsFrame \<Rightarrow> bool" where
  "frame_ok ff \<longleftrightarrow> (case metaData ff of None \<Rightarrow> False | Some m \<Rightarrow> meta_ok m \<and> list_all plain (map snd m))
     \<and> (dataOrCtrl ff = FF_DATA \<and> data_ok (dataFrame ff) \<or> dataOrCtrl ff = FF_CONTROL \<and> ctrl_data_ok (ctrlFrame ff))"

lemma clone_frame_ok:
  assumes "frame_ok ff"
  shows "cloneFinsFrame ff = Inr ff"
proof -
  obtain m where m: "metaData ff = Some m" "metadata_copy m metadata_create = Inr (True, m)"
    using assms metadata_copy_ok by (auto simp: frame_ok_def metadata_create_def split: option.splits)
  show ?thesis
  proof (cases "dataOrCtrl ff = FF_DATA")
    case True
    then have "data_ok (dataFrame ff)" using assms by (auto simp: frame_ok_def FF_defs)
    with True m show ?thesis
      by (auto simp: cloneFinsFrame_def Let_def FF_defs data_ok_def slice_def split: option.splits)
  next
    case False
    then have "dataOrCtrl ff = FF_CONTROL" "ctrl_data_ok (ctrlFrame ff)" using assms by (auto simp: frame_ok_def)
    with m show ?thesis
      by (auto simp: cloneFinsFrame_def Let_def ctrl_data_ok_def slice_def sizeof_linked_list_def
          sizeof_fins_module_table_def split: ctrl_data.splits)
  qed
qed

lemma free_frame_ok: "frame_ok ff \<Longrightarrow> freeFinsFrame (Some ff) = Inr 1"
  by (auto simp: frame_ok_def freeFinsFrame_def)

section \<open>The theorems\<close>

text \<open>
  the saturating counters of the stack: \<^verbatim>\<open>uint32_increase\<close> adds without wrapping and never passes its
  maximum, \<^verbatim>\<open>uint32_decrease\<close> subtracts and stops at zero.
\<close>

theorem uint32_saturation:
  assumes "data \<le> mx"
  shows "unat (uint32_increase data value mx) = min (unat mx) (unat data + unat value)
    \<and> unat (uint32_decrease data value) = unat data - unat value"
proof (intro conjI)
  have ov: "data + value < data \<longleftrightarrow> unat data + unat value \<ge> 2 ^ 32"
  proof (cases "unat data + unat value < 2 ^ 32")
    case True
    then have "unat (data + value) = unat data + unat value" by (simp add: unat_word_ariths)
    then show ?thesis using True by (simp add: word_less_nat_alt)
  next
    case False
    then have "unat (data + value) = unat data + unat value - 4294967296"
      using unat_u32_bound [of data] unat_u32_bound [of "value"] by (simp add: unat_word_ariths mod_if)
    then show ?thesis using False unat_u32_bound [of "value"] by (simp add: word_less_nat_alt)
  qed
  show "unat (uint32_increase data value mx) = min (unat mx) (unat data + unat value)"
  proof (cases "unat data + unat value < 2 ^ 32")
    case True
    then have "unat (data + value) = unat data + unat value" by (simp add: unat_word_ariths)
    then show ?thesis using True ov by (auto simp: uint32_increase_def word_less_nat_alt)
  next
    case False
    then show ?thesis using ov unat_u32_bound [of mx] by (simp add: uint32_increase_def)
  qed
  show "unat (uint32_decrease data value) = unat data - unat value"
    by (auto simp: uint32_decrease_def word_less_nat_alt unat_sub word_le_nat_alt)
qed

theorem uint32_saturation_witness:
  "unat (uint32_increase 4294967290 10 4294967295) = 4294967295 \<and> unat (uint32_decrease 3 10) = 0"
  using uint32_saturation [of 4294967290 4294967295 10] uint32_saturation [of 3 4294967295 10] by simp

text \<open>
  C17: cloning a well formed frame gives a frame with the same contents, metadata and payload included, and
  never fails.
\<close>

theorem cloneFinsFrame_equal:
  assumes "frame_ok ff"
  shows "cloneFinsFrame ff = Inr ff"
  using assms by (rule clone_frame_ok)

theorem cloneFinsFrame_equal_witness:
  "cloneFinsFrame (zeroFrame\<lparr>dataOrCtrl := FF_DATA, metaData := Some [(''a'', CInt 1)],
      dataFrame := \<lparr>directionFlag = DIR_UP, pduLength = 2, pdu = Some [7, 8]\<rparr>\<rparr>)
    = Inr (zeroFrame\<lparr>dataOrCtrl := FF_DATA, metaData := Some [(''a'', CInt 1)],
      dataFrame := \<lparr>directionFlag = DIR_UP, pduLength = 2, pdu = Some [7, 8]\<rparr>\<rparr>)"
proof -
  have "config_validate_name ''a''" by code_simp
  then show ?thesis by (intro cloneFinsFrame_equal) (simp add: frame_ok_def data_ok_def plain_def)
qed

text \<open>
  C18: what comes back of a control frame through \<^verbatim>\<open>serializeCtrlFrame\<close> and \<^verbatim>\<open>unserializeCtrlFrame\<close>, for every frame. With one
  of the six opcodes both functions know, the result is a cleared frame with the type, the opcode, the sender and the serial number of
  the original and its destination modulo 256: the parameter, the result, the data and the metadata are lost. With any
  other opcode, the replies to alerts, writes and executions among them, nothing comes back and the buffer pointer is
  left behind the header. The value returned as the length is never more than 2, although the header takes 13 bytes.
\<close>

theorem serialize_keeps_header:
  "\<exists>n buf. serializeCtrlFrame ff = (if ctrl_known (opcode (ctrlFrame ff)) then (n, 0, buf) else (0, 13, buf)) \<and> n \<le> 2 \<and> length buf = 17
    \<and> unserializeCtrlFrame buf = Inr (if ctrl_known (opcode (ctrlFrame ff))
        then Some (zeroFrame\<lparr>dataOrCtrl := dataOrCtrl ff, destinationID := destinationID ff mod 256,
          ctrlFrame := (ctrlFrame zeroFrame)\<lparr>opcode := opcode (ctrlFrame ff), sender_id := sender_id (ctrlFrame ff),
            serial_num := serial_num (ctrlFrame ff)\<rparr>\<rparr>)
        else None)"
proof -
  have z: "byteof k 0 = 0" for k by (simp add: byteof_def)
  have m: "mk32 0 0 0 0 = 0" by (simp add: mk32_def)
  have d: "ucast (byteof 0 w) = w mod 256" for w :: u32
    by (rule bit_word_eqI) (auto simp: byteof_def bit_simps take_bit_eq_mod [of 8 w, symmetric, simplified])
  have s: "ctrl_known CTRL_SET_PARAM" by (simp add: ctrl_known_def)
  show ?thesis using s
    by (cases "opcode (ctrlFrame ff) = CTRL_SET_PARAM") (auto simp: serializeCtrlFrame_def unserializeCtrlFrame_def loads z m d Let_def)
qed

end
