(* ===== verification/Fins_Queue.thy ===== *)
theory Fins_Queue
  imports Fins_Frame "HOL-Library.Signed_Division"
begin

text \<open>
  The bounded queues between the modules and the switch: the circular buffer of
  \<^verbatim>\<open>trunk/libs/data_structure/queue.c\<close> and its wrapper \<^verbatim>\<open>finsqueue.c\<close>. \<^verbatim>\<open>ElementType\<close> is a pointer to a
  frame, \<open>None\<close> is NULL. Indices are C \<^verbatim>\<open>int\<close>s and \<^verbatim>\<open>%\<close> truncates towards zero; an index outside the
  array is a \<open>MemFault\<close>. The array is cleared when it is allocated.
\<close>

section \<open>The circular buffer\<close>

record QueueRecord =
  q_Capacity :: int
  q_Front :: int
  q_Rear :: int
  q_Size :: int
  q_Array :: "int \<Rightarrow> finsFrame option"

definition IsEmpty :: "QueueRecord \<Rightarrow> bool" where
  "IsEmpty Q \<longleftrightarrow> q_Size Q = 0"

definition IsFull :: "QueueRecord \<Rightarrow> bool" where
  "IsFull Q \<longleftrightarrow> q_Size Q = q_Capacity Q"

definition MakeEmpty :: "QueueRecord \<Rightarrow> QueueRecord" where
  "MakeEmpty Q = Q\<lparr>q_Size := 0, q_Front := 1, q_Rear := 0\<rparr>"

definition CreateQueue :: "int \<Rightarrow> QueueRecord" where
  "CreateQueue MaxElements =
    MakeEmpty \<lparr>q_Capacity = MaxElements, q_Front = 0, q_Rear = 0, q_Size = 0, q_Array = (\<lambda>_. None)\<rparr>"

definition Succ :: "int \<Rightarrow> QueueRecord \<Rightarrow> int" where
  "Succ Value Q = (Value + 1) smod q_Capacity Q"

definition Prev :: "int \<Rightarrow> QueueRecord \<Rightarrow> int" where
  "Prev Value Q = (Value - 1) smod q_Capacity Q"

definition array_get :: "QueueRecord \<Rightarrow> int \<Rightarrow> finsFrame option res" where
  "array_get Q i = (if 0 \<le> i \<and> i < q_Capacity Q then Inr (q_Array Q i) else Inl MemFault)"

definition array_set :: "QueueRecord \<Rightarrow> int \<Rightarrow> finsFrame option \<Rightarrow> QueueRecord res" where
  "array_set Q i x = (if 0 \<le> i \<and> i < q_Capacity Q then Inr (Q\<lparr>q_Array := (q_Array Q)(i := x)\<rparr>) else Inl MemFault)"

definition Enqueue :: "finsFrame \<Rightarrow> QueueRecord \<Rightarrow> (bool \<times> QueueRecord) res" where
  "Enqueue X Q =
    (if IsFull Q then Inr (False, Q)
     else let Q1 = Q\<lparr>q_Size := q_Size Q + 1, q_Rear := Succ (q_Rear Q) Q\<rparr> in
          andThen (array_set Q1 (q_Rear Q1) (Some X)) (\<lambda>Q2. Inr (True, Q2)))"

definition EnqueueFront :: "finsFrame \<Rightarrow> QueueRecord \<Rightarrow> (bool \<times> QueueRecord) res" where
  "EnqueueFront X Q =
    (if IsFull Q then Inr (False, Q)
     else let Q1 = Q\<lparr>q_Size := q_Size Q + 1, q_Front := Prev (q_Front Q) Q\<rparr> in
          andThen (array_set Q1 (q_Front Q1) (Some X)) (\<lambda>Q2. Inr (True, Q2)))"

definition Front :: "QueueRecord \<Rightarrow> finsFrame option res" where
  "Front Q = (if \<not> IsEmpty Q then array_get Q (q_Front Q) else Inr None)"

definition Dequeue :: "QueueRecord \<Rightarrow> QueueRecord" where
  "Dequeue Q = (if IsEmpty Q then Q else Q\<lparr>q_Size := q_Size Q - 1, q_Front := Succ (q_Front Q) Q\<rparr>)"

definition FrontAndDequeue :: "QueueRecord \<Rightarrow> (finsFrame option \<times> QueueRecord) res" where
  "FrontAndDequeue Q =
    (if IsEmpty Q then Inr (None, Q)
     else let Q1 = Q\<lparr>q_Size := q_Size Q - 1\<rparr> in
          andThen (array_get Q1 (q_Front Q1)) (\<lambda>X.
          andThen (array_set Q1 (q_Front Q1) None) (\<lambda>Q2.
            Inr (X, Q2\<lparr>q_Front := Succ (q_Front Q2) Q2\<rparr>))))"

text \<open>\<^verbatim>\<open>TerminateQueue\<close> frees the slots \<^verbatim>\<open>0 .. Size - 1\<close>, wherever the queue starts.\<close>

definition TerminateQueue :: "QueueRecord \<Rightarrow> finsFrame option list \<times> QueueRecord" where
  "TerminateQueue Q = (map (q_Array Q) [0..q_Size Q - 1], Q\<lparr>q_Size := 0\<rparr>)"

section \<open>The wrapper\<close>

definition init_queue :: "int \<Rightarrow> QueueRecord" where
  "init_queue sz = CreateQueue sz"

text \<open>
  \<^verbatim>\<open>for (i ...) if (Array[i]) freeFinsFrame(Array[i])\<close> over a range of indices: the count of frames
  freed and the frames themselves.
\<close>

fun free_slots :: "QueueRecord \<Rightarrow> int list \<Rightarrow> int \<Rightarrow> finsFrame list \<Rightarrow> (int \<times> finsFrame list) res" where
  "free_slots Q [] counter rel = Inr (counter, rel)"
| "free_slots Q (i # is) counter rel =
    andThen (array_get Q i) (\<lambda>x.
      case x of None \<Rightarrow> free_slots Q is counter rel
      | Some ff \<Rightarrow> andThen (freeFinsFrame (Some ff)) (\<lambda>r.
          if r = 0 then free_slots Q is counter rel else free_slots Q is (counter + 1) (rel @ [ff])))"

definition TerminateFinsQueue :: "QueueRecord \<Rightarrow> (bool \<times> finsFrame list \<times> QueueRecord) res" where
  "TerminateFinsQueue Q =
    (let slots = (if q_Front Q \<le> q_Rear Q then [q_Front Q..q_Rear Q]
                  else [q_Front Q..q_Capacity Q - 1] @ [0..q_Rear Q]) in
     andThen (free_slots Q slots 0 []) (\<lambda>(counter, rel).
       Inr (counter = q_Size Q, rel, Q\<lparr>q_Size := 0\<rparr>)))"

text \<open>\<^verbatim>\<open>term_queue\<close>: the frames released and whether the buffer itself was disposed of.\<close>

definition term_queue :: "QueueRecord option \<Rightarrow> (bool \<times> finsFrame list) res" where
  "term_queue q =
    (case q of None \<Rightarrow> Inr (True, [])
     | Some Q \<Rightarrow> andThen (TerminateFinsQueue Q) (\<lambda>(ok, rel, Q1). Inr (ok, rel)))"

definition write_queue :: "finsFrame \<Rightarrow> QueueRecord \<Rightarrow> (bool \<times> QueueRecord) res" where
  "write_queue ff q = Enqueue ff q"

definition write_queue_front :: "finsFrame \<Rightarrow> QueueRecord \<Rightarrow> (bool \<times> QueueRecord) res" where
  "write_queue_front ff q = EnqueueFront ff q"

definition read_queue :: "QueueRecord \<Rightarrow> (finsFrame option \<times> QueueRecord) res" where
  "read_queue q = FrontAndDequeue q"

definition checkEmpty :: "QueueRecord \<Rightarrow> bool" where
  "checkEmpty Q = IsEmpty Q"

section \<open>Abstraction to lists\<close>

definition slot :: "QueueRecord \<Rightarrow> int \<Rightarrow> int" where
  "slot Q k = (q_Front Q + k) mod q_Capacity Q"

definition queue_rep :: "QueueRecord \<Rightarrow> finsFrame list \<Rightarrow> bool" where
  "queue_rep Q xs \<longleftrightarrow> 2 \<le> q_Capacity Q \<and> 0 \<le> q_Front Q \<and> q_Front Q < q_Capacity Q
     \<and> q_Size Q = int (length xs) \<and> length xs \<le> nat (q_Capacity Q)
     \<and> q_Rear Q = (q_Front Q + int (length xs) - 1) mod q_Capacity Q
     \<and> (\<forall>k < nat (q_Capacity Q). q_Array Q (slot Q (int k)) = (if k < length xs then Some (xs ! k) else None))"

definition queue_cap :: "QueueRecord \<Rightarrow> nat" where
  "queue_cap Q = nat (q_Capacity Q)"

text \<open>Sequences of reads and writes, on the implementation and on the specification.\<close>

datatype 'a qop = QWrite 'a | QRead
datatype 'a qout = Written bool | ReadOut "'a option"

fun run_queue ::
  "('a \<Rightarrow> 'q \<Rightarrow> (bool \<times> 'q) res) \<Rightarrow> ('q \<Rightarrow> ('a option \<times> 'q) res) \<Rightarrow> 'a qop list \<Rightarrow> 'q \<Rightarrow> ('a qout list \<times> 'q) res" where
  "run_queue enq deq [] q = Inr ([], q)"
| "run_queue enq deq (QWrite x # ops) q =
    andThen (enq x q) (\<lambda>(b, q1). andThen (run_queue enq deq ops q1) (\<lambda>(outs, q2). Inr (Written b # outs, q2)))"
| "run_queue enq deq (QRead # ops) q =
    andThen (deq q) (\<lambda>(x, q1). andThen (run_queue enq deq ops q1) (\<lambda>(outs, q2). Inr (ReadOut x # outs, q2)))"

fun run_spec :: "nat \<Rightarrow> 'a qop list \<Rightarrow> 'a list \<Rightarrow> 'a qout list \<times> 'a list" where
  "run_spec c [] xs = ([], xs)"
| "run_spec c (QWrite x # ops) xs =
    (if length xs < c then (case run_spec c ops (xs @ [x]) of (outs, ys) \<Rightarrow> (Written True # outs, ys))
     else (case run_spec c ops xs of (outs, ys) \<Rightarrow> (Written False # outs, ys)))"
| "run_spec c (QRead # ops) xs =
    (case xs of [] \<Rightarrow> (case run_spec c ops [] of (outs, ys) \<Rightarrow> (ReadOut None # outs, ys))
     | x # xs' \<Rightarrow> (case run_spec c ops xs' of (outs, ys) \<Rightarrow> (ReadOut (Some x) # outs, ys)))"

text \<open>The interface of a bounded first-in first-out queue.\<close>

locale fifo =
  fixes R :: "'q \<Rightarrow> 'a list \<Rightarrow> bool"
    and cap :: "'q \<Rightarrow> nat"
    and enq :: "'a \<Rightarrow> 'q \<Rightarrow> (bool \<times> 'q) res"
    and deq :: "'q \<Rightarrow> ('a option \<times> 'q) res"
  assumes enq_law: "R q xs \<Longrightarrow> length xs < cap q \<Longrightarrow> \<exists>q'. enq x q = Inr (True, q') \<and> R q' (xs @ [x]) \<and> cap q' = cap q"
    and enq_full_law: "R q xs \<Longrightarrow> \<not> length xs < cap q \<Longrightarrow> enq x q = Inr (False, q)"
    and deq_law: "R q (x # xs) \<Longrightarrow> \<exists>q'. deq q = Inr (Some x, q') \<and> R q' xs \<and> cap q' = cap q"
    and deq_empty_law: "R q [] \<Longrightarrow> deq q = Inr (None, q)"
begin

lemma run_refines:
  "R q xs \<Longrightarrow> \<exists>q'. run_queue enq deq ops q = Inr (fst (run_spec (cap q) ops xs), q')
    \<and> R q' (snd (run_spec (cap q) ops xs)) \<and> cap q' = cap q"
proof (induction ops arbitrary: q xs)
  case (Cons op ops)
  show ?case
  proof (cases op)
    case (QWrite x)
    show ?thesis
    proof (cases "length xs < cap q")
      case True
      then obtain q1 where q1: "enq x q = Inr (True, q1)" "R q1 (xs @ [x])" "cap q1 = cap q"
        using enq_law [OF Cons.prems] by blast
      with Cons.IH [OF q1(2)] QWrite True show ?thesis by (auto split: prod.splits)
    next
      case False
      with Cons.IH [OF Cons.prems] enq_full_law [OF Cons.prems] QWrite show ?thesis by (auto split: prod.splits)
    qed
  next
    case QRead
    show ?thesis
    proof (cases xs)
      case Nil
      with Cons.IH [OF Cons.prems] deq_empty_law Cons.prems QRead show ?thesis by (auto split: prod.splits)
    next
      case (Cons y ys)
      then obtain q1 where q1: "deq q = Inr (Some y, q1)" "R q1 ys" "cap q1 = cap q"
        using deq_law Cons.prems by blast
      with Cons.IH [OF q1(2)] QRead \<open>xs = y # ys\<close> show ?thesis by (auto split: prod.splits)
    qed
  qed
qed simp

end


section \<open>The circular buffer implements the queue\<close>

lemma smod_nonneg: "0 \<le> a \<Longrightarrow> 0 < b \<Longrightarrow> a smod b = a mod (b :: int)"
  by (auto simp: signed_modulo_int_def signed_divide_int_def sgn_if)

lemma slot_inj:
  assumes "(f + int k) mod c = (f + int j) mod c" "int k < c" "int j < c"
  shows "k = j"
proof -
  have "c dvd (int k - int j)" using assms(1) by (simp add: mod_eq_dvd_iff)
  moreover have "\<bar>int k - int j\<bar> < c" using assms(2,3) by auto
  ultimately show ?thesis using zdvd_imp_le [of c "\<bar>int k - int j\<bar>"] by fastforce
qed

lemma queue_repD:
  assumes "queue_rep Q xs"
  shows "2 \<le> q_Capacity Q" "0 \<le> q_Front Q" "q_Front Q < q_Capacity Q" "q_Size Q = int (length xs)"
    "length xs \<le> nat (q_Capacity Q)" "q_Rear Q = (q_Front Q + int (length xs) - 1) mod q_Capacity Q"
    "\<And>k. k < nat (q_Capacity Q) \<Longrightarrow> q_Array Q (slot Q (int k)) = (if k < length xs then Some (xs ! k) else None)"
  using assms by (auto simp: queue_rep_def)

lemma slot_range: "2 \<le> q_Capacity Q \<Longrightarrow> 0 \<le> slot Q k \<and> slot Q k < q_Capacity Q"
  by (simp add: slot_def)

lemma Enqueue_ok:
  assumes r: "queue_rep Q xs" and sp: "length xs < queue_cap Q"
  shows "\<exists>Q'. Enqueue x Q = Inr (True, Q') \<and> queue_rep Q' (xs @ [x]) \<and> queue_cap Q' = queue_cap Q"
proof -
  note w = queue_repD [OF r]
  let ?c = "q_Capacity Q" and ?i = "slot Q (int (length xs))"
  have lt: "int (length xs) < ?c" using sp by (simp add: queue_cap_def)
  have rear: "Succ (q_Rear Q) Q = ?i"
    using w(1,6) by (simp add: Succ_def smod_nonneg slot_def mod_simps)
  define Q' where "Q' = Q\<lparr>q_Size := q_Size Q + 1, q_Rear := ?i, q_Array := (q_Array Q)(?i := Some x)\<rparr>"
  have run: "Enqueue x Q = Inr (True, Q')"
    using w(4) lt rear slot_range [OF w(1)] by (simp add: Enqueue_def IsFull_def array_set_def Q'_def Let_def)
  have sl: "slot Q' k = slot Q k" for k by (simp add: slot_def Q'_def)
  have "q_Array Q' (slot Q' (int k)) = (if k < length (xs @ [x]) then Some ((xs @ [x]) ! k) else None)"
    if k: "k < nat ?c" for k
  proof (cases "k = length xs")
    case True
    then show ?thesis unfolding sl by (simp add: Q'_def)
  next
    case False
    have "int k < ?c" using k by linarith
    then have "slot Q (int k) \<noteq> ?i" using slot_inj [of "q_Front Q" k ?c "length xs"] lt False by (auto simp: slot_def)
    then show ?thesis unfolding sl using w(7) [OF k] False by (auto simp: Q'_def nth_append)
  qed
  then have "queue_rep Q' (xs @ [x])" using w lt by (auto simp: queue_rep_def Q'_def slot_def)
  with run show ?thesis by (auto simp: Q'_def queue_cap_def)
qed

lemma FrontAndDequeue_ok:
  assumes r: "queue_rep Q (x # xs)"
  shows "\<exists>Q'. FrontAndDequeue Q = Inr (Some x, Q') \<and> queue_rep Q' xs \<and> queue_cap Q' = queue_cap Q"
proof -
  note w = queue_repD [OF r]
  let ?c = "q_Capacity Q" and ?f = "q_Front Q"
  have front: "q_Array Q ?f = Some x" using w(7) [of 0] w(1-3) by (simp add: slot_def)
  have succ: "Succ ?f Q = (?f + 1) mod ?c" using w(1,2) by (simp add: Succ_def smod_nonneg)
  define Q' where "Q' = Q\<lparr>q_Size := q_Size Q - 1, q_Array := (q_Array Q)(?f := None), q_Front := (?f + 1) mod ?c\<rparr>"
  have run: "FrontAndDequeue Q = Inr (Some x, Q')"
    using w front succ by (simp add: FrontAndDequeue_def IsEmpty_def array_get_def array_set_def Succ_def Q'_def Let_def)
  have sl: "slot Q' (int k) = slot Q (int (Suc k))" for k by (simp add: slot_def Q'_def mod_simps add.assoc)
  have "q_Array Q' (slot Q' (int k)) = (if k < length xs then Some (xs ! k) else None)" if k: "k < nat ?c" for k
  proof (cases "Suc k < nat ?c")
    case True
    have "int (Suc k) < ?c" using True by linarith
    then have "slot Q (int (Suc k)) \<noteq> ?f"
      using slot_inj [of ?f "Suc k" ?c 0] w(1-3) by (auto simp: slot_def)
    then show ?thesis unfolding sl using w(7) [OF True] by (simp add: Q'_def)
  next
    case False
    then have kc: "int (Suc k) = ?c" using k w(1) by linarith
    then have "slot Q (int (Suc k)) = ?f" using w(1-3) by (simp add: slot_def)
    moreover have "\<not> k < length xs" using w(5) kc by auto
    ultimately show ?thesis unfolding sl by (simp add: Q'_def)
  qed
  moreover have "((?f + 1) mod ?c + int (length xs) - 1) mod ?c = (?f + int (length xs)) mod ?c"
    using mod_add_left_eq [of "?f + 1" ?c "int (length xs) - 1"] by (simp add: algebra_simps)
  ultimately have "queue_rep Q' xs" using w by (auto simp: queue_rep_def Q'_def)
  with run show ?thesis by (auto simp: Q'_def queue_cap_def)
qed

interpretation fins_queue: fifo queue_rep queue_cap write_queue read_queue
proof unfold_locales
  show "\<exists>q'. write_queue x q = Inr (True, q') \<and> queue_rep q' (xs @ [x]) \<and> queue_cap q' = queue_cap q"
    if "queue_rep q xs" "length xs < queue_cap q" for q xs x
    using Enqueue_ok [OF that] by (simp add: write_queue_def)
  show "write_queue x q = Inr (False, q)" if "queue_rep q xs" "\<not> length xs < queue_cap q" for q xs x
    using that queue_repD(1,4,5) [OF that(1)] by (auto simp: write_queue_def Enqueue_def IsFull_def queue_cap_def)
  show "\<exists>q'. read_queue q = Inr (Some x, q') \<and> queue_rep q' xs \<and> queue_cap q' = queue_cap q"
    if "queue_rep q (x # xs)" for q x xs
    using FrontAndDequeue_ok [OF that] by (simp add: read_queue_def)
  show "read_queue q = Inr (None, q)" if "queue_rep q []" for q
    using queue_repD(4) [OF that] by (simp add: read_queue_def FrontAndDequeue_def IsEmpty_def)
qed

lemma CreateQueue_rep: "2 \<le> n \<Longrightarrow> queue_rep (CreateQueue n) []"
  by (auto simp: queue_rep_def CreateQueue_def MakeEmpty_def)


section \<open>Shutting a queue down\<close>

lemma upto_map: "[i..j] = map (\<lambda>k. i + int k) [0..<nat (j - i + 1)]"
  by (rule nth_equalityI) (auto simp: nth_upto)

text \<open>The two shapes of the range of \<^verbatim>\<open>TerminateFinsQueue\<close> are the same walk from the front.\<close>

lemma terminate_range:
  assumes f: "0 \<le> q_Front Q" "q_Front Q < q_Capacity Q" and r: "0 \<le> q_Rear Q" "q_Rear Q < q_Capacity Q"
  shows "(if q_Front Q \<le> q_Rear Q then [q_Front Q..q_Rear Q] else [q_Front Q..q_Capacity Q - 1] @ [0..q_Rear Q])
    = map (\<lambda>k. slot Q (int k)) [0..<nat ((q_Rear Q - q_Front Q) mod q_Capacity Q + 1)]"
proof (cases "q_Front Q \<le> q_Rear Q")
  case True
  then have "(q_Rear Q - q_Front Q) mod q_Capacity Q = q_Rear Q - q_Front Q" using f r by (intro mod_pos_pos_trivial) auto
  with True f r show ?thesis by (auto simp: upto_map slot_def)
next
  case False
  let ?c = "q_Capacity Q" and ?f = "q_Front Q" and ?r = "q_Rear Q"
  have "(?r - ?f) mod ?c = (?r - ?f + ?c) mod ?c" by simp
  also have "\<dots> = ?r - ?f + ?c" using False f r by (intro mod_pos_pos_trivial) auto
  finally have n: "nat ((?r - ?f) mod ?c + 1) = nat (?c - ?f) + nat (?r + 1)" using False f r by linarith
  have low: "map (\<lambda>k. slot Q (int k)) [0..<nat (?c - ?f)] = [?f..?c - 1]"
    using f by (auto simp: upto_map slot_def)
  have high: "slot Q (?c - ?f + int k) = int k" if "k < nat (?r + 1)" for k
  proof -
    have "?f + (?c - ?f + int k) = int k + ?c" by simp
    moreover have "int k mod ?c = int k" using that r by (intro mod_pos_pos_trivial) auto
    ultimately show ?thesis unfolding slot_def by (metis mod_add_self2)
  qed
  have "map (\<lambda>k. slot Q (int k)) [nat (?c - ?f)..<nat (?c - ?f) + nat (?r + 1)] = [0..?r]"
    using f by (intro nth_equalityI) (auto simp: nth_upto high)
  moreover have "[0..<nat (?c - ?f) + nat (?r + 1)] = [0..<nat (?c - ?f)] @ [nat (?c - ?f)..<nat (?c - ?f) + nat (?r + 1)]"
    by (rule upt_add_eq_append) simp
  ultimately show ?thesis using low n False by (simp only: map_append if_False)
qed

lemma filter_less_upt: "filter (\<lambda>k. k < m) [0..<n] = [0..<min n m]"
  by (induction n) (auto simp: min_def, metis le_antisym not_less_eq_eq)

lemma free_slots_ok:
  assumes "\<forall>k \<in> set ks. array_get Q (slot Q (int k)) = Inr (if k < length xs then Some (xs ! k) else None)"
    and "\<forall>x \<in> set xs. freeFinsFrame (Some x) = Inr 1"
  shows "free_slots Q (map (\<lambda>k. slot Q (int k)) ks) n rel =
    Inr (n + int (length (filter (\<lambda>k. k < length xs) ks)), rel @ map ((!) xs) (filter (\<lambda>k. k < length xs) ks))"
  using assms(1)
proof (induction ks arbitrary: n rel)
  case (Cons k ks)
  then show ?case using assms(2) by (cases "k < length xs") auto
qed simp

lemma TerminateFinsQueue_ok:
  assumes r: "queue_rep Q xs" and ok: "\<forall>x \<in> set xs. freeFinsFrame (Some x) = Inr 1"
  shows "TerminateFinsQueue Q = Inr (True, xs, Q\<lparr>q_Size := 0\<rparr>)"
proof -
  note w = queue_repD [OF r]
  let ?c = "q_Capacity Q" and ?n = "nat ((q_Rear Q - q_Front Q) mod q_Capacity Q + 1)"
  have rear: "0 \<le> q_Rear Q" "q_Rear Q < ?c" using w(1,6) by auto
  have d: "(q_Rear Q - q_Front Q) mod ?c = (int (length xs) - 1) mod ?c" using w(6) by (simp add: mod_simps)
  have n: "length xs \<le> ?n \<and> ?n \<le> nat ?c"
  proof (cases xs)
    case Nil
    then have "(q_Rear Q - q_Front Q) mod ?c = ?c - 1" using d w(1) by (simp add: zmod_minus1)
    with Nil show ?thesis by simp
  next
    case (Cons y ys)
    then have "(q_Rear Q - q_Front Q) mod ?c = int (length xs) - 1"
      using d w(1,5) by (auto intro: mod_pos_pos_trivial)
    with Cons w(5) show ?thesis by auto
  qed
  have "\<forall>k \<in> set [0..<?n]. array_get Q (slot Q (int k)) = Inr (if k < length xs then Some (xs ! k) else None)"
    using w(7) n slot_range [OF w(1)] by (auto simp: array_get_def)
  note run = free_slots_ok [OF this ok, of 0 "[]"]
  have "filter (\<lambda>k. k < length xs) [0..<?n] = [0..<length xs]"
    using n by (simp add: filter_less_upt min_absorb2)
  then show ?thesis
    using run w(4) unfolding TerminateFinsQueue_def terminate_range [OF w(2,3) rear]
    by (simp add: map_nth)
qed

section \<open>The theorems\<close>

text \<open>
  C9: the queue between a module and the switch is a bounded first-in first-out queue: for every sequence of
  \<^verbatim>\<open>write_queue\<close> and \<^verbatim>\<open>read_queue\<close> calls on a queue created with at least two slots, the circular buffer
  returns what a list of that capacity returns, and never indexes outside its array.
\<close>

theorem queue_refines_fifo:
  assumes "2 \<le> n"
  shows "\<exists>Q'. run_queue write_queue read_queue ops (init_queue n) = Inr (fst (run_spec (nat n) ops []), Q')
    \<and> queue_rep Q' (snd (run_spec (nat n) ops []))"
proof -
  have cap: "queue_cap (init_queue n) = nat n"
    by (simp add: queue_cap_def init_queue_def CreateQueue_def MakeEmpty_def)
  have "queue_rep (init_queue n) []" using CreateQueue_rep [OF assms] by (simp add: init_queue_def)
  from fins_queue.run_refines [OF this, of ops] show ?thesis unfolding cap by blast
qed

theorem queue_refines_fifo_witness:
  "\<exists>Q'. run_queue write_queue read_queue [QRead, QWrite zeroFrame, QRead] (init_queue 5)
      = Inr ([ReadOut None, Written True, ReadOut (Some zeroFrame)], Q') \<and> queue_rep Q' []"
  using queue_refines_fifo [of 5 "[QRead, QWrite zeroFrame, QRead]"] by simp

text \<open>
  terminating a queue frees every frame that is still in it, exactly once and in order, and reports
  success, so that \<^verbatim>\<open>term_queue\<close> also disposes of the buffer.
\<close>

theorem term_queue_frees_all:
  assumes "queue_rep Q xs" "\<forall>x \<in> set xs. frame_ok x"
  shows "term_queue (Some Q) = Inr (True, xs)"
  using TerminateFinsQueue_ok [OF assms(1)] assms(2) free_frame_ok by (simp add: term_queue_def)

theorem term_queue_frees_all_witness:
  "term_queue (Some (CreateQueue 5)) = Inr (True, [])"
  using term_queue_frees_all [of "CreateQueue 5" "[]"] CreateQueue_rep [of 5] by simp

text \<open>
  C19: \<^verbatim>\<open>write_queue_front\<close> steps the front index down with \<^verbatim>\<open>%\<close>, which is negative for a negative operand: on
  a queue whose front is slot 0 and that is not full it writes in front of the array. Two calls on a fresh
  queue are enough.
\<close>

theorem write_queue_front_underflow:
  assumes "queue_rep Q xs" "q_Front Q = 0" "length xs < queue_cap Q"
  shows "write_queue_front x Q = Inl MemFault
    \<and> andThen (write_queue_front x (init_queue 5)) (\<lambda>(b, Q1). write_queue_front x Q1) = Inl MemFault"
proof
  note w = queue_repD [OF assms(1)]
  have "(- 1) smod q_Capacity Q = - 1"
    using w(1) by (simp add: signed_modulo_int_def signed_divide_int_def)
  with assms(2,3) w(4) show "write_queue_front x Q = Inl MemFault"
    by (simp add: write_queue_front_def EnqueueFront_def IsFull_def Prev_def array_set_def queue_cap_def Let_def)
  show "andThen (write_queue_front x (init_queue 5)) (\<lambda>(b, Q1). write_queue_front x Q1) = Inl MemFault"
    by (simp add: write_queue_front_def EnqueueFront_def IsFull_def Prev_def array_set_def init_queue_def
        CreateQueue_def MakeEmpty_def Let_def signed_modulo_int_def signed_divide_int_def)
qed

theorem write_queue_front_underflow_witness:
  "write_queue_front zeroFrame ((CreateQueue 5)\<lparr>q_Front := 0, q_Rear := 4\<rparr>) = Inl MemFault"
proof -
  have "queue_rep ((CreateQueue 5)\<lparr>q_Front := 0, q_Rear := 4\<rparr>) []"
    by (simp add: queue_rep_def CreateQueue_def MakeEmpty_def)
  from write_queue_front_underflow [OF this] show ?thesis by (simp add: queue_cap_def CreateQueue_def MakeEmpty_def)
qed

end
