(* ===== verification/Fins_Module.thy ===== *)
theory Fins_Module
  imports Fins_Queue
begin

text \<open>
  What every module of the stack shares, \<^verbatim>\<open>trunk/libs/data_structure/finsmodule.c\<close>: its queues to and from
  the switch, the table of links its flows are mapped to, sending a frame along a flow, replying to a control
  frame, and the parameters that read and write the table.

  The private data of a module starts with the table (\<^verbatim>\<open>(struct fins_module_table *) module->data\<close>); what
  follows is the type parameter. The field \<open>m_freed\<close> is a ghost: the frames passed to \<^verbatim>\<open>freeFinsFrame\<close>, in
  order. Semaphores protect the queues and are not modelled beyond their counts of events.
\<close>

section \<open>The module record\<close>

definition MAX_MODULES :: nat where "MAX_MODULES = 32"
definition MAX_QUEUE_SIZE :: int where "MAX_QUEUE_SIZE = 100000"
definition MAX_MOD_FLOWS :: nat where "MAX_MOD_FLOWS = 256"
definition LINK_NULL :: u32 where "LINK_NULL = 0"

definition MOD_READ_PARAM_FLOWS :: u32 where "MOD_READ_PARAM_FLOWS = 0"
definition MOD_READ_PARAM_LINKS :: u32 where "MOD_READ_PARAM_LINKS = 1"
definition MOD_READ_PARAM_DUAL :: u32 where "MOD_READ_PARAM_DUAL = 2"
definition MOD_SET_PARAM_FLOWS :: u32 where "MOD_SET_PARAM_FLOWS = 0"
definition MOD_SET_PARAM_LINKS :: u32 where "MOD_SET_PARAM_LINKS = 1"
definition MOD_SET_PARAM_DUAL :: u32 where "MOD_SET_PARAM_DUAL = 2"

datatype fins_module_state = FMS_FREE | FMS_INIT | FMS_RUNNING | FMS_PAUSED | FMS_SHUTDOWN

record 'md fins_module =
  m_flows_max :: u32
  m_state :: fins_module_state
  m_index :: u32
  m_id :: u32
  m_name :: string
  m_input_queue :: QueueRecord
  m_output_queue :: QueueRecord
  m_event_sem :: nat
  m_switch_sem :: nat
  m_knobs :: settings
  m_table :: fins_module_table
  m_freed :: "finsFrame list"
  m_data :: 'md

definition mod_id_test :: "'md fins_module \<Rightarrow> u32 \<Rightarrow> bool" where
  "mod_id_test m i \<longleftrightarrow> m_id m = i"

definition free_ff :: "finsFrame \<Rightarrow> 'md fins_module \<Rightarrow> 'md fins_module res" where
  "free_ff ff m = andThen (freeFinsFrame (Some ff)) (\<lambda>_. Inr (m\<lparr>m_freed := m_freed m @ [ff]\<rparr>))"

section \<open>Links\<close>

definition link_id_test :: "link_record \<Rightarrow> u32 \<Rightarrow> bool" where
  "link_id_test l i \<longleftrightarrow> lk_id l = i"

definition link_src_test :: "link_record \<Rightarrow> u32 \<Rightarrow> bool" where
  "link_src_test l index \<longleftrightarrow> lk_src_index l = index"

definition dsts_at :: "link_record \<Rightarrow> nat \<Rightarrow> u32 res" where
  "dsts_at l i = (if i < length (lk_dsts_index l) then Inr (lk_dsts_index l ! i) else Inl MemFault)"

fun involved_loop :: "link_record \<Rightarrow> u32 \<Rightarrow> nat list \<Rightarrow> bool res" where
  "involved_loop l index [] = Inr False"
| "involved_loop l index (i # is) =
    andThen (dsts_at l i) (\<lambda>d. if d = index then Inr True else involved_loop l index is)"

definition link_involved_test :: "link_record \<Rightarrow> u32 \<Rightarrow> bool res" where
  "link_involved_test l index =
    (if lk_src_index l = index then Inr True else involved_loop l index [0..<unat (lk_dsts_num l)])"

definition link_clone :: "link_record \<Rightarrow> link_record" where
  "link_clone l = l"

text \<open>\<^verbatim>\<open>list_find1(list, link_id_test, &id)\<close>; the list pointer may be NULL.\<close>

definition find_link :: "link_record list option \<Rightarrow> u32 \<Rightarrow> link_record option res" where
  "find_link ll i = (case ll of None \<Rightarrow> Inl MemFault | Some ls \<Rightarrow> Inr (find (\<lambda>l. link_id_test l i) ls))"

section \<open>Queues and replies\<close>

definition module_create_structs :: "'md fins_module \<Rightarrow> 'md fins_module" where
  "module_create_structs m =
    m\<lparr>m_input_queue := init_queue MAX_QUEUE_SIZE, m_output_queue := init_queue MAX_QUEUE_SIZE,
      m_event_sem := 0, m_knobs := metadata_create\<rparr>"

text \<open>\<^verbatim>\<open>module_destroy_structs\<close>: the frames still queued are freed.\<close>

definition module_destroy_structs :: "'md fins_module \<Rightarrow> 'md fins_module res" where
  "module_destroy_structs m =
    andThen (term_queue (Some (m_output_queue m))) (\<lambda>(ok1, r1).
    andThen (term_queue (Some (m_input_queue m))) (\<lambda>(ok2, r2).
      Inr (m\<lparr>m_freed := m_freed m @ r1 @ r2\<rparr>)))"

definition module_to_switch :: "'md fins_module \<Rightarrow> finsFrame \<Rightarrow> 'md fins_module res" where
  "module_to_switch m ff =
    andThen (write_queue ff (m_output_queue m)) (\<lambda>(ok, q).
      if ok then Inr (m\<lparr>m_output_queue := q, m_switch_sem := m_switch_sem m + 1\<rparr>)
      else Inl ExitFailure)"

definition reply_opcode :: "u16 \<Rightarrow> u16 res" where
  "reply_opcode op =
    (if op = CTRL_ALERT then Inr CTRL_ALERT_REPLY
     else if op = CTRL_READ_PARAM then Inr CTRL_READ_PARAM_REPLY
     else if op = CTRL_SET_PARAM then Inr CTRL_SET_PARAM_REPLY
     else if op = CTRL_EXEC then Inr CTRL_EXEC_REPLY
     else Inl ExitFailure)"

definition module_reply_fcf :: "'md fins_module \<Rightarrow> finsFrame \<Rightarrow> u32 \<Rightarrow> u32 \<Rightarrow> 'md fins_module res" where
  "module_reply_fcf m ff retv ret_msg =
    (case metaData ff of None \<Rightarrow> Inl MemFault
     | Some meta \<Rightarrow>
       andThen (secure_metadata_writeToElement meta ''ret_msg'' (DInt32 ret_msg)) (\<lambda>meta1.
       andThen (reply_opcode (opcode (ctrlFrame ff))) (\<lambda>op.
         module_to_switch m
           (ff\<lparr>metaData := Some meta1, destinationID := ucast (sender_id (ctrlFrame ff)),
               ctrlFrame := (ctrlFrame ff)\<lparr>sender_id := ucast (m_index m), opcode := op, ret_val := retv\<rparr>\<rparr>))))"

section \<open>Sending along a flow\<close>

fun send_clones :: "'md fins_module \<Rightarrow> finsFrame \<Rightarrow> link_record \<Rightarrow> nat list \<Rightarrow> 'md fins_module res" where
  "send_clones m ff link [] = Inr m"
| "send_clones m ff link (i # is) =
    andThen (cloneFinsFrame ff) (\<lambda>ff_clone.
    andThen (dsts_at link i) (\<lambda>dst.
    andThen (module_to_switch m (ff_clone\<lparr>destinationID := dst\<rparr>)) (\<lambda>m1.
      send_clones m1 ff link is)))"

definition module_send_flow :: "'md fins_module \<Rightarrow> finsFrame \<Rightarrow> u32 \<Rightarrow> (u32 \<times> 'md fins_module) res" where
  "module_send_flow m ff flow =
    (let mt = m_table m in
     if flow \<ge> mt_flows_num mt then Inr (0, m)
     else if unat flow \<ge> length (mt_flows mt) then Inl MemFault
     else let f = mt_flows mt ! unat flow in
     if fl_link_id f = LINK_NULL then Inr (0, m)
     else case fl_link f of None \<Rightarrow> Inr (0, m)
     | Some link \<Rightarrow>
       if lk_dsts_num link = 0 then Inr (0, m)
       else andThen (send_clones m ff link [1..<unat (lk_dsts_num link)]) (\<lambda>m1.
            andThen (dsts_at link 0) (\<lambda>dst.
            andThen (module_to_switch m1 (ff\<lparr>destinationID := dst\<rparr>)) (\<lambda>m2.
              Inr (lk_dsts_num link, m2)))))"

section \<open>The table parameters\<close>

text \<open>
  \<^verbatim>\<open>mt->flows[i] = ...\<close> for all \<^verbatim>\<open>i < flows_num\<close>; the array in the private data of a module has
  \<^verbatim>\<open>flows_max\<close> entries, the one in a \<^verbatim>\<open>struct fins_module_table\<close> of its own has \<^verbatim>\<open>MAX_MOD_FLOWS\<close>.
\<close>

fun resolve_flows ::
  "link_record list option \<Rightarrow> (nat \<Rightarrow> u32 res) \<Rightarrow> nat list \<Rightarrow> fins_module_flow list \<Rightarrow> fins_module_flow list res" where
  "resolve_flows ll idof [] flows = Inr flows"
| "resolve_flows ll idof (i # is) flows =
    (if i \<ge> length flows then Inl MemFault
     else andThen (idof i) (\<lambda>link_id.
          andThen (find_link ll link_id) (\<lambda>link.
            resolve_flows ll idof is (flows[i := \<lparr>fl_link_id = link_id, fl_link = link\<rparr>]))))"

definition flow_id_at :: "fins_module_flow list \<Rightarrow> nat \<Rightarrow> u32 res" where
  "flow_id_at flows i = (if i < length flows then Inr (fl_link_id (flows ! i)) else Inl MemFault)"

definition flows_of_data :: "ctrl_data \<Rightarrow> fins_module_flow list" where
  "flows_of_data d = (case d of CD_FLOWS fs \<Rightarrow> fs | _ \<Rightarrow> [])"

definition module_set_param_flows :: "'md fins_module \<Rightarrow> finsFrame \<Rightarrow> 'md fins_module res" where
  "module_set_param_flows m ff =
    (let mt = m_table m; n = data_len (ctrlFrame ff) in
     if m_flows_max m < n then free_ff ff m
     else andThen (resolve_flows (mt_link_list mt) (flow_id_at (flows_of_data (ctrl_dat (ctrlFrame ff))))
                     [0..<unat n] (mt_flows mt)) (\<lambda>flows.
          free_ff ff (m\<lparr>m_table := mt\<lparr>mt_flows_num := n, mt_flows := flows\<rparr>\<rparr>)))"

definition links_of_data :: "ctrl_data \<Rightarrow> link_record list option res" where
  "links_of_data d = (case d of CD_LINKS ls \<Rightarrow> Inr (Some ls) | CD_NULL \<Rightarrow> Inr None | _ \<Rightarrow> Inl MemFault)"

definition module_set_param_links :: "'md fins_module \<Rightarrow> finsFrame \<Rightarrow> 'md fins_module res" where
  "module_set_param_links m ff =
    (let mt = m_table m in
     if data_len (ctrlFrame ff) \<noteq> sizeof_linked_list then free_ff ff m
     else andThen (links_of_data (ctrl_dat (ctrlFrame ff))) (\<lambda>ll.
          andThen (resolve_flows ll (flow_id_at (mt_flows mt)) [0..<unat (mt_flows_num mt)] (mt_flows mt)) (\<lambda>flows.
            free_ff (ff\<lparr>ctrlFrame := (ctrlFrame ff)\<lparr>ctrl_dat := CD_NULL\<rparr>\<rparr>)
              (m\<lparr>m_table := mt\<lparr>mt_link_list := ll, mt_flows := flows\<rparr>\<rparr>))))"

definition module_set_param_dual :: "'md fins_module \<Rightarrow> finsFrame \<Rightarrow> 'md fins_module res" where
  "module_set_param_dual m ff =
    (let mt = m_table m in
     if data_len (ctrlFrame ff) \<noteq> sizeof_fins_module_table then free_ff ff m
     else case ctrl_dat (ctrlFrame ff) of
       CD_TABLE t \<Rightarrow>
         if m_flows_max m < mt_flows_num t \<or> mt_link_list t = None then free_ff ff m
         else let n = unat (mt_flows_num t) in
              if n > length (mt_flows mt) \<or> n > length (mt_flows t) then Inl MemFault
              else free_ff ff (m\<lparr>m_table := mt\<lparr>mt_link_list := mt_link_list t, mt_flows_num := mt_flows_num t,
                                 mt_flows := take n (mt_flows t) @ drop n (mt_flows mt)\<rparr>\<rparr>)
     | _ \<Rightarrow> Inl MemFault)"

definition module_read_param_flows :: "'md fins_module \<Rightarrow> finsFrame \<Rightarrow> 'md fins_module res" where
  "module_read_param_flows m ff =
    (let mt = m_table m; n = mt_flows_num mt in
     if n \<noteq> 0
     then if unat n > length (mt_flows mt) then Inl MemFault
          else module_reply_fcf m (ff\<lparr>ctrlFrame := (ctrlFrame ff)\<lparr>data_len := n,
                 ctrl_dat := CD_FLOWS (map (\<lambda>f. \<lparr>fl_link_id = fl_link_id f, fl_link = None\<rparr>) (take (unat n) (mt_flows mt)))\<rparr>\<rparr>)
                 FCF_TRUE 0
     else module_reply_fcf m (ff\<lparr>ctrlFrame := (ctrlFrame ff)\<lparr>data_len := n, ctrl_dat := CD_NULL\<rparr>\<rparr>) FCF_TRUE 0)"

definition module_read_param_links :: "'md fins_module \<Rightarrow> finsFrame \<Rightarrow> 'md fins_module res" where
  "module_read_param_links m ff =
    (case mt_link_list (m_table m) of
       Some ls \<Rightarrow> module_reply_fcf m (ff\<lparr>ctrlFrame := (ctrlFrame ff)\<lparr>data_len := sizeof_linked_list,
                   ctrl_dat := CD_LINKS (map link_clone ls)\<rparr>\<rparr>) FCF_TRUE 0
     | None \<Rightarrow> module_reply_fcf m (ff\<lparr>ctrlFrame := (ctrlFrame ff)\<lparr>data_len := 0, ctrl_dat := CD_NULL\<rparr>\<rparr>) FCF_TRUE 0)"

definition empty_flows :: "fins_module_flow list" where
  "empty_flows = replicate MAX_MOD_FLOWS \<lparr>fl_link_id = 0, fl_link = None\<rparr>"

definition module_read_param_dual :: "'md fins_module \<Rightarrow> finsFrame \<Rightarrow> 'md fins_module res" where
  "module_read_param_dual m ff =
    (let mt = m_table m; ll = map_option (map link_clone) (mt_link_list mt) in
     andThen (resolve_flows ll (flow_id_at (mt_flows mt)) [0..<unat (mt_flows_num mt)] empty_flows) (\<lambda>flows.
       module_reply_fcf m (ff\<lparr>ctrlFrame := (ctrlFrame ff)\<lparr>data_len := sizeof_fins_module_table,
         ctrl_dat := CD_TABLE \<lparr>mt_link_list = ll, mt_flows_num = mt_flows_num mt, mt_flows = flows\<rparr>\<rparr>\<rparr>) FCF_TRUE 0))"


section \<open>What an operation sends\<close>

text \<open>
  \<open>sent xs m fs m'\<close>: the output queue held \<open>xs\<close>, it now holds the frames \<open>fs\<close> behind them, the switch
  got one event per frame, and nothing else of the module changed.
\<close>

definition sent :: "finsFrame list \<Rightarrow> 'md fins_module \<Rightarrow> finsFrame list \<Rightarrow> 'md fins_module \<Rightarrow> bool" where
  "sent xs m fs m' \<longleftrightarrow> queue_rep (m_output_queue m) xs \<and> queue_rep (m_output_queue m') (xs @ fs)
     \<and> queue_cap (m_output_queue m') = queue_cap (m_output_queue m)
     \<and> m_switch_sem m' = m_switch_sem m + length fs
     \<and> m'\<lparr>m_output_queue := m_output_queue m, m_switch_sem := m_switch_sem m\<rparr> = m"

text \<open>\<open>quiet m m'\<close>: one frame was freed, nothing was sent, and at most the table changed.\<close>

definition quiet :: "'md fins_module \<Rightarrow> 'md fins_module \<Rightarrow> bool" where
  "quiet m m' \<longleftrightarrow> (\<exists>f t. m' = m\<lparr>m_table := t, m_freed := m_freed m @ [f]\<rparr>)"

text \<open>
  The destinations a flow leads to, those of its link; and a module whose table is in bounds for the flow, with the
  frames \<open>xs\<close> in its output queue and room for one more per destination.
\<close>

definition flow_dsts :: "fins_module_table \<Rightarrow> u32 \<Rightarrow> u32 list" where
  "flow_dsts mt flow =
    (if flow < mt_flows_num mt \<and> fl_link_id (mt_flows mt ! unat flow) \<noteq> LINK_NULL
     then case fl_link (mt_flows mt ! unat flow) of None \<Rightarrow> [] | Some l \<Rightarrow> take (unat (lk_dsts_num l)) (lk_dsts_index l)
     else [])"

definition flow_ready :: "'md fins_module \<Rightarrow> finsFrame list \<Rightarrow> u32 \<Rightarrow> bool" where
  "flow_ready m xs flow \<longleftrightarrow> queue_rep (m_output_queue m) xs \<and> length xs + length (flow_dsts (m_table m) flow) \<le> queue_cap (m_output_queue m)
     \<and> unat (mt_flows_num (m_table m)) \<le> length (mt_flows (m_table m))
     \<and> (flow < mt_flows_num (m_table m) \<longrightarrow> (case fl_link (mt_flows (m_table m) ! unat flow) of None \<Rightarrow> True
          | Some l \<Rightarrow> unat (lk_dsts_num l) \<le> length (lk_dsts_index l)))"

text \<open>A flow pointed at the first link with its identifier.\<close>

definition retarget :: "link_record list \<Rightarrow> fins_module_flow \<Rightarrow> fins_module_flow" where
  "retarget ls f = \<lparr>fl_link_id = fl_link_id f, fl_link = find (\<lambda>l. link_id_test l (fl_link_id f)) ls\<rparr>"

text \<open>
  A request to set the flows, the links or both that carries what its parameter announces, and the table after it: too
  many flows, data of the wrong size and a table without links leave it alone.
\<close>

definition table_request :: "'md fins_module \<Rightarrow> finsFrame \<Rightarrow> bool" where
  "table_request m ff \<longleftrightarrow> (let mt = m_table m; p = param_id (ctrlFrame ff); n = data_len (ctrlFrame ff) in
     length (mt_flows mt) = unat (m_flows_max m) \<and> mt_flows_num mt \<le> m_flows_max m
     \<and> (case ctrl_dat (ctrlFrame ff) of
          CD_FLOWS fs \<Rightarrow> p = MOD_SET_PARAM_FLOWS \<and> length fs = unat n \<and> (fs = [] \<or> m_flows_max m < n \<or> mt_link_list mt \<noteq> None)
        | CD_LINKS ls \<Rightarrow> p = MOD_SET_PARAM_LINKS
        | CD_TABLE t \<Rightarrow> p = MOD_SET_PARAM_DUAL \<and> unat (mt_flows_num t) \<le> length (mt_flows t)
        | _ \<Rightarrow> False))"

definition table_after :: "'md fins_module \<Rightarrow> finsFrame \<Rightarrow> fins_module_table" where
  "table_after m ff = (let mt = m_table m; k = unat (mt_flows_num mt); n = data_len (ctrlFrame ff) in
     case ctrl_dat (ctrlFrame ff) of
       CD_FLOWS fs \<Rightarrow> if m_flows_max m < n then mt
         else mt\<lparr>mt_flows_num := n, mt_flows := map (retarget (the (mt_link_list mt))) fs @ drop (length fs) (mt_flows mt)\<rparr>
     | CD_LINKS ls \<Rightarrow> if n \<noteq> sizeof_linked_list then mt
         else mt\<lparr>mt_link_list := Some ls, mt_flows := map (retarget ls) (take k (mt_flows mt)) @ drop k (mt_flows mt)\<rparr>
     | CD_TABLE t \<Rightarrow> if n \<noteq> sizeof_fins_module_table \<or> m_flows_max m < mt_flows_num t \<or> mt_link_list t = None then mt
         else \<lparr>mt_link_list = mt_link_list t, mt_flows_num = mt_flows_num t,
           mt_flows = take (unat (mt_flows_num t)) (mt_flows t) @ drop (unat (mt_flows_num t)) (mt_flows mt)\<rparr>
     | _ \<Rightarrow> mt)"

text \<open>The frame such a request leaves to free: the links now belong to the table.\<close>

definition request_left :: "finsFrame \<Rightarrow> finsFrame" where
  "request_left ff =
    (case ctrl_dat (ctrlFrame ff) of
       CD_LINKS ls \<Rightarrow> if data_len (ctrlFrame ff) = sizeof_linked_list then ff\<lparr>ctrlFrame := (ctrlFrame ff)\<lparr>ctrl_dat := CD_NULL\<rparr>\<rparr> else ff
     | _ \<Rightarrow> ff)"

text \<open>A running module with one flow to the modules 5 and 6, for the examples.\<close>

definition ex_link :: link_record where
  "ex_link = \<lparr>lk_id = 3, lk_src_index = 1, lk_dsts_num = 2, lk_dsts_index = [5, 6] @ replicate 30 0\<rparr>"

definition ex_table :: fins_module_table where
  "ex_table = \<lparr>mt_link_list = Some [ex_link], mt_flows_num = 1,
     mt_flows = \<lparr>fl_link_id = 3, fl_link = Some ex_link\<rparr> # replicate 3 \<lparr>fl_link_id = 0, fl_link = None\<rparr>\<rparr>"

definition ex_module :: "unit fins_module" where
  "ex_module = \<lparr>m_flows_max = 4, m_state = FMS_RUNNING, m_index = 1, m_id = 1, m_name = ''udp'',
     m_input_queue = CreateQueue 10, m_output_queue = CreateQueue 10, m_event_sem = 0, m_switch_sem = 0,
     m_knobs = [], m_table = ex_table, m_freed = [], m_data = ()\<rparr>"

definition ex_frame :: finsFrame where
  "ex_frame = zeroFrame\<lparr>dataOrCtrl := FF_DATA, metaData := Some [],
      dataFrame := \<lparr>directionFlag = DIR_DOWN, pduLength = 1, pdu = Some [9]\<rparr>\<rparr>"

lemma sent_refl: "queue_rep (m_output_queue m) xs \<Longrightarrow> sent xs m [] m"
  by (simp add: sent_def)

lemma sent_trans: "sent xs m fs m1 \<Longrightarrow> sent (xs @ fs) m1 gs m2 \<Longrightarrow> sent xs m (fs @ gs) m2"
  unfolding sent_def by (cases m; cases m1; cases m2) auto

lemma sent_fields:
  assumes "sent xs m fs m'"
  shows "m_table m' = m_table m" "m_freed m' = m_freed m" "m_data m' = m_data m" "m_index m' = m_index m"
    "m_state m' = m_state m" "m_flows_max m' = m_flows_max m" "m_input_queue m' = m_input_queue m"
    "m_event_sem m' = m_event_sem m"
  using assms unfolding sent_def
  by (metis fins_module.ext_inject fins_module.surjective fins_module.update_convs(7) fins_module.update_convs(9))+

lemma module_to_switch_ok:
  assumes "queue_rep (m_output_queue m) xs" "length xs < queue_cap (m_output_queue m)"
  shows "\<exists>m'. module_to_switch m ff = Inr m' \<and> sent xs m [ff] m'"
  using fins_queue.enq_law [OF assms, of ff] assms(1) by (auto simp: module_to_switch_def sent_def)

lemma send_clones_ok:
  assumes "queue_rep (m_output_queue m) xs" "length xs + length is \<le> queue_cap (m_output_queue m)"
    "frame_ok ff" "\<forall>i \<in> set is. i < length (lk_dsts_index link)"
  shows "\<exists>m'. send_clones m ff link is = Inr m'
    \<and> sent xs m (map (\<lambda>i. ff\<lparr>destinationID := lk_dsts_index link ! i\<rparr>) is) m'"
  using assms
proof (induction "is" arbitrary: m xs)
  case Nil
  then show ?case by (simp add: sent_refl)
next
  case (Cons i "is")
  let ?f = "ff\<lparr>destinationID := lk_dsts_index link ! i\<rparr>"
  obtain m1 where m1: "module_to_switch m ?f = Inr m1" "sent xs m [?f] m1"
    using module_to_switch_ok [OF Cons.prems(1)] Cons.prems(2) by fastforce
  have "queue_rep (m_output_queue m1) (xs @ [?f])" "length (xs @ [?f]) + length is \<le> queue_cap (m_output_queue m1)"
    using m1(2) Cons.prems(2) by (auto simp: sent_def)
  from Cons.IH [OF this Cons.prems(3)] Cons.prems(4) obtain m2 where
    "send_clones m1 ff link is = Inr m2"
    "sent (xs @ [?f]) m1 (map (\<lambda>i. ff\<lparr>destinationID := lk_dsts_index link ! i\<rparr>) is) m2" by auto
  with m1 sent_trans [OF m1(2)] Cons.prems(3,4) show ?case
    by (auto simp: clone_frame_ok dsts_at_def)
qed

lemma send_flow_none:
  assumes "\<not> (flow < mt_flows_num (m_table m) \<and> unat flow < length (mt_flows (m_table m))
     \<and> fl_link_id (mt_flows (m_table m) ! unat flow) \<noteq> LINK_NULL
     \<and> (\<exists>l. fl_link (mt_flows (m_table m) ! unat flow) = Some l \<and> lk_dsts_num l \<noteq> 0))"
    and "unat (mt_flows_num (m_table m)) \<le> length (mt_flows (m_table m))"
  shows "module_send_flow m ff flow = Inr (0, m)"
  using assms unfolding module_send_flow_def Let_def
  by (auto simp: word_less_nat_alt word_le_nat_alt split: option.splits)

lemma send_flow_ok:
  assumes q: "queue_rep (m_output_queue m) xs" "length xs + unat (lk_dsts_num l) \<le> queue_cap (m_output_queue m)"
    and ff: "unat (lk_dsts_num l) = 1 \<or> frame_ok ff"
    and flow: "flow < mt_flows_num (m_table m)" "unat (mt_flows_num (m_table m)) \<le> length (mt_flows (m_table m))"
      "fl_link_id (mt_flows (m_table m) ! unat flow) \<noteq> LINK_NULL"
      "fl_link (mt_flows (m_table m) ! unat flow) = Some l"
    and l: "lk_dsts_num l \<noteq> 0" "unat (lk_dsts_num l) \<le> length (lk_dsts_index l)"
  shows "\<exists>m'. module_send_flow m ff flow = Inr (lk_dsts_num l, m')
    \<and> sent xs m (map (\<lambda>i. ff\<lparr>destinationID := lk_dsts_index l ! i\<rparr>) ([1..<unat (lk_dsts_num l)] @ [0])) m'"
proof -
  let ?n = "unat (lk_dsts_num l)" and ?f = "\<lambda>i. ff\<lparr>destinationID := lk_dsts_index l ! i\<rparr>"
  have n: "0 < ?n" using l(1) by (simp add: unat_gt_0)
  have len: "length xs + length [1..<?n] \<le> queue_cap (m_output_queue m)" using q(2) by simp
  have dsts: "\<forall>i \<in> set [1..<?n]. i < length (lk_dsts_index l)" using l(2) by auto
  obtain m1 where m1: "send_clones m ff l [1..<?n] = Inr m1" "sent xs m (map ?f [1..<?n]) m1"
  proof (cases "?n = 1")
    case True
    then show thesis using that [of m] sent_refl [OF q(1)] by simp
  next
    case False
    then show thesis using that send_clones_ok [OF q(1) len _ dsts] ff by blast
  qed
  have "queue_rep (m_output_queue m1) (xs @ map ?f [1..<?n])"
      "length (xs @ map ?f [1..<?n]) < queue_cap (m_output_queue m1)"
    using m1(2) q(2) n by (auto simp: sent_def)
  from module_to_switch_ok [OF this, of "?f 0"] obtain m2 where
    m2: "module_to_switch m1 (?f 0) = Inr m2" "sent (xs @ map ?f [1..<?n]) m1 [?f 0] m2" by blast
  have "dsts_at l 0 = Inr (lk_dsts_index l ! 0)" using n l(2) by (auto simp: dsts_at_def)
  then have "module_send_flow m ff flow = Inr (lk_dsts_num l, m2)"
    using flow l(1) m1(1) m2(1) by (auto simp: module_send_flow_def Let_def word_less_nat_alt word_le_nat_alt)
  with sent_trans [OF m1(2) m2(2)] show ?thesis by simp
qed

text \<open>Sending along any flow.\<close>

lemma rotate1_nth: "0 < n \<Longrightarrow> n \<le> length xs \<Longrightarrow> rotate1 (take n xs) = map ((!) xs) ([1..<n] @ [0])"
proof -
  assume n: "0 < n" "n \<le> length xs"
  then obtain y ys where y: "take n xs = y # ys" by (cases "take n xs") auto
  have l: "n = Suc (length ys)" using arg_cong [OF y, of length] n by simp
  have at: "(y # ys) ! i = xs ! i" if "i < n" for i using y that nth_take [of i n xs] by simp
  have "ys ! i = xs ! Suc i" if "i < length ys" for i using at [of "Suc i"] that l by simp
  then have "ys = map ((!) xs) [1..<n]" by (intro nth_equalityI) (use l in \<open>auto simp del: upt_Suc\<close>)
  then show ?thesis using y at [of 0] n by simp
qed

lemma send_flow_dsts:
  assumes "flow_ready m xs flow" "length (flow_dsts (m_table m) flow) \<le> 1 \<or> frame_ok ff"
  shows "\<exists>m'. module_send_flow m ff flow = Inr (of_nat (length (flow_dsts (m_table m) flow)), m')
    \<and> sent xs m (map (\<lambda>d. ff\<lparr>destinationID := d\<rparr>) (rotate1 (flow_dsts (m_table m) flow))) m'
    \<and> (flow_dsts (m_table m) flow = [] \<longrightarrow> m' = m)"
proof (cases "flow_dsts (m_table m) flow")
  case Nil
  have t: "unat (mt_flows_num (m_table m)) \<le> length (mt_flows (m_table m))" "queue_rep (m_output_queue m) xs"
    using assms(1) by (simp_all add: flow_ready_def)
  have "\<not> (flow < mt_flows_num (m_table m) \<and> unat flow < length (mt_flows (m_table m))
     \<and> fl_link_id (mt_flows (m_table m) ! unat flow) \<noteq> LINK_NULL
     \<and> (\<exists>l. fl_link (mt_flows (m_table m) ! unat flow) = Some l \<and> lk_dsts_num l \<noteq> 0))"
    using Nil assms(1) by (auto simp: flow_dsts_def flow_ready_def unat_eq_zero)
  from send_flow_none [OF this t(1)] show ?thesis using Nil t(2) sent_refl by auto
next
  case (Cons d ds)
  then obtain l where l: "flow < mt_flows_num (m_table m)" "fl_link_id (mt_flows (m_table m) ! unat flow) \<noteq> LINK_NULL"
      "fl_link (mt_flows (m_table m) ! unat flow) = Some l" "flow_dsts (m_table m) flow = take (unat (lk_dsts_num l)) (lk_dsts_index l)"
    by (auto simp: flow_dsts_def split: if_splits option.splits)
  have r: "queue_rep (m_output_queue m) xs" "unat (mt_flows_num (m_table m)) \<le> length (mt_flows (m_table m))"
      "unat (lk_dsts_num l) \<le> length (lk_dsts_index l)" "length xs + unat (lk_dsts_num l) \<le> queue_cap (m_output_queue m)"
    using assms(1) l by (auto simp: flow_ready_def)
  have n: "0 < unat (lk_dsts_num l)" using Cons l(4) by (cases "unat (lk_dsts_num l)") auto
  then have nz: "lk_dsts_num l \<noteq> 0" by auto
  have ff: "unat (lk_dsts_num l) = 1 \<or> frame_ok ff" using assms(2) l(4) r(3) n by auto
  obtain m' where "module_send_flow m ff flow = Inr (lk_dsts_num l, m')"
      "sent xs m (map (\<lambda>i. ff\<lparr>destinationID := lk_dsts_index l ! i\<rparr>) ([1..<unat (lk_dsts_num l)] @ [0])) m'"
    using send_flow_ok [OF r(1,4) ff l(1) r(2) l(2,3) nz r(3)] by blast
  moreover have "map (\<lambda>d. ff\<lparr>destinationID := d\<rparr>) (rotate1 (flow_dsts (m_table m) flow))
      = map (\<lambda>i. ff\<lparr>destinationID := lk_dsts_index l ! i\<rparr>) ([1..<unat (lk_dsts_num l)] @ [0])"
    unfolding l(4) rotate1_nth [OF n r(3)] by simp
  moreover have "of_nat (length (flow_dsts (m_table m) flow)) = lk_dsts_num l" using l(4) r(3) by simp
  ultimately show ?thesis using Cons by auto
qed

lemma resolve_flows_ok:
  "k \<le> n \<Longrightarrow> n \<le> length flows \<Longrightarrow> \<forall>i < n. idof i = Inr (ids i) \<Longrightarrow>
    \<exists>fl. resolve_flows (Some ls) idof [k..<n] flows = Inr fl \<and> length fl = length flows
      \<and> (\<forall>i < length flows. fl ! i = (if k \<le> i \<and> i < n
            then \<lparr>fl_link_id = ids i, fl_link = find (\<lambda>l. link_id_test l (ids i)) ls\<rparr> else flows ! i))"
proof (induction "n - k" arbitrary: k flows)
  case 0
  then show ?case by auto
next
  case (Suc j)
  let ?fl = "flows[k := \<lparr>fl_link_id = ids k, fl_link = find (\<lambda>l. link_id_test l (ids k)) ls\<rparr>]"
  have "j = n - Suc k" "Suc k \<le> n" "n \<le> length ?fl" using Suc by auto
  from Suc.hyps(1) [OF this(1,2,3)] Suc.prems(3) obtain fl where
    fl: "resolve_flows (Some ls) idof [Suc k..<n] ?fl = Inr fl" "length fl = length ?fl"
      "\<forall>i < length ?fl. fl ! i = (if Suc k \<le> i \<and> i < n
         then \<lparr>fl_link_id = ids i, fl_link = find (\<lambda>l. link_id_test l (ids i)) ls\<rparr> else ?fl ! i)" by blast
  have "[k..<n] = k # [Suc k..<n]" using Suc.hyps(2) by (simp add: upt_conv_Cons)
  then have "resolve_flows (Some ls) idof [k..<n] flows = Inr fl"
    using fl(1) Suc by (auto simp: find_link_def)
  moreover have "\<forall>i < length flows. fl ! i = (if k \<le> i \<and> i < n
            then \<lparr>fl_link_id = ids i, fl_link = find (\<lambda>l. link_id_test l (ids i)) ls\<rparr> else flows ! i)"
    using fl(3) Suc.hyps(2) by (auto simp: nth_list_update not_less_eq_eq)
  ultimately show ?case using fl(2) by auto
qed

lemma free_ff_ctrl: "dataOrCtrl ff = FF_CONTROL \<or> dataOrCtrl ff = FF_DATA \<Longrightarrow> free_ff ff m = Inr (m\<lparr>m_freed := m_freed m @ [ff]\<rparr>)"
  by (auto simp: free_ff_def freeFinsFrame_def)

lemma ret_msg_valid: "config_validate_name ''ret_msg''"
  by code_simp


lemma reply_ok:
  assumes "queue_rep (m_output_queue m) xs" "length xs < queue_cap (m_output_queue m)"
    "metaData ff = Some meta" "meta_ok meta" "u32_key meta ''ret_msg''"
    "opcode (ctrlFrame ff) \<in> {CTRL_ALERT, CTRL_READ_PARAM, CTRL_SET_PARAM, CTRL_EXEC}"
  shows "\<exists>m' r. module_reply_fcf m ff v msg = Inr m' \<and> sent xs m [r] m'
    \<and> destinationID r = ucast (sender_id (ctrlFrame ff)) \<and> sender_id (ctrlFrame r) = ucast (m_index m)
    \<and> serial_num (ctrlFrame r) = serial_num (ctrlFrame ff) \<and> opcode (ctrlFrame r) = opcode (ctrlFrame ff) + 1
    \<and> ret_val (ctrlFrame r) = v \<and> secure_metadata_read_u32 (the (metaData r)) ''ret_msg'' = Inr msg"
proof -
  obtain meta1 where me: "put_u32 meta ''ret_msg'' msg = Inr meta1"
      "secure_metadata_read_u32 meta1 ''ret_msg'' = Inr msg"
    using meta_u32.put_law [OF assms(4,5), of msg] by blast
  have op: "reply_opcode (opcode (ctrlFrame ff)) = Inr (opcode (ctrlFrame ff) + 1)"
    using assms(6) by (auto simp: reply_opcode_def CTRL_defs)
  let ?r = "ff\<lparr>metaData := Some meta1, destinationID := ucast (sender_id (ctrlFrame ff)),
               ctrlFrame := (ctrlFrame ff)\<lparr>sender_id := ucast (m_index m), opcode := opcode (ctrlFrame ff) + 1, ret_val := v\<rparr>\<rparr>"
  obtain m' where "module_to_switch m ?r = Inr m'" "sent xs m [?r] m'"
    using module_to_switch_ok [OF assms(1,2)] by blast
  then show ?thesis using me op assms(3)
    by (intro exI [of _ m'] exI [of _ ?r]) (simp add: module_reply_fcf_def put_u32_def)
qed

lemma to_switch_sent:
  assumes "queue_rep (m_output_queue m) xs" "module_to_switch m ff = Inr m'"
  shows "sent xs m [ff] m'"
proof (cases "length xs < queue_cap (m_output_queue m)")
  case True
  then show ?thesis using module_to_switch_ok [OF assms(1) True, of ff] assms(2) by auto
next
  case False
  then show ?thesis using fins_queue.enq_full_law [OF assms(1), of ff] assms(2) by (simp add: module_to_switch_def)
qed

lemma reply_sent:
  assumes "queue_rep (m_output_queue m) xs" "module_reply_fcf m ff v msg = Inr m'"
  shows "\<exists>r. sent xs m [r] m'"
  using assms to_switch_sent [OF assms(1)]
  by (fastforce simp: module_reply_fcf_def andThen_eq_Inr split: option.splits)

lemma free_ff_quiet: "free_ff ff m = Inr m' \<Longrightarrow> quiet m m'"
  by (auto simp: free_ff_def andThen_eq_Inr quiet_def intro!: exI [of _ ff] exI [of _ "m_table m"])

lemma quiet_table: "quiet (m\<lparr>m_table := t\<rparr>) m' \<Longrightarrow> quiet m m'"
  by (simp add: quiet_def)

lemma set_param_quiet:
  "module_set_param_flows m ff = Inr m' \<Longrightarrow> quiet m m'"
  "module_set_param_links m ff = Inr m' \<Longrightarrow> quiet m m'"
  "module_set_param_dual m ff = Inr m' \<Longrightarrow> quiet m m'"
  by (auto simp: module_set_param_flows_def module_set_param_links_def module_set_param_dual_def Let_def andThen_eq_Inr
      dest!: free_ff_quiet dest: quiet_table split: if_splits ctrl_data.splits)

text \<open>What a well formed request to set the table does.\<close>

lemma resolve_retarget:
  assumes "n \<le> length fs" "n \<le> length flows"
  shows "resolve_flows (Some ls) (flow_id_at fs) [0..<n] flows = Inr (map (retarget ls) (take n fs) @ drop n flows)"
proof -
  obtain fl where fl: "resolve_flows (Some ls) (flow_id_at fs) [0..<n] flows = Inr fl" "length fl = length flows"
      "\<forall>i < length flows. fl ! i = (if 0 \<le> i \<and> i < n
         then \<lparr>fl_link_id = fl_link_id (fs ! i), fl_link = find (\<lambda>l. link_id_test l (fl_link_id (fs ! i))) ls\<rparr> else flows ! i)"
    using resolve_flows_ok [of 0 n flows "flow_id_at fs" "\<lambda>i. fl_link_id (fs ! i)" ls] assms by (auto simp: flow_id_at_def)
  have "fl = map (retarget ls) (take n fs) @ drop n flows"
    by (rule nth_equalityI) (use fl(2,3) assms in \<open>auto simp: nth_append retarget_def\<close>)
  then show ?thesis using fl(1) by simp
qed

lemma set_param_table:
  assumes "table_request m ff" "dataOrCtrl ff = FF_CONTROL"
  shows "param_id (ctrlFrame ff) = MOD_SET_PARAM_FLOWS \<Longrightarrow>
      module_set_param_flows m ff = Inr (m\<lparr>m_table := table_after m ff, m_freed := m_freed m @ [request_left ff]\<rparr>)"
    and "param_id (ctrlFrame ff) = MOD_SET_PARAM_LINKS \<Longrightarrow>
      module_set_param_links m ff = Inr (m\<lparr>m_table := table_after m ff, m_freed := m_freed m @ [request_left ff]\<rparr>)"
    and "param_id (ctrlFrame ff) = MOD_SET_PARAM_DUAL \<Longrightarrow>
      module_set_param_dual m ff = Inr (m\<lparr>m_table := table_after m ff, m_freed := m_freed m @ [request_left ff]\<rparr>)"
proof -
  note r = assms(1) [unfolded table_request_def Let_def]
  have len: "length (mt_flows (m_table m)) = unat (m_flows_max m)" "unat (mt_flows_num (m_table m)) \<le> length (mt_flows (m_table m))"
    using r by (simp_all add: word_le_nat_alt)
  have fr: "free_ff g x = Inr (x\<lparr>m_freed := m_freed x @ [g]\<rparr>)" if "dataOrCtrl g = FF_CONTROL" for g and x :: "'a fins_module"
    using that by (simp add: free_ff_ctrl)
  {
    assume p: "param_id (ctrlFrame ff) = MOD_SET_PARAM_FLOWS"
    then obtain fs where fs: "ctrl_dat (ctrlFrame ff) = CD_FLOWS fs" "length fs = unat (data_len (ctrlFrame ff))"
        "fs = [] \<or> m_flows_max m < data_len (ctrlFrame ff) \<or> mt_link_list (m_table m) \<noteq> None"
      using r by (auto simp: MOD_SET_PARAM_FLOWS_def MOD_SET_PARAM_LINKS_def MOD_SET_PARAM_DUAL_def split: ctrl_data.splits)
    show "module_set_param_flows m ff = Inr (m\<lparr>m_table := table_after m ff, m_freed := m_freed m @ [request_left ff]\<rparr>)"
    proof (cases "m_flows_max m < data_len (ctrlFrame ff)")
      case True
      then show ?thesis using fs(1) fr [OF assms(2)] by (simp add: module_set_param_flows_def table_after_def request_left_def)
    next
      case False
      then have n: "length fs \<le> length (mt_flows (m_table m))" using fs(2) len(1) by (simp add: word_less_nat_alt)
      have "resolve_flows (mt_link_list (m_table m)) (flow_id_at fs) [0..<unat (data_len (ctrlFrame ff))] (mt_flows (m_table m))
        = Inr (map (retarget (the (mt_link_list (m_table m)))) fs @ drop (length fs) (mt_flows (m_table m)))"
        using fs(2,3) False resolve_retarget [OF order_refl n] by (auto simp flip: fs(2))
      then show ?thesis using False fs(1) fr [OF assms(2)]
        by (simp add: module_set_param_flows_def table_after_def request_left_def flows_of_data_def Let_def)
    qed
  }
  {
    assume "param_id (ctrlFrame ff) = MOD_SET_PARAM_LINKS"
    then obtain ls where ls: "ctrl_dat (ctrlFrame ff) = CD_LINKS ls"
      using r by (auto simp: MOD_SET_PARAM_FLOWS_def MOD_SET_PARAM_LINKS_def MOD_SET_PARAM_DUAL_def split: ctrl_data.splits)
    then show "module_set_param_links m ff = Inr (m\<lparr>m_table := table_after m ff, m_freed := m_freed m @ [request_left ff]\<rparr>)"
      using resolve_retarget [OF len(2,2)] fr assms(2)
      by (simp add: module_set_param_links_def table_after_def request_left_def links_of_data_def Let_def)
  }
  {
    assume "param_id (ctrlFrame ff) = MOD_SET_PARAM_DUAL"
    then obtain t where t: "ctrl_dat (ctrlFrame ff) = CD_TABLE t" "unat (mt_flows_num t) \<le> length (mt_flows t)"
      using r by (auto simp: MOD_SET_PARAM_FLOWS_def MOD_SET_PARAM_LINKS_def MOD_SET_PARAM_DUAL_def split: ctrl_data.splits)
    show "module_set_param_dual m ff = Inr (m\<lparr>m_table := table_after m ff, m_freed := m_freed m @ [request_left ff]\<rparr>)"
      using t len(1) fr [OF assms(2)]
      by (auto simp: module_set_param_dual_def table_after_def request_left_def Let_def word_less_nat_alt)
  }
qed

text \<open>Flows that are set while the module has no links yet.\<close>

lemma set_flows_without_links:
  assumes "ctrl_dat (ctrlFrame ff) = CD_FLOWS fs" "fs \<noteq> []" "length fs = unat (data_len (ctrlFrame ff))"
    "data_len (ctrlFrame ff) \<le> m_flows_max m" "length (mt_flows (m_table m)) = unat (m_flows_max m)" "mt_link_list (m_table m) = None"
  shows "module_set_param_flows m ff = Inl MemFault"
proof -
  have n: "0 < unat (data_len (ctrlFrame ff))" "unat (data_len (ctrlFrame ff)) \<le> unat (m_flows_max m)"
    using assms(2-4) by (simp_all add: word_le_nat_alt flip: assms(3))
  then have "[0..<unat (data_len (ctrlFrame ff))] = 0 # [1..<unat (data_len (ctrlFrame ff))]" by (simp add: upt_conv_Cons)
  then show ?thesis using assms n
    by (auto simp: module_set_param_flows_def Let_def flows_of_data_def flow_id_at_def find_link_def word_le_nat_alt word_less_nat_alt)
qed

section \<open>The theorems\<close>

text \<open>
  C12: sending a frame along a flow puts exactly one copy of it per destination of the flow's link on the
  queue to the switch, equal to the frame but for the destination, the first destination last, and returns their
  number. Exactly when the flow has no destination (no such flow, no link, or an empty one) it returns 0; then
  nothing is sent and the module is as it was, so that the caller still owns the frame. Copies are only made for a
  flow of several destinations, and only then must the frame be well formed.
\<close>

theorem module_send_flow_copies:
  assumes "flow_ready m xs flow" "length (flow_dsts (m_table m) flow) \<le> 1 \<or> frame_ok ff"
  shows "\<exists>m'. module_send_flow m ff flow = Inr (of_nat (length (flow_dsts (m_table m) flow)), m')
    \<and> sent xs m (map (\<lambda>d. ff\<lparr>destinationID := d\<rparr>) (rotate1 (flow_dsts (m_table m) flow))) m'
    \<and> (flow_dsts (m_table m) flow = [] \<longrightarrow> m' = m)"
  using send_flow_dsts [OF assms] .

lemma ex_frame_ok: "frame_ok ex_frame"
  by (simp add: frame_ok_def ex_frame_def data_ok_def)

lemma ex_module_queue: "queue_rep (m_output_queue ex_module) []" "queue_cap (m_output_queue ex_module) = 10"
  by (simp_all add: ex_module_def CreateQueue_rep) (simp add: queue_cap_def CreateQueue_def MakeEmpty_def)

lemma ex_flow_dsts: "flow_dsts (m_table ex_module) 0 = [5, 6]" "flow_dsts (m_table ex_module) 1 = []"
  by (simp_all add: flow_dsts_def ex_module_def ex_table_def ex_link_def LINK_NULL_def)

lemma ex_flow_ready: "flow_ready ex_module [] 0" "flow_ready ex_module [] 1"
  unfolding flow_ready_def ex_flow_dsts using ex_module_queue by (simp_all add: ex_module_def ex_table_def ex_link_def)

theorem module_send_flow_copies_witness:
  "(\<exists>m'. module_send_flow ex_module ex_frame 0 = Inr (2, m')
      \<and> sent [] ex_module [ex_frame\<lparr>destinationID := 6\<rparr>, ex_frame\<lparr>destinationID := 5\<rparr>] m')
    \<and> module_send_flow ex_module ex_frame 1 = Inr (0, ex_module)"
  using module_send_flow_copies [OF ex_flow_ready(1), of ex_frame] module_send_flow_copies [OF ex_flow_ready(2), of ex_frame]
  by (simp add: ex_flow_dsts ex_frame_ok)

text \<open>
  C15: the reply to a control frame goes back to the module that sent it, from this module, with the reply
  opcode, the same serial number and the given result, and is the only frame sent.
\<close>

theorem module_reply_routes_back:
  assumes "queue_rep (m_output_queue m) xs" "length xs < queue_cap (m_output_queue m)"
    "metaData ff = Some meta" "meta_ok meta" "u32_key meta ''ret_msg''"
    "opcode (ctrlFrame ff) \<in> {CTRL_ALERT, CTRL_READ_PARAM, CTRL_SET_PARAM, CTRL_EXEC}"
  shows "\<exists>m' r. module_reply_fcf m ff v msg = Inr m' \<and> sent xs m [r] m'
    \<and> destinationID r = ucast (sender_id (ctrlFrame ff)) \<and> sender_id (ctrlFrame r) = ucast (m_index m)
    \<and> serial_num (ctrlFrame r) = serial_num (ctrlFrame ff) \<and> opcode (ctrlFrame r) = opcode (ctrlFrame ff) + 1
    \<and> ret_val (ctrlFrame r) = v \<and> secure_metadata_read_u32 (the (metaData r)) ''ret_msg'' = Inr msg"
  using reply_ok [OF assms] by blast

theorem module_reply_routes_back_witness:
  "\<exists>m' r. module_reply_fcf ex_module (zeroFrame\<lparr>metaData := Some [], ctrlFrame := (ctrlFrame zeroFrame)\<lparr>sender_id := 7\<rparr>\<rparr>) 1 5 = Inr m'
    \<and> sent [] ex_module [r] m' \<and> destinationID r = 7"
  using module_reply_routes_back [of ex_module "[]" "zeroFrame\<lparr>metaData := Some [], ctrlFrame := (ctrlFrame zeroFrame)\<lparr>sender_id := 7\<rparr>\<rparr>" "[]" 1 5]
    ex_module_queue ret_msg_valid by (auto simp: u32_key_def zeroFrame_def CTRL_defs)

end
