(* ===== verification/Switch_Module.thy ===== *)
theory Switch_Module
  imports Fins_Module "HOL-Library.Multiset"
begin

text \<open>
  The switch, \<^verbatim>\<open>trunk/modules/switch/switch.c\<close>: the thread that moves frames from the output queue of every
  module to the input queue of the module they are addressed to, and the frames addressed to the switch itself.

  The array \<^verbatim>\<open>overall->modules\<close> is a list of \<^verbatim>\<open>MAX_MODULES\<close> entries, the switch being the module at index
  \<open>self\<close>; reading it outside its bounds is a \<open>MemFault\<close>. The semaphore \<^verbatim>\<open>event_sem\<close> of the switch, which every
  module posts (\<^verbatim>\<open>global_switch_event_sem\<close>), is the difference between the posts of the modules and the ghost
  count \<open>ov_waits\<close> of the waits of the switch. The ghost \<open>ov_dropped\<close> lists the frames the loop frees.
\<close>

section \<open>Frames addressed to the switch\<close>

definition SWITCH_MAX_FLOWS :: u32 where "SWITCH_MAX_FLOWS = 0"

definition switch_set_param :: "'md fins_module \<Rightarrow> finsFrame \<Rightarrow> 'md fins_module res" where
  "switch_set_param m ff =
    (let p = param_id (ctrlFrame ff) in
     if p = MOD_SET_PARAM_FLOWS then module_set_param_flows m ff
     else if p = MOD_SET_PARAM_LINKS then module_set_param_links m ff
     else if p = MOD_SET_PARAM_DUAL then module_set_param_dual m ff
     else module_reply_fcf m ff FCF_FALSE 0)"

definition switch_fcf :: "'md fins_module \<Rightarrow> finsFrame \<Rightarrow> 'md fins_module res" where
  "switch_fcf m ff =
    (let op = opcode (ctrlFrame ff) in
     if op = CTRL_ALERT then module_reply_fcf m ff FCF_FALSE 0
     else if op = CTRL_ALERT_REPLY then free_ff ff m
     else if op = CTRL_READ_PARAM then module_reply_fcf m ff FCF_FALSE 0
     else if op = CTRL_READ_PARAM_REPLY then free_ff ff m
     else if op = CTRL_SET_PARAM then switch_set_param m ff
     else if op = CTRL_SET_PARAM_REPLY then free_ff ff m
     else if op = CTRL_EXEC then module_reply_fcf m ff FCF_FALSE 0
     else if op = CTRL_EXEC_REPLY then free_ff ff m
     else if op = CTRL_ERROR then free_ff ff m
     else Inl ExitFailure)"

definition switch_process_ff :: "'md fins_module \<Rightarrow> finsFrame \<Rightarrow> 'md fins_module res" where
  "switch_process_ff m ff =
    (if metaData ff = None then Inl ExitFailure
     else if dataOrCtrl ff = FF_CONTROL then switch_fcf m ff
     else if dataOrCtrl ff = FF_DATA then
       (if directionFlag (dataFrame ff) = DIR_UP then free_ff ff m
        else if directionFlag (dataFrame ff) = DIR_DOWN then free_ff ff m
        else Inl ExitFailure)
     else Inl ExitFailure)"

section \<open>The loop\<close>

record 'md fins_overall =
  ov_modules :: "'md fins_module option list"
  ov_dropped :: "finsFrame list"
  ov_waits :: nat

definition modules_at :: "'md fins_overall \<Rightarrow> nat \<Rightarrow> 'md fins_module option res" where
  "modules_at ov i = (if i < length (ov_modules ov) then Inr (ov_modules ov ! i) else Inl MemFault)"

definition modules_put :: "nat \<Rightarrow> 'md fins_module \<Rightarrow> 'md fins_overall \<Rightarrow> 'md fins_overall" where
  "modules_put i m ov = ov\<lparr>ov_modules := (ov_modules ov)[i := Some m]\<rparr>"

text \<open>\<^verbatim>\<open>freeFinsFrame(ff)\<close> in the loop.\<close>

definition drop_ff :: "finsFrame \<Rightarrow> 'md fins_overall \<Rightarrow> 'md fins_overall res" where
  "drop_ff ff ov = andThen (freeFinsFrame (Some ff)) (\<lambda>_. Inr (ov\<lparr>ov_dropped := ov_dropped ov @ [ff]\<rparr>))"

text \<open>What the loop does with a frame it took from an output queue.\<close>

definition switch_dispatch :: "u32 \<Rightarrow> finsFrame \<Rightarrow> 'md fins_overall \<Rightarrow> 'md fins_overall res" where
  "switch_dispatch self ff ov =
    (if unat (destinationID ff) > MAX_MODULES then drop_ff ff ov
     else andThen (modules_at ov (unat (destinationID ff))) (\<lambda>dst.
       case dst of
         None \<Rightarrow> drop_ff ff ov
       | Some m \<Rightarrow>
           if destinationID ff = self
           then andThen (switch_process_ff m ff) (\<lambda>m1. Inr (modules_put (unat (destinationID ff)) m1 ov))
           else andThen (write_queue ff (m_input_queue m)) (\<lambda>(ok, q).
             if ok then Inr (modules_put (unat (destinationID ff))
                              (m\<lparr>m_input_queue := q, m_event_sem := m_event_sem m + 1\<rparr>) ov)
             else drop_ff ff ov)))"

text \<open>The body of the \<^verbatim>\<open>for\<close> loop for one source module.\<close>

definition switch_visit :: "u32 \<Rightarrow> nat \<Rightarrow> 'md fins_overall \<Rightarrow> 'md fins_overall res" where
  "switch_visit self i ov =
    andThen (modules_at ov i) (\<lambda>src.
      case src of
        None \<Rightarrow> Inr ov
      | Some m \<Rightarrow>
          if IsEmpty (m_output_queue m) then Inr ov
          else andThen (read_queue (m_output_queue m)) (\<lambda>(x, q).
            case x of
              None \<Rightarrow> Inl MemFault
            | Some ff \<Rightarrow> switch_dispatch self ff (modules_put i (m\<lparr>m_output_queue := q\<rparr>) ov)))"

fun switch_visits :: "u32 \<Rightarrow> nat list \<Rightarrow> 'md fins_overall \<Rightarrow> 'md fins_overall res" where
  "switch_visits self [] ov = Inr ov"
| "switch_visits self (i # is) ov = andThen (switch_visit self i ov) (switch_visits self is)"

definition switch_pass :: "u32 \<Rightarrow> 'md fins_overall \<Rightarrow> 'md fins_overall res" where
  "switch_pass self ov = switch_visits self [0..<MAX_MODULES] ov"

definition switch_posts :: "'md fins_overall \<Rightarrow> nat" where
  "switch_posts ov = sum_list (map (\<lambda>x. case x of None \<Rightarrow> 0 | Some m \<Rightarrow> m_switch_sem m) (ov_modules ov))"

definition own_event :: "u32 \<Rightarrow> 'md fins_overall \<Rightarrow> nat" where
  "own_event self ov = (case ov_modules ov ! unat self of None \<Rightarrow> 0 | Some sw \<Rightarrow> m_event_sem sw)"

text \<open>The value of \<^verbatim>\<open>module->event_sem\<close> of the switch.\<close>

definition switch_events :: "u32 \<Rightarrow> 'md fins_overall \<Rightarrow> nat" where
  "switch_events self ov = switch_posts ov + own_event self ov - ov_waits ov"

text \<open>
  \<^verbatim>\<open>switch_loop\<close> without interference: it leaves the loop when the switch is not running, it blocks when no event
  is pending, and \<open>LoopOn\<close> says that the iterations given were not enough.
\<close>

datatype 'o loop_end = LoopExit 'o | LoopBlocked 'o | LoopOn 'o

fun switch_loop :: "nat \<Rightarrow> u32 \<Rightarrow> 'md fins_overall \<Rightarrow> 'md fins_overall loop_end res" where
  "switch_loop 0 self ov = Inr (LoopOn ov)"
| "switch_loop (Suc n) self ov =
    andThen (modules_at ov (unat self)) (\<lambda>sw.
      case sw of None \<Rightarrow> Inl MemFault
      | Some m \<Rightarrow>
          if m_state m \<noteq> FMS_RUNNING then Inr (LoopExit ov)
          else if switch_events self ov = 0 then Inr (LoopBlocked ov)
          else andThen (switch_pass self (ov\<lparr>ov_waits := ov_waits ov + 1\<rparr>)) (switch_loop n self))"

section \<open>Life cycle and registration\<close>

text \<open>\<^verbatim>\<open>switch_create\<close> fills in the cleared memory \<open>m\<close> of the module.\<close>

definition switch_create :: "u32 \<Rightarrow> u32 \<Rightarrow> string \<Rightarrow> 'md fins_module \<Rightarrow> 'md fins_module" where
  "switch_create index i name m =
    m\<lparr>m_flows_max := SWITCH_MAX_FLOWS, m_state := FMS_FREE, m_index := index, m_id := i, m_name := name\<rparr>"

definition switch_init :: "'md fins_module \<Rightarrow> 'md fins_module" where
  "switch_init m = (module_create_structs (m\<lparr>m_state := FMS_INIT\<rparr>))
     \<lparr>m_table := \<lparr>mt_link_list = None, mt_flows_num = 0, mt_flows = []\<rparr>\<rparr>"

definition switch_run :: "'md fins_module \<Rightarrow> 'md fins_module" where
  "switch_run m = m\<lparr>m_state := FMS_RUNNING\<rparr>"

definition switch_pause :: "'md fins_module \<Rightarrow> 'md fins_module" where
  "switch_pause m = m\<lparr>m_state := FMS_PAUSED\<rparr>"

definition switch_unpause :: "'md fins_module \<Rightarrow> 'md fins_module" where
  "switch_unpause m = m\<lparr>m_state := FMS_RUNNING\<rparr>"

definition switch_shutdown :: "'md fins_module \<Rightarrow> 'md fins_module" where
  "switch_shutdown m = m\<lparr>m_state := FMS_SHUTDOWN, m_event_sem := m_event_sem m + 1\<rparr>"

definition switch_release :: "'md fins_module \<Rightarrow> 'md fins_module res" where
  "switch_release m = module_destroy_structs (m\<lparr>m_table := (m_table m)\<lparr>mt_link_list := None\<rparr>\<rparr>)"

definition switch_register_module ::
  "'md fins_module option list \<Rightarrow> 'md fins_module \<Rightarrow> (int \<times> 'md fins_module option list) res" where
  "switch_register_module mods new_mod =
    (if unat (m_index new_mod) \<ge> MAX_MODULES then Inr (- 1, mods)
     else if unat (m_index new_mod) \<ge> length mods then Inl MemFault
     else Inr (0, mods[unat (m_index new_mod) := Some new_mod]))"

definition switch_unregister_module ::
  "'md fins_module option list \<Rightarrow> int \<Rightarrow> (int \<times> 'md fins_module option list) res" where
  "switch_unregister_module mods index =
    (if index < 0 \<or> index > int MAX_MODULES then Inr (0, mods)
     else if nat index \<ge> length mods then Inl MemFault
     else Inr (1, mods[nat index := None]))"

section \<open>Specification\<close>

text \<open>
  A port is a module as the switch sees it: the frames waiting to be taken from it and those waiting to be read
  by it. The specification routes the first frame of a port: to the end of the addressed port while that has
  room, and otherwise to the list of dropped frames.
\<close>

type_synonym port = "finsFrame list \<times> finsFrame list"

definition spec_route :: "nat \<Rightarrow> finsFrame \<Rightarrow> port option list \<times> finsFrame list \<Rightarrow> port option list \<times> finsFrame list" where
  "spec_route c f s =
    (case s of (ps, dr) \<Rightarrow> let d = unat (destinationID f) in
       if d < length ps
       then (case ps ! d of None \<Rightarrow> (ps, dr @ [f])
             | Some (os, is) \<Rightarrow> if length is < c then (ps[d := Some (os, is @ [f])], dr) else (ps, dr @ [f]))
       else (ps, dr @ [f]))"

definition spec_visit :: "nat \<Rightarrow> nat \<Rightarrow> port option list \<times> finsFrame list \<Rightarrow> port option list \<times> finsFrame list" where
  "spec_visit c i s =
    (case s of (ps, dr) \<Rightarrow>
       (case ps ! i of Some (f # os, is) \<Rightarrow> spec_route c f (ps[i := Some (os, is)], dr) | _ \<Rightarrow> (ps, dr)))"

definition spec_pass :: "nat \<Rightarrow> port option list \<times> finsFrame list \<Rightarrow> port option list \<times> finsFrame list" where
  "spec_pass c s = fold (spec_visit c) [0..<MAX_MODULES] s"

definition port_frames :: "port option \<Rightarrow> finsFrame multiset" where
  "port_frames p = (case p of None \<Rightarrow> {#} | Some (os, is) \<Rightarrow> mset os + mset is)"

definition all_frames :: "port option list \<times> finsFrame list \<Rightarrow> finsFrame multiset" where
  "all_frames s = (case s of (ps, dr) \<Rightarrow> sum_list (map port_frames ps) + mset dr)"

definition waiting :: "port option \<Rightarrow> finsFrame list" where
  "waiting p = (case p of None \<Rightarrow> [] | Some (os, is) \<Rightarrow> os)"

definition port_rel :: "nat \<Rightarrow> 'md fins_module \<Rightarrow> port \<Rightarrow> bool" where
  "port_rel c m p \<longleftrightarrow> queue_rep (m_output_queue m) (fst p) \<and> queue_rep (m_input_queue m) (snd p)
     \<and> queue_cap (m_input_queue m) = c"

definition ports :: "nat \<Rightarrow> 'md fins_overall \<Rightarrow> port option list \<Rightarrow> bool" where
  "ports c ov ps \<longleftrightarrow> list_all2 (rel_option (port_rel c)) (ov_modules ov) ps"

text \<open>
  A data or control frame that is not for the switch itself; one addressed to the index one past the array; and a frame
  the switch can route, which is the first but not the second.
\<close>

definition addressed :: "u32 \<Rightarrow> finsFrame \<Rightarrow> bool" where
  "addressed self f \<longleftrightarrow> destinationID f \<noteq> self \<and> (dataOrCtrl f = FF_CONTROL \<or> dataOrCtrl f = FF_DATA)"

definition past_end :: "finsFrame \<Rightarrow> bool" where
  "past_end f \<longleftrightarrow> unat (destinationID f) = MAX_MODULES"

definition routable :: "u32 \<Rightarrow> finsFrame \<Rightarrow> bool" where
  "routable self f \<longleftrightarrow> addressed self f \<and> \<not> past_end f"

definition all_waiting :: "port option list \<Rightarrow> finsFrame set" where
  "all_waiting ps = (\<Union>p \<in> set ps. set (waiting p))"

text \<open>The first frame of a port, which the next iteration takes.\<close>

definition firsts :: "port option \<Rightarrow> finsFrame list" where
  "firsts p = take 1 (waiting p)"

text \<open>What routing leaves alone.\<close>

definition same_posts :: "u32 \<Rightarrow> 'md fins_overall \<Rightarrow> 'md fins_overall \<Rightarrow> bool" where
  "same_posts self ov ov' \<longleftrightarrow> ov_waits ov' = ov_waits ov
     \<and> map_option m_event_sem (ov_modules ov' ! unat self) = map_option m_event_sem (ov_modules ov ! unat self)
     \<and> map (map_option (\<lambda>m. (m_switch_sem m, m_state m))) (ov_modules ov')
       = map (map_option (\<lambda>m. (m_switch_sem m, m_state m))) (ov_modules ov)"

section \<open>The system\<close>

text \<open>
  The switch among the modules: a module sends a frame or takes one from its input queue after waiting for an
  event, the switch makes an iteration of its loop when it is running and has an event, or is told to shut down.
\<close>

inductive switch_sys :: "u32 \<Rightarrow> 'md fins_overall \<Rightarrow> 'md fins_overall \<Rightarrow> bool" for self where
  send: "i < length (ov_modules ov) \<Longrightarrow> ov_modules ov ! i = Some m \<Longrightarrow> module_to_switch m ff = Inr m'
    \<Longrightarrow> switch_sys self ov (modules_put i m' ov)"
| recv: "i < length (ov_modules ov) \<Longrightarrow> ov_modules ov ! i = Some m \<Longrightarrow> i \<noteq> unat self \<Longrightarrow> 0 < m_event_sem m
    \<Longrightarrow> read_queue (m_input_queue m) = Inr (x, q)
    \<Longrightarrow> switch_sys self ov (modules_put i (m\<lparr>m_input_queue := q, m_event_sem := m_event_sem m - 1\<rparr>) ov)"
| loop: "modules_at ov (unat self) = Inr (Some sw) \<Longrightarrow> m_state sw = FMS_RUNNING \<Longrightarrow> 0 < switch_events self ov
    \<Longrightarrow> switch_pass self (ov\<lparr>ov_waits := ov_waits ov + 1\<rparr>) = Inr ov'
    \<Longrightarrow> switch_sys self ov ov'"
| shutdown: "modules_at ov (unat self) = Inr (Some sw)
    \<Longrightarrow> switch_sys self ov (modules_put (unat self) (switch_shutdown sw) ov)"

definition switch_start :: "'md fins_overall \<Rightarrow> bool" where
  "switch_start ov \<longleftrightarrow> ov_waits ov = 0 \<and> (\<forall>m. Some m \<in> set (ov_modules ov) \<longrightarrow>
     queue_rep (m_output_queue m) [] \<and> queue_rep (m_input_queue m) [])"

text \<open>No wake-up is lost: every queued frame has an event that has not been waited for.\<close>

definition frames_out :: "'md fins_module option \<Rightarrow> nat" where
  "frames_out x = (case x of None \<Rightarrow> 0 | Some m \<Rightarrow> nat (q_Size (m_output_queue m)))"

definition queues_ok :: "'md fins_module \<Rightarrow> bool" where
  "queues_ok m \<longleftrightarrow> (\<exists>xs. queue_rep (m_output_queue m) xs) \<and> (\<exists>ys. queue_rep (m_input_queue m) ys)"

definition wake_core :: "u32 \<Rightarrow> 'md fins_overall \<Rightarrow> bool" where
  "wake_core self ov \<longleftrightarrow> length (ov_modules ov) = MAX_MODULES \<and> unat self < MAX_MODULES
     \<and> (\<forall>i < MAX_MODULES. \<forall>m. ov_modules ov ! i = Some m \<longrightarrow>
          queues_ok m \<and> (i \<noteq> unat self \<longrightarrow> nat (q_Size (m_input_queue m)) \<le> m_event_sem m))"

definition queued :: "'md fins_overall \<Rightarrow> nat" where
  "queued ov = sum_list (map frames_out (ov_modules ov))"

definition wake_inv :: "u32 \<Rightarrow> 'md fins_overall \<Rightarrow> bool" where
  "wake_inv self ov \<longleftrightarrow> wake_core self ov \<and> ov_waits ov + queued ov \<le> switch_posts ov + own_event self ov"

text \<open>What a part of the loop may do to the counts: every frame it queues for the switch comes with an event.\<close>

definition balanced :: "u32 \<Rightarrow> 'md fins_overall \<Rightarrow> 'md fins_overall \<Rightarrow> bool" where
  "balanced self ov ov' \<longleftrightarrow> wake_core self ov' \<and> ov_waits ov' = ov_waits ov \<and> own_event self ov' = own_event self ov
     \<and> queued ov' + switch_posts ov = queued ov + switch_posts ov'
     \<and> (\<forall>j < MAX_MODULES. frames_out (ov_modules ov ! j) \<le> frames_out (ov_modules ov' ! j))"

text \<open>A system of the switch at index 0 and a module at index 1, for the examples.\<close>

definition ex_overall :: "unit fins_overall" where
  "ex_overall = \<lparr>ov_modules = [Some (ex_module\<lparr>m_index := 0\<rparr>), Some ex_module] @ replicate 30 None,
     ov_dropped = [], ov_waits = 0\<rparr>"

definition ex_system :: "unit fins_module \<Rightarrow> unit fins_module \<Rightarrow> unit fins_overall" where
  "ex_system m1 m2 = \<lparr>ov_modules = [Some (ex_module\<lparr>m_index := 0\<rparr>), Some m1, Some m2] @ replicate 29 None,
     ov_dropped = [], ov_waits = 0\<rparr>"

section \<open>Routing\<close>

lemma sum_list_update_add:
  fixes f :: "'a \<Rightarrow> 'b :: comm_monoid_add"
  assumes "i < length xs"
  shows "sum_list (map f (xs[i := x])) + f (xs ! i) = sum_list (map f xs) + f x"
  using assms by (induction xs arbitrary: i) (auto simp: ac_simps nth_Cons split: nat.splits)

lemma port_frames_simps [simp]: "port_frames None = {#}" "port_frames (Some (os, is)) = mset os + mset is"
  by (simp_all add: port_frames_def)

lemma waiting_simps [simp]: "waiting None = []" "waiting (Some (os, is)) = os"
  by (simp_all add: waiting_def)

lemma all_frames_update:
  assumes "d < length ps"
  shows "all_frames (ps[d := p], dr) + port_frames (ps ! d) = all_frames (ps, dr) + port_frames p"
  using sum_list_update_add [OF assms, of port_frames p] by (simp add: all_frames_def ac_simps)

text \<open>Routing a frame adds it to the frames of the system and leaves the other frames waiting.\<close>

lemma spec_route_adds: "all_frames (spec_route c f s) = add_mset f (all_frames s)"
proof (cases s)
  case (Pair ps dr)
  show ?thesis
  proof (cases "unat (destinationID f) < length ps \<and> (\<exists>os is. ps ! unat (destinationID f) = Some (os, is) \<and> length is < c)")
    case True
    then obtain os ys where "ps ! unat (destinationID f) = Some (os, ys)" "length ys < c" by blast
    then show ?thesis using True Pair all_frames_update [of "unat (destinationID f)" ps "Some (os, ys @ [f])" dr]
      by (simp add: spec_route_def Let_def)
  next
    case False
    then have "spec_route c f s = (ps, dr @ [f])"
      using Pair by (auto simp: spec_route_def Let_def split: option.splits)
    then show ?thesis using Pair by (simp add: all_frames_def)
  qed
qed

lemma spec_visit_conserves: "i < length (fst s) \<Longrightarrow> all_frames (spec_visit c i s) = all_frames s"
proof (cases s)
  case (Pair ps dr)
  assume i: "i < length (fst s)"
  show ?thesis
  proof (cases "\<exists>f os is. ps ! i = Some (f # os, is)")
    case True
    then obtain f os ys where p: "ps ! i = Some (f # os, ys)" by blast
    have "i < length ps" using i Pair by simp
    from all_frames_update [OF this, of "Some (os, ys)" dr] p Pair show ?thesis
      by (simp add: spec_visit_def spec_route_adds)
  next
    case False
    then show ?thesis using Pair by (auto simp: spec_visit_def split: option.splits list.splits)
  qed
qed

lemma spec_route_waiting: "map waiting (fst (spec_route c f (ps, dr))) = map waiting ps"
  by (auto simp: spec_route_def Let_def map_update waiting_def list_update_same_conv split: option.splits)

lemma spec_visit_waiting:
  assumes "i < length ps"
  shows "map waiting (fst (spec_visit c i (ps, dr))) = (map waiting ps)[i := tl (waiting (ps ! i))]"
proof (cases "ps ! i")
  case None
  then show ?thesis using assms list_update_id [of "map waiting ps" i] by (simp add: spec_visit_def)
next
  case (Some p)
  then show ?thesis using assms list_update_id [of "map waiting ps" i]
    by (cases p; cases "fst p") (simp_all add: spec_visit_def spec_route_waiting map_update)
qed

lemma ports_length: "ports c ov ps \<Longrightarrow> length ps = length (ov_modules ov)"
  by (simp add: ports_def list_all2_lengthD)

lemma ports_nth: "ports c ov ps \<Longrightarrow> i < length ps \<Longrightarrow> rel_option (port_rel c) (ov_modules ov ! i) (ps ! i)"
  unfolding ports_def by (metis list_all2_nthD2)

lemma ports_put:
  "ports c ov ps \<Longrightarrow> port_rel c m p \<Longrightarrow> ports c (modules_put i m ov) (ps[i := Some p])"
  unfolding ports_def modules_put_def by (simp add: list_all2_update_cong)

lemma drop_ff_ok: "dataOrCtrl f = FF_CONTROL \<or> dataOrCtrl f = FF_DATA
    \<Longrightarrow> drop_ff f ov = Inr (ov\<lparr>ov_dropped := ov_dropped ov @ [f]\<rparr>)"
  by (auto simp: drop_ff_def freeFinsFrame_def)


lemma same_posts_trans: "same_posts self ov ov1 \<Longrightarrow> same_posts self ov1 ov2 \<Longrightarrow> same_posts self ov ov2"
  by (simp add: same_posts_def)

lemma same_posts_put:
  assumes "i < length (ov_modules ov)" "ov_modules ov ! i = Some m" "m_switch_sem m' = m_switch_sem m" "m_state m' = m_state m"
    "i = unat self \<Longrightarrow> m_event_sem m' = m_event_sem m"
  shows "same_posts self ov (modules_put i m' ov)"
  using assms by (auto simp: same_posts_def modules_put_def list_eq_iff_nth_eq nth_list_update)

lemma dispatch_routes:
  assumes p: "ports c ov ps" "length ps = MAX_MODULES" and r: "routable self f"
  shows "\<exists>ov'. switch_dispatch self f ov = Inr ov' \<and> ports c ov' (fst (spec_route c f (ps, ov_dropped ov)))
    \<and> ov_dropped ov' = snd (spec_route c f (ps, ov_dropped ov)) \<and> same_posts self ov ov'"
proof -
  let ?d = "unat (destinationID f)"
  have len: "length (ov_modules ov) = MAX_MODULES" using ports_length [OF p(1)] p(2) by simp
  have drop: "drop_ff f ov = Inr (ov\<lparr>ov_dropped := ov_dropped ov @ [f]\<rparr>)"
    using r by (simp add: routable_def addressed_def drop_ff_ok)
  have drop': "ports c (ov\<lparr>ov_dropped := ov_dropped ov @ [f]\<rparr>) ps" "same_posts self ov (ov\<lparr>ov_dropped := ov_dropped ov @ [f]\<rparr>)"
    using p(1) by (simp_all add: ports_def same_posts_def)
  have "?d < MAX_MODULES \<or> MAX_MODULES < ?d" using r by (auto simp: routable_def past_end_def)
  then consider (far) "MAX_MODULES < ?d" | (none) "?d < MAX_MODULES" "ov_modules ov ! ?d = None"
    | (some) m where "?d < MAX_MODULES" "ov_modules ov ! ?d = Some m"
    by (cases "ov_modules ov ! ?d") auto
  then show ?thesis
  proof cases
    case far
    then show ?thesis using drop drop' p(2) by (simp add: switch_dispatch_def spec_route_def Let_def)
  next
    case none
    then have "ps ! ?d = None" using ports_nth [OF p(1), of ?d] p(2) by simp
    then show ?thesis using drop drop' p(2) none len
      by (simp add: switch_dispatch_def spec_route_def Let_def modules_at_def)
  next
    case (some m)
    then obtain os ys where ps: "ps ! ?d = Some (os, ys)" "port_rel c m (os, ys)"
      using ports_nth [OF p(1), of ?d] p(2) by (auto simp: option_rel_Some1)
    have q: "queue_rep (m_input_queue m) ys" "queue_cap (m_input_queue m) = c" "queue_rep (m_output_queue m) os"
      using ps(2) by (auto simp: port_rel_def)
    have self: "destinationID f \<noteq> self" "?d \<noteq> unat self" using r by (auto simp: routable_def addressed_def word_unat_eq_iff)
    show ?thesis
    proof (cases "length ys < c")
      case True
      then obtain Q where w: "write_queue f (m_input_queue m) = Inr (True, Q)" "queue_rep Q (ys @ [f])" "queue_cap Q = c"
        using fins_queue.enq_law [OF q(1)] q(2) by metis
      let ?m = "m\<lparr>m_input_queue := Q, m_event_sem := m_event_sem m + 1\<rparr>"
      have "port_rel c ?m (os, ys @ [f])" using w q(3) by (simp add: port_rel_def)
      from ports_put [OF p(1) this, of ?d] same_posts_put [of ?d ov m ?m self] w(1) True some len self ps(1) p(2)
      show ?thesis by (simp add: switch_dispatch_def modules_at_def spec_route_def Let_def) (simp add: modules_put_def)
    next
      case False
      then have "write_queue f (m_input_queue m) = Inr (False, m_input_queue m)"
        using fins_queue.enq_full_law [OF q(1)] q(2) by simp
      then show ?thesis using drop drop' False some len self ps(1) p(2)
        by (simp add: switch_dispatch_def modules_at_def spec_route_def Let_def)
    qed
  qed
qed

lemma visit_routes:
  assumes p: "ports c ov ps" "length ps = MAX_MODULES" and i: "i < MAX_MODULES" and r: "list_all (routable self) (firsts (ps ! i))"
  shows "\<exists>ov'. switch_visit self i ov = Inr ov' \<and> ports c ov' (fst (spec_visit c i (ps, ov_dropped ov)))
    \<and> ov_dropped ov' = snd (spec_visit c i (ps, ov_dropped ov)) \<and> same_posts self ov ov'"
proof -
  have len: "length (ov_modules ov) = MAX_MODULES" using ports_length [OF p(1)] p(2) by simp
  show ?thesis
  proof (cases "ov_modules ov ! i")
    case None
    then have "ps ! i = None" using ports_nth [OF p(1), of i] p(2) i by simp
    then show ?thesis using None i len p(1)
      by (simp add: switch_visit_def modules_at_def spec_visit_def same_posts_def)
  next
    case (Some m)
    then obtain os ys where ps: "ps ! i = Some (os, ys)" "port_rel c m (os, ys)"
      using ports_nth [OF p(1), of i] p(2) i by (auto simp: option_rel_Some1)
    have q: "queue_rep (m_input_queue m) ys" "queue_cap (m_input_queue m) = c" "queue_rep (m_output_queue m) os"
      using ps(2) by (auto simp: port_rel_def)
    show ?thesis
    proof (cases os)
      case Nil
      then have "IsEmpty (m_output_queue m)" using queue_repD(4) [OF q(3)] by (simp add: IsEmpty_def)
      then show ?thesis using Some i len p(1) ps(1) Nil
        by (simp add: switch_visit_def modules_at_def spec_visit_def same_posts_def)
    next
      case (Cons f fs)
      then have ne: "\<not> IsEmpty (m_output_queue m)" using queue_repD(4) [OF q(3)] by (simp add: IsEmpty_def)
      obtain Q where Q: "read_queue (m_output_queue m) = Inr (Some f, Q)" "queue_rep Q fs"
        using fins_queue.deq_law q(3) Cons by blast
      let ?m = "m\<lparr>m_output_queue := Q\<rparr>" and ?ov = "modules_put i (m\<lparr>m_output_queue := Q\<rparr>) ov"
      have "port_rel c ?m (fs, ys)" using Q q by (simp add: port_rel_def)
      then have po: "ports c ?ov (ps[i := Some (fs, ys)])" by (rule ports_put [OF p(1)])
      have "routable self f" using r ps(1) Cons by (simp add: firsts_def)
      from dispatch_routes [OF po _ this] p(2) obtain ov' where ov': "switch_dispatch self f ?ov = Inr ov'"
        "ports c ov' (fst (spec_route c f (ps[i := Some (fs, ys)], ov_dropped ov)))"
        "ov_dropped ov' = snd (spec_route c f (ps[i := Some (fs, ys)], ov_dropped ov))" "same_posts self ?ov ov'"
        by (auto simp: modules_put_def)
      have "same_posts self ov ?ov" using same_posts_put [of i ov m ?m self] Some i len by simp
      with ov' same_posts_trans Some i len ne Q(1) ps(1) Cons show ?thesis
        by (auto simp: switch_visit_def modules_at_def spec_visit_def)
    qed
  qed
qed

lemma spec_visit_length: "length (fst (spec_visit c i s)) = length (fst s)"
  by (cases s) (auto simp: spec_visit_def spec_route_def Let_def split: option.splits list.splits)

lemma visit_faults:
  assumes p: "ports c ov ps" "length ps = MAX_MODULES" and i: "i < MAX_MODULES" and f: "firsts (ps ! i) = [f]" "past_end f"
  shows "switch_visit self i ov = Inl MemFault"
proof -
  have len: "length (ov_modules ov) = MAX_MODULES" using ports_length [OF p(1)] p(2) by simp
  obtain fs ys where ps: "ps ! i = Some (f # fs, ys)"
    using f(1) by (cases "ps ! i"; cases "waiting (ps ! i)") (auto simp: firsts_def)
  then obtain m where m: "ov_modules ov ! i = Some m" "queue_rep (m_output_queue m) (f # fs)"
    using ports_nth [OF p(1), of i] p(2) i by (auto simp: option_rel_Some2 port_rel_def)
  obtain Q where Q: "read_queue (m_output_queue m) = Inr (Some f, Q)" using fins_queue.deq_law [OF m(2)] by blast
  have "\<not> IsEmpty (m_output_queue m)" using queue_repD(4) [OF m(2)] by (simp add: IsEmpty_def)
  then show ?thesis using m(1) Q i len f(2) by (simp add: switch_visit_def switch_dispatch_def modules_at_def modules_put_def past_end_def)
qed

text \<open>A visit leaves the other ports waiting for what they waited for.\<close>

lemma visit_others:
  assumes "i < length ps" "j < length ps" "j \<noteq> i"
  shows "waiting (fst (spec_visit c i (ps, dr)) ! j) = waiting (ps ! j)"
proof -
  have "waiting (fst (spec_visit c i (ps, dr)) ! j) = map waiting (fst (spec_visit c i (ps, dr))) ! j"
    using assms(2) spec_visit_length [of c i "(ps, dr)"] by simp
  then show ?thesis using assms spec_visit_waiting [OF assms(1), of c dr] by simp
qed

lemma visit_firsts:
  assumes "i < length ps" "i \<notin> set is" "\<forall>j \<in> set is. j < length ps"
  shows "\<forall>j \<in> set is. firsts (fst (spec_visit c i (ps, dr)) ! j) = firsts (ps ! j)"
  using assms visit_others [OF assms(1)] by (metis firsts_def)

lemma visits_route:
  assumes "ports c ov ps" "length ps = MAX_MODULES" "\<forall>i \<in> set is. i < MAX_MODULES" "distinct is"
    "\<forall>i \<in> set is. list_all (routable self) (firsts (ps ! i))"
  shows "\<exists>ov'. switch_visits self is ov = Inr ov' \<and> ports c ov' (fst (fold (spec_visit c) is (ps, ov_dropped ov)))
    \<and> ov_dropped ov' = snd (fold (spec_visit c) is (ps, ov_dropped ov)) \<and> same_posts self ov ov'"
  using assms
proof (induction "is" arbitrary: ov ps)
  case Nil
  then show ?case by (simp add: same_posts_def)
next
  case (Cons i "is")
  let ?s = "spec_visit c i (ps, ov_dropped ov)"
  have i: "i < MAX_MODULES" "i < length ps" "i \<notin> set is" "\<forall>j \<in> set is. j < length ps" "list_all (routable self) (firsts (ps ! i))"
    using Cons.prems by auto
  obtain ov1 where ov1: "switch_visit self i ov = Inr ov1" "ports c ov1 (fst ?s)" "ov_dropped ov1 = snd ?s" "same_posts self ov ov1"
    using visit_routes [OF Cons.prems(1,2) i(1,5)] by blast
  have "\<forall>j \<in> set is. list_all (routable self) (firsts (fst ?s ! j))"
    using visit_firsts [OF i(2-4), of c "ov_dropped ov"] Cons.prems(5) by simp
  moreover have "(fst ?s, ov_dropped ov1) = ?s" using ov1(3) by simp
  ultimately obtain ov2 where
    "switch_visits self is ov1 = Inr ov2" "ports c ov2 (fst (fold (spec_visit c) is ?s))"
    "ov_dropped ov2 = snd (fold (spec_visit c) is ?s)" "same_posts self ov1 ov2"
    using Cons.IH [OF ov1(2)] spec_visit_length [of c i "(ps, ov_dropped ov)"] Cons.prems(2-4) by auto
  with ov1(1,4) same_posts_trans show ?case by (auto intro!: exI [of _ ov2])
qed

lemma visits_fault:
  assumes "ports c ov ps" "length ps = MAX_MODULES" "\<forall>i \<in> set is. i < MAX_MODULES" "distinct is"
    "\<forall>i \<in> set is. list_all (addressed self) (firsts (ps ! i))" "\<exists>i \<in> set is. \<exists>f \<in> set (firsts (ps ! i)). past_end f"
  shows "switch_visits self is ov = Inl MemFault"
  using assms
proof (induction "is" arbitrary: ov ps)
  case (Cons i "is")
  let ?s = "spec_visit c i (ps, ov_dropped ov)"
  have i: "i < MAX_MODULES" "i < length ps" "i \<notin> set is" "\<forall>j \<in> set is. j < length ps" using Cons.prems by auto
  show ?case
  proof (cases "\<exists>f \<in> set (firsts (ps ! i)). past_end f")
    case True
    then obtain f where "f \<in> set (firsts (ps ! i))" "past_end f" by blast
    then have "firsts (ps ! i) = [f]" by (cases "waiting (ps ! i)") (auto simp: firsts_def)
    from visit_faults [OF Cons.prems(1,2) i(1) this \<open>past_end f\<close>] show ?thesis by simp
  next
    case False
    then have "list_all (routable self) (firsts (ps ! i))" using Cons.prems(5) by (simp add: list_all_iff routable_def)
    from visit_routes [OF Cons.prems(1,2) i(1) this] obtain ov1 where ov1: "switch_visit self i ov = Inr ov1" "ports c ov1 (fst ?s)"
      by blast
    note same = visit_firsts [OF i(2-4), of c "ov_dropped ov"]
    have "\<exists>j \<in> set is. \<exists>f \<in> set (firsts (fst ?s ! j)). past_end f" using Cons.prems(6) False same by auto
    moreover have "\<forall>j \<in> set is. list_all (addressed self) (firsts (fst ?s ! j))" using Cons.prems(5) same by simp
    ultimately have "switch_visits self is ov1 = Inl MemFault"
      using Cons.IH [OF ov1(2)] spec_visit_length [of c i "(ps, ov_dropped ov)"] Cons.prems(2-4) by simp
    then show ?thesis using ov1(1) by simp
  qed
qed simp

lemma fold_visit_facts:
  assumes "\<forall>i \<in> set is. i < length (fst s)" "distinct is"
  shows "length (fst (fold (spec_visit c) is s)) = length (fst s)
    \<and> all_frames (fold (spec_visit c) is s) = all_frames s
    \<and> (\<forall>j < length (fst s). waiting (fst (fold (spec_visit c) is s) ! j)
        = (if j \<in> set is then tl (waiting (fst s ! j)) else waiting (fst s ! j)))"
  using assms
proof (induction "is" arbitrary: s)
  case (Cons i "is")
  let ?s = "spec_visit c i s"
  have i: "i < length (fst s)" "i \<notin> set is" using Cons.prems by auto
  have w: "waiting (fst ?s ! j) = (if j = i then tl (waiting (fst s ! j)) else waiting (fst s ! j))" if "j < length (fst s)" for j
  proof -
    have "waiting (fst ?s ! j) = map waiting (fst ?s) ! j" using that spec_visit_length by (metis nth_map)
    also have "\<dots> = ((map waiting (fst s))[i := tl (waiting (fst s ! i))]) ! j"
      using spec_visit_waiting [OF i(1), of c "snd s"] by simp
    finally show ?thesis using that by (auto simp: nth_list_update)
  qed
  have len: "length (fst ?s) = length (fst s)" by (rule spec_visit_length)
  note IH = Cons.IH [of ?s, unfolded len]
  show ?case using IH Cons.prems w i spec_visit_conserves [OF i(1), of c] by auto
qed simp

lemma spec_pass_facts:
  assumes "length (fst s) = MAX_MODULES"
  shows "length (fst (spec_pass c s)) = MAX_MODULES" "all_frames (spec_pass c s) = all_frames s"
    "map waiting (fst (spec_pass c s)) = map (tl \<circ> waiting) (fst s)"
  using fold_visit_facts [of "[0..<MAX_MODULES]" s c] assms
  by (auto simp: spec_pass_def intro!: nth_equalityI)

lemma pass_routes:
  assumes "ports c ov ps" "length ps = MAX_MODULES" "\<forall>p \<in> set ps. list_all (routable self) (firsts p)"
  shows "\<exists>ov'. switch_pass self ov = Inr ov' \<and> ports c ov' (fst (spec_pass c (ps, ov_dropped ov)))
    \<and> ov_dropped ov' = snd (spec_pass c (ps, ov_dropped ov)) \<and> same_posts self ov ov'"
  using visits_route [OF assms(1,2), of "[0..<MAX_MODULES]"] assms(2,3) by (auto simp: switch_pass_def spec_pass_def)

lemma pass_faults:
  assumes "ports c ov ps" "length ps = MAX_MODULES" "\<forall>p \<in> set ps. list_all (addressed self) (firsts p)"
    "p \<in> set ps" "f \<in> set (firsts p)" "past_end f"
  shows "switch_pass self ov = Inl MemFault"
proof -
  obtain i where "i < MAX_MODULES" "p = ps ! i" using assms(2,4) by (auto simp: in_set_conv_nth)
  then have "\<exists>i \<in> set [0..<MAX_MODULES]. \<exists>f \<in> set (firsts (ps ! i)). past_end f"
    using assms(5,6) by (intro bexI [of _ i] bexI [of _ f]) simp_all
  then show ?thesis using visits_fault [OF assms(1,2), of "[0..<MAX_MODULES]" self] assms(2,3) by (simp add: switch_pass_def)
qed

lemma same_posts_sem:
  assumes "same_posts self ov ov'"
  shows "switch_posts ov' = switch_posts ov"
proof -
  have "(case x of None \<Rightarrow> 0 | Some m \<Rightarrow> m_switch_sem m)
      = (case map_option (\<lambda>m. (m_switch_sem m, m_state m)) x of None \<Rightarrow> 0 | Some y \<Rightarrow> fst y)" for x :: "'a fins_module option"
    by (cases x) auto
  then have "switch_posts ov = sum_list (map (\<lambda>x. case x of None \<Rightarrow> 0 | Some y \<Rightarrow> fst y)
      (map (map_option (\<lambda>m. (m_switch_sem m, m_state m))) (ov_modules ov)))" for ov :: "'a fins_overall"
    by (simp add: switch_posts_def comp_def)
  then show ?thesis using assms unfolding same_posts_def by metis
qed

lemma same_posts_events: "same_posts self ov ov' \<Longrightarrow> switch_events self ov' = switch_events self ov"
  using same_posts_sem [of self ov ov']
  by (cases "ov_modules ov ! unat self"; cases "ov_modules ov' ! unat self") (auto simp: switch_events_def own_event_def same_posts_def)

lemma same_posts_state:
  assumes "same_posts self ov ov'" "unat self < length (ov_modules ov)" "ov_modules ov ! unat self = Some sw"
  shows "\<exists>sw'. unat self < length (ov_modules ov') \<and> ov_modules ov' ! unat self = Some sw' \<and> m_state sw' = m_state sw"
proof -
  let ?g = "map_option (\<lambda>m. (m_switch_sem m, m_state m))"
  have m: "map ?g (ov_modules ov') = map ?g (ov_modules ov)" using assms(1) by (simp add: same_posts_def)
  have len: "length (ov_modules ov') = length (ov_modules ov)" using m by (rule map_eq_imp_length_eq)
  have "?g (ov_modules ov' ! unat self) = ?g (ov_modules ov ! unat self)"
    using arg_cong [OF m, of "\<lambda>x. x ! unat self"] assms(2) len by simp
  then show ?thesis using assms(2,3) len by auto
qed

lemma tl_set: "set (tl xs) \<subseteq> set xs"
  by (cases xs) auto

lemma firsts_waiting: "p \<in> set ps \<Longrightarrow> set (firsts p) \<subseteq> all_waiting ps"
  using set_take_subset [of 1 "waiting p"] by (auto simp: all_waiting_def firsts_def)

lemma pass_waiting:
  assumes "length ps = MAX_MODULES"
  shows "all_waiting (fst (spec_pass c (ps, dr))) = (\<Union>p \<in> set ps. set (tl (waiting p)))"
proof -
  have "all_waiting (fst (spec_pass c (ps, dr))) = \<Union> (set ` set (map waiting (fst (spec_pass c (ps, dr)))))"
    by (simp add: all_waiting_def)
  also have "map waiting (fst (spec_pass c (ps, dr))) = map (tl \<circ> waiting) ps" using spec_pass_facts(3) [of "(ps, dr)" c] assms by simp
  finally show ?thesis by simp
qed

text \<open>One iteration of the running loop that has an event.\<close>

lemma loop_pass:
  assumes "ports c ov ps" "length ps = MAX_MODULES" "\<forall>p \<in> set ps. list_all (routable self) (firsts p)"
    "unat self < MAX_MODULES" "ov_modules ov ! unat self = Some sw" "m_state sw = FMS_RUNNING"
    "\<forall>p \<in> set ps. length (waiting p) \<le> switch_events self ov" "switch_events self ov = Suc e"
  obtains ov1 sw1 where "switch_loop (Suc n) self ov = switch_loop n self ov1" "ports c ov1 (fst (spec_pass c (ps, ov_dropped ov)))"
    "ov_dropped ov1 = snd (spec_pass c (ps, ov_dropped ov))" "ov_modules ov1 ! unat self = Some sw1" "m_state sw1 = FMS_RUNNING"
    "switch_events self ov1 = e" "\<forall>p \<in> set (fst (spec_pass c (ps, ov_dropped ov))). length (waiting p) \<le> e"
proof -
  let ?ov = "ov\<lparr>ov_waits := ov_waits ov + 1\<rparr>" and ?s = "spec_pass c (ps, ov_dropped ov)"
  have len: "length (ov_modules ov) = MAX_MODULES" using ports_length [OF assms(1)] assms(2) by simp
  have ev: "switch_events self ?ov = e" using assms(8) by (simp add: switch_events_def switch_posts_def own_event_def)
  have "ports c ?ov ps" using assms(1) by (simp add: ports_def)
  from pass_routes [OF this assms(2,3)] obtain ov1 where ov1: "switch_pass self ?ov = Inr ov1"
    "ports c ov1 (fst ?s)" "ov_dropped ov1 = snd ?s" "same_posts self ?ov ov1" by auto
  note f = spec_pass_facts [of "(ps, ov_dropped ov)" c, simplified, OF assms(2)]
  obtain sw1 where sw1: "ov_modules ov1 ! unat self = Some sw1" "m_state sw1 = FMS_RUNNING"
    using same_posts_state [OF ov1(4), of sw] assms(4-6) len by auto
  have "\<forall>p \<in> set (fst ?s). length (waiting p) \<le> e"
  proof
    fix p assume "p \<in> set (fst ?s)"
    then have "waiting p \<in> (tl \<circ> waiting) ` set ps" using f(3) by (metis image_set imageI)
    then show "length (waiting p) \<le> e" using assms(7,8) by auto
  qed
  moreover have "switch_events self ov1 = e" using same_posts_events [OF ov1(4)] ev by simp
  moreover have "switch_loop (Suc n) self ov = switch_loop n self ov1" using ov1(1) assms(4-6,8) len by (simp add: modules_at_def)
  ultimately show thesis using that ov1(2,3) sw1 by blast
qed

lemma loop_drains:
  assumes "ports c ov ps" "length ps = MAX_MODULES" "\<forall>f \<in> all_waiting ps. routable self f"
    "unat self < MAX_MODULES" "ov_modules ov ! unat self = Some sw" "m_state sw = FMS_RUNNING"
    "\<forall>p \<in> set ps. length (waiting p) \<le> switch_events self ov" "switch_events self ov < n"
  shows "\<exists>ov' ps'. switch_loop n self ov = Inr (LoopBlocked ov') \<and> ports c ov' ps' \<and> all_waiting ps' = {}
    \<and> all_frames (ps', ov_dropped ov') = all_frames (ps, ov_dropped ov)"
  using assms
proof (induction n arbitrary: ov ps sw)
  case (Suc n)
  have len: "length (ov_modules ov) = MAX_MODULES" using ports_length [OF Suc.prems(1)] Suc.prems(2) by simp
  show ?case
  proof (cases "switch_events self ov")
    case 0
    then have "all_waiting ps = {}" using Suc.prems(7) by (auto simp: all_waiting_def)
    then show ?thesis using 0 Suc.prems len by (auto simp: modules_at_def intro!: exI [of _ ov] exI [of _ ps])
  next
    case (Suc e)
    let ?s = "spec_pass c (ps, ov_dropped ov)"
    have heads: "\<forall>p \<in> set ps. list_all (routable self) (firsts p)"
      using Suc.prems(3) firsts_waiting by (fastforce simp: list_all_iff)
    obtain ov1 sw1 where ov1: "switch_loop (Suc n) self ov = switch_loop n self ov1" "ports c ov1 (fst ?s)" "ov_dropped ov1 = snd ?s"
      "ov_modules ov1 ! unat self = Some sw1" "m_state sw1 = FMS_RUNNING" "switch_events self ov1 = e"
      "\<forall>p \<in> set (fst ?s). length (waiting p) \<le> e"
      by (rule loop_pass [OF Suc.prems(1,2) heads Suc.prems(4-7) Suc])
    note f = spec_pass_facts [of "(ps, ov_dropped ov)" c, simplified, OF Suc.prems(2)]
    have "\<forall>f \<in> all_waiting (fst ?s). routable self f"
      unfolding pass_waiting [OF Suc.prems(2)] using Suc.prems(3) tl_set by (fastforce simp: all_waiting_def)
    from Suc.IH [OF ov1(2) f(1) this Suc.prems(4) ov1(4,5)] ov1(6,7) Suc.prems(8) Suc
    obtain ov2 ps2 where "switch_loop n self ov1 = Inr (LoopBlocked ov2)" "ports c ov2 ps2" "all_waiting ps2 = {}"
      "all_frames (ps2, ov_dropped ov2) = all_frames (fst ?s, ov_dropped ov1)" by auto
    with ov1(1,3) f(2) show ?thesis by (intro exI [of _ ov2] exI [of _ ps2]) simp
  qed
qed simp

lemma loop_faults:
  assumes "ports c ov ps" "length ps = MAX_MODULES" "\<forall>f \<in> all_waiting ps. addressed self f" "\<exists>f \<in> all_waiting ps. past_end f"
    "unat self < MAX_MODULES" "ov_modules ov ! unat self = Some sw" "m_state sw = FMS_RUNNING"
    "\<forall>p \<in> set ps. length (waiting p) \<le> switch_events self ov" "switch_events self ov < n"
  shows "switch_loop n self ov = Inl MemFault"
  using assms
proof (induction n arbitrary: ov ps sw)
  case (Suc n)
  have len: "length (ov_modules ov) = MAX_MODULES" using ports_length [OF Suc.prems(1)] Suc.prems(2) by simp
  obtain e where e: "switch_events self ov = Suc e"
    using Suc.prems(4,8) by (cases "switch_events self ov") (auto simp: all_waiting_def)
  have heads: "\<forall>p \<in> set ps. list_all (addressed self) (firsts p)"
    using Suc.prems(3) firsts_waiting by (fastforce simp: list_all_iff)
  show ?case
  proof (cases "\<exists>p \<in> set ps. \<exists>f \<in> set (firsts p). past_end f")
    case True
    then obtain p f where pf: "p \<in> set ps" "f \<in> set (firsts p)" "past_end f" by blast
    have "ports c (ov\<lparr>ov_waits := ov_waits ov + 1\<rparr>) ps" using Suc.prems(1) by (simp add: ports_def)
    from pass_faults [OF this Suc.prems(2) heads pf] show ?thesis using Suc.prems(5-7) e len by (simp add: modules_at_def)
  next
    case False
    let ?s = "spec_pass c (ps, ov_dropped ov)"
    have r: "\<forall>p \<in> set ps. list_all (routable self) (firsts p)" using heads False by (auto simp: list_all_iff routable_def)
    obtain ov1 sw1 where ov1: "switch_loop (Suc n) self ov = switch_loop n self ov1" "ports c ov1 (fst ?s)"
      "ov_modules ov1 ! unat self = Some sw1" "m_state sw1 = FMS_RUNNING" "switch_events self ov1 = e"
      "\<forall>p \<in> set (fst ?s). length (waiting p) \<le> e"
      by (rule loop_pass [OF Suc.prems(1,2) r Suc.prems(5-8) e])
    note f = spec_pass_facts [of "(ps, ov_dropped ov)" c, simplified, OF Suc.prems(2)]
    have a: "\<forall>f \<in> all_waiting (fst ?s). addressed self f"
      unfolding pass_waiting [OF Suc.prems(2)] using Suc.prems(3) tl_set by (fastforce simp: all_waiting_def)
    obtain p g where g: "p \<in> set ps" "g \<in> set (waiting p)" "past_end g" using Suc.prems(4) by (auto simp: all_waiting_def)
    then have "g \<in> set (tl (waiting p))" using False by (cases "waiting p") (auto simp: firsts_def)
    then have "\<exists>g \<in> all_waiting (fst ?s). past_end g" unfolding pass_waiting [OF Suc.prems(2)] using g by blast
    from Suc.IH [OF ov1(2) f(1) a this Suc.prems(5) ov1(3,4)] ov1(1,5,6) Suc.prems(9) e show ?thesis by simp
  qed
qed simp


section \<open>Wake-ups\<close>

lemma put_counts:
  assumes "i < length (ov_modules ov)" "ov_modules ov ! i = Some m"
  shows "queued (modules_put i m' ov) + frames_out (Some m) = queued ov + frames_out (Some m')"
    "switch_posts (modules_put i m' ov) + m_switch_sem m = switch_posts ov + m_switch_sem m'"
  using sum_list_update_add [OF assms(1), of frames_out "Some m'"]
    sum_list_update_add [OF assms(1), of "\<lambda>x. case x of None \<Rightarrow> 0 | Some m \<Rightarrow> m_switch_sem m" "Some m'"] assms(2)
  by (simp_all add: queued_def switch_posts_def modules_put_def)

lemma put_core:
  assumes "wake_core self ov" "queues_ok m" "i \<noteq> unat self \<Longrightarrow> nat (q_Size (m_input_queue m)) \<le> m_event_sem m"
  shows "wake_core self (modules_put i m ov)"
proof -
  have "(ov_modules ov)[i := Some m] ! j = (if j = i then Some m else ov_modules ov ! j)" if "j < MAX_MODULES" for j
    using that assms(1) by (cases "j = i") (auto simp: wake_core_def)
  then show ?thesis using assms by (auto simp: wake_core_def modules_put_def split: if_splits)
qed

lemma put_own_event:
  assumes "i < length (ov_modules ov)" "ov_modules ov ! i = Some m" "i = unat self \<Longrightarrow> m_event_sem m' = m_event_sem m"
  shows "own_event self (modules_put i m' ov) = own_event self ov"
  using assms by (auto simp: own_event_def modules_put_def nth_list_update)

lemma put_balanced:
  assumes c: "wake_core self ov" and i: "i < MAX_MODULES" "ov_modules ov ! i = Some m"
    and q: "queues_ok m'" "i \<noteq> unat self \<Longrightarrow> nat (q_Size (m_input_queue m')) \<le> m_event_sem m'"
    and e: "i = unat self \<Longrightarrow> m_event_sem m' = m_event_sem m"
    and f: "frames_out (Some m') + m_switch_sem m = frames_out (Some m) + m_switch_sem m'"
      "frames_out (Some m) \<le> frames_out (Some m')"
  shows "balanced self ov (modules_put i m' ov)"
proof -
  have len: "i < length (ov_modules ov)" using c i(1) by (simp add: wake_core_def)
  have "\<forall>j < MAX_MODULES. frames_out (ov_modules ov ! j) \<le> frames_out (ov_modules (modules_put i m' ov) ! j)"
    using f(2) len i(2) by (auto simp: modules_put_def nth_list_update)
  then show ?thesis
    using put_counts [OF len i(2), of m'] put_core [OF c q] put_own_event [OF len i(2) e] f(1)
    by (simp add: balanced_def) (simp add: modules_put_def)
qed

lemma frames_out_rep: "queue_rep (m_output_queue m) xs \<Longrightarrow> frames_out (Some m) = length xs"
  by (simp add: frames_out_def queue_repD(4))

lemma process_ff_effect:
  assumes "queue_rep (m_output_queue m) xs" "switch_process_ff m ff = Inr m'"
  shows "(\<exists>r. sent xs m [r] m') \<or> quiet m m'"
  using assms(2) reply_sent [OF assms(1)] free_ff_quiet set_param_quiet
  by (auto simp: switch_process_ff_def switch_fcf_def switch_set_param_def Let_def split: if_splits) blast+

lemma drop_balanced: "wake_core self ov \<Longrightarrow> drop_ff ff ov = Inr ov' \<Longrightarrow> balanced self ov ov'"
  by (auto simp: drop_ff_def andThen_eq_Inr balanced_def wake_core_def own_event_def queued_def switch_posts_def)

lemma process_balanced:
  assumes c: "wake_core self ov" and m: "ov_modules ov ! unat self = Some m" "switch_process_ff m ff = Inr m'"
  shows "balanced self ov (modules_put (unat self) m' ov)"
proof -
  have s: "unat self < MAX_MODULES" "queues_ok m" using c m(1) by (auto simp: wake_core_def)
  then obtain xs ys where q: "queue_rep (m_output_queue m) xs" "queue_rep (m_input_queue m) ys" by (auto simp: queues_ok_def)
  from process_ff_effect [OF q(1) m(2)] show ?thesis
  proof
    assume "\<exists>r. sent xs m [r] m'"
    then obtain r where r: "sent xs m [r] m'" ..
    then have q': "queue_rep (m_output_queue m') (xs @ [r])" "m_switch_sem m' = m_switch_sem m + 1" by (auto simp: sent_def)
    then have "queues_ok m'" using sent_fields(7) [OF r] q(2) by (auto simp: queues_ok_def)
    then show ?thesis using frames_out_rep [OF q(1)] frames_out_rep [OF q'(1)] q'(2) sent_fields(8) [OF r]
      by (intro put_balanced [OF c s(1) m(1)]) auto
  next
    assume "quiet m m'"
    then have "m_output_queue m' = m_output_queue m" "m_input_queue m' = m_input_queue m"
      "m_switch_sem m' = m_switch_sem m" "m_event_sem m' = m_event_sem m" by (auto simp: quiet_def)
    then show ?thesis using s(2) by (intro put_balanced [OF c s(1) m(1)]) (auto simp: queues_ok_def frames_out_def)
  qed
qed

lemma deliver_balanced:
  assumes c: "wake_core self ov" and i: "i < MAX_MODULES" "ov_modules ov ! i = Some m" "i \<noteq> unat self"
    and w: "write_queue f (m_input_queue m) = Inr (True, q)"
  shows "balanced self ov (modules_put i (m\<lparr>m_input_queue := q, m_event_sem := m_event_sem m + 1\<rparr>) ov)"
proof -
  have m: "queues_ok m" "nat (q_Size (m_input_queue m)) \<le> m_event_sem m" using c i by (auto simp: wake_core_def)
  then obtain ys where ys: "queue_rep (m_input_queue m) ys" by (auto simp: queues_ok_def)
  have "length ys < queue_cap (m_input_queue m)" using fins_queue.enq_full_law [OF ys] w by fastforce
  from fins_queue.enq_law [OF ys this, of f] w have q: "queue_rep q (ys @ [f])" by auto
  then show ?thesis using m queue_repD(4) [OF q] queue_repD(4) [OF ys] i(3)
    by (intro put_balanced [OF c i(1,2)]) (auto simp: queues_ok_def frames_out_def)
qed

lemma dispatch_balanced:
  assumes c: "wake_core self ov" and d: "switch_dispatch self f ov = Inr ov'"
  shows "balanced self ov ov'"
proof -
  let ?d = "unat (destinationID f)"
  have len: "length (ov_modules ov) = MAX_MODULES" using c by (simp add: wake_core_def)
  consider "drop_ff f ov = Inr ov'"
    | m m' where "destinationID f = self" "ov_modules ov ! ?d = Some m" "switch_process_ff m f = Inr m'" "ov' = modules_put ?d m' ov"
    | m q where "?d < MAX_MODULES" "ov_modules ov ! ?d = Some m" "?d \<noteq> unat self" "write_queue f (m_input_queue m) = Inr (True, q)"
        "ov' = modules_put ?d (m\<lparr>m_input_queue := q, m_event_sem := m_event_sem m + 1\<rparr>) ov"
    using d len by (auto simp: switch_dispatch_def modules_at_def andThen_eq_Inr word_unat_eq_iff split: if_splits option.splits)
  then show ?thesis
  proof cases
    case 1
    then show ?thesis using drop_balanced [OF c] by blast
  next
    case (2 m m')
    then show ?thesis using process_balanced [OF c] by simp
  next
    case (3 m q)
    then show ?thesis using deliver_balanced [OF c] by simp
  qed
qed


lemma balanced_refl: "wake_core self ov \<Longrightarrow> balanced self ov ov"
  by (simp add: balanced_def)

text \<open>A visit of a module with frames takes one of them.\<close>

lemma visit_taken:
  assumes c: "wake_core self ov" and i: "i < MAX_MODULES" and v: "switch_visit self i ov = Inr ov'"
  shows "\<exists>ov1. balanced self ov1 ov' \<and> wake_core self ov1 \<and> ov_waits ov1 = ov_waits ov \<and> own_event self ov1 = own_event self ov
    \<and> switch_posts ov1 = switch_posts ov
    \<and> queued ov1 + (if frames_out (ov_modules ov ! i) = 0 then 0 else 1) = queued ov
    \<and> (\<forall>j < MAX_MODULES. j \<noteq> i \<longrightarrow> ov_modules ov1 ! j = ov_modules ov ! j)"
proof (cases "frames_out (ov_modules ov ! i) = 0")
  case True
  have "ov' = ov"
  proof (cases "ov_modules ov ! i")
    case None
    then show ?thesis using v c i by (simp add: switch_visit_def modules_at_def wake_core_def)
  next
    case (Some m)
    then obtain xs where "queue_rep (m_output_queue m) xs" using c i by (auto simp: wake_core_def queues_ok_def)
    then have "IsEmpty (m_output_queue m)" using True Some frames_out_rep queue_repD(4) by (fastforce simp: IsEmpty_def)
    then show ?thesis using v c i Some by (simp add: switch_visit_def modules_at_def wake_core_def)
  qed
  then show ?thesis using balanced_refl [OF c] True c by auto
next
  case False
  then obtain m where m: "ov_modules ov ! i = Some m" by (cases "ov_modules ov ! i") (auto simp: frames_out_def)
  have q: "queues_ok m" "i \<noteq> unat self \<longrightarrow> nat (q_Size (m_input_queue m)) \<le> m_event_sem m" using c i m by (auto simp: wake_core_def)
  have len: "i < length (ov_modules ov)" using c i by (simp add: wake_core_def)
  obtain f fs where rep: "queue_rep (m_output_queue m) (f # fs)"
    using q(1) False m frames_out_rep by (metis queues_ok_def length_0_conv neq_Nil_conv)
  then obtain Q where Q: "read_queue (m_output_queue m) = Inr (Some f, Q)" "queue_rep Q fs"
    using fins_queue.deq_law by blast
  have ne: "\<not> IsEmpty (m_output_queue m)" using queue_repD(4) [OF rep] by (simp add: IsEmpty_def)
  let ?m = "m\<lparr>m_output_queue := Q\<rparr>"
  let ?ov = "modules_put i ?m ov"
  have d: "switch_dispatch self f ?ov = Inr ov'" using v m len ne Q(1) by (simp add: switch_visit_def modules_at_def)
  have "queues_ok ?m" using q(1) Q(2) by (auto simp: queues_ok_def)
  then have c1: "wake_core self ?ov" using q(2) by (intro put_core [OF c]) auto
  have "queued ?ov + 1 = queued ov" "switch_posts ?ov = switch_posts ov"
    using put_counts [OF len m, of ?m] frames_out_rep [OF rep] frames_out_rep [of ?m fs] Q(2) by auto
  moreover have "own_event self ?ov = own_event self ov" by (rule put_own_event [OF len m]) simp
  moreover have "\<forall>j < MAX_MODULES. j \<noteq> i \<longrightarrow> ov_modules ?ov ! j = ov_modules ov ! j" "ov_waits ?ov = ov_waits ov"
    by (simp_all add: modules_put_def)
  ultimately show ?thesis using dispatch_balanced [OF c1 d] c1 False by (intro exI [of _ ?ov]) simp
qed

lemma visits_wake:
  assumes "wake_core self ov" "\<forall>i \<in> set is. i < MAX_MODULES" "switch_visits self is ov = Inr ov'"
  shows "wake_core self ov' \<and> ov_waits ov' = ov_waits ov \<and> own_event self ov' = own_event self ov
    \<and> queued ov' + switch_posts ov + (if \<exists>i \<in> set is. 0 < frames_out (ov_modules ov ! i) then 1 else 0)
        \<le> queued ov + switch_posts ov'"
  using assms
proof (induction "is" arbitrary: ov)
  case (Cons i "is")
  then obtain ov2 where ov2: "switch_visit self i ov = Inr ov2" "switch_visits self is ov2 = Inr ov'"
    by (auto simp: andThen_eq_Inr)
  have i: "i < MAX_MODULES" "\<forall>i \<in> set is. i < MAX_MODULES" using Cons.prems(2) by auto
  obtain ov1 where b: "balanced self ov1 ov2" "ov_waits ov1 = ov_waits ov" "own_event self ov1 = own_event self ov"
    "switch_posts ov1 = switch_posts ov" "queued ov1 + (if frames_out (ov_modules ov ! i) = 0 then 0 else 1) = queued ov"
    "\<forall>j < MAX_MODULES. j \<noteq> i \<longrightarrow> ov_modules ov1 ! j = ov_modules ov ! j"
    using visit_taken [OF Cons.prems(1) i(1) ov2(1)] by blast
  have mono: "\<exists>j \<in> set is. 0 < frames_out (ov_modules ov2 ! j)"
    if "\<exists>j \<in> set is. j \<noteq> i \<and> 0 < frames_out (ov_modules ov ! j)"
    using that b(1,6) i(2) unfolding balanced_def by (metis gr_zeroI le_zero_eq)
  have "wake_core self ov2" using b(1) by (simp add: balanced_def)
  note IH = Cons.IH [OF this i(2) ov2(2)]
  show ?case
  proof (cases "frames_out (ov_modules ov ! i) = 0")
    case True
    then have "(\<exists>j \<in> set (i # is). 0 < frames_out (ov_modules ov ! j)) \<Longrightarrow> \<exists>j \<in> set is. 0 < frames_out (ov_modules ov2 ! j)"
      using mono by (metis less_numeral_extra(3) set_ConsD)
    then show ?thesis using IH b True by (auto simp: balanced_def split: if_splits)
  next
    case False
    then show ?thesis using IH b by (auto simp: balanced_def split: if_splits)
  qed
qed simp


lemma queued_zero: "(\<forall>i < length (ov_modules ov). frames_out (ov_modules ov ! i) = 0) \<Longrightarrow> queued ov = 0"
  by (auto simp: queued_def in_set_conv_nth)

lemma queued_ge: "i < length (ov_modules ov) \<Longrightarrow> frames_out (ov_modules ov ! i) \<le> queued ov"
  unfolding queued_def by (rule member_le_sum_list) auto

lemma balanced_wake: "wake_inv self ov \<Longrightarrow> balanced self ov ov' \<Longrightarrow> wake_inv self ov'"
  by (auto simp: wake_inv_def balanced_def)

lemma recv_wake:
  assumes inv: "wake_inv self ov" and i: "i < length (ov_modules ov)" "ov_modules ov ! i = Some m" "i \<noteq> unat self"
    and r: "0 < m_event_sem m" "read_queue (m_input_queue m) = Inr (x, q)"
  shows "wake_inv self (modules_put i (m\<lparr>m_input_queue := q, m_event_sem := m_event_sem m - 1\<rparr>) ov)"
proof -
  have c: "wake_core self ov" and im: "i < MAX_MODULES" using inv i(1) by (auto simp: wake_inv_def wake_core_def)
  then have m: "queues_ok m" "nat (q_Size (m_input_queue m)) \<le> m_event_sem m" using i by (auto simp: wake_core_def)
  then obtain ys where ys: "queue_rep (m_input_queue m) ys" by (auto simp: queues_ok_def)
  have "\<exists>zs. queue_rep q zs \<and> length zs \<le> length ys - 1"
    using ys r(2) fins_queue.deq_empty_law fins_queue.deq_law by (cases ys) fastforce+
  then obtain zs where "queue_rep q zs" "length zs \<le> length ys - 1" by blast
  then have "balanced self ov (modules_put i (m\<lparr>m_input_queue := q, m_event_sem := m_event_sem m - 1\<rparr>) ov)"
    using m queue_repD(4) [of q zs] queue_repD(4) [OF ys] i(3) r(1)
    by (intro put_balanced [OF c im i(2)]) (auto simp: queues_ok_def frames_out_def)
  then show ?thesis by (rule balanced_wake [OF inv])
qed

lemma send_wake:
  assumes inv: "wake_inv self ov" and i: "i < length (ov_modules ov)" "ov_modules ov ! i = Some m"
    and s: "module_to_switch m ff = Inr m'"
  shows "wake_inv self (modules_put i m' ov)"
proof -
  have c: "wake_core self ov" and im: "i < MAX_MODULES" using inv i(1) by (auto simp: wake_inv_def wake_core_def)
  then have m: "queues_ok m" "i \<noteq> unat self \<longrightarrow> nat (q_Size (m_input_queue m)) \<le> m_event_sem m" using i by (auto simp: wake_core_def)
  then obtain xs ys where q: "queue_rep (m_output_queue m) xs" "queue_rep (m_input_queue m) ys" by (auto simp: queues_ok_def)
  note r = to_switch_sent [OF q(1) s]
  then have q': "queue_rep (m_output_queue m') (xs @ [ff])" "m_switch_sem m' = m_switch_sem m + 1" by (auto simp: sent_def)
  have "balanced self ov (modules_put i m' ov)"
    using frames_out_rep [OF q(1)] frames_out_rep [OF q'(1)] q' sent_fields(7,8) [OF r] m q(2)
    by (intro put_balanced [OF c im i(2)]) (auto simp: queues_ok_def)
  then show ?thesis by (rule balanced_wake [OF inv])
qed

lemma loop_wake:
  assumes inv: "wake_inv self ov" and e: "0 < switch_events self ov"
    and p: "switch_pass self (ov\<lparr>ov_waits := ov_waits ov + 1\<rparr>) = Inr ov'"
  shows "wake_inv self ov'"
proof -
  let ?ov = "ov\<lparr>ov_waits := ov_waits ov + 1\<rparr>"
  have c: "wake_core self ?ov" using inv by (simp add: wake_inv_def wake_core_def)
  have same: "queued ?ov = queued ov" "switch_posts ?ov = switch_posts ov" "own_event self ?ov = own_event self ov"
    by (simp_all add: queued_def switch_posts_def own_event_def)
  note v = visits_wake [OF c _ p [unfolded switch_pass_def], simplified same]
  show ?thesis
  proof (cases "\<exists>i < MAX_MODULES. 0 < frames_out (ov_modules ov ! i)")
    case True
    then have "\<exists>i \<in> {0..<MAX_MODULES}. 0 < frames_out (ov_modules ov ! i)" by auto
    then show ?thesis using v inv by (simp add: wake_inv_def)
  next
    case False
    then have "queued ov = 0" using c by (intro queued_zero) (auto simp: wake_core_def)
    then show ?thesis using v e False by (auto simp: wake_inv_def switch_events_def)
  qed
qed

lemma sys_wake: "switch_sys self ov ov' \<Longrightarrow> wake_inv self ov \<Longrightarrow> wake_inv self ov'"
proof (induction rule: switch_sys.induct)
  case (send i ov m ff m')
  then show ?case using send_wake by blast
next
  case (recv i ov m x q)
  then show ?case using recv_wake by blast
next
  case (loop ov sw ov')
  then show ?case using loop_wake by blast
next
  case (shutdown ov sw)
  then have c: "wake_core self ov" and s: "unat self < length (ov_modules ov)" "ov_modules ov ! unat self = Some sw"
    by (auto simp: wake_inv_def wake_core_def modules_at_def)
  then have "wake_core self (modules_put (unat self) (switch_shutdown sw) ov)"
    by (intro put_core) (auto simp: wake_core_def queues_ok_def switch_shutdown_def)
  then show ?case using shutdown.prems put_counts [OF s, of "switch_shutdown sw"] s
    by (simp add: wake_inv_def) (simp add: own_event_def modules_put_def switch_shutdown_def frames_out_def)
qed

lemma reach_wake: "(switch_sys self)\<^sup>*\<^sup>* ov ov' \<Longrightarrow> wake_inv self ov \<Longrightarrow> wake_inv self ov'"
  by (induction rule: rtranclp_induct) (auto intro: sys_wake)

lemma start_wake:
  assumes "length (ov_modules ov) = MAX_MODULES" "unat self < MAX_MODULES" "switch_start ov"
  shows "wake_inv self ov"
proof -
  have q: "queue_rep (m_output_queue m) [] \<and> queue_rep (m_input_queue m) []" if "i < MAX_MODULES" "ov_modules ov ! i = Some m" for i m
    using assms(1,3) that unfolding switch_start_def by (metis nth_mem)
  then have "\<forall>i < MAX_MODULES. frames_out (ov_modules ov ! i) = 0"
    using frames_out_rep by (fastforce simp: frames_out_def split: option.splits)
  then have "queued ov = 0" using assms(1) by (intro queued_zero) auto
  then show ?thesis using assms q queue_repD(4)
    by (fastforce simp: wake_inv_def wake_core_def switch_start_def queues_ok_def)
qed


section \<open>The theorems\<close>

lemma ex_module_ports: "port_rel 10 ex_module ([], [])" "port_rel 10 (ex_module\<lparr>m_index := 0\<rparr>) ([], [])"
  by (simp_all add: port_rel_def ex_module_def CreateQueue_rep) (simp_all add: queue_cap_def CreateQueue_def MakeEmpty_def)

lemma ex_overall_length: "length (ov_modules ex_overall) = MAX_MODULES"
  by (simp add: ex_overall_def MAX_MODULES_def)

lemma sum_list_replicate_empty: "sum_list (replicate n ({#} :: 'a multiset)) = {#}"
  by (induction n) auto

text \<open>One frame from module 1 to module 1 has been sent.\<close>

lemma ex_sent:
  obtains m where "module_to_switch ex_module (ex_frame\<lparr>destinationID := 1\<rparr>) = Inr m"
    "sent [] ex_module [ex_frame\<lparr>destinationID := 1\<rparr>] m"
  using module_to_switch_ok [of ex_module "[]" "ex_frame\<lparr>destinationID := 1\<rparr>"] ex_module_queue by auto

text \<open>The example system with frames waiting in the modules 1 and 2.\<close>

lemma ex_sends: "length fs \<le> 10 \<Longrightarrow> \<exists>m. sent [] ex_module fs m"
proof (induction fs rule: rev_induct)
  case Nil
  then show ?case using sent_refl [OF ex_module_queue(1)] by blast
next
  case (snoc f fs)
  then obtain m where m: "sent [] ex_module fs m" by auto
  then have "queue_rep (m_output_queue m) fs" "length fs < queue_cap (m_output_queue m)"
    using snoc.prems ex_module_queue(2) by (auto simp: sent_def)
  from module_to_switch_ok [OF this, of f] obtain m' where "sent fs m [f] m'" by blast
  then show ?case using sent_trans [of "[]" ex_module fs m "[f]" m'] m by auto
qed

lemma ex_system_ports:
  assumes "sent [] ex_module fs m1" "sent [] ex_module gs m2"
  shows "ports 10 (ex_system m1 m2) ([Some ([], []), Some (fs, []), Some (gs, [])] @ replicate 29 None)"
proof -
  have "port_rel 10 m (xs, [])" if "sent [] ex_module xs m" for m xs
    using that ex_module_ports(1) sent_fields(7) [OF that] by (simp add: port_rel_def sent_def)
  from this [OF assms(1)] this [OF assms(2)] ex_module_ports(2) show ?thesis
    by (auto simp: ports_def ex_system_def list_all2_conv_all_nth nth_Cons split: nat.splits)
qed

lemma ex_system_facts:
  assumes "sent [] ex_module fs m1" "sent [] ex_module gs m2"
  shows "ov_dropped (ex_system m1 m2) = []" "ov_modules (ex_system m1 m2) ! 0 = Some (ex_module\<lparr>m_index := 0\<rparr>)"
    "switch_events 0 (ex_system m1 m2) = length fs + length gs"
proof -
  have "m_switch_sem m1 = length fs" "m_switch_sem m2 = length gs" using assms by (simp_all add: sent_def ex_module_def)
  moreover have "sum_list (replicate n 0) = (0 :: nat)" for n by (induction n) simp_all
  ultimately show "switch_events 0 (ex_system m1 m2) = length fs + length gs"
    by (simp add: switch_events_def own_event_def switch_posts_def ex_system_def ex_module_def)
qed (simp_all add: ex_system_def)

lemma fold_visit_none: "\<forall>i \<in> set is. ps ! i = None \<Longrightarrow> fold (spec_visit c) is (ps, dr) = (ps, dr)"
  by (induction "is") (simp_all add: spec_visit_def)

text \<open>
  C10: an iteration of the switch routes frames as specified. Let no port have a frame for the switch itself as its first
  one (what it does with those is stated apart), and let all of them be data or control frames. When the first frame of a port is
  addressed to index 32, one past the array of modules, the iteration reads past the array. Otherwise it does not fail:
  every module with waiting frames loses its first one, which is appended to the input queue of the module it is
  addressed to while that has room, and is dropped when the destination is outside the array, not registered, or full.
\<close>

theorem switch_pass_routes:
  assumes "ports c ov ps" "length ps = MAX_MODULES" "\<forall>p \<in> set ps. list_all (addressed self) (firsts p)"
  shows "if \<exists>p \<in> set ps. \<exists>f \<in> set (firsts p). past_end f then switch_pass self ov = Inl MemFault
    else \<exists>ov'. switch_pass self ov = Inr ov' \<and> ports c ov' (fst (spec_pass c (ps, ov_dropped ov)))
      \<and> ov_dropped ov' = snd (spec_pass c (ps, ov_dropped ov))"
proof (cases "\<exists>p \<in> set ps. \<exists>f \<in> set (firsts p). past_end f")
  case True
  then show ?thesis using pass_faults [OF assms] by auto
next
  case False
  then have "\<forall>p \<in> set ps. list_all (routable self) (firsts p)" using assms(3) by (auto simp: list_all_iff routable_def)
  from pass_routes [OF assms(1,2) this] False show ?thesis by auto
qed

text \<open>
  The witness: module 1 has sent a frame to module 2 and one to itself, module 2 a frame to the index 7, where no module
  is. The first is delivered, the second waits, the third is dropped. With a frame to index 32 the iteration fails.
\<close>

theorem switch_pass_routes_witness:
  "\<exists>m1 m2 ov'. sent [] ex_module [ex_frame\<lparr>destinationID := 2\<rparr>, ex_frame\<lparr>destinationID := 1\<rparr>] m1
      \<and> sent [] ex_module [ex_frame\<lparr>destinationID := 7\<rparr>] m2 \<and> switch_pass 0 (ex_system m1 m2) = Inr ov'
      \<and> ports 10 ov' ([Some ([], []), Some ([ex_frame\<lparr>destinationID := 1\<rparr>], []), Some ([], [ex_frame\<lparr>destinationID := 2\<rparr>])] @ replicate 29 None)
      \<and> ov_dropped ov' = [ex_frame\<lparr>destinationID := 7\<rparr>]
      \<and> (\<exists>m3. sent [] ex_module [ex_frame\<lparr>destinationID := 32\<rparr>] m3 \<and> switch_pass 0 (ex_system m1 m3) = Inl MemFault)"
proof -
  let ?f = "\<lambda>d. ex_frame\<lparr>destinationID := d\<rparr>"
  obtain m1 m2 m3 where m: "sent [] ex_module [?f 2, ?f 1] m1" "sent [] ex_module [?f 7] m2" "sent [] ex_module [?f 32] m3"
    using ex_sends [of "[?f 2, ?f 1]"] ex_sends [of "[?f 7]"] ex_sends [of "[?f 32]"] by auto
  let ?ps = "\<lambda>gs. [Some ([], []), Some ([?f 2, ?f 1], []), Some (gs, [])] @ replicate 29 (None :: port option)"
  have a: "\<forall>p \<in> set (?ps [?f d]). list_all (addressed 0) (firsts p)" if "d \<noteq> 0" for d
    using that by (simp add: addressed_def firsts_def ex_frame_def)
  have e: "\<not> (\<exists>p \<in> set (?ps [?f 7]). \<exists>f \<in> set (firsts p). past_end f)" "\<exists>p \<in> set (?ps [?f 32]). \<exists>f \<in> set (firsts p). past_end f"
    by (simp_all add: firsts_def past_end_def MAX_MODULES_def)
  have l: "length (?ps gs) = MAX_MODULES" for gs by (simp add: MAX_MODULES_def)
  have up: "[0..<MAX_MODULES] = [0, 1, 2] @ [3..<MAX_MODULES]" by (simp add: MAX_MODULES_def upt_rec)
  let ?qs = "[Some ([], []), Some ([?f 1], []), Some ([], [?f 2])] @ replicate 29 (None :: port option)"
  have v: "fold (spec_visit 10) [0, 1, 2] (?ps [?f 7], []) = (?qs, [?f 7])" by (simp add: spec_visit_def spec_route_def Let_def)
  have n: "\<forall>i \<in> set [3..<MAX_MODULES]. ?qs ! i = None" by (auto simp: MAX_MODULES_def nth_append)
  have "spec_pass 10 (?ps [?f 7], []) = (?qs, [?f 7])"
    unfolding spec_pass_def up fold_append comp_def v by (rule fold_visit_none [OF n])
  with switch_pass_routes [OF ex_system_ports [OF m(1,2)] l a] e(1) ex_system_facts(1) [OF m(1,2)] obtain ov' where
    "switch_pass 0 (ex_system m1 m2) = Inr ov'" "ov_dropped ov' = [?f 7]"
    "ports 10 ov' ([Some ([], []), Some ([?f 1], []), Some ([], [?f 2])] @ replicate 29 None)" by auto
  moreover have "switch_pass 0 (ex_system m1 m3) = Inl MemFault"
    using switch_pass_routes [OF ex_system_ports [OF m(1,3)] l a] e(2) by auto
  ultimately show ?thesis using m by blast
qed

text \<open>
  C7: left alone, the running switch empties every output queue and then blocks. Let no frame that waits in an output queue be for the
  switch itself (what it does with those is stated apart), let all of them be data or control frames, and let there be an event for every
  waiting frame of each module. When one of them is addressed to index 32, one past the array of modules, the loop ends in a read past
  the array. Otherwise it has delivered or dropped each frame exactly once when it blocks: the frames in the queues and
  among the dropped ones are the same as before. One iteration per pending event is enough.
\<close>

theorem switch_loop_drains:
  assumes "ports c ov ps" "length ps = MAX_MODULES" "\<forall>f \<in> all_waiting ps. addressed self f"
    "unat self < MAX_MODULES" "ov_modules ov ! unat self = Some sw" "m_state sw = FMS_RUNNING"
    "\<forall>p \<in> set ps. length (waiting p) \<le> switch_events self ov" "switch_events self ov < n"
  shows "if \<exists>f \<in> all_waiting ps. past_end f then switch_loop n self ov = Inl MemFault
    else \<exists>ov' ps'. switch_loop n self ov = Inr (LoopBlocked ov') \<and> ports c ov' ps' \<and> all_waiting ps' = {}
      \<and> all_frames (ps', ov_dropped ov') = all_frames (ps, ov_dropped ov)"
proof (cases "\<exists>f \<in> all_waiting ps. past_end f")
  case True
  then show ?thesis using loop_faults [OF assms(1-3) True assms(4-8)] by simp
next
  case False
  then have "\<forall>f \<in> all_waiting ps. routable self f" using assms(3) by (simp add: routable_def)
  from loop_drains [OF assms(1,2) this assms(4-8)] False show ?thesis by simp
qed

text \<open>The witness: the frames of the previous one are all delivered or dropped, and a frame to index 32 is found behind another one.\<close>

theorem switch_loop_drains_witness:
  "\<exists>m1 m2 ov' ps'. sent [] ex_module [ex_frame\<lparr>destinationID := 2\<rparr>, ex_frame\<lparr>destinationID := 1\<rparr>] m1
      \<and> sent [] ex_module [ex_frame\<lparr>destinationID := 7\<rparr>] m2 \<and> switch_loop 4 0 (ex_system m1 m2) = Inr (LoopBlocked ov')
      \<and> ports 10 ov' ps' \<and> all_waiting ps' = {}
      \<and> all_frames (ps', ov_dropped ov') = {#ex_frame\<lparr>destinationID := 2\<rparr>, ex_frame\<lparr>destinationID := 1\<rparr>, ex_frame\<lparr>destinationID := 7\<rparr>#}
      \<and> (\<exists>m3. sent [] ex_module [ex_frame\<lparr>destinationID := 7\<rparr>, ex_frame\<lparr>destinationID := 32\<rparr>] m3
           \<and> switch_loop 5 0 (ex_system m1 m3) = Inl MemFault)"
proof -
  let ?f = "\<lambda>d. ex_frame\<lparr>destinationID := d\<rparr>"
  obtain m1 m2 m3 where m: "sent [] ex_module [?f 2, ?f 1] m1" "sent [] ex_module [?f 7] m2" "sent [] ex_module [?f 7, ?f 32] m3"
    using ex_sends [of "[?f 2, ?f 1]"] ex_sends [of "[?f 7]"] ex_sends [of "[?f 7, ?f 32]"] by auto
  let ?ps = "\<lambda>gs. [Some ([], []), Some ([?f 2, ?f 1], []), Some (gs, [])] @ replicate 29 (None :: port option)"
  have w: "all_waiting (?ps gs) = {?f 2, ?f 1} \<union> set gs" for gs by (simp add: all_waiting_def)
  have a: "\<forall>f \<in> all_waiting (?ps [?f 7]). addressed 0 f" "\<forall>f \<in> all_waiting (?ps [?f 7, ?f 32]). addressed 0 f"
    unfolding w by (simp_all add: addressed_def ex_frame_def)
  have e: "\<not> (\<exists>f \<in> all_waiting (?ps [?f 7]). past_end f)" "\<exists>f \<in> all_waiting (?ps [?f 7, ?f 32]). past_end f"
    unfolding w by (simp_all add: past_end_def MAX_MODULES_def)
  have l: "length (?ps gs) = MAX_MODULES" "unat (0 :: u32) < MAX_MODULES" for gs by (simp_all add: MAX_MODULES_def)
  have sw: "m_state (ex_module\<lparr>m_index := 0\<rparr>) = FMS_RUNNING" by (simp add: ex_module_def)
  note x2 = ex_system_facts [OF m(1,2)] and x3 = ex_system_facts [OF m(1,3)]
  have "all_frames (?ps [?f 7], []) = {#?f 2, ?f 1, ?f 7#}" by (simp add: all_frames_def sum_list_replicate_empty)
  with switch_loop_drains [OF ex_system_ports [OF m(1,2)] l(1) a(1) l(2) _ sw, of 4] e(1) x2 obtain ov' ps' where
    "switch_loop 4 0 (ex_system m1 m2) = Inr (LoopBlocked ov')" "ports 10 ov' ps'" "all_waiting ps' = {}"
    "all_frames (ps', ov_dropped ov') = {#?f 2, ?f 1, ?f 7#}" by auto
  moreover have "switch_loop 5 0 (ex_system m1 m3) = Inl MemFault"
    using switch_loop_drains [OF ex_system_ports [OF m(1,3)] l(1) a(2) l(2) _ sw, of 5] e(2) x3 by auto
  ultimately show ?thesis using m by blast
qed

text \<open>
  C8: no wake-up is lost. Whatever the modules and the switch do, in any order, from a start with empty queues:
  when a frame waits in an output queue, the event semaphore of the switch is not zero, and when a frame waits
  in the input queue of a module, the event semaphore of that module is not zero; neither can block for ever
  on a queue that holds a frame. A step is a module that queues or takes a frame, or a whole iteration of the switch.
\<close>

theorem switch_no_lost_wakeup:
  assumes "length (ov_modules ov0) = MAX_MODULES" "unat self < MAX_MODULES" "switch_start ov0"
    "(switch_sys self)\<^sup>*\<^sup>* ov0 ov" "i < MAX_MODULES" "ov_modules ov ! i = Some m"
  shows "(\<not> IsEmpty (m_output_queue m) \<longrightarrow> 0 < switch_events self ov)
    \<and> (i \<noteq> unat self \<and> \<not> IsEmpty (m_input_queue m) \<longrightarrow> 0 < m_event_sem m)"
proof -
  have inv: "wake_inv self ov" using reach_wake [OF assms(4) start_wake [OF assms(1-3)]] .
  then have c: "i < length (ov_modules ov)" "queues_ok m" "i \<noteq> unat self \<longrightarrow> nat (q_Size (m_input_queue m)) \<le> m_event_sem m"
    using assms(5,6) by (auto simp: wake_inv_def wake_core_def)
  then obtain xs ys where q: "queue_rep (m_output_queue m) xs" "queue_rep (m_input_queue m) ys" by (auto simp: queues_ok_def)
  have "frames_out (Some m) \<le> queued ov" using queued_ge [OF c(1)] assms(6) by simp
  then have "\<not> IsEmpty (m_output_queue m) \<longrightarrow> 0 < switch_events self ov"
    using inv frames_out_rep [OF q(1)] queue_repD(4) [OF q(1)] by (cases xs) (auto simp: IsEmpty_def wake_inv_def switch_events_def)
  then show ?thesis using c(3) queue_repD(4) [OF q(2)] by (cases ys) (auto simp: IsEmpty_def)
qed

theorem switch_no_lost_wakeup_witness:
  "\<exists>m. (switch_sys 0)\<^sup>*\<^sup>* ex_overall (modules_put 1 m ex_overall) \<and> \<not> IsEmpty (m_output_queue m)
    \<and> 0 < switch_events 0 (modules_put 1 m ex_overall)"
proof -
  obtain m where m: "module_to_switch ex_module (ex_frame\<lparr>destinationID := 1\<rparr>) = Inr m"
    "sent [] ex_module [ex_frame\<lparr>destinationID := 1\<rparr>] m" using ex_sent by blast
  let ?ov = "modules_put 1 m ex_overall"
  have start: "switch_start ex_overall"
    using ex_module_ports by (auto simp: switch_start_def ex_overall_def port_rel_def)
  have "switch_sys 0 ex_overall ?ov" using m(1) by (intro switch_sys.send) (auto simp: ex_overall_def)
  then have reach: "(switch_sys 0)\<^sup>*\<^sup>* ex_overall ?ov" by blast
  have at: "ov_modules ?ov ! 1 = Some m" by (simp add: modules_put_def ex_overall_def)
  have ne: "\<not> IsEmpty (m_output_queue m)" using m(2) queue_repD(4) [of "m_output_queue m" "[ex_frame\<lparr>destinationID := 1\<rparr>]"]
    by (auto simp: sent_def IsEmpty_def)
  from switch_no_lost_wakeup [OF ex_overall_length _ start reach _ at] ne reach show ?thesis
    by (auto simp: MAX_MODULES_def)
qed

text \<open>
  the test of the destination is \<^verbatim>\<open>> MAX_MODULES\<close>: a frame for destination 32, the first index that is not
  in the array of modules, is not dropped but makes the switch read past the array. The same holds of
  \<^verbatim>\<open>switch_unregister_module\<close>, while registering a module with that index is refused.
\<close>

theorem switch_destination_off_by_one:
  assumes "length (ov_modules ov) = MAX_MODULES" "unat (destinationID f) = MAX_MODULES"
  shows "switch_dispatch self f ov = Inl MemFault
    \<and> switch_unregister_module (ov_modules ov) (int MAX_MODULES) = Inl MemFault
    \<and> (\<forall>m. unat (m_index m) = MAX_MODULES \<longrightarrow> switch_register_module (ov_modules ov) m = Inr (- 1, ov_modules ov))"
  using assms by (simp add: switch_dispatch_def modules_at_def switch_unregister_module_def switch_register_module_def)

theorem switch_destination_off_by_one_witness:
  "switch_dispatch 0 (ex_frame\<lparr>destinationID := 32\<rparr>) ex_overall = Inl MemFault"
  using switch_destination_off_by_one [OF ex_overall_length, of "ex_frame\<lparr>destinationID := 32\<rparr>"] by (simp add: MAX_MODULES_def)



end
