(* ===== verification/Net_Checksum.thy ===== *)
theory Net_Checksum
  imports Net_Bytes "HOL-Library.Signed_Division"
begin

text \<open>
  The one's complement sum that UDP, TCP, ICMP and IPv4 share: the loop that adds the 16 bit words of a buffer to a
  32 bit counter, the loop that folds the carries back, and what the two compute. The contract of a packet with a
  checksum field is a locale: it is interpreted by the module of each protocol.
\<close>

section \<open>The loops\<close>

text \<open>\<^verbatim>\<open>for (...; i += 2, pt += 2) sum += (*pt << 8) + *(pt + 1)\<close>, \<open>n\<close> times from index \<open>i\<close>.\<close>

fun sum_words :: "byte list \<Rightarrow> nat \<Rightarrow> nat \<Rightarrow> u32 \<Rightarrow> u32 res" where
  "sum_words bs i 0 acc = Inr acc"
| "sum_words bs i (Suc n) acc =
    andThen (load8 bs (int i)) (\<lambda>a.
    andThen (load8 bs (int i + 1)) (\<lambda>b.
      sum_words bs (i + 2) n (acc + (push_bit 8 (ucast a) + ucast b))))"

text \<open>\<^verbatim>\<open>while (sum >> 16) sum = (sum & 0xFFFF) + (sum >> 16)\<close>.\<close>

function fold_carry :: "u32 \<Rightarrow> u32" where
  "fold_carry s = (if drop_bit 16 s \<noteq> 0 then fold_carry ((s AND 0xFFFF) + drop_bit 16 s) else s)"
  by pat_completeness auto
termination
  by (relation "measure unat") (auto simp: fold_step_less)

section \<open>Specification\<close>

text \<open>The words of a buffer, most significant byte first, the last one filled up with a zero byte.\<close>

fun be_total :: "byte list \<Rightarrow> nat" where
  "be_total [] = 0"
| "be_total [a] = 256 * unat a"
| "be_total (a # b # bs) = 256 * unat a + unat b + be_total bs"

text \<open>The representative of a number modulo \<open>m\<close> that is 0 only for 0, as the fold of carries computes it.\<close>

definition ones :: "nat \<Rightarrow> nat \<Rightarrow> nat" where
  "ones m n = (if n = 0 then 0 else (n - 1) mod m + 1)"

definition inet_cksum :: "nat \<Rightarrow> u16" where
  "inet_cksum n = of_nat (65535 - ones 65535 n)"

text \<open>Storing a 16 bit field, most significant byte first.\<close>

definition put16 :: "nat \<Rightarrow> byte list \<Rightarrow> u16 \<Rightarrow> byte list" where
  "put16 k bs c = take k bs @ [hi8 c, lo8 c] @ drop (k + 2) bs"

section \<open>Residues\<close>

lemma ones_bounds: "0 < m \<Longrightarrow> ones m n \<le> m" "0 < n \<Longrightarrow> 0 < ones m n"
  by (auto simp: ones_def) (metis Suc_leI mod_less_divisor)

lemma ones_mod: "ones m n mod m = n mod m"
proof (cases n)
  case (Suc k)
  then show ?thesis by (simp add: ones_def mod_Suc_eq)
qed (simp add: ones_def)

lemma mod_add_cancel: "(n + a) mod m = (n + b) mod m \<longleftrightarrow> a mod m = b mod (m :: nat)"
proof -
  have "(n + a) mod m = (n + b) mod m \<longleftrightarrow> int (n + a) mod int m = int (n + b) mod int m"
    by (metis of_nat_eq_iff zmod_int)
  also have "\<dots> \<longleftrightarrow> int m dvd int a - int b" by (simp add: mod_eq_dvd_iff)
  also have "\<dots> \<longleftrightarrow> int a mod int m = int b mod int m" by (simp add: mod_eq_dvd_iff)
  finally show ?thesis by (metis of_nat_eq_iff zmod_int)
qed

lemma ones_cong:
  assumes "0 < s" "0 < t" "s mod m = t mod m"
  shows "ones m s = ones m t"
proof -
  obtain a b where ab: "s = 1 + a" "t = 1 + b" using assms(1,2) by (metis Suc_eq_plus1_left gr0_conv_Suc)
  with assms(3) mod_add_cancel have "a mod m = b mod m" by metis
  with ab show ?thesis by (simp add: ones_def)
qed

lemma ones_full:
  assumes "0 < m" "0 < n"
  shows "ones m n = m \<longleftrightarrow> n mod m = 0"
proof
  assume "ones m n = m"
  then show "n mod m = 0" using ones_mod [of m n] by simp
next
  assume "n mod m = 0"
  then have "ones m n mod m = 0" using ones_mod by simp
  then show "ones m n = m" using ones_bounds(1) [OF assms(1), of n] ones_bounds(2) [OF assms(2), of m]
    by (metis le_neq_implies_less less_numeral_extra(3) mod_less)
qed

lemma ones_complement: "0 < m \<Longrightarrow> (n + (m - ones m n)) mod m = 0"
proof -
  assume m: "0 < m"
  have "(n + (m - ones m n)) mod m = (ones m n + (m - ones m n)) mod m"
    by (metis mod_add_left_eq ones_mod)
  then show ?thesis using ones_bounds(1) [OF m, of n] by simp
qed

lemma unat_cksum: "unat (inet_cksum n) = 65535 - ones 65535 n"
  unfolding inet_cksum_def unat_of_nat by (rule mod_less) simp

lemma cksum_zero_iff: "0 < n \<Longrightarrow> inet_cksum n = 0 \<longleftrightarrow> n mod 65535 = 0"
  using ones_full [of 65535 n] ones_bounds(1) [of 65535 n] unat_cksum [of n] unat_eq_0 [of "inet_cksum n"] by auto

section \<open>Packets with a checksum field\<close>

text \<open>
  The field counts once in the sum of the words. Then the packet with the computed checksum in its field has checksum 0.
  When some other field is not zero, no other value of the field has, up to the two representations of zero.
\<close>

locale checksum_place =
  fixes total :: "'p \<Rightarrow> nat" and put :: "'p \<Rightarrow> u16 \<Rightarrow> 'p" and good :: "'p \<Rightarrow> bool"
  assumes put_total: "good p \<Longrightarrow> total (put p c) = total (put p 0) + unat c"
begin

lemma verifies:
  assumes "good p"
  shows "inet_cksum (total (put p (inet_cksum (total (put p 0))))) = 0"
proof -
  let ?n = "total (put p 0)"
  have pos: "0 < ?n + unat (inet_cksum ?n)" unfolding unat_cksum by (cases "?n = 0") (simp_all add: ones_def)
  have "(?n + unat (inet_cksum ?n)) mod 65535 = 0" unfolding unat_cksum by (rule ones_complement) simp
  then have "inet_cksum (?n + unat (inet_cksum ?n)) = 0" by (rule iffD2 [OF cksum_zero_iff [OF pos]])
  then show ?thesis by (simp only: put_total [OF assms, of "inet_cksum ?n"])
qed

end

locale checksum_field = checksum_place +
  assumes put_pos: "good p \<Longrightarrow> 0 < total (put p 0)"
begin

lemma rejects:
  assumes "good p" "inet_cksum (total (put p c)) = 0"
  shows "unat c mod 65535 = unat (inet_cksum (total (put p 0))) mod 65535"
proof -
  let ?n = "total (put p 0)"
  have pos: "0 < ?n + unat c" using put_pos [OF assms(1)] by simp
  have "(?n + unat c) mod 65535 = 0" using assms(2) cksum_zero_iff [OF pos] put_total [OF assms(1), of c] by simp
  moreover have "(?n + unat (inet_cksum ?n)) mod 65535 = 0" unfolding unat_cksum by (rule ones_complement) simp
  ultimately show ?thesis using mod_add_cancel [of ?n "unat c" 65535 "unat (inet_cksum ?n)"] by simp
qed

end

section \<open>What the loops compute\<close>

declare fold_carry.simps [simp del]

lemma fold_carry_nat: "unat (fold_carry s) = ones 65535 (unat s)"
proof (induction s rule: fold_carry.induct)
  case (1 s)
  show ?case
  proof (cases "drop_bit 16 s = 0")
    case True
    then have "unat s < 65536" by (simp add: high_half_zero)
    then have "ones 65535 (unat s) = unat s" by (auto simp: ones_def)
    with True show ?thesis by (subst fold_carry.simps) simp
  next
    case False
    let ?t = "(s AND 0xFFFF) + drop_bit 16 s"
    have big: "\<not> unat s < 65536" using False by (simp add: high_half_zero)
    have "unat s = 65535 * (unat s div 65536) + unat ?t"
      unfolding fold_step using div_mult_mod_eq [of "unat s" 65536] by linarith
    then have "unat s mod 65535 = unat ?t mod 65535" by (metis mod_mult_self4)
    moreover have "0 < unat ?t"
    proof -
      have "0 < unat s div 65536" using big by (simp add: div_greater_zero_iff)
      then show ?thesis unfolding fold_step by simp
    qed
    ultimately have "ones 65535 (unat ?t) = ones 65535 (unat s)" using ones_cong [of "unat ?t" "unat s"] big by simp
    with 1 [OF False] False show ?thesis by (subst fold_carry.simps) simp
  qed
qed

lemma complement16:
  assumes "unat (s :: u32) < 65536"
  shows "(ucast (NOT s) :: u16) = of_nat (65535 - unat s)"
proof -
  have "(ucast (NOT s) :: u16) = NOT (ucast s)" by (rule bit_word_eqI) (simp add: bit_simps)
  also have "\<dots> = - 1 - ucast s" by (simp add: not_eq_complement)
  also have "\<dots> = of_nat 65535 - of_nat (unat s)" by (simp add: of_nat_unat)
  also have "\<dots> = of_nat (65535 - unat s)" using assms by (subst of_nat_diff) auto
  finally show ?thesis .
qed

lemma fold_complement: "(ucast (NOT (fold_carry s)) :: u16) = inet_cksum (unat s)"
proof -
  have "unat (fold_carry s) < 65536" unfolding fold_carry_nat using ones_bounds(1) [of 65535 "unat s"] by simp
  from complement16 [OF this] show ?thesis unfolding fold_carry_nat by (simp add: inet_cksum_def)
qed

lemma word_pair: "push_bit 8 (ucast (a :: u8)) + ucast (b :: u8) = (of_nat (256 * unat a + unat b) :: u32)"
  by (simp add: push_bit_eq_mult of_nat_unat)

lemma sum_words_total:
  assumes "i + 2 * n \<le> length bs"
  shows "sum_words bs i n acc = Inr (acc + of_nat (be_total (take (2 * n) (drop i bs))))"
  using assms
proof (induction n arbitrary: i acc)
  case (Suc n)
  have d: "drop i bs = bs ! i # bs ! (i + 1) # drop (i + 2) bs"
    using Suc.prems by (simp add: Cons_nth_drop_Suc)
  have l: "load8 bs (int i) = Inr (bs ! i)" "load8 bs (1 + int i) = Inr (bs ! (i + 1))"
    using Suc.prems by (simp_all add: load8_def nat_add_distrib)
  have "sum_words bs i (Suc n) acc = sum_words bs (i + 2) n (acc + of_nat (256 * unat (bs ! i) + unat (bs ! (i + 1))))"
    by (simp add: l add.commute [of "int i"] push_bit_eq_mult mult.commute [of _ 256])
  also have "\<dots> = Inr (acc + of_nat (256 * unat (bs ! i) + unat (bs ! (i + 1))) + of_nat (be_total (take (2 * n) (drop (i + 2) bs))))"
    using Suc.IH [of "i + 2"] Suc.prems by simp
  finally show ?case unfolding d by (simp add: add.assoc)
qed simp

lemma be_total_append: "even (length xs) \<Longrightarrow> be_total (xs @ ys) = be_total xs + be_total ys"
  by (induction xs rule: be_total.induct) auto

lemma be_total_bound: "be_total bs \<le> 65535 * ((length bs + 1) div 2)"
proof (induction bs rule: be_total.induct)
  case (2 a)
  have "unat a < 256" using unsigned_less [of a] by simp
  then show ?case by simp
next
  case (3 a b bs)
  have "unat a < 256" "unat b < 256" using unsigned_less [of a] unsigned_less [of b] by simp_all
  with 3 show ?case by simp
qed simp

lemma unat_hi_lo: "256 * unat (hi8 c) + unat (lo8 c) = unat (c :: u16)"
proof -
  have "unat (hi8 c) = unat c div 256"
  proof -
    have "unat c < 65536" using unsigned_less [of c] by simp
    then have "unat c div 256 < 256" by (simp add: less_mult_imp_div_less)
    then show ?thesis by (simp only: hi8_def unsigned_ucast_eq unat_drop_bit_eq) (simp add: drop_bit_eq_div take_bit_eq_mod)
  qed
  moreover have "unat (lo8 c) = unat c mod 256" by (simp only: lo8_def unsigned_ucast_eq) (simp add: take_bit_eq_mod)
  ultimately show ?thesis by simp
qed

lemma put16_total:
  assumes "even k" "k + 2 \<le> length bs"
  shows "be_total (put16 k bs c) = be_total (put16 k bs 0) + unat c"
  using assms by (simp add: put16_def be_total_append unat_hi_lo)

lemma be_total_odd:
  "odd (length bs) \<Longrightarrow> be_total bs = be_total (take (length bs - 1) bs) + 256 * unat (bs ! (length bs - 1))"
proof -
  assume o: "odd (length bs)"
  then obtain xs b where bs: "bs = xs @ [b]" by (metis odd_pos length_greater_0_conv rev_exhaust)
  with o be_total_append [of xs "[b]"] show ?thesis by simp
qed

lemma put16_self: "k + 2 \<le> length bs \<Longrightarrow> put16 k bs (mk16 (bs ! k) (bs ! (k + 1))) = bs"
proof -
  assume "k + 2 \<le> length bs"
  then have "drop k bs = bs ! k # bs ! (k + 1) # drop (k + 2) bs" by (simp add: Cons_nth_drop_Suc)
  with append_take_drop_id [of k bs] show ?thesis by (simp add: put16_def)
qed

end
