(* ===== verification/Module_Common.thy ===== *)
theory Module_Common
  imports Fins_Module Net_Checksum
begin

text \<open>
  What the protocol modules have in common beyond \<^verbatim>\<open>finsmodule.c\<close>: waiting for a frame, sending one along a flow
  or freeing it, and the metadata they read and write.
\<close>

section \<open>Waiting and sending\<close>

text \<open>
  The loop at the start of every \<^verbatim>\<open>_get_ff\<close>: wait for an event and read the input queue, until there is a frame or
  the module is not running. Its first argument is the value of the event semaphore; \<open>None\<close> means that the thread
  blocks on it.
\<close>

fun wait_ff :: "nat \<Rightarrow> 'md fins_module \<Rightarrow> (finsFrame option \<times> 'md fins_module) option res" where
  "wait_ff 0 m = Inr None"
| "wait_ff (Suc e) m =
    andThen (read_queue (m_input_queue m)) (\<lambda>(ff, q).
      let m1 = m\<lparr>m_input_queue := q, m_event_sem := e\<rparr> in
      if m_state m1 = FMS_RUNNING \<and> ff = None then wait_ff e m1 else Inr (Some (ff, m1)))"

text \<open>\<^verbatim>\<open>if (!module_send_flow(module, ff, flow)) freeFinsFrame(ff)\<close>\<close>

definition send_or_free :: "'md fins_module \<Rightarrow> finsFrame \<Rightarrow> u32 \<Rightarrow> 'md fins_module res" where
  "send_or_free m ff flow =
    andThen (module_send_flow m ff flow) (\<lambda>(n, m1). if n = 0 then free_ff ff m1 else Inr m1)"

text \<open>A flow with one destination.\<close>

definition flow_to :: "'md fins_module \<Rightarrow> u32 \<Rightarrow> u32 \<Rightarrow> bool" where
  "flow_to m flow d \<longleftrightarrow> flow < mt_flows_num (m_table m) \<and> unat (mt_flows_num (m_table m)) \<le> length (mt_flows (m_table m))
     \<and> fl_link_id (mt_flows (m_table m) ! unat flow) \<noteq> LINK_NULL
     \<and> (case fl_link (mt_flows (m_table m) ! unat flow) of None \<Rightarrow> False
        | Some l \<Rightarrow> lk_dsts_num l = 1 \<and> lk_dsts_index l \<noteq> [] \<and> hd (lk_dsts_index l) = d)"

definition room :: "'md fins_module \<Rightarrow> finsFrame list \<Rightarrow> bool" where
  "room m xs \<longleftrightarrow> queue_rep (m_output_queue m) xs \<and> length xs < queue_cap (m_output_queue m)"

text \<open>The output queue holds \<open>xs\<close> and has space for \<open>n\<close> more frames.\<close>

definition space :: "'md fins_module \<Rightarrow> finsFrame list \<Rightarrow> nat \<Rightarrow> bool" where
  "space m xs n \<longleftrightarrow> queue_rep (m_output_queue m) xs \<and> length xs + n \<le> queue_cap (m_output_queue m)"

text \<open>The newest frame in the output queue of a module.\<close>

definition newest :: "'md fins_module \<Rightarrow> finsFrame \<Rightarrow> bool" where
  "newest m f \<longleftrightarrow> (\<exists>xs. queue_rep (m_output_queue m) (xs @ [f]))"

section \<open>Metadata of 32 bit values\<close>

text \<open>A metadata that can be cloned, and the 32 bit value of an element.\<close>

definition meta_plain :: "settings \<Rightarrow> bool" where
  "meta_plain ms \<longleftrightarrow> meta_ok ms \<and> list_all plain (map snd ms)"

definition has_u32 :: "settings \<Rightarrow> string \<Rightarrow> u32 \<Rightarrow> bool" where
  "has_u32 ms t v \<longleftrightarrow> config_validate_name t \<and> map_of ms t = Some (CInt v)"

definition free_u32 :: "settings \<Rightarrow> string \<Rightarrow> bool" where
  "free_u32 ms t \<longleftrightarrow> config_validate_name t \<and> (map_of ms t = None \<or> (\<exists>v. map_of ms t = Some (CInt v)))"

definition has_u64 :: "settings \<Rightarrow> string \<Rightarrow> u64 \<Rightarrow> bool" where
  "has_u64 ms t v \<longleftrightarrow> config_validate_name t \<and> map_of ms t = Some (CInt64 v)"

definition free_u64 :: "settings \<Rightarrow> string \<Rightarrow> bool" where
  "free_u64 ms t \<longleftrightarrow> config_validate_name t \<and> (map_of ms t = None \<or> (\<exists>v. map_of ms t = Some (CInt64 v)))"

text \<open>A sequence of writes with \<^verbatim>\<open>secure_metadata_writeToElement\<close>.\<close>

fun meta_writes :: "settings \<Rightarrow> (string \<times> u32) list \<Rightarrow> settings res" where
  "meta_writes ms [] = Inr ms"
| "meta_writes ms ((t, v) # ws) = andThen (secure_metadata_writeToElement ms t (DInt32 v)) (\<lambda>ms1. meta_writes ms1 ws)"

text \<open>\<^verbatim>\<open>metadata_readFromElement(meta, name, &value) == META_TRUE\<close> into a 32 bit variable.\<close>

definition read_opt_u32 :: "settings \<Rightarrow> string \<Rightarrow> u32 option res" where
  "read_opt_u32 ms t =
    (case metadata_readFromElement ms t of None \<Rightarrow> Inr None | Some (CInt v) \<Rightarrow> Inr (Some v) | Some _ \<Rightarrow> Inl MemFault)"

lemma has_read: "meta_plain ms \<Longrightarrow> has_u32 ms t v \<Longrightarrow> secure_metadata_read_u32 ms t = Inr v"
  by (simp add: meta_plain_def has_u32_def read_u32_map_of u32_key_def)

lemma free_key: "free_u32 ms t \<Longrightarrow> u32_key ms t"
  by (auto simp: free_u32_def u32_key_def)

lemma plain_map_of: "meta_ok ms \<Longrightarrow> list_all plain (map snd ms) \<longleftrightarrow> (\<forall>t v. map_of ms t = Some v \<longrightarrow> plain v)"
proof -
  assume "meta_ok ms"
  then have d: "distinct (map fst ms)" by (simp add: meta_ok_def)
  have "list_all plain (map snd ms) \<longleftrightarrow> (\<forall>(t, v) \<in> set ms. plain v)" by (auto simp: list_all_iff)
  also have "\<dots> \<longleftrightarrow> (\<forall>t v. map_of ms t = Some v \<longrightarrow> plain v)" using d by auto
  finally show ?thesis .
qed

lemma write_u32:
  assumes "meta_plain ms" "free_u32 ms t"
  obtains ms' where "secure_metadata_writeToElement ms t (DInt32 v) = Inr ms'" "meta_plain ms'" "has_u32 ms' t v"
    "\<And>u w. u \<noteq> t \<Longrightarrow> has_u32 ms' u w = has_u32 ms u w" "\<And>u. u \<noteq> t \<Longrightarrow> free_u32 ms' u = free_u32 ms u"
    "map_of ms' = (map_of ms)(t \<mapsto> CInt v)"
proof -
  have ok: "meta_ok ms" using assms(1) by (simp add: meta_plain_def)
  obtain ms' where m: "put_u32 ms t v = Inr ms'" "meta_ok ms'" "map_of ms' = (map_of ms)(t \<mapsto> CInt v)"
    using put_u32_ok [OF ok free_key [OF assms(2)]] by blast
  have "\<forall>u w. map_of ms' u = Some w \<longrightarrow> plain w"
    using m(3) assms(1) plain_map_of [OF ok] by (auto simp: meta_plain_def plain_def)
  then have "meta_plain ms'" using m(2) plain_map_of [OF m(2)] by (simp add: meta_plain_def)
  with m assms(2) that show thesis by (auto simp: put_u32_def has_u32_def free_u32_def)
qed

lemma write_u64:
  assumes "meta_plain ms" "free_u64 ms t"
  obtains ms' where "secure_metadata_writeToElement ms t (DInt64 v) = Inr ms'" "meta_plain ms'" "map_of ms' = (map_of ms)(t \<mapsto> CInt64 v)"
proof -
  have ok: "meta_ok ms" using assms(1) by (simp add: meta_plain_def)
  have "config_validate_name t" using assms(2) by (simp add: free_u64_def)
  from metadata_write_ok [OF ok this, of "DInt64 v"] assms(2) obtain ms' where
    m: "metadata_writeToElement ms t (DInt64 v) = Inr (True, ms')" "meta_ok ms'" "map_of ms' = (map_of ms)(t \<mapsto> CInt64 v)"
    by (auto simp: free_u64_def)
  have "\<forall>u w. map_of ms' u = Some w \<longrightarrow> plain w"
    using m(3) assms(1) plain_map_of [OF ok] by (auto simp: meta_plain_def plain_def)
  then have "meta_plain ms'" using m(2) plain_map_of [OF m(2)] by (simp add: meta_plain_def)
  with m that show thesis by (simp add: secure_metadata_writeToElement_def)
qed

lemma read_u64: "meta_plain ms \<Longrightarrow> has_u64 ms t v \<Longrightarrow> secure_metadata_read_u64 ms t = Inr v"
  by (simp add: secure_metadata_read_u64_def meta_plain_def has_u64_def read_map_of plain_def)

text \<open>Two writes under different names.\<close>

lemma write2_u32:
  assumes "meta_plain ms" "free_u32 ms t" "free_u32 ms u" "t \<noteq> u"
  shows "\<exists>ms1 ms2. secure_metadata_writeToElement ms t (DInt32 v) = Inr ms1
    \<and> secure_metadata_writeToElement ms1 u (DInt32 w) = Inr ms2 \<and> meta_plain ms2 \<and> has_u32 ms2 t v \<and> has_u32 ms2 u w
    \<and> (\<forall>x. x \<noteq> t \<and> x \<noteq> u \<longrightarrow> map_of ms2 x = map_of ms x)"
proof -
  obtain ms1 where 1: "secure_metadata_writeToElement ms t (DInt32 v) = Inr ms1" "meta_plain ms1" "has_u32 ms1 t v"
      "map_of ms1 = (map_of ms)(t \<mapsto> CInt v)"
    by (rule write_u32 [OF assms(1,2)])
  have "free_u32 ms1 u" using assms(3,4) 1(4) by (auto simp: free_u32_def)
  from 1(2) this obtain ms2 where 2: "secure_metadata_writeToElement ms1 u (DInt32 w) = Inr ms2" "meta_plain ms2" "has_u32 ms2 u w"
      "map_of ms2 = (map_of ms1)(u \<mapsto> CInt w)"
    by (rule write_u32)
  have "has_u32 ms2 t v" using 1(3) 2(4) assms(4) by (auto simp: has_u32_def)
  with 1 2 show ?thesis by (intro exI [of _ ms1] exI [of _ ms2]) auto
qed

lemma writes_ok:
  assumes "meta_plain ms" "\<forall>t \<in> fst ` set ws. free_u32 ms t"
  shows "\<exists>ms'. meta_writes ms ws = Inr ms' \<and> meta_plain ms'
    \<and> map_of ms' = map_of ms ++ map_of (rev (map (\<lambda>(t, v). (t, CInt v)) ws))"
  using assms
proof (induction ws arbitrary: ms)
  case (Cons x ws)
  obtain t v where x: "x = (t, v)" by (cases x)
  then have "free_u32 ms t" using Cons.prems(2) by auto
  from Cons.prems(1) this obtain ms1 where ms1: "secure_metadata_writeToElement ms t (DInt32 v) = Inr ms1" "meta_plain ms1"
      "map_of ms1 = (map_of ms)(t \<mapsto> CInt v)"
    by (rule write_u32)
  have "\<forall>u \<in> fst ` set ws. free_u32 ms1 u"
  proof
    fix u assume "u \<in> fst ` set ws"
    then have "free_u32 ms u" using Cons.prems(2) by auto
    then show "free_u32 ms1 u" using ms1(3) by (auto simp: free_u32_def)
  qed
  from Cons.IH [OF ms1(2) this] obtain ms' where "meta_writes ms1 ws = Inr ms'" "meta_plain ms'"
    "map_of ms' = map_of ms1 ++ map_of (rev (map (\<lambda>(t, v). (t, CInt v)) ws))" by blast
  then show ?case using x ms1(1,3) by (auto simp: map_add_def fun_eq_iff split: option.splits)
qed simp

lemma read_opt_none: "meta_plain ms \<Longrightarrow> config_validate_name t \<Longrightarrow> map_of ms t = None \<Longrightarrow> read_opt_u32 ms t = Inr None"
  by (simp add: read_opt_u32_def meta_plain_def read_map_of)

lemma read_opt_some: "meta_plain ms \<Longrightarrow> has_u32 ms t v \<Longrightarrow> read_opt_u32 ms t = Inr (Some v)"
  by (simp add: read_opt_u32_def meta_plain_def has_u32_def read_map_of plain_def)

section \<open>Sending along a flow with one destination\<close>

lemma flow_single:
  assumes "room m xs" "flow_to m flow d"
  obtains m' where "module_send_flow m ff flow = Inr (1, m')" "sent xs m [ff\<lparr>destinationID := d\<rparr>] m'"
proof -
  from assms(2) obtain l where l: "fl_link (mt_flows (m_table m) ! unat flow) = Some l" "lk_dsts_num l = 1"
    "lk_dsts_index l \<noteq> []" "hd (lk_dsts_index l) = d" by (auto simp: flow_to_def split: option.splits)
  obtain m' where m': "module_to_switch m (ff\<lparr>destinationID := d\<rparr>) = Inr m'" "sent xs m [ff\<lparr>destinationID := d\<rparr>] m'"
    using module_to_switch_ok [of m xs] assms(1) by (auto simp: room_def)
  have "dsts_at l 0 = Inr d" using l by (simp add: dsts_at_def hd_conv_nth)
  then have "module_send_flow m ff flow = Inr (1, m')"
  proof -
    have "\<not> mt_flows_num (m_table m) \<le> flow" "\<not> length (mt_flows (m_table m)) \<le> unat flow"
      "fl_link_id (mt_flows (m_table m) ! unat flow) \<noteq> LINK_NULL"
      using assms(2) by (auto simp: flow_to_def word_less_nat_alt word_le_nat_alt)
    then show ?thesis using l(1,2) m'(1) \<open>dsts_at l 0 = Inr d\<close> by (simp add: module_send_flow_def Let_def)
  qed
  with m'(2) that show thesis by blast
qed

lemma send_single:
  assumes "room m xs" "flow_to m flow d"
  obtains m' where "send_or_free m ff flow = Inr m'" "sent xs m [ff\<lparr>destinationID := d\<rparr>] m'"
proof -
  obtain m' where "module_send_flow m ff flow = Inr (1, m')" "sent xs m [ff\<lparr>destinationID := d\<rparr>] m'"
    using flow_single [OF assms] by blast
  then show thesis using that [of m'] by (simp add: send_or_free_def)
qed

lemma space_room: "space m xs n \<Longrightarrow> 0 < n \<Longrightarrow> room m xs"
  by (simp add: space_def room_def)

lemma space_sent: "sent xs m fs m' \<Longrightarrow> space m xs n \<Longrightarrow> length fs + k \<le> n \<Longrightarrow> space m' (xs @ fs) k"
  by (simp add: space_def sent_def)

lemma flow_to_sent: "sent xs m fs m' \<Longrightarrow> flow_to m' flow d = flow_to m flow d"
  by (simp add: flow_to_def sent_fields(1))

text \<open>Two frames sent one after the other.\<close>

lemma send_two:
  assumes "space m xs 2" "flow_to m flow d" "flow_to m flow2 d2"
  obtains m1 m2 where "send_or_free m ff flow = Inr m1" "module_send_flow m ff flow = Inr (1, m1)" "sent xs m [ff\<lparr>destinationID := d\<rparr>] m1"
    "send_or_free m1 gg flow2 = Inr m2" "sent xs m [ff\<lparr>destinationID := d\<rparr>, gg\<lparr>destinationID := d2\<rparr>] m2"
proof -
  have "room m xs" using assms(1) by (rule space_room) simp
  from this assms(2) obtain m1 where m1: "module_send_flow m ff flow = Inr (1, m1)" "sent xs m [ff\<lparr>destinationID := d\<rparr>] m1"
    by (rule flow_single)
  have "space m1 (xs @ [ff\<lparr>destinationID := d\<rparr>]) 1" by (rule space_sent [OF m1(2) assms(1)]) simp
  then have "room m1 (xs @ [ff\<lparr>destinationID := d\<rparr>])" by (rule space_room) simp
  moreover have "flow_to m1 flow2 d2" using flow_to_sent [OF m1(2)] assms(3) by simp
  ultimately obtain m2 where m2: "send_or_free m1 gg flow2 = Inr m2" "sent (xs @ [ff\<lparr>destinationID := d\<rparr>]) m1 [gg\<lparr>destinationID := d2\<rparr>] m2"
    by (rule send_single)
  have "send_or_free m ff flow = Inr m1" using m1(1) by (simp add: send_or_free_def)
  then show thesis using that m1 m2(1) sent_trans [OF m1(2) m2(2)] by simp
qed

lemma newestI: "queue_rep (m_output_queue m) (xs @ [f]) \<Longrightarrow> newest m f"
  by (auto simp: newest_def)

lemma room_data [simp]: "room (m\<lparr>m_data := d\<rparr>) xs = room m xs" "room (m\<lparr>m_freed := f\<rparr>) xs = room m xs"
  by (simp_all add: room_def)

lemma space_data [simp]: "space (m\<lparr>m_data := d\<rparr>) xs n = space m xs n"
  by (simp add: space_def)

lemma flow_to_data [simp]: "flow_to (m\<lparr>m_data := x\<rparr>) flow d = flow_to m flow d"
    "flow_to (m\<lparr>m_freed := f\<rparr>) flow d = flow_to m flow d"
  by (simp_all add: flow_to_def)

text \<open>Waiting takes the first frame of the input queue of a running module that has an event.\<close>

lemma wait_takes:
  assumes "queue_rep (m_input_queue m) (f # fs)" "m_event_sem m = Suc e"
  shows "\<exists>q. wait_ff (m_event_sem m) m = Inr (Some (Some f, m\<lparr>m_input_queue := q, m_event_sem := e\<rparr>)) \<and> queue_rep q fs"
  using fins_queue.deq_law [OF assms(1)] assms(2) by (auto simp: Let_def)

section \<open>Sending along a flow with at most one destination\<close>

lemma flow_to_ready:
  assumes "room m xs" "flow_to m flow d"
  shows "flow_ready m xs flow" "flow_dsts (m_table m) flow = [d]"
proof -
  from assms(2) obtain l where l: "fl_link (mt_flows (m_table m) ! unat flow) = Some l" "lk_dsts_num l = 1"
    "lk_dsts_index l \<noteq> []" "hd (lk_dsts_index l) = d" by (auto simp: flow_to_def split: option.splits)
  show d: "flow_dsts (m_table m) flow = [d]" using assms(2) l by (cases "lk_dsts_index l") (auto simp: flow_dsts_def flow_to_def)
  have "Suc 0 \<le> length (lk_dsts_index l)" using l(3) by (simp add: Suc_le_eq)
  then show "flow_ready m xs flow" unfolding flow_ready_def d using assms l by (auto simp: flow_to_def room_def)
qed

lemma send_or_free_dsts:
  assumes "flow_ready m xs flow" "length (flow_dsts (m_table m) flow) \<le> 1"
  shows "case flow_dsts (m_table m) flow of [] \<Rightarrow> send_or_free m ff flow = free_ff ff m
    | d # ds \<Rightarrow> \<exists>m'. send_or_free m ff flow = Inr m' \<and> sent xs m [ff\<lparr>destinationID := d\<rparr>] m'"
  using send_flow_dsts [OF assms(1), of ff] assms(2)
  by (cases "flow_dsts (m_table m) flow") (auto simp: send_or_free_def)

end
