(* ===== verification/Udp_Module.thy ===== *)
theory Udp_Module
  imports Module_Common
begin

text \<open>
  The UDP module, \<^verbatim>\<open>trunk/modules/udp\<close>: the checksum with its pseudo header, the two data paths, the list of sent
  datagrams kept to match ICMP errors, and the control frames. The list of sent datagrams is the list of its elements
  (\<^verbatim>\<open>List_Props\<close> shows that the linked list library computes these operations); the time stamps stored with them are
  never read and are left out.
\<close>

section \<open>Data\<close>

record udp_sent =
  us_ff :: finsFrame
  us_host_ip :: u32
  us_host_port :: u16
  us_rem_ip :: u32
  us_rem_port :: u16

record udp_statistics =
  badChecksum :: u16
  noChecksum :: u16
  mismatchingLengths :: u16
  wrongProtocol :: u16
  totalBadDatagrams :: u32
  totalRecieved :: u32
  totalSent :: u32

record udp_data =
  ud_stats :: udp_statistics
  ud_sent_packet_list :: "udp_sent list"
  ud_sent_max :: nat

type_synonym udp_module = "udp_data fins_module"

definition UDP_PT_UDP :: u32 where "UDP_PT_UDP = 17"
definition U_HEADER_LEN :: u32 where "U_HEADER_LEN = 8"
definition IGNORE_CHEKSUM :: u16 where "IGNORE_CHEKSUM = 0"
definition UDP_SENT_LIST_MAX :: nat where "UDP_SENT_LIST_MAX = 2 * 65536"
definition UDP_MAX_FLOWS :: u32 where "UDP_MAX_FLOWS = 3"
definition UDP_FLOW_IPV4 :: u32 where "UDP_FLOW_IPV4 = 0"
definition UDP_FLOW_DAEMON :: u32 where "UDP_FLOW_DAEMON = 2"
definition UDP_EXEC_CLEAR_SENT :: u32 where "UDP_EXEC_CLEAR_SENT = 0"
definition UDP_ERROR_TTL :: u32 where "UDP_ERROR_TTL = 0"
definition UDP_ERROR_DEST_UNREACH :: u32 where "UDP_ERROR_DEST_UNREACH = 1"
definition UDP_ERROR_GET_ADDR :: u32 where "UDP_ERROR_GET_ADDR = 2"

definition upd_stats :: "(udp_statistics \<Rightarrow> udp_statistics) \<Rightarrow> udp_module \<Rightarrow> udp_module" where
  "upd_stats f m = m\<lparr>m_data := (m_data m)\<lparr>ud_stats := f (ud_stats (m_data m))\<rparr>\<rparr>"

definition set_sent :: "udp_sent list \<Rightarrow> udp_module \<Rightarrow> udp_module" where
  "set_sent xs m = m\<lparr>m_data := (m_data m)\<lparr>ud_sent_packet_list := xs\<rparr>\<rparr>"

section \<open>Checksum\<close>

text \<open>\<^verbatim>\<open>if (len & 0x1) sum += pt[--len] << 8\<close>\<close>

definition odd_byte :: "byte list \<Rightarrow> nat \<Rightarrow> u32 \<Rightarrow> (nat \<times> u32) res" where
  "odd_byte pt len s =
    (if odd len then andThen (load8 pt (int (len - 1))) (\<lambda>b. Inr (len - 1, s + push_bit 8 (ucast b))) else Inr (len, s))"

definition UDP_checksum :: "byte list \<Rightarrow> u32 \<Rightarrow> u32 \<Rightarrow> u16 res" where
  "UDP_checksum pcket src_ip_netw dst_ip_netw =
    andThen (load16 pcket 4) (\<lambda>u_len.
    andThen (sum_words (mem32 src_ip_netw @ mem32 dst_ip_netw @ [0, ucast UDP_PT_UDP] @ mem16 u_len) 0 6 0) (\<lambda>s1.
    let len = unat (ntohs u_len) in
    andThen (odd_byte pcket len s1) (\<lambda>(len1, s2).
    andThen (sum_words pcket 0 (len1 div 2) s2) (\<lambda>s3.
      Inr (ucast (NOT (fold_carry s3)))))))"

section \<open>Sent datagrams\<close>

definition udp_sent_create :: "finsFrame \<Rightarrow> u32 \<Rightarrow> u16 \<Rightarrow> u32 \<Rightarrow> u16 \<Rightarrow> udp_sent" where
  "udp_sent_create ff host_ip host_port rem_ip rem_port =
    \<lparr>us_ff = ff, us_host_ip = host_ip, us_host_port = host_port, us_rem_ip = rem_ip, us_rem_port = rem_port\<rparr>"

definition udp_sent_host_test :: "udp_sent \<Rightarrow> u32 \<Rightarrow> u16 \<Rightarrow> bool" where
  "udp_sent_host_test x host_ip host_port \<longleftrightarrow> us_host_ip x = host_ip \<and> us_host_port x = host_port"

text \<open>\<^verbatim>\<open>strncmp(a, b, n) == 0\<close> from index \<open>i\<close>: it stops at a zero byte.\<close>

fun strncmp_eq :: "byte list \<Rightarrow> byte list \<Rightarrow> nat \<Rightarrow> nat \<Rightarrow> bool res" where
  "strncmp_eq a b i 0 = Inr True"
| "strncmp_eq a b i (Suc n) =
    andThen (load8 a (int i)) (\<lambda>x.
    andThen (load8 b (int i)) (\<lambda>y.
      if x \<noteq> y then Inr False else if x = 0 then Inr True else strncmp_eq a b (i + 1) n))"

definition udp_sent_match_test :: "udp_sent \<Rightarrow> u32 \<Rightarrow> byte list \<Rightarrow> bool res" where
  "udp_sent_match_test x len data =
    (case pdu (dataFrame (us_ff x)) of
       None \<Rightarrow> Inl MemFault
     | Some p \<Rightarrow>
         if pduLength (dataFrame (us_ff x)) \<ge> len then strncmp_eq p data 0 (unat len)
         else strncmp_eq p data 0 (unat (pduLength (dataFrame (us_ff x)))))"

definition udp_sent_free :: "udp_sent \<Rightarrow> udp_module \<Rightarrow> udp_module res" where
  "udp_sent_free x m = free_ff (us_ff x) m"

text \<open>\<^verbatim>\<open>list_find2(md->sent_packet_list, udp_sent_match_test, &len, data)\<close>: the index of the element found.\<close>

fun find_sent :: "udp_sent list \<Rightarrow> u32 \<Rightarrow> byte list \<Rightarrow> nat \<Rightarrow> nat option res" where
  "find_sent [] len data i = Inr None"
| "find_sent (x # xs) len data i =
    andThen (udp_sent_match_test x len data) (\<lambda>b. if b then Inr (Some i) else find_sent xs len data (i + 1))"

fun free_sents :: "udp_sent list \<Rightarrow> udp_module \<Rightarrow> udp_module res" where
  "free_sents [] m = Inr m"
| "free_sents (x # xs) m = andThen (udp_sent_free x m) (free_sents xs)"

definition push_sent :: "udp_sent \<Rightarrow> udp_module \<Rightarrow> udp_module res" where
  "push_sent x m =
    (let xs = ud_sent_packet_list (m_data m) in
     if length xs < ud_sent_max (m_data m) then Inr (set_sent (xs @ [x]) m)
     else case xs of [] \<Rightarrow> Inl MemFault
          | old # rest \<Rightarrow> andThen (udp_sent_free old (set_sent rest m)) (\<lambda>m1. Inr (set_sent (rest @ [x]) m1)))"

section \<open>The data paths\<close>

definition udp_in_fdf :: "udp_module \<Rightarrow> finsFrame \<Rightarrow> udp_module res" where
  "udp_in_fdf m ff =
    (case metaData ff of None \<Rightarrow> Inl MemFault | Some meta \<Rightarrow>
     andThen (secure_metadata_read_u32 meta ''recv_protocol'') (\<lambda>protocol.
     andThen (secure_metadata_read_u32 meta ''recv_family'') (\<lambda>family.
     andThen (secure_metadata_read_u32 meta ''recv_src_ipv4'') (\<lambda>src_ip.
     andThen (secure_metadata_read_u32 meta ''recv_dst_ipv4'') (\<lambda>dst_ip.
     if protocol \<noteq> UDP_PT_UDP
     then free_ff ff (upd_stats (\<lambda>s. s\<lparr>wrongProtocol := wrongProtocol s + 1, totalBadDatagrams := totalBadDatagrams s + 1\<rparr>) m)
     else case pdu (dataFrame ff) of None \<Rightarrow> Inl MemFault | Some packet \<Rightarrow>
     andThen (load16 packet 4) (\<lambda>u_len.
     if pduLength (dataFrame ff) \<noteq> ucast (ntohs u_len)
     then free_ff ff (upd_stats (\<lambda>s. s\<lparr>mismatchingLengths := mismatchingLengths s + 1, totalBadDatagrams := totalBadDatagrams s + 1\<rparr>) m)
     else
     andThen (UDP_checksum packet (htonl src_ip) (htonl dst_ip)) (\<lambda>checksum.
     andThen (load16 packet 0) (\<lambda>u_src.
     andThen (load16 packet 2) (\<lambda>u_dst.
     andThen (load16 packet 6) (\<lambda>u_cksum.
     if u_cksum \<noteq> IGNORE_CHEKSUM \<and> checksum \<noteq> 0
     then free_ff ff (upd_stats (\<lambda>s. s\<lparr>badChecksum := badChecksum s + 1, totalBadDatagrams := totalBadDatagrams s + 1\<rparr>) m)
     else
     let m1 = (if u_cksum \<noteq> IGNORE_CHEKSUM then m else upd_stats (\<lambda>s. s\<lparr>noChecksum := noChecksum s + 1\<rparr>) m) in
     andThen (secure_metadata_writeToElement meta ''recv_src_port'' (DInt32 (ucast (ntohs u_src)))) (\<lambda>meta1.
     andThen (secure_metadata_writeToElement meta1 ''recv_dst_port'' (DInt32 (ucast (ntohs u_dst)))) (\<lambda>meta2.
     let len = pduLength (dataFrame ff) - U_HEADER_LEN in
     andThen (slice packet (unat U_HEADER_LEN) (unat len)) (\<lambda>data.
     let m2 = upd_stats (\<lambda>s. s\<lparr>totalRecieved := totalRecieved s + 1\<rparr>) m1 in
       send_or_free m2 (ff\<lparr>metaData := Some meta2, dataFrame := (dataFrame ff)\<lparr>pduLength := len, pdu := Some data\<rparr>\<rparr>)
         UDP_FLOW_DAEMON)))))))))))))"

text \<open>
  The buffer of an outgoing datagram: \<^verbatim>\<open>secure_malloc(packet_length)\<close>, the header and the \<^verbatim>\<open>memcpy\<close> of \<open>n\<close> bytes of
  payload behind it; writing past the allocation is a \<open>MemFault\<close>.
\<close>

definition build_datagram :: "u16 \<Rightarrow> u16 \<Rightarrow> u16 \<Rightarrow> u16 \<Rightarrow> byte list \<Rightarrow> byte list" where
  "build_datagram src_port dst_port packet_length cksum data =
    mem16 (htons src_port) @ mem16 (htons dst_port) @ mem16 (htons packet_length) @ mem16 cksum @ data"

definition copy_payload :: "u16 \<Rightarrow> finsFrame \<Rightarrow> byte list res" where
  "copy_payload packet_length ff =
    (let n = unat (pduLength (dataFrame ff)) in
     if unat U_HEADER_LEN + n > unat packet_length then Inl MemFault
     else case pdu (dataFrame ff) of None \<Rightarrow> (if n = 0 then Inr [] else Inl MemFault)
          | Some p \<Rightarrow> slice p 0 n)"

definition udp_out_fdf :: "udp_module \<Rightarrow> finsFrame \<Rightarrow> udp_module res" where
  "udp_out_fdf m ff =
    (case metaData ff of None \<Rightarrow> Inl MemFault | Some meta \<Rightarrow>
     let packet_length = (ucast (pduLength (dataFrame ff) + U_HEADER_LEN) :: u16) in
     andThen (secure_metadata_read_u32 meta ''send_family'') (\<lambda>family.
     andThen (secure_metadata_read_u32 meta ''send_src_ipv4'') (\<lambda>src_ip.
     andThen (secure_metadata_read_u32 meta ''send_src_port'') (\<lambda>src_port.
     andThen (secure_metadata_read_u32 meta ''send_dst_ipv4'') (\<lambda>dst_ip.
     andThen (secure_metadata_read_u32 meta ''send_dst_port'') (\<lambda>dst_port.
     andThen (secure_metadata_writeToElement meta ''send_protocol'' (DInt32 UDP_PT_UDP)) (\<lambda>meta1.
     andThen (copy_payload packet_length ff) (\<lambda>data.
     andThen (UDP_checksum (build_datagram (ucast src_port) (ucast dst_port) packet_length 0 data) (htonl src_ip) (htonl dst_ip)) (\<lambda>checksum.
     let ff1 = ff\<lparr>metaData := Some meta1, dataFrame := (dataFrame ff)\<lparr>pduLength := ucast packet_length,
                 pdu := Some (build_datagram (ucast src_port) (ucast dst_port) packet_length (htons checksum) data)\<rparr>\<rparr>;
         m1 = upd_stats (\<lambda>s. s\<lparr>totalSent := totalSent s + 1\<rparr>) m in
     andThen (cloneFinsFrame ff1) (\<lambda>ff_clone.
     andThen (send_or_free m1 ff1 UDP_FLOW_IPV4) (\<lambda>m2.
       push_sent (udp_sent_create ff_clone src_ip (ucast src_port) dst_ip (ucast dst_port)) m2)))))))))))"

section \<open>Control frames\<close>

definition udp_read_param :: "udp_module \<Rightarrow> finsFrame \<Rightarrow> udp_module res" where
  "udp_read_param m ff = module_reply_fcf m ff FCF_FALSE 0"

definition udp_set_param :: "udp_module \<Rightarrow> finsFrame \<Rightarrow> udp_module res" where
  "udp_set_param m ff =
    (let p = param_id (ctrlFrame ff) in
     if p = MOD_SET_PARAM_FLOWS then module_set_param_flows m ff
     else if p = MOD_SET_PARAM_LINKS then module_set_param_links m ff
     else if p = MOD_SET_PARAM_DUAL then module_set_param_dual m ff
     else module_reply_fcf m ff FCF_FALSE 0)"

definition udp_exec_clear_sent :: "udp_module \<Rightarrow> finsFrame \<Rightarrow> u32 \<Rightarrow> u16 \<Rightarrow> u32 \<Rightarrow> u16 \<Rightarrow> udp_module res" where
  "udp_exec_clear_sent m ff host_ip host_port rem_ip rem_port =
    (let xs = ud_sent_packet_list (m_data m); t = (\<lambda>x. udp_sent_host_test x host_ip host_port) in
     andThen (if xs \<noteq> [] then free_sents (filter t xs) (set_sent (filter (\<lambda>x. \<not> t x) xs) m) else Inr m) (free_ff ff))"

definition udp_exec :: "udp_module \<Rightarrow> finsFrame \<Rightarrow> udp_module res" where
  "udp_exec m ff =
    (if param_id (ctrlFrame ff) = UDP_EXEC_CLEAR_SENT
     then case metaData ff of None \<Rightarrow> Inl MemFault | Some meta \<Rightarrow>
       andThen (secure_metadata_read_u32 meta ''host_ip'') (\<lambda>host_ip.
       andThen (secure_metadata_read_u32 meta ''host_port'') (\<lambda>host_port.
       andThen (secure_metadata_read_u32 meta ''rem_ip'') (\<lambda>rem_ip.
       andThen (secure_metadata_read_u32 meta ''rem_port'') (\<lambda>rem_port.
         udp_exec_clear_sent m ff host_ip (ucast host_port) rem_ip (ucast rem_port)))))
     else module_reply_fcf m ff FCF_FALSE 0)"

definition data_bytes :: "ctrl_data \<Rightarrow> byte list option res" where
  "data_bytes d = (case d of CD_NULL \<Rightarrow> Inr None | CD_BYTES bs \<Rightarrow> Inr (Some bs) | _ \<Rightarrow> Inl MemFault)"

text \<open>The bodies of \<^verbatim>\<open>UDP_ERROR_TTL\<close> and \<^verbatim>\<open>UDP_ERROR_DEST_UNREACH\<close>, which are the same.\<close>

definition udp_error_forward :: "udp_module \<Rightarrow> finsFrame \<Rightarrow> udp_module res" where
  "udp_error_forward m ff =
    (let xs = ud_sent_packet_list (m_data m) in
     if xs = [] then free_ff ff m
     else andThen (data_bytes (ctrl_dat (ctrlFrame ff))) (\<lambda>p.
       case p of None \<Rightarrow> free_ff ff m
       | Some bs \<Rightarrow>
         andThen (find_sent xs (data_len (ctrlFrame ff)) bs 0) (\<lambda>r.
           case r of None \<Rightarrow> free_ff ff m
           | Some i \<Rightarrow>
             (case (metaData (us_ff (xs ! i)), metaData ff) of
                (Some sm, Some meta) \<Rightarrow>
                  andThen (metadata_copy sm meta) (\<lambda>(st, meta1).
                  let sf = us_ff (xs ! i);
                      ff1 = ff\<lparr>metaData := Some meta1,
                               ctrlFrame := (ctrlFrame ff)\<lparr>sender_id := ucast (m_index m), data_len := pduLength (dataFrame sf),
                                 ctrl_dat := (case pdu (dataFrame sf) of None \<Rightarrow> CD_NULL | Some p \<Rightarrow> CD_BYTES p)\<rparr>\<rparr>;
                      sf1 = sf\<lparr>dataFrame := (dataFrame sf)\<lparr>pdu := None\<rparr>\<rparr> in
                  andThen (send_or_free m ff1 UDP_FLOW_DAEMON) (\<lambda>m1.
                    udp_sent_free ((xs ! i)\<lparr>us_ff := sf1\<rparr>) (set_sent (take i xs @ drop (i + 1) xs) m1)))
              | _ \<Rightarrow> Inl MemFault))))"

definition udp_error_get_addr :: "udp_module \<Rightarrow> finsFrame \<Rightarrow> udp_module res" where
  "udp_error_get_addr m ff =
    (let xs = ud_sent_packet_list (m_data m) in
     andThen (if xs = [] then Inr m
              else andThen (data_bytes (ctrl_dat (ctrlFrame ff))) (\<lambda>p.
                case p of None \<Rightarrow> Inr m
                | Some bs \<Rightarrow>
                  andThen (find_sent xs (data_len (ctrlFrame ff)) bs 0) (\<lambda>r.
                    case r of None \<Rightarrow> Inr m
                    | Some i \<Rightarrow> udp_sent_free (xs ! i) (set_sent (take i xs @ drop (i + 1) xs) m)))) (\<lambda>m1.
       send_or_free m1 (ff\<lparr>ctrlFrame := (ctrlFrame ff)\<lparr>sender_id := ucast (m_index m)\<rparr>\<rparr>) UDP_FLOW_DAEMON))"

definition udp_error :: "udp_module \<Rightarrow> finsFrame \<Rightarrow> udp_module res" where
  "udp_error m ff =
    (let p = param_id (ctrlFrame ff) in
     if p = UDP_ERROR_TTL then udp_error_forward m ff
     else if p = UDP_ERROR_DEST_UNREACH then udp_error_forward m ff
     else if p = UDP_ERROR_GET_ADDR then udp_error_get_addr m ff
     else free_ff ff m)"

definition udp_fcf :: "udp_module \<Rightarrow> finsFrame \<Rightarrow> udp_module res" where
  "udp_fcf m ff =
    (let op = opcode (ctrlFrame ff) in
     if op = CTRL_ALERT then module_reply_fcf m ff FCF_FALSE 0
     else if op = CTRL_ALERT_REPLY then free_ff ff m
     else if op = CTRL_READ_PARAM then udp_read_param m ff
     else if op = CTRL_READ_PARAM_REPLY then free_ff ff m
     else if op = CTRL_SET_PARAM then udp_set_param m ff
     else if op = CTRL_SET_PARAM_REPLY then free_ff ff m
     else if op = CTRL_EXEC then udp_exec m ff
     else if op = CTRL_EXEC_REPLY then free_ff ff m
     else if op = CTRL_ERROR then udp_error m ff
     else free_ff ff m)"

section \<open>Life cycle\<close>

text \<open>One call of \<^verbatim>\<open>udp_get_ff\<close>; \<open>None\<close> means that the thread blocks.\<close>

definition udp_get_ff :: "udp_module \<Rightarrow> udp_module option res" where
  "udp_get_ff m =
    andThen (wait_ff (m_event_sem m) m) (\<lambda>r.
      case r of None \<Rightarrow> Inr None
      | Some (x, m1) \<Rightarrow>
        if m_state m1 \<noteq> FMS_RUNNING
        then (case x of None \<Rightarrow> Inr (Some m1) | Some ff \<Rightarrow> andThen (free_ff ff m1) (\<lambda>m2. Inr (Some m2)))
        else (case x of None \<Rightarrow> Inl MemFault
          | Some ff \<Rightarrow>
            if metaData ff = None then Inl ExitFailure
            else if dataOrCtrl ff = FF_CONTROL then andThen (udp_fcf m1 ff) (\<lambda>m2. Inr (Some m2))
            else if dataOrCtrl ff = FF_DATA then
              (if directionFlag (dataFrame ff) = DIR_UP then andThen (udp_in_fdf m1 ff) (\<lambda>m2. Inr (Some m2))
               else if directionFlag (dataFrame ff) = DIR_DOWN then andThen (udp_out_fdf m1 ff) (\<lambda>m2. Inr (Some m2))
               else Inl ExitFailure)
            else Inl ExitFailure))"

definition udp_create :: "u32 \<Rightarrow> u32 \<Rightarrow> string \<Rightarrow> udp_module \<Rightarrow> udp_module" where
  "udp_create index i name m =
    m\<lparr>m_flows_max := UDP_MAX_FLOWS, m_state := FMS_FREE, m_index := index, m_id := i, m_name := name\<rparr>"

definition udp_init :: "udp_module \<Rightarrow> udp_module" where
  "udp_init m = (module_create_structs (m\<lparr>m_state := FMS_INIT\<rparr>))
     \<lparr>m_table := \<lparr>mt_link_list = None, mt_flows_num = 0, mt_flows = replicate 3 \<lparr>fl_link_id = 0, fl_link = None\<rparr>\<rparr>,
      m_data := \<lparr>ud_stats = \<lparr>badChecksum = 0, noChecksum = 0, mismatchingLengths = 0, wrongProtocol = 0, totalBadDatagrams = 0,
                            totalRecieved = 0, totalSent = 0\<rparr>,
                 ud_sent_packet_list = [], ud_sent_max = UDP_SENT_LIST_MAX\<rparr>\<rparr>"

definition udp_run :: "udp_module \<Rightarrow> udp_module option res" where
  "udp_run m = udp_get_ff (m\<lparr>m_state := FMS_RUNNING\<rparr>)"

definition udp_pause :: "udp_module \<Rightarrow> udp_module" where
  "udp_pause m = m\<lparr>m_state := FMS_PAUSED\<rparr>"

definition udp_unpause :: "udp_module \<Rightarrow> udp_module" where
  "udp_unpause m = m\<lparr>m_state := FMS_RUNNING\<rparr>"

definition udp_shutdown :: "udp_module \<Rightarrow> udp_module" where
  "udp_shutdown m = m\<lparr>m_state := FMS_SHUTDOWN, m_event_sem := m_event_sem m + 1\<rparr>"

definition udp_release :: "udp_module \<Rightarrow> udp_module res" where
  "udp_release m =
    andThen (free_sents (ud_sent_packet_list (m_data m)) m) (\<lambda>m1.
      module_destroy_structs (m1\<lparr>m_table := (m_table m1)\<lparr>mt_link_list := None\<rparr>\<rparr>))"

section \<open>Well formed datagrams\<close>

text \<open>The sum of the words of the pseudo header and the datagram.\<close>

definition udp_total :: "u32 \<Rightarrow> u32 \<Rightarrow> byte list \<Rightarrow> nat" where
  "udp_total s d bs = be_total (mem32 s @ mem32 d @ [0, 17, bs ! 4, bs ! 5]) + be_total bs"

text \<open>A datagram whose length field is its length.\<close>

definition udp_len_ok :: "byte list \<Rightarrow> bool" where
  "udp_len_ok bs \<longleftrightarrow> 8 \<le> length bs \<and> length bs < 65536 \<and> mk16 (bs ! 4) (bs ! 5) = of_nat (length bs)"

text \<open>The metadata of a received datagram.\<close>

definition recv_meta :: "settings \<Rightarrow> u32 \<Rightarrow> u32 \<Rightarrow> bool" where
  "recv_meta ms src dst \<longleftrightarrow> meta_plain ms \<and> has_u32 ms ''recv_protocol'' UDP_PT_UDP \<and> (\<exists>f. has_u32 ms ''recv_family'' f)
     \<and> has_u32 ms ''recv_src_ipv4'' src \<and> has_u32 ms ''recv_dst_ipv4'' dst
     \<and> free_u32 ms ''recv_src_port'' \<and> free_u32 ms ''recv_dst_port''"

text \<open>The metadata of a datagram to send.\<close>

definition send_meta :: "settings \<Rightarrow> u32 \<Rightarrow> u32 \<Rightarrow> u32 \<Rightarrow> u32 \<Rightarrow> bool" where
  "send_meta ms src sp dst dp \<longleftrightarrow> meta_plain ms \<and> (\<exists>f. has_u32 ms ''send_family'' f) \<and> has_u32 ms ''send_src_ipv4'' src
     \<and> has_u32 ms ''send_src_port'' sp \<and> has_u32 ms ''send_dst_ipv4'' dst \<and> has_u32 ms ''send_dst_port'' dp
     \<and> free_u32 ms ''send_protocol''"

text \<open>The datagram with its checksum.\<close>

definition datagram :: "u32 \<Rightarrow> u32 \<Rightarrow> u32 \<Rightarrow> u32 \<Rightarrow> byte list \<Rightarrow> byte list" where
  "datagram src sp dst dp data =
    (let b = build_datagram (ucast sp) (ucast dp) (of_nat (length data + 8)) 0 data in
     put16 6 b (inet_cksum (udp_total (htonl src) (htonl dst) b)))"

text \<open>A received datagram is thrown away: freed once, counted as bad, nothing sent.\<close>

definition udp_dropped :: "finsFrame \<Rightarrow> udp_module \<Rightarrow> udp_module \<Rightarrow> bool" where
  "udp_dropped ff m m' \<longleftrightarrow> m_output_queue m' = m_output_queue m \<and> m_freed m' = m_freed m @ [ff]
     \<and> totalBadDatagrams (ud_stats (m_data m')) = totalBadDatagrams (ud_stats (m_data m)) + 1
     \<and> totalRecieved (ud_stats (m_data m')) = totalRecieved (ud_stats (m_data m))"

text \<open>A running module whose flows lead to module 4, and the metadata of a datagram, for the examples.\<close>

definition ex_udp :: udp_module where
  "ex_udp = \<lparr>m_flows_max = 3, m_state = FMS_RUNNING, m_index = 1, m_id = 1, m_name = ''udp'',
      m_input_queue = CreateQueue 10, m_output_queue = CreateQueue 10, m_event_sem = 0, m_switch_sem = 0, m_knobs = [],
      m_table = \<lparr>mt_link_list = Some [], mt_flows_num = 3, mt_flows = replicate 3 \<lparr>fl_link_id = 1,
         fl_link = Some \<lparr>lk_id = 1, lk_src_index = 1, lk_dsts_num = 1, lk_dsts_index = replicate 32 4\<rparr>\<rparr>\<rparr>,
      m_freed = [],
      m_data = \<lparr>ud_stats = \<lparr>badChecksum = 0, noChecksum = 0, mismatchingLengths = 0, wrongProtocol = 0, totalBadDatagrams = 0,
                            totalRecieved = 0, totalSent = 0\<rparr>, ud_sent_packet_list = [], ud_sent_max = 2\<rparr>\<rparr>"

definition ex_udp_meta :: settings where
  "ex_udp_meta = [(''send_family'', CInt 2), (''send_src_ipv4'', CInt 0xC0A80101), (''send_src_port'', CInt 5000),
     (''send_dst_ipv4'', CInt 0xC0A80102), (''send_dst_port'', CInt 53)]"

definition ex_udp_recv :: settings where
  "ex_udp_recv = [(''recv_protocol'', CInt 17), (''recv_family'', CInt 2), (''recv_src_ipv4'', CInt 0xC0A80101),
     (''recv_dst_ipv4'', CInt 0xC0A80102)]"

section \<open>The checksum\<close>

lemma pseudo_header_sum:
  assumes "length hdr = 12"
  shows "sum_words hdr 0 6 0 = Inr (of_nat (be_total hdr))"
  using sum_words_total [of 0 6 hdr 0] assms by simp

lemma udp_total_bound:
  assumes "length bs < 65536"
  shows "udp_total s d bs < 2 ^ 32"
proof -
  have "be_total (mem32 s @ mem32 d @ [0, 17, bs ! 4, bs ! 5]) \<le> 65535 * 6"
    using be_total_bound [of "mem32 s @ mem32 d @ [0, 17, bs ! 4, bs ! 5]"] by simp
  moreover have "be_total bs \<le> 65535 * 32768"
    by (rule order_trans [OF be_total_bound]) (use assms in simp)
  ultimately show ?thesis by (simp add: udp_total_def)
qed

lemma UDP_checksum_spec:
  assumes "udp_len_ok bs"
  shows "UDP_checksum bs s d = Inr (inet_cksum (udp_total s d bs))"
proof -
  let ?h = "mem32 s @ mem32 d @ [0, 17, bs ! 4, bs ! 5]" and ?n = "length bs"
  have len: "8 \<le> ?n" "?n < 65536" "unat (mk16 (bs ! 4) (bs ! 5)) = ?n"
    using assms by (auto simp: udp_len_ok_def unat_of_nat)
  then have "bs \<noteq> []" by auto
  have l: "load16 bs 4 = Inr (mk16 (bs ! 5) (bs ! 4))" using load16_ok [of 4 bs] len(1) by simp
  have h: "sum_words ?h 0 6 0 = Inr (of_nat (be_total ?h))" by (rule pseudo_header_sum) simp
  have loop: "\<exists>s2. odd_byte bs ?n (of_nat (be_total ?h)) = Inr (2 * (?n div 2), s2)
      \<and> sum_words bs 0 (?n div 2) s2 = Inr (of_nat (udp_total s d bs))"
  proof (cases "odd ?n")
    case True
    then have k: "?n - 1 = 2 * (?n div 2)" by (metis odd_two_times_div_two_nat)
    have "sum_words bs 0 (?n div 2) (of_nat (be_total ?h) + push_bit 8 (ucast (bs ! (?n - 1))))
        = Inr (of_nat (be_total ?h) + of_nat (256 * unat (bs ! (?n - 1))) + of_nat (be_total (take (?n - 1) bs)))"
      using sum_words_total [of 0 "?n div 2" bs] k word_pair [of "bs ! (?n - 1)" 0] by simp
    also have "\<dots> = Inr (of_nat (udp_total s d bs))"
      unfolding udp_total_def be_total_odd [OF True] by (simp add: algebra_simps)
    finally show ?thesis using True k \<open>bs \<noteq> []\<close> by (simp add: odd_byte_def load8_def nat_diff_distrib)
  next
    case False
    then have k: "?n = 2 * (?n div 2)" by simp
    then show ?thesis using sum_words_total [of 0 "?n div 2" bs "of_nat (be_total ?h)"] False
      by (simp add: odd_byte_def udp_total_def)
  qed
  have t: "unat (of_nat (udp_total s d bs) :: u32) = udp_total s d bs"
    unfolding unat_of_nat using udp_total_bound [OF len(2)] by (simp add: mod_less)
  from loop obtain s2 where s2: "odd_byte bs ?n (of_nat (be_total ?h)) = Inr (2 * (?n div 2), s2)"
      "sum_words bs 0 (?n div 2) s2 = Inr (of_nat (udp_total s d bs))" by blast
  have "UDP_checksum bs s d = Inr (ucast (NOT (fold_carry (of_nat (udp_total s d bs)))))"
    using l h s2 len(3) by (simp add: UDP_checksum_def mem16_def UDP_PT_UDP_def Let_def)
  then show ?thesis unfolding fold_complement t .
qed

interpretation udp_ck: checksum_field "udp_total s d" "put16 6" "\<lambda>bs. 8 \<le> length bs" for s d
proof unfold_locales
  fix bs :: "byte list" and c
  assume len: "8 \<le> length bs"
  have same: "put16 6 bs c ! 4 = bs ! 4" "put16 6 bs c ! 5 = bs ! 5" for c
    using len by (simp_all add: put16_def nth_append)
  show "udp_total s d (put16 6 bs c) = udp_total s d (put16 6 bs 0) + unat c"
    using put16_total [of 6 bs c] len by (simp add: udp_total_def same)
  have "be_total (mem32 s @ mem32 d @ [0, 17, bs ! 4, bs ! 5]) > 0" by (simp add: mem32_def)
  then show "0 < udp_total s d (put16 6 bs 0)" by (simp add: udp_total_def same)
qed

lemma datagram_put: "build_datagram sp dp n (htons c) data = put16 6 (build_datagram sp dp n 0 data) c"
  by (simp add: build_datagram_def put16_def mem16_def htons_def)

lemma datagram_len_ok:
  assumes "length data + 8 < 65536" "n = of_nat (length data + 8)"
  shows "udp_len_ok (build_datagram sp dp n c data)"
  using assms by (simp add: udp_len_ok_def build_datagram_def mem16_def htons_def)

section \<open>The data paths\<close>

lemma upd_stats_fields [simp]:
  "m_output_queue (upd_stats f m) = m_output_queue m" "m_table (upd_stats f m) = m_table m"
  "m_freed (upd_stats f m) = m_freed m" "ud_sent_packet_list (m_data (upd_stats f m)) = ud_sent_packet_list (m_data m)"
  "ud_sent_max (m_data (upd_stats f m)) = ud_sent_max (m_data m)" "ud_stats (m_data (upd_stats f m)) = f (ud_stats (m_data m))"
  by (simp_all add: upd_stats_def)

lemma upd_stats_room [simp]: "room (upd_stats f m) xs = room m xs" "flow_to (upd_stats f m) flow d = flow_to m flow d"
  by (simp_all add: room_def flow_to_def)

lemma set_sent_fields [simp]:
  "m_output_queue (set_sent xs m) = m_output_queue m" "m_freed (set_sent xs m) = m_freed m"
  "ud_sent_packet_list (m_data (set_sent xs m)) = xs"
  by (simp_all add: set_sent_def)

lemma datagram_loads:
  assumes "udp_len_ok bs"
  shows "load16 bs 0 = Inr (mk16 (bs ! 1) (bs ! 0))" "load16 bs 2 = Inr (mk16 (bs ! 3) (bs ! 2))"
    "load16 bs 4 = Inr (mk16 (bs ! 5) (bs ! 4))" "load16 bs 6 = Inr (mk16 (bs ! 7) (bs ! 6))"
    "unat (mk16 (bs ! 4) (bs ! 5)) = length bs"
  using assms load16_ok [of 0 bs] load16_ok [of 2 bs] load16_ok [of 4 bs] load16_ok [of 6 bs]
  by (simp_all add: udp_len_ok_def unat_of_nat)

lemma recv_meta_reads:
  assumes "recv_meta ms src dst"
  shows "secure_metadata_read_u32 ms ''recv_protocol'' = Inr UDP_PT_UDP"
    "\<exists>f. secure_metadata_read_u32 ms ''recv_family'' = Inr f"
    "secure_metadata_read_u32 ms ''recv_src_ipv4'' = Inr src" "secure_metadata_read_u32 ms ''recv_dst_ipv4'' = Inr dst"
  using assms has_read by (auto simp: recv_meta_def)

lemma udp_in_delivers:
  assumes meta: "metaData ff = Some ms" "recv_meta ms src dst"
    and p: "pdu (dataFrame ff) = Some bs" "udp_len_ok bs" "pduLength (dataFrame ff) = of_nat (length bs)"
    and ck: "inet_cksum (udp_total (htonl src) (htonl dst) bs) = 0 \<or> mk16 (bs ! 7) (bs ! 6) = 0"
    and q: "room m xs" "flow_to m UDP_FLOW_DAEMON d"
  shows "\<exists>m' r. udp_in_fdf m ff = Inr m' \<and> queue_rep (m_output_queue m') (xs @ [r]) \<and> m_freed m' = m_freed m
    \<and> destinationID r = d \<and> pdu (dataFrame r) = Some (drop 8 bs) \<and> unat (pduLength (dataFrame r)) = length bs - 8
    \<and> has_u32 (the (metaData r)) ''recv_src_port'' (ucast (mk16 (bs ! 0) (bs ! 1)))
    \<and> has_u32 (the (metaData r)) ''recv_dst_port'' (ucast (mk16 (bs ! 2) (bs ! 3)))"
proof -
  note l = datagram_loads [OF p(2)]
  obtain f where f: "secure_metadata_read_u32 ms ''recv_family'' = Inr f" using recv_meta_reads(2) [OF meta(2)] ..
  have pl: "meta_plain ms" "free_u32 ms ''recv_src_port''" "free_u32 ms ''recv_dst_port''"
    using meta(2) by (auto simp: recv_meta_def)
  obtain ms1 ms2 where ms1: "secure_metadata_writeToElement ms ''recv_src_port'' (DInt32 (ucast (mk16 (bs ! 0) (bs ! 1)))) = Inr ms1"
    and ms2: "secure_metadata_writeToElement ms1 ''recv_dst_port'' (DInt32 (ucast (mk16 (bs ! 2) (bs ! 3)))) = Inr ms2"
      "has_u32 ms2 ''recv_dst_port'' (ucast (mk16 (bs ! 2) (bs ! 3)))" "has_u32 ms2 ''recv_src_port'' (ucast (mk16 (bs ! 0) (bs ! 1)))"
    using write2_u32 [OF pl, of "ucast (mk16 (bs ! 0) (bs ! 1))" "ucast (mk16 (bs ! 2) (bs ! 3))"] by auto
  have n: "8 \<le> length bs" "length bs < 65536" using p(2) by (auto simp: udp_len_ok_def)
  have hlen: "pduLength (dataFrame ff) = ucast (mk16 (bs ! 4) (bs ! 5))"
    using p(3) l(5) by (metis of_nat_unat)
  have len: "unat (pduLength (dataFrame ff) - U_HEADER_LEN) = length bs - 8"
  proof -
    have "unat (pduLength (dataFrame ff)) = length bs" using p(3) n(2) by (simp add: unat_of_nat)
    moreover have "U_HEADER_LEN \<le> pduLength (dataFrame ff)" using calculation n(1) by (simp add: word_le_nat_alt U_HEADER_LEN_def)
    ultimately show ?thesis by (simp add: unat_sub U_HEADER_LEN_def)
  qed
  have sl: "slice bs (unat U_HEADER_LEN) (length bs - 8) = Inr (drop 8 bs)" using n by (simp add: slice_def U_HEADER_LEN_def)
  let ?ff = "ff\<lparr>metaData := Some ms2, dataFrame := (dataFrame ff)\<lparr>pduLength := pduLength (dataFrame ff) - U_HEADER_LEN, pdu := Some (drop 8 bs)\<rparr>\<rparr>"
  obtain m2 where m2: "room m2 xs" "flow_to m2 UDP_FLOW_DAEMON d" "m_freed m2 = m_freed m"
      "udp_in_fdf m ff = send_or_free m2 ?ff UDP_FLOW_DAEMON"
  proof (cases "mk16 (bs ! 7) (bs ! 6) = IGNORE_CHEKSUM")
    case True
    let ?m = "upd_stats (\<lambda>s. s\<lparr>totalRecieved := totalRecieved s + 1\<rparr>) (upd_stats (\<lambda>s. s\<lparr>noChecksum := noChecksum s + 1\<rparr>) m)"
    have "udp_in_fdf m ff = send_or_free ?m ?ff UDP_FLOW_DAEMON"
      using True p(1) meta(1) l recv_meta_reads(1,3,4) [OF meta(2)] f hlen UDP_checksum_spec [OF p(2)] ms1 ms2(1) sl len
      by (simp add: udp_in_fdf_def Let_def)
    then show thesis using q by (intro that [of ?m]) simp_all
  next
    case False
    let ?m = "upd_stats (\<lambda>s. s\<lparr>totalRecieved := totalRecieved s + 1\<rparr>) m"
    have "udp_in_fdf m ff = send_or_free ?m ?ff UDP_FLOW_DAEMON"
      using False p(1) meta(1) l recv_meta_reads(1,3,4) [OF meta(2)] f hlen UDP_checksum_spec [OF p(2)] ms1 ms2(1) sl len ck
      by (simp add: udp_in_fdf_def Let_def IGNORE_CHEKSUM_def)
    then show thesis using q by (intro that [of ?m]) simp_all
  qed
  obtain m' where m': "send_or_free m2 ?ff UDP_FLOW_DAEMON = Inr m'" "sent xs m2 [?ff\<lparr>destinationID := d\<rparr>] m'"
    using send_single [OF m2(1,2)] by blast
  then have "queue_rep (m_output_queue m') (xs @ [?ff\<lparr>destinationID := d\<rparr>])" "m_freed m' = m_freed m"
    using sent_fields(2) [OF m'(2)] m2(3) by (simp_all add: sent_def)
  with m'(1) m2(4) ms2(2,3) len show ?thesis by (intro exI [of _ m'] exI [of _ "?ff\<lparr>destinationID := d\<rparr>"]) simp
qed

lemma send_meta_reads:
  assumes "send_meta ms src sp dst dp"
  shows "\<exists>f. secure_metadata_read_u32 ms ''send_family'' = Inr f"
    "secure_metadata_read_u32 ms ''send_src_ipv4'' = Inr src" "secure_metadata_read_u32 ms ''send_src_port'' = Inr sp"
    "secure_metadata_read_u32 ms ''send_dst_ipv4'' = Inr dst" "secure_metadata_read_u32 ms ''send_dst_port'' = Inr dp"
  using assms has_read by (auto simp: send_meta_def)

lemma packet_length_small:
  assumes "unat (n :: u32) + 8 < 65536"
  shows "(ucast (n + 8) :: u16) = of_nat (unat n + 8)" "unat (ucast (n + 8) :: u16) = unat n + 8"
proof -
  have "unat (n + 8) = unat n + 8" using assms by (simp add: unat_word_ariths)
  then show u: "unat (ucast (n + 8) :: u16) = unat n + 8"
    using assms by (simp only: unsigned_ucast_eq) (simp add: take_bit_eq_mod)
  have "unat (of_nat (unat n + 8) :: u16) = unat n + 8" using assms unfolding unat_of_nat by simp
  with u show "(ucast (n + 8) :: u16) = of_nat (unat n + 8)" by (simp only: word_unat_eq_iff)
qed

lemma udp_out_sends:
  assumes ff: "dataOrCtrl ff = FF_DATA" "metaData ff = Some ms" "send_meta ms src sp dst dp"
    and p: "pdu (dataFrame ff) = Some data" "length data = unat (pduLength (dataFrame ff))" "length data + 8 < 65536"
    and q: "room m xs" "flow_to m UDP_FLOW_IPV4 d" "length (ud_sent_packet_list (m_data m)) < ud_sent_max (m_data m)"
  shows "\<exists>m' r ff1. udp_out_fdf m ff = Inr m' \<and> queue_rep (m_output_queue m') (xs @ [r]) \<and> m_freed m' = m_freed m
    \<and> destinationID r = d \<and> pdu (dataFrame r) = Some (datagram src sp dst dp data)
    \<and> pduLength (dataFrame r) = of_nat (length data + 8) \<and> directionFlag (dataFrame r) = directionFlag (dataFrame ff)
    \<and> dataOrCtrl r = FF_DATA
    \<and> (\<exists>ms1. metaData r = Some ms1 \<and> meta_plain ms1 \<and> map_of ms1 = (map_of ms)(''send_protocol'' \<mapsto> CInt UDP_PT_UDP))
    \<and> ud_sent_packet_list (m_data m') = ud_sent_packet_list (m_data m) @ [udp_sent_create ff1 src (ucast sp) dst (ucast dp)]
    \<and> r = ff1\<lparr>destinationID := d\<rparr>"
proof -
  let ?n = "pduLength (dataFrame ff)" and ?b = "build_datagram (ucast sp) (ucast dp) (of_nat (length data + 8)) 0 data"
  obtain f where f: "secure_metadata_read_u32 ms ''send_family'' = Inr f" using send_meta_reads(1) [OF ff(3)] ..
  have pl: "meta_plain ms" "free_u32 ms ''send_protocol''" using ff(3) by (auto simp: send_meta_def)
  obtain ms1 where ms1: "secure_metadata_writeToElement ms ''send_protocol'' (DInt32 UDP_PT_UDP) = Inr ms1" "meta_plain ms1"
      "map_of ms1 = (map_of ms)(''send_protocol'' \<mapsto> CInt UDP_PT_UDP)"
    by (rule write_u32 [OF pl])
  have n: "(ucast (?n + U_HEADER_LEN) :: u16) = of_nat (length data + 8)" "unat (ucast (?n + U_HEADER_LEN) :: u16) = length data + 8"
    using packet_length_small [of ?n] p(2,3) by (simp_all add: U_HEADER_LEN_def)
  have cp: "copy_payload (of_nat (length data + 8)) ff = Inr data"
    using n p by (simp add: copy_payload_def U_HEADER_LEN_def slice_def Let_def)
  have ok: "udp_len_ok ?b" using datagram_len_ok [OF p(3)] by simp
  have ck: "UDP_checksum ?b (htonl src) (htonl dst) = Inr (inet_cksum (udp_total (htonl src) (htonl dst) ?b))"
    by (rule UDP_checksum_spec [OF ok])
  have dg: "build_datagram (ucast sp) (ucast dp) (of_nat (length data + 8)) (htons (inet_cksum (udp_total (htonl src) (htonl dst) ?b))) data
      = datagram src sp dst dp data" by (simp add: datagram_def datagram_put Let_def)
  have dl: "length (datagram src sp dst dp data) = length data + 8"
    by (simp add: datagram_def put16_def build_datagram_def Let_def)
  let ?ff = "ff\<lparr>metaData := Some ms1, dataFrame := (dataFrame ff)\<lparr>pduLength := ucast (ucast (?n + U_HEADER_LEN) :: u16),
      pdu := Some (datagram src sp dst dp data)\<rparr>\<rparr>"
  let ?m = "upd_stats (\<lambda>s. s\<lparr>totalSent := totalSent s + 1\<rparr>) m"
  have plen: "(ucast (ucast (?n + U_HEADER_LEN) :: u16) :: u32) = of_nat (length data + 8)"
    using n(2) by (metis of_nat_unat)
  have "unat (of_nat (length data + 8) :: u32) = length data + 8" using p(3) unfolding unat_of_nat by simp
  moreover have "(of_nat (length data + 8) :: u32) \<noteq> 0" using calculation by (metis add_is_0 unat_0 zero_neq_numeral)
  ultimately have "frame_ok ?ff" using ms1(2) ff(1) dl plen by (simp add: frame_ok_def data_ok_def meta_plain_def)
  then have cl: "cloneFinsFrame ?ff = Inr ?ff" by (rule clone_frame_ok)
  obtain m2 where m2: "send_or_free ?m ?ff UDP_FLOW_IPV4 = Inr m2" "sent xs ?m [?ff\<lparr>destinationID := d\<rparr>] m2"
    using send_single [of ?m xs UDP_FLOW_IPV4 d] q by auto
  let ?x = "udp_sent_create ?ff src (ucast sp) dst (ucast dp)"
  have "push_sent ?x m2 = Inr (set_sent (ud_sent_packet_list (m_data m) @ [?x]) m2)"
    using sent_fields(3) [OF m2(2)] q(3) by (simp add: push_sent_def Let_def)
  then have run: "udp_out_fdf m ff = Inr (set_sent (ud_sent_packet_list (m_data m) @ [?x]) m2)"
    using ff(2) f send_meta_reads(2-5) [OF ff(3)] ms1(1) n(1) cp ck dg cl m2(1) by (simp add: udp_out_fdf_def Let_def)
  have "queue_rep (m_output_queue m2) (xs @ [?ff\<lparr>destinationID := d\<rparr>])" using m2(2) by (simp add: sent_def)
  with run ms1(2,3) ff(1) plen sent_fields(2) [OF m2(2)] show ?thesis
    by (intro exI [of _ "set_sent (ud_sent_packet_list (m_data m) @ [?x]) m2"] exI [of _ "?ff\<lparr>destinationID := d\<rparr>"] exI [of _ ?ff]) simp
qed

lemma datagram_facts:
  assumes "length data + 8 < 65536"
  shows "udp_len_ok (datagram src sp dst dp data)" "drop 8 (datagram src sp dst dp data) = data"
    "length (datagram src sp dst dp data) = length data + 8"
    "inet_cksum (udp_total (htonl src) (htonl dst) (datagram src sp dst dp data)) = 0"
    "mk16 (datagram src sp dst dp data ! 0) (datagram src sp dst dp data ! 1) = ucast sp"
    "mk16 (datagram src sp dst dp data ! 2) (datagram src sp dst dp data ! 3) = ucast dp"
proof -
  let ?b = "build_datagram (ucast sp) (ucast dp) (of_nat (length data + 8)) 0 data"
  have eq: "datagram src sp dst dp data = build_datagram (ucast sp) (ucast dp) (of_nat (length data + 8))
      (htons (inet_cksum (udp_total (htonl src) (htonl dst) ?b))) data" by (simp add: datagram_def datagram_put Let_def)
  show "udp_len_ok (datagram src sp dst dp data)" unfolding eq by (rule datagram_len_ok [OF assms]) simp
  show "drop 8 (datagram src sp dst dp data) = data" "length (datagram src sp dst dp data) = length data + 8"
    "mk16 (datagram src sp dst dp data ! 0) (datagram src sp dst dp data ! 1) = ucast sp"
    "mk16 (datagram src sp dst dp data ! 2) (datagram src sp dst dp data ! 3) = ucast dp"
    unfolding eq by (simp_all add: build_datagram_def mem16_def htons_def)
  have "8 \<le> length ?b" "put16 6 ?b 0 = ?b" by (simp_all add: build_datagram_def put16_def mem16_def hi8_def lo8_def)
  with udp_ck.verifies [of ?b "htonl src" "htonl dst"]
  show "inet_cksum (udp_total (htonl src) (htonl dst) (datagram src sp dst dp data)) = 0"
    by (simp add: datagram_def Let_def)
qed

section \<open>Matching sent datagrams\<close>

lemma strncmp_stops:
  assumes "i < k" "k \<le> i + n" "k \<le> length a" "k \<le> length b" "\<forall>j. i \<le> j \<and> j < k \<longrightarrow> a ! j = b ! j" "a ! (k - 1) = 0"
  shows "strncmp_eq a b i n = Inr True"
  using assms
proof (induction n arbitrary: i)
  case (Suc n)
  have l: "load8 a (int i) = Inr (a ! i)" "load8 b (int i) = Inr (a ! i)"
    using Suc.prems by (auto simp: load8_def)
  show ?case
  proof (cases "a ! i = 0")
    case False
    then have "i + 1 < k" using Suc.prems(1,6) by (metis Suc_eq_plus1 Suc_lessI diff_Suc_1)
    with Suc.IH [of "i + 1"] Suc.prems l False show ?thesis by simp
  qed (use l in simp)
qed simp

section \<open>The theorems\<close>

lemma ex_udp_ready: "room ex_udp []" "flow_to ex_udp UDP_FLOW_IPV4 4" "flow_to ex_udp UDP_FLOW_DAEMON 4"
  by (simp_all add: room_def flow_to_def ex_udp_def CreateQueue_rep UDP_FLOW_IPV4_def UDP_FLOW_DAEMON_def LINK_NULL_def)
    (simp add: queue_cap_def CreateQueue_def MakeEmpty_def)

lemma udp_names:
  "config_validate_name ''send_family''" "config_validate_name ''send_src_ipv4''" "config_validate_name ''send_src_port''"
  "config_validate_name ''send_dst_ipv4''" "config_validate_name ''send_dst_port''" "config_validate_name ''send_protocol''"
  "config_validate_name ''recv_protocol''" "config_validate_name ''recv_family''" "config_validate_name ''recv_src_ipv4''"
  "config_validate_name ''recv_dst_ipv4''" "config_validate_name ''recv_src_port''" "config_validate_name ''recv_dst_port''"
  by code_simp+

lemma ex_udp_send_meta: "send_meta ex_udp_meta 0xC0A80101 5000 0xC0A80102 53"
  using udp_names by (simp add: send_meta_def meta_plain_def has_u32_def free_u32_def ex_udp_meta_def plain_def)

lemma ex_udp_recv_meta: "recv_meta ex_udp_recv 0xC0A80101 0xC0A80102"
  using udp_names by (simp add: recv_meta_def meta_plain_def has_u32_def free_u32_def ex_udp_recv_def plain_def UDP_PT_UDP_def)

text \<open>
  C22: UDP round trip. A payload of up to 65527 bytes that goes down through \<^verbatim>\<open>udp_out_fdf\<close> leaves as one frame for
  IPv4; when its bytes come back up through \<^verbatim>\<open>udp_in_fdf\<close> of a module that sees the same addresses, the length and
  checksum tests pass and exactly the payload is delivered to the daemon, with the low 16 bits of the ports.
\<close>

theorem udp_roundtrip:
  assumes "dataOrCtrl ff = FF_DATA" "metaData ff = Some ms" "send_meta ms src sp dst dp"
    "pdu (dataFrame ff) = Some data" "length data = unat (pduLength (dataFrame ff))" "length data + 8 < 65536"
    "room m xs" "flow_to m UDP_FLOW_IPV4 d" "length (ud_sent_packet_list (m_data m)) < ud_sent_max (m_data m)"
    "metaData rf = Some rms" "recv_meta rms src dst" "room rm ys" "flow_to rm UDP_FLOW_DAEMON e"
  shows "\<exists>m' r rm' r2. udp_out_fdf m ff = Inr m' \<and> queue_rep (m_output_queue m') (xs @ [r]) \<and> destinationID r = d
    \<and> udp_in_fdf rm (rf\<lparr>dataFrame := (dataFrame rf)\<lparr>pduLength := pduLength (dataFrame r), pdu := pdu (dataFrame r)\<rparr>\<rparr>) = Inr rm'
    \<and> queue_rep (m_output_queue rm') (ys @ [r2]) \<and> destinationID r2 = e
    \<and> pdu (dataFrame r2) = Some data \<and> unat (pduLength (dataFrame r2)) = length data
    \<and> has_u32 (the (metaData r2)) ''recv_src_port'' (ucast (ucast sp :: u16))
    \<and> has_u32 (the (metaData r2)) ''recv_dst_port'' (ucast (ucast dp :: u16))"
proof -
  obtain m' r where r: "udp_out_fdf m ff = Inr m'" "queue_rep (m_output_queue m') (xs @ [r])" "destinationID r = d"
      "pdu (dataFrame r) = Some (datagram src sp dst dp data)" "pduLength (dataFrame r) = of_nat (length data + 8)"
    using udp_out_sends [OF assms(1-9)] by blast
  let ?f = "rf\<lparr>dataFrame := (dataFrame rf)\<lparr>pduLength := pduLength (dataFrame r), pdu := pdu (dataFrame r)\<rparr>\<rparr>"
  note dg = datagram_facts [OF assms(6), where src = src and sp = sp and dst = dst and dp = dp]
  obtain rm' r2 where "udp_in_fdf rm ?f = Inr rm'" "queue_rep (m_output_queue rm') (ys @ [r2])" "destinationID r2 = e"
      "pdu (dataFrame r2) = Some (drop 8 (datagram src sp dst dp data))"
      "unat (pduLength (dataFrame r2)) = length (datagram src sp dst dp data) - 8"
      "has_u32 (the (metaData r2)) ''recv_src_port'' (ucast (mk16 (datagram src sp dst dp data ! 0) (datagram src sp dst dp data ! 1)))"
      "has_u32 (the (metaData r2)) ''recv_dst_port'' (ucast (mk16 (datagram src sp dst dp data ! 2) (datagram src sp dst dp data ! 3)))"
    using udp_in_delivers [of ?f rms src dst "datagram src sp dst dp data" rm ys e] assms(10-13) r(4,5) dg by auto
  with r dg show ?thesis by (intro exI [of _ m'] exI [of _ r] exI [of _ rm'] exI [of _ r2]) simp
qed

theorem udp_roundtrip_witness:
  "\<exists>m' r rm' r2. udp_out_fdf ex_udp (ex_frame\<lparr>metaData := Some ex_udp_meta\<rparr>) = Inr m' \<and> queue_rep (m_output_queue m') [r]
    \<and> udp_in_fdf ex_udp (zeroFrame\<lparr>metaData := Some ex_udp_recv, dataFrame := (dataFrame zeroFrame)\<lparr>pduLength := pduLength (dataFrame r),
        pdu := pdu (dataFrame r)\<rparr>\<rparr>) = Inr rm'
    \<and> queue_rep (m_output_queue rm') [r2] \<and> pdu (dataFrame r2) = Some [9] \<and> has_u32 (the (metaData r2)) ''recv_src_port'' 5000"
  using udp_roundtrip [of "ex_frame\<lparr>metaData := Some ex_udp_meta\<rparr>" ex_udp_meta "0xC0A80101" 5000 "0xC0A80102" 53 "[9]" ex_udp "[]" 4
      "zeroFrame\<lparr>metaData := Some ex_udp_recv\<rparr>" ex_udp_recv ex_udp "[]" 4]
    ex_udp_send_meta ex_udp_recv_meta ex_udp_ready by (fastforce simp: ex_frame_def ex_udp_def)

text \<open>
  C23: \<^verbatim>\<open>udp_in_fdf\<close> throws a datagram away, freeing it once and sending nothing, when the protocol is not UDP, when
  its length field is not the length of the frame, and when its checksum field is neither zero nor the right value (up
  to the two representations of zero in one's complement).
\<close>

theorem udp_in_rejects:
  assumes "dataOrCtrl ff = FF_DATA" "metaData ff = Some ms" "meta_plain ms" "has_u32 ms ''recv_protocol'' proto"
    "has_u32 ms ''recv_family'' fam" "has_u32 ms ''recv_src_ipv4'' src" "has_u32 ms ''recv_dst_ipv4'' dst"
    "pdu (dataFrame ff) = Some bs" "8 \<le> length bs" "length bs < 65536"
    "proto \<noteq> UDP_PT_UDP
     \<or> pduLength (dataFrame ff) \<noteq> ucast (mk16 (bs ! 4) (bs ! 5))
     \<or> pduLength (dataFrame ff) = of_nat (length bs) \<and> mk16 (bs ! 7) (bs ! 6) \<noteq> 0
       \<and> unat (mk16 (bs ! 6) (bs ! 7)) mod 65535 \<noteq> unat (inet_cksum (udp_total (htonl src) (htonl dst) (put16 6 bs 0))) mod 65535"
  shows "\<exists>m'. udp_in_fdf m ff = Inr m' \<and> udp_dropped ff m m'"
proof -
  note rd = has_read [OF assms(3)]
  have l: "load16 bs 0 = Inr (mk16 (bs ! 1) (bs ! 0))" "load16 bs 2 = Inr (mk16 (bs ! 3) (bs ! 2))"
    "load16 bs 4 = Inr (mk16 (bs ! 5) (bs ! 4))" "load16 bs 6 = Inr (mk16 (bs ! 7) (bs ! 6))"
    using assms(9) load16_ok [of 0 bs] load16_ok [of 2 bs] load16_ok [of 4 bs] load16_ok [of 6 bs] by simp_all
  have fr: "free_ff ff x = Inr (x\<lparr>m_freed := m_freed x @ [ff]\<rparr>)" for x :: udp_module
    using free_ff_ctrl assms(1) by blast
  consider (proto) "proto \<noteq> UDP_PT_UDP"
    | (len) "proto = UDP_PT_UDP" "pduLength (dataFrame ff) \<noteq> ucast (mk16 (bs ! 4) (bs ! 5))"
    | (ck) "proto = UDP_PT_UDP" "pduLength (dataFrame ff) = ucast (mk16 (bs ! 4) (bs ! 5))" "pduLength (dataFrame ff) = of_nat (length bs)"
        "mk16 (bs ! 7) (bs ! 6) \<noteq> 0"
        "unat (mk16 (bs ! 6) (bs ! 7)) mod 65535 \<noteq> unat (inet_cksum (udp_total (htonl src) (htonl dst) (put16 6 bs 0))) mod 65535"
    using assms(11) by blast
  then show ?thesis
  proof cases
    case proto
    then show ?thesis using rd assms(2,4-8) fr by (simp add: udp_in_fdf_def udp_dropped_def)
  next
    case len
    then show ?thesis using rd assms(2,4-8) fr l by (simp add: udp_in_fdf_def udp_dropped_def)
  next
    case ck
    have "unat (ucast (mk16 (bs ! 4) (bs ! 5)) :: u32) = unat (mk16 (bs ! 4) (bs ! 5))"
      by (rule unat_ucast_up)
    moreover have "unat (of_nat (length bs) :: u32) = length bs" using assms(10) unfolding unat_of_nat by simp
    ultimately have "unat (mk16 (bs ! 4) (bs ! 5)) = length bs" using ck(2,3) by metis
    then have "mk16 (bs ! 4) (bs ! 5) = of_nat (length bs)" by (metis of_nat_unat ucast_id)
    then have ok: "udp_len_ok bs" using assms(9,10) by (simp add: udp_len_ok_def)
    have "put16 6 bs (mk16 (bs ! 6) (bs ! 7)) = bs" using put16_self [of 6 bs] assms(9) by simp
    then have "inet_cksum (udp_total (htonl src) (htonl dst) bs) \<noteq> 0"
      using udp_ck.rejects [OF assms(9), of "htonl src" "htonl dst" "mk16 (bs ! 6) (bs ! 7)"] ck(5) by metis
    then show ?thesis using rd assms(2,4-8) fr l ck UDP_checksum_spec [OF ok]
      by (simp add: udp_in_fdf_def udp_dropped_def IGNORE_CHEKSUM_def)
  qed
qed

theorem udp_in_rejects_witness:
  "\<exists>m'. udp_in_fdf ex_udp (ex_frame\<lparr>metaData := Some ex_udp_recv, dataFrame := \<lparr>directionFlag = DIR_UP, pduLength = 8,
      pdu = Some [0, 1, 0, 2, 0, 9, 0, 0]\<rparr>\<rparr>) = Inr m'
    \<and> udp_dropped (ex_frame\<lparr>metaData := Some ex_udp_recv, dataFrame := \<lparr>directionFlag = DIR_UP, pduLength = 8,
      pdu = Some [0, 1, 0, 2, 0, 9, 0, 0]\<rparr>\<rparr>) ex_udp m'"
proof -
  have "unat (mk16 0 9) = 9" by code_simp
  then have "(8 :: u32) \<noteq> ucast (mk16 0 9)" using unat_ucast_up [of "mk16 0 9"] by force
  moreover have "meta_plain ex_udp_recv" "has_u32 ex_udp_recv ''recv_protocol'' 17" "has_u32 ex_udp_recv ''recv_family'' 2"
    "has_u32 ex_udp_recv ''recv_src_ipv4'' 0xC0A80101" "has_u32 ex_udp_recv ''recv_dst_ipv4'' 0xC0A80102"
    using udp_names by (simp_all add: meta_plain_def has_u32_def ex_udp_recv_def plain_def)
  ultimately show ?thesis
    using udp_in_rejects [of "ex_frame\<lparr>metaData := Some ex_udp_recv, dataFrame := \<lparr>directionFlag = DIR_UP, pduLength = 8,
      pdu = Some [0, 1, 0, 2, 0, 9, 0, 0]\<rparr>\<rparr>" ex_udp_recv 17 2 "0xC0A80101" "0xC0A80102" "[0, 1, 0, 2, 0, 9, 0, 0]" ex_udp]
    by (simp add: ex_frame_def)
qed

text \<open>
  C24: payloads of 65528 bytes and more make \<^verbatim>\<open>udp_out_fdf\<close> write past its buffer: the length of the buffer is kept in
  16 bits, which also makes the test for a datagram that is too long always false.
\<close>

theorem udp_out_overflow:
  assumes "metaData ff = Some ms" "send_meta ms src sp dst dp"
    "65528 \<le> unat (pduLength (dataFrame ff))"
  shows "udp_out_fdf m ff = Inl MemFault"
proof -
  let ?n = "pduLength (dataFrame ff)"
  obtain f where f: "secure_metadata_read_u32 ms ''send_family'' = Inr f" using send_meta_reads(1) [OF assms(2)] ..
  have pl: "meta_plain ms" "free_u32 ms ''send_protocol''" using assms(2) by (auto simp: send_meta_def)
  obtain ms1 where ms1: "secure_metadata_writeToElement ms ''send_protocol'' (DInt32 UDP_PT_UDP) = Inr ms1"
    by (rule write_u32 [OF pl])
  have "unat (ucast (?n + U_HEADER_LEN) :: u16) < 2 ^ LENGTH(16)" by (rule unsigned_less)
  then have "copy_payload (ucast (?n + U_HEADER_LEN)) ff = Inl MemFault"
    using assms(3) by (simp add: copy_payload_def Let_def U_HEADER_LEN_def)
  then show ?thesis using assms(1) f ms1 send_meta_reads(2-5) [OF assms(2)] by (simp add: udp_out_fdf_def Let_def)
qed

theorem udp_out_overflow_witness:
  "udp_out_fdf ex_udp (ex_frame\<lparr>metaData := Some ex_udp_meta, dataFrame := \<lparr>directionFlag = DIR_DOWN, pduLength = 65528,
     pdu = Some (replicate 65528 0)\<rparr>\<rparr>) = Inl MemFault"
  using udp_out_overflow [OF _ ex_udp_send_meta] by simp

text \<open>
  the datagram an ICMP error quotes is looked up with \<^verbatim>\<open>strncmp\<close>, which stops at a zero byte. The length field of
  a datagram of less than 256 bytes starts with one, so any two such datagrams with the same ports match, whatever
  their lengths, checksums and payloads are.
\<close>

theorem udp_match_ignores_payload:
  assumes "length data + 8 < 256" "length data2 + 8 < 256"
    "pdu (dataFrame (us_ff x)) = Some (build_datagram sp dp (of_nat (length data + 8)) c data)"
    "pduLength (dataFrame (us_ff x)) = of_nat (length data + 8)"
  shows "udp_sent_match_test x (of_nat (length data2 + 8)) (build_datagram sp dp (of_nat (length data2 + 8)) c2 data2) = Inr True"
proof -
  let ?a = "build_datagram sp dp (of_nat (length data + 8)) c data" and ?b = "build_datagram sp dp (of_nat (length data2 + 8)) c2 data2"
  have hi: "hi8 (of_nat n) = 0" if "n < 256" for n
  proof -
    have "unat (of_nat n :: u16) = n" using that unfolding unat_of_nat by simp
    then have "256 * unat (hi8 (of_nat n)) + unat (lo8 (of_nat n)) = n" using unat_hi_lo [of "of_nat n"] by simp
    then show ?thesis using that by (simp add: unat_eq_0 [symmetric])
  qed
  have h: "hi8 (of_nat (length data + 8)) = 0" "hi8 (of_nat (length data2 + 8)) = 0" using hi assms(1,2) by blast+
  have u: "unat (of_nat (length data + 8) :: u32) = length data + 8" "unat (of_nat (length data2 + 8) :: u32) = length data2 + 8"
    using assms(1,2) unfolding unat_of_nat by simp_all
  have "strncmp_eq ?a ?b 0 n = Inr True" if "5 \<le> n" for n
  proof (rule strncmp_stops [where k = 5])
    show "\<forall>j. 0 \<le> j \<and> j < 5 \<longrightarrow> ?a ! j = ?b ! j"
      using h by (auto simp: build_datagram_def mem16_def htons_def nth_Cons numeral_eq_Suc less_Suc_eq split: nat.splits)
  qed (use that h in \<open>simp_all add: build_datagram_def mem16_def htons_def\<close>)
  then show ?thesis using assms(3,4) u by (simp add: udp_sent_match_test_def del: of_nat_add)
qed

theorem udp_match_ignores_payload_witness:
  "udp_sent_match_test (udp_sent_create (ex_frame\<lparr>dataFrame := \<lparr>directionFlag = DIR_DOWN, pduLength = 9,
      pdu = Some (build_datagram 7 8 9 5 [1])\<rparr>\<rparr>) 0 7 0 8) 10 (build_datagram 7 8 10 6 [2, 3]) = Inr True"
  using udp_match_ignores_payload [of "[1]" "[2, 3]" "udp_sent_create (ex_frame\<lparr>dataFrame := \<lparr>directionFlag = DIR_DOWN, pduLength = 9,
      pdu = Some (build_datagram 7 8 9 5 [1])\<rparr>\<rparr>) 0 7 0 8" 7 8 5 6] by (simp add: udp_sent_create_def)

end
