(* ===== verification/Icmp_Module.thy ===== *)
theory Icmp_Module
  imports Udp_Module
begin

text \<open>
  The ICMP module, \<^verbatim>\<open>trunk/modules/icmp/icmp.c\<close>: echo requests and their replies, the errors other hosts report about
  packets of this host, the packets it sent (kept to match such errors), and the control frames. IPv4 passes ICMP
  packets up with their IPv4 header, so a received packet is the whole IPv4 packet. The list of sent packets is the list
  of its elements; their time stamps are never read and are left out.
\<close>

section \<open>Data\<close>

record icmp_sent =
  is_ff :: finsFrame

record icmp_data =
  ic_if_list :: "if_record list"
  ic_if_loopback :: "if_record option"
  ic_if_main :: "if_record option"
  ic_sent_list :: "icmp_sent list"
  ic_sent_max :: nat
  ic_serial :: u32

type_synonym icmp_module = "icmp_data fins_module"

definition ICMP_IF_LIST_MAX :: nat where "ICMP_IF_LIST_MAX = 256"
definition ICMP_SENT_LIST_MAX :: nat where "ICMP_SENT_LIST_MAX = 2 * 65536"
definition ICMP_MAX_FLOWS :: u32 where "ICMP_MAX_FLOWS = 4"
definition ICMP_FLOW_IPV4 :: u32 where "ICMP_FLOW_IPV4 = 0"
definition ICMP_FLOW_UDP :: u32 where "ICMP_FLOW_UDP = 2"
definition ICMP_FLOW_DAEMON :: u32 where "ICMP_FLOW_DAEMON = 3"
definition ICMP_HEADER_SIZE :: u32 where "ICMP_HEADER_SIZE = 8"
definition ICMP_FRAG_SIZE :: u16 where "ICMP_FRAG_SIZE = 8"
definition UDP_FRAG_SIZE :: u16 where "UDP_FRAG_SIZE = 8"
definition IPV4_MIN_HLEN :: u32 where "IPV4_MIN_HLEN = 20"
definition ICMP_PT_ICMP :: u32 where "ICMP_PT_ICMP = 1"
definition ICMP_PT_UDP :: u32 where "ICMP_PT_UDP = 17"
definition ICMP_TYPE_ECHOREPLY :: u8 where "ICMP_TYPE_ECHOREPLY = 0"
definition ICMP_TYPE_DESTUNREACH :: u8 where "ICMP_TYPE_DESTUNREACH = 3"
definition ICMP_TYPE_ECHOREQUEST :: u8 where "ICMP_TYPE_ECHOREQUEST = 8"
definition ICMP_TYPE_TTLEXCEED :: u8 where "ICMP_TYPE_TTLEXCEED = 11"
definition ICMP_CODE_ECHO :: u8 where "ICMP_CODE_ECHO = 0"
definition ICMP_CODE_HOSTUNREACH :: u8 where "ICMP_CODE_HOSTUNREACH = 1"
definition ICMP_CODE_PORTUNREACH :: u8 where "ICMP_CODE_PORTUNREACH = 3"
definition ICMP_CODE_TTLEXCEEDED :: u8 where "ICMP_CODE_TTLEXCEEDED = 0"
definition ICMP_ERROR_TTL :: u32 where "ICMP_ERROR_TTL = 0"
definition ICMP_ERROR_DEST_UNREACH :: u32 where "ICMP_ERROR_DEST_UNREACH = 1"
definition ICMP_ERROR_GET_ADDR :: u32 where "ICMP_ERROR_GET_ADDR = 2"
definition SO_EE_ORIGIN_ICMP :: u32 where "SO_EE_ORIGIN_ICMP = 2"

definition set_isent :: "icmp_sent list \<Rightarrow> icmp_module \<Rightarrow> icmp_module" where
  "set_isent xs m = m\<lparr>m_data := (m_data m)\<lparr>ic_sent_list := xs\<rparr>\<rparr>"

definition icmp_serial :: "icmp_module \<Rightarrow> u32 \<times> icmp_module" where
  "icmp_serial m = (let (n, g) = gen_control_serial_num (ic_serial (m_data m)) in (n, m\<lparr>m_data := (m_data m)\<lparr>ic_serial := g\<rparr>\<rparr>))"

text \<open>\<^verbatim>\<open>struct icmp_packet\<close> as it lies in memory; the three 16 bit fields hold what the code stores in them.\<close>

definition icmp_packet :: "u8 \<Rightarrow> u8 \<Rightarrow> u16 \<Rightarrow> u16 \<Rightarrow> u16 \<Rightarrow> byte list \<Rightarrow> byte list" where
  "icmp_packet type code checksum param_1 param_2 data =
    [type, code] @ mem16 checksum @ mem16 param_1 @ mem16 param_2 @ data"

section \<open>Checksum\<close>

definition icmp_checksum :: "byte list \<Rightarrow> u32 \<Rightarrow> u16 res" where
  "icmp_checksum pt len =
    andThen (sum_words pt 0 (unat len div 2) 0) (\<lambda>s.
    andThen (if odd (unat len) then andThen (load8 pt (int (unat len - 1))) (\<lambda>b. Inr (s + push_bit 8 (ucast b))) else Inr s) (\<lambda>s2.
      Inr (ucast (NOT (fold_carry s2)))))"

section \<open>Sent packets\<close>

definition icmp_sent_match_test :: "icmp_sent \<Rightarrow> u32 \<Rightarrow> byte list \<Rightarrow> bool res" where
  "icmp_sent_match_test x len data =
    (case pdu (dataFrame (is_ff x)) of
       None \<Rightarrow> Inl MemFault
     | Some p \<Rightarrow>
         if pduLength (dataFrame (is_ff x)) \<ge> len then strncmp_eq p data 0 (unat len)
         else strncmp_eq p data 0 (unat (pduLength (dataFrame (is_ff x)))))"

definition icmp_sent_free :: "icmp_sent \<Rightarrow> icmp_module \<Rightarrow> icmp_module res" where
  "icmp_sent_free x m = free_ff (is_ff x) m"

text \<open>\<^verbatim>\<open>list_find2(md->sent_list, icmp_sent_match_test, &len, data)\<close>: the index of the element found.\<close>

fun find_isent :: "icmp_sent list \<Rightarrow> u32 \<Rightarrow> byte list \<Rightarrow> nat \<Rightarrow> nat option res" where
  "find_isent [] len data i = Inr None"
| "find_isent (x # xs) len data i =
    andThen (icmp_sent_match_test x len data) (\<lambda>b. if b then Inr (Some i) else find_isent xs len data (i + 1))"

fun free_isents :: "icmp_sent list \<Rightarrow> icmp_module \<Rightarrow> icmp_module res" where
  "free_isents [] m = Inr m"
| "free_isents (x # xs) m = andThen (icmp_sent_free x m) (free_isents xs)"

definition push_isent :: "icmp_sent \<Rightarrow> icmp_module \<Rightarrow> icmp_module res" where
  "push_isent x m =
    (let xs = ic_sent_list (m_data m) in
     if length xs < ic_sent_max (m_data m) then Inr (set_isent (xs @ [x]) m)
     else case xs of [] \<Rightarrow> Inl MemFault
          | old # rest \<Rightarrow> andThen (icmp_sent_free old (set_isent rest m)) (\<lambda>m1. Inr (set_isent (rest @ [x]) m1)))"

section \<open>Outgoing packets\<close>

text \<open>The clone is kept when the packet is sent; when there is nowhere to send it to, the clone is lost.\<close>

definition icmp_out_fdf :: "icmp_module \<Rightarrow> finsFrame \<Rightarrow> icmp_module res" where
  "icmp_out_fdf m ff =
    (case metaData ff of None \<Rightarrow> Inl MemFault | Some meta \<Rightarrow>
     andThen (secure_metadata_read_u32 meta ''send_family'') (\<lambda>family.
     andThen (secure_metadata_read_u32 meta ''send_src_ipv4'') (\<lambda>src_ip.
     andThen (secure_metadata_read_u32 meta ''send_dst_ipv4'') (\<lambda>dst_ip.
     andThen (secure_metadata_writeToElement meta ''send_protocol'' (DInt32 ICMP_PT_ICMP)) (\<lambda>meta1.
     let ff1 = ff\<lparr>metaData := Some meta1\<rparr> in
     andThen (cloneFinsFrame ff1) (\<lambda>ff_clone.
     andThen (module_send_flow m ff1 ICMP_FLOW_IPV4) (\<lambda>(n, m1).
       if n \<noteq> 0 then push_isent \<lparr>is_ff = ff_clone\<rparr> m1 else free_ff ff1 m1)))))))"

section \<open>Incoming packets\<close>

text \<open>
  \<^verbatim>\<open>if (!module_send_flow(module, ff, ICMP_FLOW_DAEMON)) freeFinsFrame(ff)\<close>, with what the pointer \<^verbatim>\<open>ff\<close> is afterwards:
  the frame that is queued, or \<open>None\<close> when it was freed.
\<close>

definition icmp_to_daemon :: "icmp_module \<Rightarrow> finsFrame \<Rightarrow> (finsFrame option \<times> icmp_module) res" where
  "icmp_to_daemon m ff =
    andThen (module_send_flow m ff ICMP_FLOW_DAEMON) (\<lambda>(n, m1).
      if n = 0 then andThen (free_ff ff m1) (\<lambda>m2. Inr (None, m2)) else Inr (Some ff, m1))"

text \<open>
  The error frame for a packet this module sent, and what is left of the element of the list; \<open>type\<close> and \<open>code\<close> are
  those of the ICMP packet.
\<close>

definition icmp_sent_error ::
  "icmp_module \<Rightarrow> settings \<Rightarrow> finsFrame \<Rightarrow> u8 \<Rightarrow> u8 \<Rightarrow> u32 \<Rightarrow> (finsFrame \<times> finsFrame \<times> icmp_module) res" where
  "icmp_sent_error m meta sf type code param =
    (case metaData sf of None \<Rightarrow> Inl MemFault | Some sm \<Rightarrow>
     andThen (secure_metadata_read_u32 meta ''recv_src_ipv4'') (\<lambda>err_src_ip.
     andThen (secure_metadata_writeToElement sm ''recv_src_ipv4'' (DInt32 err_src_ip)) (\<lambda>sm1.
     andThen (secure_metadata_read_u32 meta ''recv_ttl'') (\<lambda>err_ttl.
     andThen (meta_writes sm1 [(''recv_ttl'', err_ttl), (''recv_ee_origin'', SO_EE_ORIGIN_ICMP),
                (''recv_icmp_type'', ucast type), (''recv_icmp_code'', ucast code)]) (\<lambda>sm2.
     let (n, m1) = icmp_serial m in
       Inr (zeroFrame\<lparr>dataOrCtrl := FF_CONTROL, metaData := Some sm2,
              ctrlFrame := (ctrlFrame zeroFrame)\<lparr>sender_id := ucast (m_index m), serial_num := n, opcode := CTRL_ERROR,
                param_id := param, data_len := pduLength (dataFrame sf),
                ctrl_dat := (case pdu (dataFrame sf) of None \<Rightarrow> CD_NULL | Some p \<Rightarrow> CD_BYTES p)\<rparr>\<rparr>,
            sf\<lparr>metaData := None, dataFrame := (dataFrame sf)\<lparr>pdu := None\<rparr>\<rparr>, m1))))))"

text \<open>
  \<^verbatim>\<open>icmp_handle_error\<close>. The ICMP packet is at offset 20 of the packet \<open>p\<close>, the IPv4 header it quotes at offset 28 and
  the data of the quoted packet at offset 48, whatever the header lengths say. \<^verbatim>\<open>sent_data_len\<close> has 16 bits;
  \<^verbatim>\<open>icmp_sent_match_test\<close> reads 32 bits through the pointer to it, \<open>junk\<close> is what lies behind it. The first component
  of the result is the pointer \<^verbatim>\<open>ff\<close> afterwards, as for \<open>icmp_to_daemon\<close>.
\<close>

definition icmp_handle_error ::
  "u16 \<Rightarrow> icmp_module \<Rightarrow> finsFrame \<Rightarrow> byte list \<Rightarrow> u32 \<Rightarrow> u32 \<Rightarrow> (finsFrame option \<times> icmp_module) res" where
  "icmp_handle_error junk m ff p dlen param =
    (case metaData ff of None \<Rightarrow> Inl MemFault | Some meta \<Rightarrow>
     if dlen < IPV4_MIN_HLEN then icmp_to_daemon m ff
     else
     andThen (load8 p 28) (\<lambda>verlen.
     andThen (load8 p 37) (\<lambda>proto.
     let sent_data_len = (ucast (dlen - push_bit 2 (ucast (verlen AND 0xf))) :: u16) in
     if ucast proto = ICMP_PT_ICMP then
       (if sent_data_len < ICMP_FRAG_SIZE then icmp_to_daemon m ff
        else let xs = ic_sent_list (m_data m) in
        if xs = [] then icmp_to_daemon m ff
        else andThen (find_isent xs (push_bit 16 (ucast junk) OR ucast sent_data_len) (drop 48 p) 0) (\<lambda>r.
          case r of None \<Rightarrow> icmp_to_daemon m ff
          | Some i \<Rightarrow>
            andThen (load8 p 20) (\<lambda>type.
            andThen (load8 p 21) (\<lambda>code.
            andThen (icmp_sent_error m meta (is_ff (xs ! i)) type code param) (\<lambda>(ff_err, sf, m1).
            andThen (icmp_to_daemon m1 ff) (\<lambda>(r2, m2).
            andThen (send_or_free m2 ff_err ICMP_FLOW_DAEMON) (\<lambda>m3.
            andThen (icmp_sent_free \<lparr>is_ff = sf\<rparr> (set_isent (take i xs @ drop (i + 1) xs) m3)) (\<lambda>m4.
              Inr (r2, m4)))))))))
     else if ucast proto = ICMP_PT_UDP then
       (if sent_data_len < UDP_FRAG_SIZE then icmp_to_daemon m ff
        else
        andThen (metadata_clone meta) (\<lambda>em.
        andThen (secure_metadata_writeToElement meta ''recv_ee_origin'' (DInt32 SO_EE_ORIGIN_ICMP)) (\<lambda>meta1.
        andThen (slice p 48 (unat sent_data_len)) (\<lambda>data.
        let (n, m1) = icmp_serial m;
            ff_err = zeroFrame\<lparr>dataOrCtrl := FF_CONTROL, metaData := Some em,
              ctrlFrame := (ctrlFrame zeroFrame)\<lparr>sender_id := ucast (m_index m), serial_num := n, opcode := CTRL_ERROR,
                param_id := param, data_len := ucast sent_data_len, ctrl_dat := CD_BYTES data\<rparr>\<rparr> in
        andThen (icmp_to_daemon m1 (ff\<lparr>metaData := Some meta1\<rparr>)) (\<lambda>(r2, m2).
        andThen (send_or_free m2 ff_err ICMP_FLOW_UDP) (\<lambda>m3. Inr (r2, m3)))))))
     else icmp_to_daemon m ff)))"

definition icmp_ping_reply :: "icmp_module \<Rightarrow> finsFrame \<Rightarrow> byte list \<Rightarrow> u32 \<Rightarrow> icmp_module res" where
  "icmp_ping_reply m ff p dlen =
    (case metaData ff of None \<Rightarrow> Inl MemFault | Some meta \<Rightarrow>
     let pdu_len_reply = dlen + ICMP_HEADER_SIZE in
     if unat pdu_len_reply < unat ICMP_HEADER_SIZE + unat dlen then Inl MemFault
     else
     andThen (load16 p 24) (\<lambda>param_1.
     andThen (load16 p 26) (\<lambda>param_2.
     andThen (slice p 28 (unat dlen)) (\<lambda>data.
     andThen (icmp_checksum (icmp_packet ICMP_TYPE_ECHOREPLY ICMP_CODE_ECHO 0 param_1 param_2 data) pdu_len_reply) (\<lambda>c.
     andThen (secure_metadata_read_u32 meta ''recv_family'') (\<lambda>family.
     andThen (secure_metadata_read_u32 meta ''recv_src_ipv4'') (\<lambda>src_ip.
     andThen (secure_metadata_read_u32 meta ''recv_dst_ipv4'') (\<lambda>dst_ip.
     andThen (meta_writes metadata_create [(''send_protocol'', ICMP_PT_ICMP), (''send_family'', family),
                (''send_src_ipv4'', dst_ip), (''send_dst_ipv4'', src_ip)]) (\<lambda>meta_reply.
     let ff_reply = zeroFrame\<lparr>dataOrCtrl := FF_DATA, metaData := Some meta_reply,
           dataFrame := \<lparr>directionFlag = DIR_DOWN, pduLength = pdu_len_reply,
             pdu = Some (icmp_packet ICMP_TYPE_ECHOREPLY ICMP_CODE_ECHO (htons c) param_1 param_2 data)\<rparr>\<rparr> in
     andThen (send_or_free m ff ICMP_FLOW_DAEMON) (\<lambda>m1.
       send_or_free m1 ff_reply ICMP_FLOW_IPV4))))))))))"

text \<open>
  The switch at the end of \<^verbatim>\<open>icmp_in_fdf\<close>. After \<^verbatim>\<open>icmp_handle_error\<close> the code returns, except for host unreachable, where it goes on to send the same frame to
  the daemon again; when the frame was freed it is freed a second time.
\<close>

definition icmp_in_switch :: "u16 \<Rightarrow> icmp_module \<Rightarrow> finsFrame \<Rightarrow> byte list \<Rightarrow> u32 \<Rightarrow> u8 \<Rightarrow> u8 \<Rightarrow> icmp_module res" where
  "icmp_in_switch junk m ff p dlen type code =
    (if type = ICMP_TYPE_DESTUNREACH \<and> code = ICMP_CODE_HOSTUNREACH then
       andThen (icmp_handle_error junk m ff p dlen ICMP_ERROR_DEST_UNREACH) (\<lambda>(r, m1).
         case r of None \<Rightarrow> Inl MemFault | Some ff1 \<Rightarrow> send_or_free m1 ff1 ICMP_FLOW_DAEMON)
     else if type = ICMP_TYPE_DESTUNREACH \<and> code = ICMP_CODE_PORTUNREACH then
       andThen (icmp_handle_error junk m ff p dlen ICMP_ERROR_DEST_UNREACH) (\<lambda>(r, m1). Inr m1)
     else if type = ICMP_TYPE_ECHOREQUEST \<and> code = ICMP_CODE_ECHO then icmp_ping_reply m ff p dlen
     else if type = ICMP_TYPE_TTLEXCEED \<and> code = ICMP_CODE_TTLEXCEEDED then
       andThen (icmp_handle_error junk m ff p dlen ICMP_ERROR_TTL) (\<lambda>(r, m1). Inr m1)
     else send_or_free m ff ICMP_FLOW_DAEMON)"

definition icmp_in_fdf :: "u16 \<Rightarrow> icmp_module \<Rightarrow> finsFrame \<Rightarrow> icmp_module res" where
  "icmp_in_fdf junk m ff =
    (case pdu (dataFrame ff) of None \<Rightarrow> Inl MemFault | Some p \<Rightarrow>
     andThen (load16 p 2) (\<lambda>ip_len.
     andThen (load8 p 0) (\<lambda>ip_verlen.
     let icmp_len = ucast (ntohs ip_len) - push_bit 2 (ucast (ip_verlen AND 0xf)) :: u32 in
     if icmp_len < ICMP_HEADER_SIZE then free_ff ff m
     else case metaData ff of None \<Rightarrow> Inl MemFault | Some meta \<Rightarrow>
     andThen (secure_metadata_read_u32 meta ''recv_protocol'') (\<lambda>protocol.
     if protocol \<noteq> ICMP_PT_ICMP then free_ff ff m
     else
     andThen (load16 p 22) (\<lambda>checksum.
     andThen (if checksum = 0 then Inr 0 else icmp_checksum (drop 20 p) icmp_len) (\<lambda>ck.
     if ck \<noteq> 0 then free_ff ff m
     else
     andThen (load8 p 20) (\<lambda>type.
     andThen (load8 p 21) (\<lambda>code.
     andThen (meta_writes meta [(''recv_icmp_type'', ucast type), (''recv_icmp_code'', ucast code)]) (\<lambda>meta1.
       icmp_in_switch junk m (ff\<lparr>metaData := Some meta1\<rparr>) p (icmp_len - ICMP_HEADER_SIZE) type code)))))))))"

section \<open>Control frames\<close>

definition icmp_read_param :: "icmp_module \<Rightarrow> finsFrame \<Rightarrow> icmp_module res" where
  "icmp_read_param m ff = module_reply_fcf m ff FCF_FALSE 0"

definition icmp_set_param :: "icmp_module \<Rightarrow> finsFrame \<Rightarrow> icmp_module res" where
  "icmp_set_param m ff =
    (let p = param_id (ctrlFrame ff) in
     if p = MOD_SET_PARAM_FLOWS then module_set_param_flows m ff
     else if p = MOD_SET_PARAM_LINKS then module_set_param_links m ff
     else if p = MOD_SET_PARAM_DUAL then module_set_param_dual m ff
     else module_reply_fcf m ff FCF_FALSE 0)"

definition icmp_exec :: "icmp_module \<Rightarrow> finsFrame \<Rightarrow> icmp_module res" where
  "icmp_exec m ff = module_reply_fcf m ff FCF_FALSE 0"

text \<open>
  \<^verbatim>\<open>icmp_error\<close>: the interface could not resolve an address; the packet it could not send becomes the data of a host
  unreachable message to this host. \<open>junk_ip\<close> is the value of the uninitialised variable \<^verbatim>\<open>host_ip\<close>, used when the main
  interface has no IPv4 address.
\<close>

definition icmp_error_get_addr :: "u32 \<Rightarrow> icmp_module \<Rightarrow> finsFrame \<Rightarrow> icmp_module res" where
  "icmp_error_get_addr junk_ip m ff =
    (case ic_if_main (m_data m) of None \<Rightarrow> Inl MemFault
     | Some ifr \<Rightarrow> (case if_addr_list ifr of None \<Rightarrow> Inl MemFault
       | Some as \<Rightarrow>
         let host_ip = (case find addr_is_v4 as of Some a \<Rightarrow> addr4_get_ip (ad_ip a) | None \<Rightarrow> junk_ip);
             n = data_len (ctrlFrame ff); len = n + ICMP_HEADER_SIZE in
         andThen (meta_writes metadata_create [(''send_family'', of_nat AF_INET), (''send_src_ipv4'', host_ip),
                    (''send_dst_ipv4'', host_ip)]) (\<lambda>meta.
         if unat len < unat ICMP_HEADER_SIZE + unat n then Inl MemFault
         else andThen (data_bytes (ctrl_dat (ctrlFrame ff))) (\<lambda>d.
         andThen (case d of None \<Rightarrow> (if n = 0 then Inr [] else Inl MemFault) | Some bs \<Rightarrow> slice bs 0 (unat n)) (\<lambda>data.
         andThen (icmp_checksum (icmp_packet ICMP_TYPE_DESTUNREACH ICMP_CODE_HOSTUNREACH 0 0 0 data) len) (\<lambda>c.
         let ff_data = zeroFrame\<lparr>dataOrCtrl := FF_DATA, metaData := Some meta,
               dataFrame := \<lparr>directionFlag = DIR_DOWN, pduLength = len,
                 pdu = Some (icmp_packet ICMP_TYPE_DESTUNREACH ICMP_CODE_HOSTUNREACH (htons c) 0 0 data)\<rparr>\<rparr> in
         andThen (icmp_out_fdf m ff_data) (free_ff ff)))))))"

definition icmp_error :: "u32 \<Rightarrow> icmp_module \<Rightarrow> finsFrame \<Rightarrow> icmp_module res" where
  "icmp_error junk_ip m ff =
    (if param_id (ctrlFrame ff) = ICMP_ERROR_GET_ADDR then icmp_error_get_addr junk_ip m ff else free_ff ff m)"

definition icmp_fcf :: "u32 \<Rightarrow> icmp_module \<Rightarrow> finsFrame \<Rightarrow> icmp_module res" where
  "icmp_fcf junk_ip m ff =
    (let op = opcode (ctrlFrame ff) in
     if op = CTRL_ALERT then module_reply_fcf m ff FCF_FALSE 0
     else if op = CTRL_ALERT_REPLY then free_ff ff m
     else if op = CTRL_READ_PARAM then icmp_read_param m ff
     else if op = CTRL_READ_PARAM_REPLY then free_ff ff m
     else if op = CTRL_SET_PARAM then icmp_set_param m ff
     else if op = CTRL_SET_PARAM_REPLY then free_ff ff m
     else if op = CTRL_EXEC then icmp_exec m ff
     else if op = CTRL_EXEC_REPLY then free_ff ff m
     else if op = CTRL_ERROR then icmp_error junk_ip m ff
     else Inl ExitFailure)"

section \<open>Life cycle\<close>

text \<open>One call of \<^verbatim>\<open>icmp_get_ff\<close>; \<open>None\<close> means that the thread blocks.\<close>

definition icmp_get_ff :: "u16 \<Rightarrow> u32 \<Rightarrow> icmp_module \<Rightarrow> icmp_module option res" where
  "icmp_get_ff junk junk_ip m =
    andThen (wait_ff (m_event_sem m) m) (\<lambda>r.
      case r of None \<Rightarrow> Inr None
      | Some (x, m1) \<Rightarrow>
        if m_state m1 \<noteq> FMS_RUNNING
        then (case x of None \<Rightarrow> Inr (Some m1) | Some ff \<Rightarrow> andThen (free_ff ff m1) (\<lambda>m2. Inr (Some m2)))
        else (case x of None \<Rightarrow> Inl MemFault
          | Some ff \<Rightarrow>
            if metaData ff = None then Inl ExitFailure
            else if dataOrCtrl ff = FF_CONTROL then andThen (icmp_fcf junk_ip m1 ff) (\<lambda>m2. Inr (Some m2))
            else if dataOrCtrl ff = FF_DATA then
              (if directionFlag (dataFrame ff) = DIR_UP then andThen (icmp_in_fdf junk m1 ff) (\<lambda>m2. Inr (Some m2))
               else if directionFlag (dataFrame ff) = DIR_DOWN then andThen (icmp_out_fdf m1 ff) (\<lambda>m2. Inr (Some m2))
               else Inl ExitFailure)
            else Inl ExitFailure))"

definition icmp_create :: "u32 \<Rightarrow> u32 \<Rightarrow> string \<Rightarrow> icmp_module \<Rightarrow> icmp_module" where
  "icmp_create index i name m =
    m\<lparr>m_flows_max := ICMP_MAX_FLOWS, m_state := FMS_FREE, m_index := index, m_id := i, m_name := name\<rparr>"

text \<open>The two interfaces are looked up by the index they have in the environment.\<close>

definition icmp_init :: "if_record list \<Rightarrow> if_record option \<Rightarrow> if_record option \<Rightarrow> icmp_module \<Rightarrow> icmp_module" where
  "icmp_init if_list if_loopback if_main m =
    (let ifs = take ICMP_IF_LIST_MAX if_list;
         look = (\<lambda>x. case x of None \<Rightarrow> None | Some r \<Rightarrow> find (\<lambda>i. ifr_index_test i (if_index r)) ifs) in
     (module_create_structs (m\<lparr>m_state := FMS_INIT\<rparr>))
     \<lparr>m_table := \<lparr>mt_link_list = None, mt_flows_num = 0, mt_flows = replicate 4 \<lparr>fl_link_id = 0, fl_link = None\<rparr>\<rparr>,
      m_data := \<lparr>ic_if_list = ifs, ic_if_loopback = look if_loopback, ic_if_main = look if_main,
        ic_sent_list = [], ic_sent_max = ICMP_SENT_LIST_MAX, ic_serial = ic_serial (m_data m)\<rparr>\<rparr>)"

definition icmp_run :: "u16 \<Rightarrow> u32 \<Rightarrow> icmp_module \<Rightarrow> icmp_module option res" where
  "icmp_run junk junk_ip m = icmp_get_ff junk junk_ip (m\<lparr>m_state := FMS_RUNNING\<rparr>)"

definition icmp_pause :: "icmp_module \<Rightarrow> icmp_module" where
  "icmp_pause m = m\<lparr>m_state := FMS_PAUSED\<rparr>"

definition icmp_unpause :: "icmp_module \<Rightarrow> icmp_module" where
  "icmp_unpause m = m\<lparr>m_state := FMS_RUNNING\<rparr>"

definition icmp_shutdown :: "icmp_module \<Rightarrow> icmp_module" where
  "icmp_shutdown m = m\<lparr>m_state := FMS_SHUTDOWN, m_event_sem := m_event_sem m + 1\<rparr>"

definition icmp_release :: "icmp_module \<Rightarrow> icmp_module res" where
  "icmp_release m =
    andThen (free_isents (ic_sent_list (m_data m)) m) (\<lambda>m1.
      module_destroy_structs (m1\<lparr>m_table := (m_table m1)\<lparr>mt_link_list := None\<rparr>\<rparr>))"

section \<open>Specification\<close>

text \<open>An ICMP message with its checksum.\<close>

definition icmp_message :: "u8 \<Rightarrow> u8 \<Rightarrow> u16 \<Rightarrow> u16 \<Rightarrow> byte list \<Rightarrow> byte list" where
  "icmp_message type code param_1 param_2 data =
    (let b = icmp_packet type code 0 param_1 param_2 data in put16 2 b (inet_cksum (be_total b)))"

text \<open>An IPv4 packet without options whose data is the message \<open>msg\<close>.\<close>

definition carries :: "byte list \<Rightarrow> byte list \<Rightarrow> bool" where
  "carries p msg \<longleftrightarrow> drop 20 p = msg \<and> 8 \<le> length msg \<and> length p < 65536 \<and> p ! 0 AND 0xf = 5
     \<and> mk16 (p ! 2) (p ! 3) = of_nat (length p)"

text \<open>The metadata of a received packet.\<close>

definition icmp_recv_meta :: "settings \<Rightarrow> u32 \<Rightarrow> u32 \<Rightarrow> u32 \<Rightarrow> u32 \<Rightarrow> bool" where
  "icmp_recv_meta ms family src dst ttl \<longleftrightarrow> meta_plain ms \<and> has_u32 ms ''recv_protocol'' ICMP_PT_ICMP \<and> has_u32 ms ''recv_family'' family
     \<and> has_u32 ms ''recv_src_ipv4'' src \<and> has_u32 ms ''recv_dst_ipv4'' dst \<and> has_u32 ms ''recv_ttl'' ttl
     \<and> free_u32 ms ''recv_icmp_type'' \<and> free_u32 ms ''recv_icmp_code'' \<and> free_u32 ms ''recv_ee_origin''"

text \<open>The control frame that reports an error about a UDP datagram with the quoted bytes \<open>bs\<close>.\<close>

definition udp_report :: "icmp_module \<Rightarrow> u32 \<Rightarrow> settings \<Rightarrow> byte list \<Rightarrow> u32 \<Rightarrow> finsFrame \<Rightarrow> bool" where
  "udp_report m param ms bs d r \<longleftrightarrow> dataOrCtrl r = FF_CONTROL \<and> destinationID r = d \<and> metaData r = Some ms
     \<and> sender_id (ctrlFrame r) = ucast (m_index m) \<and> opcode (ctrlFrame r) = CTRL_ERROR \<and> param_id (ctrlFrame r) = param
     \<and> data_len (ctrlFrame r) = of_nat (length bs) \<and> ctrl_dat (ctrlFrame r) = CD_BYTES bs"

text \<open>The codes that make \<^verbatim>\<open>icmp_in_fdf\<close> report an error.\<close>

definition icmp_reports :: "u8 \<Rightarrow> u8 \<Rightarrow> u32 \<Rightarrow> bool" where
  "icmp_reports type code param \<longleftrightarrow>
     type = ICMP_TYPE_DESTUNREACH \<and> code \<in> {ICMP_CODE_HOSTUNREACH, ICMP_CODE_PORTUNREACH} \<and> param = ICMP_ERROR_DEST_UNREACH
     \<or> type = ICMP_TYPE_TTLEXCEED \<and> code = ICMP_CODE_TTLEXCEEDED \<and> param = ICMP_ERROR_TTL"

definition icmp_send_meta :: "settings \<Rightarrow> u32 \<Rightarrow> u32 \<Rightarrow> bool" where
  "icmp_send_meta ms src dst \<longleftrightarrow> meta_plain ms \<and> (\<exists>f. has_u32 ms ''send_family'' f) \<and> has_u32 ms ''send_src_ipv4'' src
     \<and> has_u32 ms ''send_dst_ipv4'' dst \<and> free_u32 ms ''send_protocol''"

text \<open>A running module whose flows lead to module 4, and a received packet, for the examples.\<close>

definition ex_icmp :: icmp_module where
  "ex_icmp = \<lparr>m_flows_max = 4, m_state = FMS_RUNNING, m_index = 5, m_id = 5, m_name = ''icmp'',
      m_input_queue = CreateQueue 10, m_output_queue = CreateQueue 10, m_event_sem = 0, m_switch_sem = 0, m_knobs = [],
      m_table = \<lparr>mt_link_list = Some [], mt_flows_num = 4, mt_flows = replicate 4 \<lparr>fl_link_id = 1,
         fl_link = Some \<lparr>lk_id = 1, lk_src_index = 5, lk_dsts_num = 1, lk_dsts_index = replicate 32 4\<rparr>\<rparr>\<rparr>,
      m_freed = [],
      m_data = \<lparr>ic_if_list = [], ic_if_loopback = None,
        ic_if_main = Some \<lparr>if_index = 3, if_name = ''eth0'', if_mac = 0xAA, if_mode = 0, if_mtu = 1500, if_flags = 0x40,
          if_addr_list = Some [\<lparr>ad_if_index = 3, ad_family = 2, ad_ip = \<lparr>sin_family = 2, sin_port = 0, sin_addr = 0xC0A80101\<rparr>,
            ad_mask = \<lparr>sin_family = 2, sin_port = 0, sin_addr = 0xFFFFFF00\<rparr>, ad_gw = \<lparr>sin_family = 2, sin_port = 0, sin_addr = 0\<rparr>,
            ad_bdc = \<lparr>sin_family = 2, sin_port = 0, sin_addr = 0xC0A801FF\<rparr>, ad_dst = \<lparr>sin_family = 2, sin_port = 0, sin_addr = 0\<rparr>\<rparr>]\<rparr>,
        ic_sent_list = [], ic_sent_max = 4, ic_serial = 0\<rparr>\<rparr>"

definition ex_icmp_recv :: settings where
  "ex_icmp_recv = [(''recv_protocol'', CInt 1), (''recv_family'', CInt 2), (''recv_src_ipv4'', CInt 0xC0A80102),
     (''recv_dst_ipv4'', CInt 0xC0A80101), (''recv_ttl'', CInt 64)]"

text \<open>A port or host unreachable message about a datagram of 9 bytes, \<open>v\<close> the first byte of the quoted header.\<close>

definition ex_quote :: "u8 \<Rightarrow> byte list" where
  "ex_quote v = [v, 0, 0, 29, 0, 0, 0, 0, 64, 17, 0, 0, 192, 168, 1, 1, 192, 168, 1, 2, 0, 7, 0, 8, 0, 9, 0, 0, 5]"

definition ex_unreach :: "u8 \<Rightarrow> u8 \<Rightarrow> byte list" where
  "ex_unreach code v = icmp_message ICMP_TYPE_DESTUNREACH code 0 0 (ex_quote v)"

definition ex_icmp_frame :: "byte list \<Rightarrow> finsFrame" where
  "ex_icmp_frame msg = zeroFrame\<lparr>dataOrCtrl := FF_DATA, metaData := Some ex_icmp_recv,
     dataFrame := \<lparr>directionFlag = DIR_UP, pduLength = of_nat (length msg + 20),
       pdu = Some ([0x45, 0, 0, of_nat (length msg + 20), 0, 0, 0, 0, 64, 1, 0, 0, 192, 168, 1, 2, 192, 168, 1, 1] @ msg)\<rparr>\<rparr>"

section \<open>The checksum\<close>

lemma icmp_checksum_spec:
  assumes "unat len = length bs" "length bs < 65536"
  shows "icmp_checksum bs len = Inr (inet_cksum (be_total bs))"
proof -
  let ?n = "length bs"
  have b: "be_total bs < 2 ^ 32" by (rule le_less_trans [OF be_total_bound]) (use assms(2) in simp)
  then have u: "unat (of_nat (be_total bs) :: u32) = be_total bs" unfolding unat_of_nat by simp
  have "icmp_checksum bs len = Inr (ucast (NOT (fold_carry (of_nat (be_total bs)))))"
  proof (cases "odd ?n")
    case True
    then have k: "?n - 1 = 2 * (?n div 2)" by (metis odd_two_times_div_two_nat)
    have "bs \<noteq> []" using True by auto
    have s: "sum_words bs 0 (?n div 2) 0 = Inr (of_nat (be_total (take (?n - 1) bs)))"
      using sum_words_total [of 0 "?n div 2" bs 0] k by simp
    have t: "of_nat (be_total (take (?n - 1) bs)) + push_bit 8 (ucast (bs ! (?n - 1))) = (of_nat (be_total bs) :: u32)"
      unfolding be_total_odd [OF True] using word_pair [of "bs ! (?n - 1)" 0] by simp
    have l: "load8 bs (int (?n - 1)) = Inr (bs ! (?n - 1))" by (rule load8_ok) (use \<open>bs \<noteq> []\<close> in simp)
    show ?thesis unfolding icmp_checksum_def assms(1) s andThen_Inr using True l by (simp only: if_True not_False_eq_True andThen_Inr t)
  next
    case False
    then have "sum_words bs 0 (?n div 2) 0 = Inr (of_nat (be_total bs))"
      using sum_words_total [of 0 "?n div 2" bs 0] by simp
    then show ?thesis using False by (simp add: icmp_checksum_def assms(1))
  qed
  then show ?thesis unfolding fold_complement u .
qed

interpretation icmp_ck: checksum_place be_total "put16 2" "\<lambda>bs. 4 \<le> length bs"
  by unfold_locales (rule put16_total; simp)

lemma icmp_packet_put: "icmp_packet t c (htons ck) a b data = put16 2 (icmp_packet t c 0 a b data) ck"
  by (simp add: icmp_packet_def put16_def mem16_def htons_def)

lemma icmp_packet_length [simp]: "length (icmp_packet t c ck a b data) = length data + 8"
  by (simp add: icmp_packet_def)

lemma icmp_message_eq:
  "icmp_message t c a b data = icmp_packet t c (htons (inet_cksum (be_total (icmp_packet t c 0 a b data)))) a b data"
  by (simp add: icmp_message_def Let_def icmp_packet_put)

lemma icmp_message_facts:
  "length (icmp_message t c a b data) = length data + 8" "icmp_message t c a b data ! 0 = t" "icmp_message t c a b data ! 1 = c"
  "drop 8 (icmp_message t c a b data) = data" "load16 (icmp_message t c a b data) 4 = Inr a" "load16 (icmp_message t c a b data) 6 = Inr b"
  "inet_cksum (be_total (icmp_message t c a b data)) = 0"
proof -
  show "length (icmp_message t c a b data) = length data + 8" "icmp_message t c a b data ! 0 = t" "icmp_message t c a b data ! 1 = c"
    "drop 8 (icmp_message t c a b data) = data" "load16 (icmp_message t c a b data) 4 = Inr a" "load16 (icmp_message t c a b data) 6 = Inr b"
    unfolding icmp_message_eq by (simp_all add: icmp_packet_def loads)
  have "put16 2 (icmp_packet t c 0 a b data) 0 = icmp_packet t c 0 a b data"
    by (simp add: icmp_packet_def put16_def mem16_def hi8_def lo8_def)
  then show "inet_cksum (be_total (icmp_message t c a b data)) = 0"
    using icmp_ck.verifies [of "icmp_packet t c 0 a b data"] by (simp add: icmp_message_def Let_def)
qed

lemma icmp_checksum_message:
  assumes "length data + 8 < 65536" "len = of_nat (length data + 8)"
  shows "icmp_checksum (icmp_packet t c 0 a b data) len = Inr (inet_cksum (be_total (icmp_packet t c 0 a b data)))"
proof (rule icmp_checksum_spec)
  show "unat len = length (icmp_packet t c 0 a b data)" unfolding assms(2) unat_of_nat using assms(1) by simp
qed (use assms(1) in simp)

section \<open>Incoming packets\<close>

lemma carries_loads:
  assumes "carries p msg"
  shows "length p = length msg + 20" "load16 p 2 = Inr (mk16 (p ! 3) (p ! 2))" "load8 p 0 = Inr (p ! 0)"
    "load8 p 20 = Inr (msg ! 0)" "load8 p 21 = Inr (msg ! 1)" "load16 p 22 = load16 msg 2" "load16 p 24 = load16 msg 4"
    "load16 p 26 = load16 msg 6" "slice p 28 n = slice msg 8 n" "msg ! 0 = p ! 20" "msg ! 1 = p ! 21"
    "(ucast (ntohs (mk16 (p ! 3) (p ! 2))) - push_bit 2 (ucast (p ! 0 AND 0xf)) :: u32) = of_nat (length msg)"
proof -
  have d: "drop 20 p = msg" "8 \<le> length msg" "length p < 65536" "p ! 0 AND 0xf = 5" "mk16 (p ! 2) (p ! 3) = of_nat (length p)"
    using assms by (auto simp: carries_def)
  show len: "length p = length msg + 20" using d(1,2) by (auto simp: length_drop)
  have n: "p ! (20 + k) = msg ! k" if "k < length msg" for k using d(1) that len by (metis nth_drop le_add2)
  have l8: "load8 p (20 + int k) = load8 msg (int k)" for k
    using n [of k] len by (auto simp: load8_def nat_add_distrib)
  show "load16 p 2 = Inr (mk16 (p ! 3) (p ! 2))" "load8 p 0 = Inr (p ! 0)"
    using load16_ok [of 2 p] load8_ok [of 0 p] len by simp_all
  have z: "0 < length msg" "1 < length msg" using d(2) by linarith+
  show "load8 p 20 = Inr (msg ! 0)" using l8 [of 0] load8_ok [OF z(1)] by simp
  show "load8 p 21 = Inr (msg ! 1)" using l8 [of 1] load8_ok [OF z(2)] by simp
  show "load16 p 22 = load16 msg 2" "load16 p 24 = load16 msg 4" "load16 p 26 = load16 msg 6"
    using l8 [of 2] l8 [of 3] l8 [of 4] l8 [of 5] l8 [of 6] l8 [of 7] by (simp_all add: load16_def)
  show "slice p 28 n = slice msg 8 n" using d(1) len by (auto simp: slice_def drop_drop)
  show "msg ! 0 = p ! 20" "msg ! 1 = p ! 21" using n [OF z(1)] n [OF z(2)] by simp_all
  have "unat (mk16 (p ! 2) (p ! 3)) = length p" using d(3) unfolding d(5) unat_of_nat by simp
  then have "(ucast (mk16 (p ! 2) (p ! 3)) :: u32) = of_nat (length p)" by (metis of_nat_unat)
  then show "(ucast (ntohs (mk16 (p ! 3) (p ! 2))) - push_bit 2 (ucast (p ! 0 AND 0xf)) :: u32) = of_nat (length msg)"
    unfolding d(4) by (simp add: len push_bit_eq_mult)
qed

text \<open>A good packet passes the tests and reaches the switch.\<close>

lemma icmp_in_accepts:
  assumes ff: "pdu (dataFrame ff) = Some p" "metaData ff = Some ms" "icmp_recv_meta ms family src dst ttl"
    and p: "carries p msg" "inet_cksum (be_total msg) = 0"
  obtains ms' where "icmp_in_fdf junk m ff = icmp_in_switch junk m (ff\<lparr>metaData := Some ms'\<rparr>) p (of_nat (length msg - 8)) (msg ! 0) (msg ! 1)"
    "icmp_recv_meta ms' family src dst ttl"
    "map_of ms' = (map_of ms)(''recv_icmp_type'' \<mapsto> CInt (ucast (msg ! 0)), ''recv_icmp_code'' \<mapsto> CInt (ucast (msg ! 1)))"
proof -
  note l = carries_loads [OF p(1)]
  have n: "8 \<le> length msg" "length msg < 65536" using p(1) l(1) by (simp_all add: carries_def)
  have d: "drop 20 p = msg" using p(1) by (simp add: carries_def)
  have u: "unat (of_nat (length msg) :: u32) = length msg" using n(2) unfolding unat_of_nat by simp
  have ck: "icmp_checksum msg (of_nat (length msg)) = Inr 0" using icmp_checksum_spec [OF u n(2)] p(2) by simp
  obtain c where c: "load16 msg 2 = Inr c" using load16_ok [of 2 msg] n(1) by simp
  have mp: "meta_plain ms" "has_u32 ms ''recv_protocol'' ICMP_PT_ICMP" using ff(3) by (auto simp: icmp_recv_meta_def)
  let ?ws = "[(''recv_icmp_type'', ucast (msg ! 0)), (''recv_icmp_code'', ucast (msg ! 1))] :: (string \<times> u32) list"
  obtain ms1 where ms1: "meta_writes ms ?ws = Inr ms1" "meta_plain ms1"
      "map_of ms1 = map_of ms ++ map_of (rev (map (\<lambda>(t, v). (t, CInt v)) ?ws))"
    using writes_ok [OF mp(1), of ?ws] ff(3) by (auto simp: icmp_recv_meta_def)
  have mo: "map_of ms1 = (map_of ms)(''recv_icmp_type'' \<mapsto> CInt (ucast (msg ! 0)), ''recv_icmp_code'' \<mapsto> CInt (ucast (msg ! 1)))"
    using ms1(3) by (simp add: map_add_def fun_eq_iff)
  have ok: "icmp_recv_meta ms1 family src dst ttl"
    using ff(3) ms1(2) by (simp add: icmp_recv_meta_def has_u32_def free_u32_def mo)
  have ge: "\<not> of_nat (length msg) < ICMP_HEADER_SIZE" "of_nat (length msg) - ICMP_HEADER_SIZE = of_nat (length msg - 8)"
    using n(1) u by (simp_all add: ICMP_HEADER_SIZE_def word_less_nat_alt of_nat_diff)
  have "icmp_in_fdf junk m ff = icmp_in_switch junk m (ff\<lparr>metaData := Some ms1\<rparr>) p (of_nat (length msg - 8)) (msg ! 0) (msg ! 1)"
    unfolding icmp_in_fdf_def ff(1,2) option.case l(2,3) andThen_Inr Let_def l(12) d l(6) c
    using ge has_read [OF mp] ck l(4,5) ms1(1) by simp
  with ok mo that show thesis by blast
qed

text \<open>An echo request goes to the daemon, and its reply to IPv4.\<close>

lemma icmp_request_answered:
  assumes ff: "pdu (dataFrame ff) = Some p" "metaData ff = Some ms" "icmp_recv_meta ms family src dst ttl"
    and p: "carries p (icmp_message ICMP_TYPE_ECHOREQUEST ICMP_CODE_ECHO a b data)"
    and q: "space m xs 2" "flow_to m ICMP_FLOW_DAEMON d1" "flow_to m ICMP_FLOW_IPV4 d2"
  obtains m' ms1 r ms2 where "icmp_in_fdf junk m ff = Inr m'" "sent xs m [ff\<lparr>metaData := Some ms1, destinationID := d1\<rparr>, r] m'"
    "icmp_recv_meta ms1 family src dst ttl" "dataOrCtrl r = FF_DATA" "destinationID r = d2" "metaData r = Some ms2" "meta_plain ms2"
    "map_of ms2 = [''send_protocol'' \<mapsto> CInt ICMP_PT_ICMP, ''send_family'' \<mapsto> CInt family, ''send_src_ipv4'' \<mapsto> CInt dst, ''send_dst_ipv4'' \<mapsto> CInt src]"
    "dataFrame r = \<lparr>directionFlag = DIR_DOWN, pduLength = of_nat (length data + 8),
       pdu = Some (icmp_message ICMP_TYPE_ECHOREPLY ICMP_CODE_ECHO a b data)\<rparr>"
proof -
  let ?q = "icmp_message ICMP_TYPE_ECHOREQUEST ICMP_CODE_ECHO a b data"
  note l = carries_loads [OF p] and f = icmp_message_facts [of ICMP_TYPE_ECHOREQUEST ICMP_CODE_ECHO a b data]
  obtain ms1 where ms1: "icmp_in_fdf junk m ff = icmp_in_switch junk m (ff\<lparr>metaData := Some ms1\<rparr>) p (of_nat (length ?q - 8)) (?q ! 0) (?q ! 1)"
      "icmp_recv_meta ms1 family src dst ttl"
    by (rule icmp_in_accepts [OF ff p f(7)])
  have n: "length data + 28 < 65536" using p l(1) f(1) by (simp add: carries_def)
  have run: "icmp_in_fdf junk m ff = icmp_ping_reply m (ff\<lparr>metaData := Some ms1\<rparr>) p (of_nat (length data))"
    unfolding ms1(1) f by (simp add: icmp_in_switch_def ICMP_TYPE_DESTUNREACH_def ICMP_TYPE_ECHOREQUEST_def)
  have u: "unat (of_nat (length data) :: u32) = length data" "unat (of_nat (length data + 8) :: u32) = length data + 8"
    using n unfolding unat_of_nat by simp_all
  have sum8: "of_nat (length data) + ICMP_HEADER_SIZE = of_nat (length data + 8)" by (simp add: ICMP_HEADER_SIZE_def)
  have sl: "slice p 28 (length data) = Inr data" unfolding l(9) using f(1,4) by (simp add: slice_def)
  have n8: "length data + 8 < 65536" using n by simp
  note ck = icmp_checksum_message [OF n8 refl, of ICMP_TYPE_ECHOREPLY ICMP_CODE_ECHO a b]
  have rd: "secure_metadata_read_u32 ms1 ''recv_family'' = Inr family" "secure_metadata_read_u32 ms1 ''recv_src_ipv4'' = Inr src"
      "secure_metadata_read_u32 ms1 ''recv_dst_ipv4'' = Inr dst"
    using ms1(2) has_read by (auto simp: icmp_recv_meta_def)
  let ?ws = "[(''send_protocol'', ICMP_PT_ICMP), (''send_family'', family), (''send_src_ipv4'', dst), (''send_dst_ipv4'', src)]"
  have e: "meta_plain metadata_create" "\<forall>t \<in> fst ` set ?ws. free_u32 metadata_create t"
    using udp_names by (auto simp: meta_plain_def metadata_create_def free_u32_def)
  obtain ms2 where ms2: "meta_writes metadata_create ?ws = Inr ms2" "meta_plain ms2"
      "map_of ms2 = map_of metadata_create ++ map_of (rev (map (\<lambda>(t, v). (t, CInt v)) ?ws))"
    using writes_ok [OF e] by blast
  let ?df = "\<lparr>directionFlag = DIR_DOWN, pduLength = of_nat (length data + 8),
       pdu = Some (icmp_message ICMP_TYPE_ECHOREPLY ICMP_CODE_ECHO a b data)\<rparr>"
  let ?r = "zeroFrame\<lparr>dataOrCtrl := FF_DATA, metaData := Some ms2, dataFrame := ?df\<rparr>"
  obtain m1 m2 where m2: "send_or_free m (ff\<lparr>metaData := Some ms1\<rparr>) ICMP_FLOW_DAEMON = Inr m1" "send_or_free m1 ?r ICMP_FLOW_IPV4 = Inr m2"
      "sent xs m [(ff\<lparr>metaData := Some ms1\<rparr>)\<lparr>destinationID := d1\<rparr>, ?r\<lparr>destinationID := d2\<rparr>] m2"
    by (rule send_two [OF q])
  have "icmp_in_fdf junk m ff = Inr m2"
    unfolding run icmp_ping_reply_def Let_def sum8 u l(7,8) f(5,6) andThen_Inr
    using sl ck rd ms2(1) m2(1,2) by (simp add: ICMP_HEADER_SIZE_def icmp_message_eq del: of_nat_add)
  moreover have "map_of ms2 = [''send_protocol'' \<mapsto> CInt ICMP_PT_ICMP, ''send_family'' \<mapsto> CInt family, ''send_src_ipv4'' \<mapsto> CInt dst,
      ''send_dst_ipv4'' \<mapsto> CInt src]"
    using ms2(3) by (simp add: metadata_create_def map_add_def fun_eq_iff)
  ultimately show thesis using that [of m2 ms1 "?r\<lparr>destinationID := d2\<rparr>" ms2] m2(3) ms1(2) ms2(2) by simp
qed

text \<open>Messages without an answer go to the daemon only.\<close>

lemma icmp_in_delivers:
  assumes ff: "pdu (dataFrame ff) = Some p" "metaData ff = Some ms" "icmp_recv_meta ms family src dst ttl"
    and p: "carries p msg" "inet_cksum (be_total msg) = 0" "msg ! 0 = ICMP_TYPE_ECHOREPLY"
    and q: "room m xs" "flow_to m ICMP_FLOW_DAEMON d"
  obtains m' ms' where "icmp_in_fdf junk m ff = Inr m'" "sent xs m [ff\<lparr>metaData := Some ms', destinationID := d\<rparr>] m'"
    "icmp_recv_meta ms' family src dst ttl" "has_u32 ms' ''recv_icmp_type'' 0" "has_u32 ms' ''recv_icmp_code'' (ucast (msg ! 1))"
proof -
  obtain ms1 where ms1: "icmp_in_fdf junk m ff = icmp_in_switch junk m (ff\<lparr>metaData := Some ms1\<rparr>) p (of_nat (length msg - 8)) (msg ! 0) (msg ! 1)"
      "icmp_recv_meta ms1 family src dst ttl"
      "map_of ms1 = (map_of ms)(''recv_icmp_type'' \<mapsto> CInt (ucast (msg ! 0)), ''recv_icmp_code'' \<mapsto> CInt (ucast (msg ! 1)))"
    by (rule icmp_in_accepts [OF ff p(1,2)])
  obtain m' where m': "send_or_free m (ff\<lparr>metaData := Some ms1\<rparr>) ICMP_FLOW_DAEMON = Inr m'"
      "sent xs m [(ff\<lparr>metaData := Some ms1\<rparr>)\<lparr>destinationID := d\<rparr>] m'"
    by (rule send_single [OF q])
  have "icmp_in_fdf junk m ff = Inr m'"
    unfolding ms1(1) p(3) using m'(1)
    by (simp add: icmp_in_switch_def ICMP_TYPE_ECHOREPLY_def ICMP_TYPE_DESTUNREACH_def ICMP_TYPE_ECHOREQUEST_def ICMP_TYPE_TTLEXCEED_def)
  moreover have "has_u32 ms1 ''recv_icmp_type'' 0" "has_u32 ms1 ''recv_icmp_code'' (ucast (msg ! 1))"
    using ms1(3) p(3) ff(3) by (simp_all add: has_u32_def icmp_recv_meta_def free_u32_def ICMP_TYPE_ECHOREPLY_def)
  ultimately show thesis using that m'(2) ms1(2) by simp
qed

section \<open>Errors reported by other hosts\<close>

lemma icmp_serial_fields:
  assumes "icmp_serial m = (n, m1)"
  shows "space m1 xs k = space m xs k" "flow_to m1 flow d = flow_to m flow d" "m_freed m1 = m_freed m" "m_index m1 = m_index m"
    "ic_sent_list (m_data m1) = ic_sent_list (m_data m)" "queue_rep (m_output_queue m1) ys = queue_rep (m_output_queue m) ys"
    "m_output_queue m1 = m_output_queue m"
  using assms by (auto simp: icmp_serial_def split: prod.splits)

text \<open>The loads of the quoted header.\<close>

lemma quoted_loads:
  assumes "carries p msg" "28 \<le> length msg"
  shows "load8 p 28 = Inr (msg ! 8)" "load8 p 37 = Inr (msg ! 17)" "slice p 48 n = slice msg 28 n"
proof -
  note l = carries_loads(1) [OF assms(1)]
  have d: "drop 20 p = msg" using assms(1) by (simp add: carries_def)
  have n: "p ! (20 + k) = msg ! k" if "k < length msg" for k using d that l by (metis nth_drop le_add2)
  show "load8 p 28 = Inr (msg ! 8)" "load8 p 37 = Inr (msg ! 17)"
    using load8_ok [of 28 p] load8_ok [of 37 p] n [of 8] n [of 17] assms(2) l by simp_all
  show "slice p 48 n = slice msg 28 n" using d l by (auto simp: slice_def drop_drop)
qed

lemma ucast_int: "(ucast (of_int k :: u32) :: u16) = of_int k"
  by (rule bit_word_eqI) (simp add: bit_simps)

text \<open>The length of the quoted data as the code computes it.\<close>

lemma sent_data_len:
  assumes "length msg < 65536" "8 \<le> length msg"
  shows "unat (ucast (of_nat (length msg - 8) - push_bit 2 (ucast (v AND 0xf)) :: u32) :: u16)
    = nat ((int (length msg) - 8 - 4 * int (unat (v AND 0xf :: u8))) mod 65536)"
proof -
  let ?x = "of_nat (length msg - 8) - push_bit 2 (ucast (v AND 0xf)) :: u32"
  have "?x = of_int (int (length msg) - 8 - 4 * int (unat (v AND 0xf)))"
    using assms(2) by (simp add: push_bit_eq_mult of_nat_diff of_nat_unat)
  then have "(ucast ?x :: u16) = of_int (int (length msg) - 8 - 4 * int (unat (v AND 0xf)))"
    by (metis ucast_int)
  then have "uint (ucast ?x :: u16) = (int (length msg) - 8 - 4 * int (unat (v AND 0xf))) mod 65536"
    by (simp only: uint_word_of_int) simp
  then show ?thesis by (metis unat_eq_nat_uint)
qed

text \<open>The pair of frames for an error about a UDP datagram: the packet for the daemon, the report for UDP.\<close>

lemma icmp_udp_error:
  assumes ff: "metaData ff = Some ms" "icmp_recv_meta ms family src dst ttl"
    and p: "carries p msg" "36 \<le> length msg" "msg ! 8 AND 0xf = 5" "msg ! 17 = 17"
    and q: "space m xs 2" "flow_to m ICMP_FLOW_DAEMON d1" "flow_to m ICMP_FLOW_UDP d2"
  obtains m' ms1 r n m1 where "icmp_handle_error junk m ff p (of_nat (length msg - 8)) param = Inr (Some (ff\<lparr>metaData := Some ms1\<rparr>), m')"
    "icmp_serial m = (n, m1)" "sent xs m1 [ff\<lparr>metaData := Some ms1, destinationID := d1\<rparr>, r] m'"
    "udp_report m param ms (drop 28 msg) d2 r" "icmp_recv_meta ms1 family src dst ttl" "has_u32 ms1 ''recv_ee_origin'' SO_EE_ORIGIN_ICMP"
proof -
  have len: "length msg < 65536" "8 \<le> length msg" using carries_loads(1) [OF p(1)] p(1,2) by (simp_all add: carries_def)
  have ql: "28 \<le> length msg" using p(2) by simp
  note l = quoted_loads [OF p(1) ql]
  let ?s = "ucast (of_nat (length msg - 8) - push_bit 2 (ucast (msg ! 8 AND 0xf)) :: u32) :: u16"
  have "int (length msg) - 8 - 4 * int (unat (msg ! 8 AND 0xf)) = int (length msg - 28)" unfolding p(3) using p(2) by simp
  then have s: "unat ?s = length msg - 28" using sent_data_len [OF len, of "msg ! 8"] len(1) by (simp only: nat_mod_distrib nat_int) simp
  then have s8: "\<not> ?s < UDP_FRAG_SIZE" using p(2) by (simp add: UDP_FRAG_SIZE_def word_less_nat_alt)
  have sl: "slice p 48 (unat ?s) = Inr (drop 28 msg)" unfolding l(3) s using p(2) by (simp add: slice_def)
  have su: "(ucast ?s :: u32) = of_nat (length (drop 28 msg))" using s by (metis length_drop of_nat_unat)
  have mp: "meta_plain ms" "free_u32 ms ''recv_ee_origin''" using ff(2) by (auto simp: icmp_recv_meta_def)
  have cl: "metadata_clone ms = Inr ms" using metadata_copy_ok [of ms] mp(1) by (simp add: metadata_clone_def metadata_create_def meta_plain_def)
  obtain ms1 where ms1: "secure_metadata_writeToElement ms ''recv_ee_origin'' (DInt32 SO_EE_ORIGIN_ICMP) = Inr ms1" "meta_plain ms1"
      "has_u32 ms1 ''recv_ee_origin'' SO_EE_ORIGIN_ICMP" "map_of ms1 = (map_of ms)(''recv_ee_origin'' \<mapsto> CInt SO_EE_ORIGIN_ICMP)"
    by (rule write_u32 [OF mp])
  have ok: "icmp_recv_meta ms1 family src dst ttl"
    using ff(2) ms1(2) by (simp add: icmp_recv_meta_def has_u32_def free_u32_def ms1(4))
  obtain n m1 where n: "icmp_serial m = (n, m1)" by (cases "icmp_serial m")
  let ?e = "zeroFrame\<lparr>dataOrCtrl := FF_CONTROL, metaData := Some ms, ctrlFrame := (ctrlFrame zeroFrame)\<lparr>sender_id := ucast (m_index m),
      serial_num := n, opcode := CTRL_ERROR, param_id := param, data_len := ucast ?s, ctrl_dat := CD_BYTES (drop 28 msg)\<rparr>\<rparr>"
  have q1: "space m1 xs 2" "flow_to m1 ICMP_FLOW_DAEMON d1" "flow_to m1 ICMP_FLOW_UDP d2" using q icmp_serial_fields(1,2) [OF n] by simp_all
  obtain m2 m3 where m3: "module_send_flow m1 (ff\<lparr>metaData := Some ms1\<rparr>) ICMP_FLOW_DAEMON = Inr (1, m2)"
      "send_or_free m2 ?e ICMP_FLOW_UDP = Inr m3"
      "sent xs m1 [(ff\<lparr>metaData := Some ms1\<rparr>)\<lparr>destinationID := d1\<rparr>, ?e\<lparr>destinationID := d2\<rparr>] m3"
    by (rule send_two [OF q1])
  have ge: "\<not> of_nat (length msg - 8) < IPV4_MIN_HLEN"
    using p(2) len(1) by (simp add: IPV4_MIN_HLEN_def word_less_nat_alt unat_of_nat del: of_nat_diff)
  have run: "icmp_handle_error junk m ff p (of_nat (length msg - 8)) param = Inr (Some (ff\<lparr>metaData := Some ms1\<rparr>), m3)"
    unfolding icmp_handle_error_def ff(1) option.case Let_def l(1,2) andThen_Inr p(4)
    using ge s8 sl cl ms1(1) n m3(1,2) by (simp add: ICMP_PT_ICMP_def ICMP_PT_UDP_def icmp_to_daemon_def)
  have "udp_report m param ms (drop 28 msg) d2 (?e\<lparr>destinationID := d2\<rparr>)" using su by (simp add: udp_report_def)
  with run n m3(3) ok ms1(3) that show thesis by simp
qed

lemmas icmp_codes = ICMP_TYPE_DESTUNREACH_def ICMP_TYPE_ECHOREQUEST_def ICMP_TYPE_TTLEXCEED_def ICMP_TYPE_ECHOREPLY_def
  ICMP_CODE_HOSTUNREACH_def ICMP_CODE_PORTUNREACH_def ICMP_CODE_TTLEXCEEDED_def ICMP_CODE_ECHO_def
  ICMP_ERROR_DEST_UNREACH_def ICMP_ERROR_TTL_def

text \<open>An error about a UDP datagram arrives: the daemon gets the packet, UDP the report.\<close>

lemma icmp_error_reported:
  assumes ff: "pdu (dataFrame ff) = Some p" "metaData ff = Some ms" "icmp_recv_meta ms family src dst ttl"
    and p: "carries p msg" "36 \<le> length msg" "msg ! 8 AND 0xf = 5" "msg ! 17 = 17" "inet_cksum (be_total msg) = 0"
    and c: "icmp_reports (msg ! 0) (msg ! 1) param" "msg ! 0 = ICMP_TYPE_DESTUNREACH \<longrightarrow> msg ! 1 = ICMP_CODE_PORTUNREACH"
    and q: "space m xs 2" "flow_to m ICMP_FLOW_DAEMON d1" "flow_to m ICMP_FLOW_UDP d2"
  obtains m' ms1 ms2 r n m1 where "icmp_in_fdf junk m ff = Inr m'" "icmp_serial m = (n, m1)"
    "sent xs m1 [ff\<lparr>metaData := Some ms1, destinationID := d1\<rparr>, r] m'" "udp_report m param ms2 (drop 28 msg) d2 r"
    "icmp_recv_meta ms2 family src dst ttl"
    "map_of ms2 = (map_of ms)(''recv_icmp_type'' \<mapsto> CInt (ucast (msg ! 0)), ''recv_icmp_code'' \<mapsto> CInt (ucast (msg ! 1)))"
proof -
  obtain ms2 where ms2: "icmp_in_fdf junk m ff = icmp_in_switch junk m (ff\<lparr>metaData := Some ms2\<rparr>) p (of_nat (length msg - 8)) (msg ! 0) (msg ! 1)"
      "icmp_recv_meta ms2 family src dst ttl"
      "map_of ms2 = (map_of ms)(''recv_icmp_type'' \<mapsto> CInt (ucast (msg ! 0)), ''recv_icmp_code'' \<mapsto> CInt (ucast (msg ! 1)))"
    by (rule icmp_in_accepts [OF ff p(1,5)])
  have md: "metaData (ff\<lparr>metaData := Some ms2\<rparr>) = Some ms2" by simp
  obtain m' ms1 r n m1 where e: "icmp_handle_error junk m (ff\<lparr>metaData := Some ms2\<rparr>) p (of_nat (length msg - 8)) param
      = Inr (Some ((ff\<lparr>metaData := Some ms2\<rparr>)\<lparr>metaData := Some ms1\<rparr>), m')"
      "icmp_serial m = (n, m1)" "sent xs m1 [(ff\<lparr>metaData := Some ms2\<rparr>)\<lparr>metaData := Some ms1, destinationID := d1\<rparr>, r] m'"
      "udp_report m param ms2 (drop 28 msg) d2 r"
    by (rule icmp_udp_error [OF md ms2(2) p(1-4) q])
  have "icmp_in_fdf junk m ff = Inr m'"
    unfolding ms2(1) using c e(1) by (auto simp: icmp_in_switch_def icmp_reports_def icmp_codes)
  with e(2-4) ms2(2,3) that show thesis by simp
qed

section \<open>Outgoing packets\<close>

lemma set_isent_fields [simp]:
  "m_output_queue (set_isent xs m) = m_output_queue m" "m_freed (set_isent xs m) = m_freed m" "m_table (set_isent xs m) = m_table m"
  "ic_sent_list (m_data (set_isent xs m)) = xs"
  by (simp_all add: set_isent_def)

lemma icmp_out_sends:
  assumes ff: "dataOrCtrl ff = FF_DATA" "metaData ff = Some ms" "icmp_send_meta ms src dst"
    and p: "pdu (dataFrame ff) = Some data" "length data = unat (pduLength (dataFrame ff))" "data \<noteq> []"
    and q: "room m xs" "flow_to m ICMP_FLOW_IPV4 d" "length (ic_sent_list (m_data m)) < ic_sent_max (m_data m)"
  obtains m' ms1 where "icmp_out_fdf m ff = Inr m'" "queue_rep (m_output_queue m') (xs @ [ff\<lparr>metaData := Some ms1, destinationID := d\<rparr>])"
    "m_freed m' = m_freed m" "meta_plain ms1" "map_of ms1 = (map_of ms)(''send_protocol'' \<mapsto> CInt ICMP_PT_ICMP)"
    "ic_sent_list (m_data m') = ic_sent_list (m_data m) @ [\<lparr>is_ff = ff\<lparr>metaData := Some ms1\<rparr>\<rparr>]"
proof -
  obtain f where rd: "secure_metadata_read_u32 ms ''send_family'' = Inr f" "secure_metadata_read_u32 ms ''send_src_ipv4'' = Inr src"
      "secure_metadata_read_u32 ms ''send_dst_ipv4'' = Inr dst"
    using ff(3) has_read by (auto simp: icmp_send_meta_def)
  have pl: "meta_plain ms" "free_u32 ms ''send_protocol''" using ff(3) by (auto simp: icmp_send_meta_def)
  obtain ms1 where ms1: "secure_metadata_writeToElement ms ''send_protocol'' (DInt32 ICMP_PT_ICMP) = Inr ms1" "meta_plain ms1"
      "map_of ms1 = (map_of ms)(''send_protocol'' \<mapsto> CInt ICMP_PT_ICMP)"
    by (rule write_u32 [OF pl])
  let ?f = "ff\<lparr>metaData := Some ms1\<rparr>"
  have "pduLength (dataFrame ff) \<noteq> 0" using p(2,3) by auto
  then have "frame_ok ?f" using ff(1) ms1(2) p(1,2) by (simp add: frame_ok_def data_ok_def meta_plain_def)
  then have cl: "cloneFinsFrame ?f = Inr ?f" by (rule clone_frame_ok)
  obtain m1 where m1: "module_send_flow m ?f ICMP_FLOW_IPV4 = Inr (1, m1)" "sent xs m [?f\<lparr>destinationID := d\<rparr>] m1"
    by (rule flow_single [OF q(1,2)])
  let ?m = "set_isent (ic_sent_list (m_data m) @ [\<lparr>is_ff = ?f\<rparr>]) m1"
  have "push_isent \<lparr>is_ff = ?f\<rparr> m1 = Inr ?m" using sent_fields(3) [OF m1(2)] q(3) by (simp add: push_isent_def Let_def)
  then have "icmp_out_fdf m ff = Inr ?m"
    using ff(2) rd ms1(1) cl m1(1) by (simp add: icmp_out_fdf_def Let_def)
  moreover have "queue_rep (m_output_queue m1) (xs @ [?f\<lparr>destinationID := d\<rparr>])" using m1(2) by (simp add: sent_def)
  ultimately show thesis using that ms1(2,3) sent_fields(2) [OF m1(2)] by simp
qed

lemma ex_icmp_ready: "space ex_icmp [] 10" "room ex_icmp []" "flow_to ex_icmp ICMP_FLOW_IPV4 4" "flow_to ex_icmp ICMP_FLOW_UDP 4" "flow_to ex_icmp ICMP_FLOW_DAEMON 4"
  by (simp_all add: space_def room_def flow_to_def ex_icmp_def CreateQueue_rep ICMP_FLOW_IPV4_def ICMP_FLOW_UDP_def ICMP_FLOW_DAEMON_def LINK_NULL_def)
    (simp_all add: queue_cap_def CreateQueue_def MakeEmpty_def)

lemma icmp_names: "config_validate_name ''recv_ttl''" "config_validate_name ''recv_icmp_type''" "config_validate_name ''recv_icmp_code''"
  "config_validate_name ''recv_ee_origin''"
  by code_simp+

lemma ex_icmp_recv_meta: "icmp_recv_meta ex_icmp_recv 2 0xC0A80102 0xC0A80101 64"
  using udp_names icmp_names by (simp add: icmp_recv_meta_def meta_plain_def has_u32_def free_u32_def ex_icmp_recv_def plain_def ICMP_PT_ICMP_def)

lemma ex_icmp_carries:
  assumes "8 \<le> length msg" "length msg < 200"
  shows "carries ([0x45, 0, 0, of_nat (length msg + 20), 0, 0, 0, 0, 64, 1, 0, 0, 192, 168, 1, 2, 192, 168, 1, 1] @ msg) msg"
proof -
  have "unat (mk16 0 (of_nat (length msg + 20))) = length msg + 20"
    using unat_hi_lo [of "mk16 0 (of_nat (length msg + 20))"] assms(2) by (simp add: unat_of_nat del: of_nat_add)
  then have "mk16 0 (of_nat (length msg + 20)) = of_nat (length msg + 20)" by (metis of_nat_unat ucast_id)
  then show ?thesis using assms by (simp add: carries_def)
qed

text \<open>A quoted header length that does not fit.\<close>

lemma quoted_len:
  assumes "n < 65536" "4 * k < 20 \<and> 16 \<le> n - 4 * k \<or> n < 8 + 4 * k" "k \<le> 15"
  shows "8 \<le> nat ((int n - 8 - 4 * int k) mod 65536) \<and> n < 28 + nat ((int n - 8 - 4 * int k) mod 65536)"
proof (cases "n < 8 + 4 * k")
  case True
  have "(int n - 8 - 4 * int k) mod 65536 = (int n - 8 - 4 * int k + 65536) mod 65536" by (simp only: mod_add_self2)
  also have "\<dots> = int n - 8 - 4 * int k + 65536" by (rule mod_pos_pos_trivial) (use True assms(1,3) in linarith)+
  finally show ?thesis using True assms(3) by linarith
next
  case False
  have "(int n - 8 - 4 * int k) mod 65536 = int n - 8 - 4 * int k" by (rule mod_pos_pos_trivial) (use False assms(1) in linarith)+
  then show ?thesis using False assms(2) by linarith
qed

lemma ex_unreach_facts:
  "length (ex_unreach c v) = 37" "ex_unreach c v ! 0 = ICMP_TYPE_DESTUNREACH" "ex_unreach c v ! 1 = c" "ex_unreach c v ! Suc 0 = c"
  "inet_cksum (be_total (ex_unreach c v)) = 0" "ex_unreach c v ! 8 = v" "ex_unreach c v ! 17 = 17"
  unfolding ex_unreach_def by (simp_all add: icmp_message_facts [simplified] ex_quote_def)
    (simp_all add: icmp_message_eq icmp_packet_def ex_quote_def mem16_def)

lemma ex_unreach_carried:
  "carries ([0x45, 0, 0, of_nat (length (ex_unreach c v) + 20), 0, 0, 0, 0, 64, 1, 0, 0, 192, 168, 1, 2, 192, 168, 1, 1] @ ex_unreach c v)
     (ex_unreach c v)"
  by (rule ex_icmp_carries) (simp_all add: ex_unreach_facts)

section \<open>The theorems\<close>

text \<open>
  C32: an error message can make the module read past the packet. An accepted destination unreachable or time exceeded
  message that quotes a UDP datagram is copied by the header length the quoted header claims, not by its place in the
  packet: when the quoted length is less than 20 bytes (and at least 8 bytes seem to follow), or more than the message has,
  the copy leaves the packet.
\<close>

theorem icmp_quoted_overread:
  assumes "pdu (dataFrame ff) = Some p" "metaData ff = Some ms" "icmp_recv_meta ms family src dst ttl"
    "carries p msg" "inet_cksum (be_total msg) = 0" "icmp_reports (msg ! 0) (msg ! 1) param"
    "28 \<le> length msg" "msg ! 17 = 17"
    "4 * unat (msg ! 8 AND 0xf) < 20 \<and> 16 \<le> length msg - 4 * unat (msg ! 8 AND 0xf) \<or> length msg < 8 + 4 * unat (msg ! 8 AND 0xf)"
  shows "icmp_in_fdf junk m ff = Inl MemFault"
proof -
  let ?k = "unat (msg ! 8 AND 0xf)"
  have len: "length msg < 65536" "8 \<le> length msg" using carries_loads(1) [OF assms(4)] assms(4,7) by (simp_all add: carries_def)
  note l = quoted_loads [OF assms(4,7)]
  obtain ms2 where ms2: "icmp_in_fdf junk m ff = icmp_in_switch junk m (ff\<lparr>metaData := Some ms2\<rparr>) p (of_nat (length msg - 8)) (msg ! 0) (msg ! 1)"
      "icmp_recv_meta ms2 family src dst ttl"
    by (rule icmp_in_accepts [OF assms(1-5)])
  let ?s = "ucast (of_nat (length msg - 8) - push_bit 2 (ucast (msg ! 8 AND 0xf)) :: u32) :: u16"
  have "msg ! 8 AND 0xf \<le> 0xf" by (rule word_and_le1)
  then have k: "?k \<le> 15" by (simp add: word_le_nat_alt)
  obtain k where k: "?k = k" "k \<le> 15" using k by blast
  have s: "8 \<le> unat ?s \<and> length msg < 28 + unat ?s"
    using sent_data_len [OF len, of "msg ! 8"] quoted_len [OF len(1) assms(9) [unfolded k(1)] k(2)] unfolding k(1) by simp
  then have s8: "\<not> ?s < UDP_FRAG_SIZE" by (simp add: UDP_FRAG_SIZE_def word_less_nat_alt)
  have sl: "slice p 48 (unat ?s) = Inl MemFault" unfolding l(3) using s by (simp add: slice_def)
  have mp: "meta_plain ms2" "free_u32 ms2 ''recv_ee_origin''" using ms2(2) by (auto simp: icmp_recv_meta_def)
  have cl: "metadata_clone ms2 = Inr ms2" using metadata_copy_ok [of ms2] mp(1) by (simp add: metadata_clone_def metadata_create_def meta_plain_def)
  obtain ms1 where ms1: "secure_metadata_writeToElement ms2 ''recv_ee_origin'' (DInt32 SO_EE_ORIGIN_ICMP) = Inr ms1"
    by (rule write_u32 [OF mp])
  have ge: "\<not> of_nat (length msg - 8) < IPV4_MIN_HLEN"
    using assms(7) len(1) by (simp add: IPV4_MIN_HLEN_def word_less_nat_alt unat_of_nat del: of_nat_diff)
  have "icmp_handle_error junk m (ff\<lparr>metaData := Some ms2\<rparr>) p (of_nat (length msg - 8)) param = Inl MemFault"
    unfolding icmp_handle_error_def option.case Let_def l(1,2) andThen_Inr assms(8)
    using ge s8 sl cl ms1 by (simp add: ICMP_PT_ICMP_def ICMP_PT_UDP_def)
  then show ?thesis unfolding ms2(1) using assms(6) by (auto simp: icmp_in_switch_def icmp_reports_def icmp_codes)
qed

theorem icmp_quoted_overread_witness:
  "icmp_in_fdf 0 ex_icmp (ex_icmp_frame (ex_unreach ICMP_CODE_PORTUNREACH 0x41)) = Inl MemFault
   \<and> icmp_in_fdf 0 ex_icmp (ex_icmp_frame (ex_unreach ICMP_CODE_PORTUNREACH 0x4f)) = Inl MemFault"
proof -
  have "icmp_in_fdf 0 ex_icmp (ex_icmp_frame (ex_unreach ICMP_CODE_PORTUNREACH v)) = Inl MemFault" if "v = 0x41 \<or> v = 0x4f" for v
    by (rule icmp_quoted_overread [OF _ _ ex_icmp_recv_meta ex_unreach_carried ex_unreach_facts(5), where param = ICMP_ERROR_DEST_UNREACH])
      (use that in \<open>auto simp: ex_unreach_facts ex_icmp_frame_def icmp_reports_def\<close>)
  then show ?thesis by blast
qed

text \<open>
  C33: a host unreachable message reaches the daemon twice. After \<^verbatim>\<open>icmp_handle_error\<close> has queued the frame for the daemon
  (and the report for UDP), \<^verbatim>\<open>icmp_in_fdf\<close> does not return, as it does for port unreachable, but queues the same frame a
  second time; both entries are the same pointer, which the daemon frees twice.
\<close>

theorem icmp_host_unreachable_twice:
  assumes "pdu (dataFrame ff) = Some p" "metaData ff = Some ms" "icmp_recv_meta ms family src dst ttl"
    "carries p msg" "36 \<le> length msg" "msg ! 8 AND 0xf = 5" "msg ! 17 = 17" "inet_cksum (be_total msg) = 0"
    "msg ! 0 = ICMP_TYPE_DESTUNREACH" "msg ! 1 = ICMP_CODE_HOSTUNREACH"
    "space m xs 3" "flow_to m ICMP_FLOW_DAEMON d1" "flow_to m ICMP_FLOW_UDP d2"
  shows "\<exists>m' f r ms2. icmp_in_fdf junk m ff = Inr m' \<and> queue_rep (m_output_queue m') (xs @ [f, r, f]) \<and> m_freed m' = m_freed m
    \<and> destinationID f = d1 \<and> dataFrame f = dataFrame ff \<and> udp_report m ICMP_ERROR_DEST_UNREACH ms2 (drop 28 msg) d2 r"
proof -
  obtain ms2 where ms2: "icmp_in_fdf junk m ff = icmp_in_switch junk m (ff\<lparr>metaData := Some ms2\<rparr>) p (of_nat (length msg - 8)) (msg ! 0) (msg ! 1)"
      "icmp_recv_meta ms2 family src dst ttl"
    by (rule icmp_in_accepts [OF assms(1-4,8)])
  have md: "metaData (ff\<lparr>metaData := Some ms2\<rparr>) = Some ms2" by simp
  have s2: "space m xs 2" using assms(11) by (simp add: space_def)
  obtain m1 ms1 r n m0 where e: "icmp_handle_error junk m (ff\<lparr>metaData := Some ms2\<rparr>) p (of_nat (length msg - 8)) ICMP_ERROR_DEST_UNREACH
      = Inr (Some ((ff\<lparr>metaData := Some ms2\<rparr>)\<lparr>metaData := Some ms1\<rparr>), m1)"
      "icmp_serial m = (n, m0)" "sent xs m0 [(ff\<lparr>metaData := Some ms2\<rparr>)\<lparr>metaData := Some ms1, destinationID := d1\<rparr>, r] m1"
      "udp_report m ICMP_ERROR_DEST_UNREACH ms2 (drop 28 msg) d2 r"
    by (rule icmp_udp_error [OF md ms2(2) assms(4-7) s2 assms(12,13)])
  let ?f = "ff\<lparr>metaData := Some ms1\<rparr>"
  have s0: "space m0 xs 3" "flow_to m0 ICMP_FLOW_DAEMON d1" using assms(11,12) icmp_serial_fields(1,2) [OF e(2)] by simp_all
  have "space m1 (xs @ [?f\<lparr>destinationID := d1\<rparr>, r]) 1" using space_sent [OF e(3) s0(1)] by simp
  then have "room m1 (xs @ [?f\<lparr>destinationID := d1\<rparr>, r])" by (rule space_room) simp
  moreover have "flow_to m1 ICMP_FLOW_DAEMON d1" using flow_to_sent [OF e(3)] s0(2) by simp
  ultimately obtain m' where m': "send_or_free m1 ?f ICMP_FLOW_DAEMON = Inr m'"
      "sent (xs @ [?f\<lparr>destinationID := d1\<rparr>, r]) m1 [?f\<lparr>destinationID := d1\<rparr>] m'"
    by (rule send_single)
  have "icmp_in_fdf junk m ff = Inr m'" unfolding ms2(1) assms(9,10) using e(1) m'(1) by (simp add: icmp_in_switch_def)
  moreover have "queue_rep (m_output_queue m') (xs @ [?f\<lparr>destinationID := d1\<rparr>, r, ?f\<lparr>destinationID := d1\<rparr>])" using m'(2) by (simp add: sent_def)
  moreover have "m_freed m' = m_freed m" using sent_fields(2) [OF m'(2)] sent_fields(2) [OF e(3)] icmp_serial_fields(3) [OF e(2)] by simp
  ultimately show ?thesis using e(4) by (intro exI [of _ m'] exI [of _ "?f\<lparr>destinationID := d1\<rparr>"] exI [of _ r] exI [of _ ms2]) simp
qed

theorem icmp_host_unreachable_twice_witness:
  "\<exists>m' f r. icmp_in_fdf 0 ex_icmp (ex_icmp_frame (ex_unreach ICMP_CODE_HOSTUNREACH 0x45)) = Inr m' \<and> queue_rep (m_output_queue m') [f, r, f]
     \<and> destinationID f = 4"
proof -
  have s: "space ex_icmp [] 3" using ex_icmp_ready(1) by (simp add: space_def)
  have "\<exists>m' f r ms2. icmp_in_fdf 0 ex_icmp (ex_icmp_frame (ex_unreach ICMP_CODE_HOSTUNREACH 0x45)) = Inr m'
    \<and> queue_rep (m_output_queue m') ([] @ [f, r, f]) \<and> m_freed m' = m_freed ex_icmp
    \<and> destinationID f = 4 \<and> dataFrame f = dataFrame (ex_icmp_frame (ex_unreach ICMP_CODE_HOSTUNREACH 0x45))
    \<and> udp_report ex_icmp ICMP_ERROR_DEST_UNREACH ms2 (drop 28 (ex_unreach ICMP_CODE_HOSTUNREACH 0x45)) 4 r"
    by (rule icmp_host_unreachable_twice [OF _ _ ex_icmp_recv_meta ex_unreach_carried _ _ _ ex_unreach_facts(5) _ _ s ex_icmp_ready(5,4)])
      (simp_all add: ex_unreach_facts ex_icmp_frame_def)
  then show ?thesis by auto
qed

text \<open>
  C34: a packet whose next hop cannot be resolved becomes a host unreachable message. The interface hands the packet back in
  a control frame; \<^verbatim>\<open>icmp_error\<close> sends a message that quotes all of it, with a right checksum, from the address of the main
  interface to itself, keeps a copy in the list of sent packets and frees the control frame.
\<close>

theorem icmp_unresolved_reported:
  assumes "dataOrCtrl ff = FF_CONTROL" "opcode (ctrlFrame ff) = CTRL_ERROR" "param_id (ctrlFrame ff) = ICMP_ERROR_GET_ADDR"
    "ctrl_dat (ctrlFrame ff) = CD_BYTES bs" "data_len (ctrlFrame ff) = of_nat (length bs)" "length bs + 8 < 65536"
    "ic_if_main (m_data m) = Some ifr" "if_addr_list ifr = Some as" "find addr_is_v4 as = Some a"
    "room m xs" "flow_to m ICMP_FLOW_IPV4 d" "length (ic_sent_list (m_data m)) < ic_sent_max (m_data m)"
  shows "\<exists>m' r ms. icmp_fcf junk_ip m ff = Inr m' \<and> queue_rep (m_output_queue m') (xs @ [r]) \<and> m_freed m' = m_freed m @ [ff]
    \<and> destinationID r = d \<and> metaData r = Some ms \<and> pduLength (dataFrame r) = of_nat (length bs + 8)
    \<and> pdu (dataFrame r) = Some (icmp_message ICMP_TYPE_DESTUNREACH ICMP_CODE_HOSTUNREACH 0 0 bs)
    \<and> has_u32 ms ''send_protocol'' ICMP_PT_ICMP \<and> has_u32 ms ''send_src_ipv4'' (addr4_get_ip (ad_ip a))
    \<and> has_u32 ms ''send_dst_ipv4'' (addr4_get_ip (ad_ip a))
    \<and> map (\<lambda>x. pdu (dataFrame (is_ff x))) (ic_sent_list (m_data m'))
       = map (\<lambda>x. pdu (dataFrame (is_ff x))) (ic_sent_list (m_data m)) @ [pdu (dataFrame r)]"
proof -
  let ?ip = "addr4_get_ip (ad_ip a)"
  let ?ws = "[(''send_family'', of_nat AF_INET), (''send_src_ipv4'', ?ip), (''send_dst_ipv4'', ?ip)] :: (string \<times> u32) list"
  have e: "meta_plain metadata_create" "\<forall>t \<in> fst ` set ?ws. free_u32 metadata_create t"
    using udp_names by (auto simp: meta_plain_def metadata_create_def free_u32_def)
  obtain ms where ms: "meta_writes metadata_create ?ws = Inr ms" "meta_plain ms"
      "map_of ms = map_of metadata_create ++ map_of (rev (map (\<lambda>(t, v). (t, CInt v)) ?ws))"
    using writes_ok [OF e] by blast
  have mo: "map_of ms = [''send_family'' \<mapsto> CInt 2, ''send_src_ipv4'' \<mapsto> CInt ?ip, ''send_dst_ipv4'' \<mapsto> CInt ?ip]"
    using ms(3) by (simp add: metadata_create_def map_add_def fun_eq_iff AF_INET_def)
  have sm: "icmp_send_meta ms ?ip ?ip" using ms(2) udp_names by (auto simp: icmp_send_meta_def has_u32_def free_u32_def mo)
  have u: "unat (of_nat (length bs) :: u32) = length bs" "unat (of_nat (length bs + 8) :: u32) = length bs + 8"
    using assms(6) unfolding unat_of_nat by simp_all
  let ?msg = "icmp_message ICMP_TYPE_DESTUNREACH ICMP_CODE_HOSTUNREACH 0 0 bs"
  let ?f = "zeroFrame\<lparr>dataOrCtrl := FF_DATA, metaData := Some ms,
      dataFrame := \<lparr>directionFlag = DIR_DOWN, pduLength = of_nat (length bs + 8), pdu = Some ?msg\<rparr>\<rparr>"
  have ml: "length ?msg = length bs + 8" by (simp add: icmp_message_facts)
  then have ne: "?msg \<noteq> []" by auto
  obtain m' ms1 where m': "icmp_out_fdf m ?f = Inr m'" "queue_rep (m_output_queue m') (xs @ [?f\<lparr>metaData := Some ms1, destinationID := d\<rparr>])"
      "m_freed m' = m_freed m" "map_of ms1 = (map_of ms)(''send_protocol'' \<mapsto> CInt ICMP_PT_ICMP)"
      "ic_sent_list (m_data m') = ic_sent_list (m_data m) @ [\<lparr>is_ff = ?f\<lparr>metaData := Some ms1\<rparr>\<rparr>]"
    by (rule icmp_out_sends [of ?f ms ?ip ?ip ?msg m xs d]) (use sm u ml ne assms(10-12) in simp_all)
  have sum8: "of_nat (length bs) + ICMP_HEADER_SIZE = of_nat (length bs + 8)" by (simp add: ICMP_HEADER_SIZE_def)
  have sl: "slice bs 0 (length bs) = Inr bs" by (simp add: slice_def)
  note ck = icmp_checksum_message [OF assms(6) refl, of ICMP_TYPE_DESTUNREACH ICMP_CODE_HOSTUNREACH 0 0]
  have "icmp_error_get_addr junk_ip m ff = andThen (icmp_out_fdf m ?f) (free_ff ff)"
    unfolding icmp_error_get_addr_def assms(4,5,7,8,9) option.case Let_def sum8 u
    using ms(1) sl ck by (simp add: ICMP_HEADER_SIZE_def data_bytes_def icmp_message_eq del: of_nat_add)
  then have "icmp_fcf junk_ip m ff = Inr (m'\<lparr>m_freed := m_freed m @ [ff]\<rparr>)"
    using assms(1-3) m'(1,3) by (simp add: icmp_fcf_def icmp_error_def Let_def free_ff_ctrl CTRL_defs)
  moreover have "has_u32 ms1 ''send_protocol'' ICMP_PT_ICMP" "has_u32 ms1 ''send_src_ipv4'' ?ip" "has_u32 ms1 ''send_dst_ipv4'' ?ip"
    using udp_names by (simp_all add: has_u32_def m'(4) mo)
  ultimately show ?thesis using m'(2,5)
    by (intro exI [of _ "m'\<lparr>m_freed := m_freed m @ [ff]\<rparr>"] exI [of _ "?f\<lparr>metaData := Some ms1, destinationID := d\<rparr>"] exI [of _ ms1]) simp
qed

theorem icmp_unresolved_reported_witness:
  "\<exists>m' r ms. icmp_fcf 0 ex_icmp (zeroFrame\<lparr>dataOrCtrl := FF_CONTROL, metaData := Some [], ctrlFrame := (ctrlFrame zeroFrame)\<lparr>opcode := CTRL_ERROR,
      param_id := ICMP_ERROR_GET_ADDR, data_len := 2, ctrl_dat := CD_BYTES [1, 2]\<rparr>\<rparr>) = Inr m' \<and> queue_rep (m_output_queue m') [r]
    \<and> metaData r = Some ms \<and> has_u32 ms ''send_dst_ipv4'' 0xC0A80101
    \<and> pdu (dataFrame r) = Some (icmp_message ICMP_TYPE_DESTUNREACH ICMP_CODE_HOSTUNREACH 0 0 [1, 2])"
proof -
  let ?f = "zeroFrame\<lparr>dataOrCtrl := FF_CONTROL, metaData := Some [], ctrlFrame := (ctrlFrame zeroFrame)\<lparr>opcode := CTRL_ERROR,
      param_id := ICMP_ERROR_GET_ADDR, data_len := 2, ctrl_dat := CD_BYTES [1, 2]\<rparr>\<rparr>"
  let ?i = "the (ic_if_main (m_data ex_icmp))"
  from icmp_unresolved_reported [of ?f "[1, 2]" ex_icmp ?i "the (if_addr_list ?i)" "hd (the (if_addr_list ?i))" "[]" 4 0] ex_icmp_ready(2,3)
  show ?thesis by (force simp: ex_icmp_def addr_is_v4_def AF_INET_def addr4_get_ip_def)
qed

end
