(* ===== verification/Ipv4_Module.thy ===== *)
theory Ipv4_Module
  imports Module_Common
begin

text \<open>
  The IPv4 module, \<^verbatim>\<open>trunk/modules/ipv4\<close>: building and parsing of headers, their checksum, the choice of a route, the
  two data paths and the control frames. Forwarding, fragmentation and reassembly are disabled in the code. The lists of
  addresses and routes are the lists of their elements. The counters of the statistics the code never changes are left
  out.
\<close>

section \<open>Data\<close>

record ipv4_statistics =
  badhlen :: u16
  badlen :: u16
  badsum :: u16
  badver :: u16
  delivered :: u16
  forwarded :: u16
  fragerror :: u16
  receivedtotal :: u32
  droppedtotal :: u32

record ipv4_data =
  i4_addr_list :: "addr_record list"
  i4_addr_loopback :: "addr_record option"
  i4_addr_main :: "addr_record option"
  i4_route_list :: "route_record list"
  i4_unique_id :: u16
  i4_stats :: ipv4_statistics

type_synonym ipv4_module = "ipv4_data fins_module"

text \<open>A header as it lies in memory: the fields of several bytes hold their values in network byte order.\<close>

record ip4_packet_header =
  ip_verlen :: u8
  ip_dif :: u8
  ip_len :: u16
  ip_id :: u16
  ip_fragoff :: u16
  ip_ttl :: u8
  ip_proto :: u8
  ip_cksum :: u16
  ip_src :: u32
  ip_dst :: u32

record ip4_header =
  h_source :: u32
  h_destination :: u32
  h_version :: u8
  h_header_length :: u8
  h_differentiated_service :: u8
  h_packet_length :: u16
  h_id :: u16
  h_flags :: u16
  h_fragmentation_offset :: u16
  h_ttl :: u8
  h_protocol :: u8
  h_checksum :: u16

definition IP4_VERSION :: u8 where "IP4_VERSION = 4"
definition IP4_MIN_HLEN :: nat where "IP4_MIN_HLEN = 20"
definition IP4_INIT_TTL :: u8 where "IP4_INIT_TTL = 255"
definition IP4_MF :: u16 where "IP4_MF = 1"
definition IP4_DF :: u16 where "IP4_DF = 2"
definition IP4_FRAGOFF :: u16 where "IP4_FRAGOFF = 0x1fff"
definition IP4_PT_ICMP :: u32 where "IP4_PT_ICMP = 1"
definition IP4_PT_TCP :: u32 where "IP4_PT_TCP = 6"
definition IP4_PT_UDP :: u32 where "IP4_PT_UDP = 17"
definition IP4_ETH_TYPE :: u32 where "IP4_ETH_TYPE = 0x0800"
definition IPV4_ADDRESS_LIST_MAX :: u32 where "IPV4_ADDRESS_LIST_MAX = 512"
definition IPV4_ROUTE_LIST_MAX :: nat where "IPV4_ROUTE_LIST_MAX = 512"
definition IPV4_ADDR_ANY_IP :: u32 where "IPV4_ADDR_ANY_IP = 0"
definition IPV4_ADDR_EVERY_IP :: u32 where "IPV4_ADDR_EVERY_IP = 0xFFFFFFFF"
definition IPV4_MAX_FLOWS :: u32 where "IPV4_MAX_FLOWS = 4"
definition IPV4_FLOW_INTERFACE :: u32 where "IPV4_FLOW_INTERFACE = 0"
definition IPV4_FLOW_ICMP :: u32 where "IPV4_FLOW_ICMP = 1"
definition IPV4_FLOW_TCP :: u32 where "IPV4_FLOW_TCP = 2"
definition IPV4_FLOW_UDP :: u32 where "IPV4_FLOW_UDP = 3"
definition IPV4_ERROR_GET_ADDR :: u32 where "IPV4_ERROR_GET_ADDR = 2"

definition upd_ip_stats :: "(ipv4_statistics \<Rightarrow> ipv4_statistics) \<Rightarrow> ipv4_module \<Rightarrow> ipv4_module" where
  "upd_ip_stats f m = m\<lparr>m_data := (m_data m)\<lparr>i4_stats := f (i4_stats (m_data m))\<rparr>\<rparr>"

definition ip4_bytes :: "ip4_packet_header \<Rightarrow> byte list" where
  "ip4_bytes h = [ip_verlen h, ip_dif h] @ mem16 (ip_len h) @ mem16 (ip_id h) @ mem16 (ip_fragoff h)
     @ [ip_ttl h, ip_proto h] @ mem16 (ip_cksum h) @ mem32 (ip_src h) @ mem32 (ip_dst h)"

section \<open>Headers\<close>

text \<open>\<^verbatim>\<open>while (nleft > 1) { sum += *w++; nleft -= 2; }\<close>: the words are read in the byte order of the host.\<close>

fun sum_host_words :: "byte list \<Rightarrow> nat \<Rightarrow> nat \<Rightarrow> u32 \<Rightarrow> u32 res" where
  "sum_host_words bs i 0 acc = Inr acc"
| "sum_host_words bs i (Suc n) acc =
    andThen (load16 bs (int i)) (\<lambda>w. sum_host_words bs (i + 2) n (acc + ucast w))"

text \<open>The sum of up to 32767 words stays below \<open>2 ^ 31\<close>, so the signed variable of the code never gets negative.\<close>

definition ipv4_checksum :: "byte list \<Rightarrow> nat \<Rightarrow> u16 res" where
  "ipv4_checksum bs len =
    andThen (sum_host_words bs 0 (len div 2) 0) (\<lambda>s.
      let s1 = drop_bit 16 s + (s AND 0xFFFF); s2 = s1 + drop_bit 16 s1 in
      Inr (ucast (NOT s2)))"

text \<open>
  The header is a local variable; the fields that are not set here (\<^verbatim>\<open>ip_len\<close>, \<^verbatim>\<open>ip_fragoff\<close>, \<^verbatim>\<open>ip_cksum\<close>) are set by the
  caller before the header is used.
\<close>

definition ipv4_const_header :: "ipv4_module \<Rightarrow> u32 \<Rightarrow> u32 \<Rightarrow> u8 \<Rightarrow> ip4_packet_header \<times> ipv4_module" where
  "ipv4_const_header m source destination protocol =
    (\<lparr>ip_verlen = push_bit 4 IP4_VERSION OR of_nat (IP4_MIN_HLEN div 4), ip_dif = 0, ip_len = 0,
      ip_id = htons (i4_unique_id (m_data m)), ip_fragoff = 0, ip_ttl = IP4_INIT_TTL, ip_proto = protocol, ip_cksum = 0,
      ip_src = htonl source, ip_dst = htonl destination\<rparr>,
     m\<lparr>m_data := (m_data m)\<lparr>i4_unique_id := i4_unique_id (m_data m) + 1\<rparr>\<rparr>)"

text \<open>
  The lines of \<^verbatim>\<open>ipv4_out_fdf\<close> that complete a header for a payload whose length is given in 16 bits.
\<close>

definition ip4_finish :: "ip4_packet_header \<Rightarrow> u16 \<Rightarrow> ip4_packet_header res" where
  "ip4_finish h len =
    (let h1 = h\<lparr>ip_fragoff := htons 0, ip_id := htons 0, ip_len := htons (len + of_nat IP4_MIN_HLEN), ip_cksum := 0\<rparr> in
     andThen (ipv4_checksum (ip4_bytes h1) IP4_MIN_HLEN) (\<lambda>c. Inr (h1\<lparr>ip_cksum := c\<rparr>)))"

definition ip4_parse :: "byte list \<Rightarrow> ip4_header res" where
  "ip4_parse p =
    andThen (load32 p 12) (\<lambda>src.
    andThen (load32 p 16) (\<lambda>dst.
    andThen (load8 p 0) (\<lambda>verlen.
    andThen (load8 p 1) (\<lambda>dif.
    andThen (load16 p 2) (\<lambda>len.
    andThen (load16 p 4) (\<lambda>i.
    andThen (load16 p 6) (\<lambda>fragoff.
    andThen (load8 p 8) (\<lambda>ttl.
    andThen (load8 p 9) (\<lambda>proto.
    andThen (load16 p 10) (\<lambda>cksum.
      Inr \<lparr>h_source = ntohl src, h_destination = ntohl dst, h_version = drop_bit 4 verlen,
           h_header_length = push_bit 2 (verlen AND 0xf), h_differentiated_service = dif, h_packet_length = ntohs len,
           h_id = ntohs i, h_flags = drop_bit 13 (ntohs fragoff) AND 7, h_fragmentation_offset = ntohs fragoff AND IP4_FRAGOFF,
           h_ttl = ttl, h_protocol = proto, h_checksum = ntohs cksum\<rparr>))))))))))"

section \<open>Incoming packets\<close>

definition ipv4_send_fdf_in :: "ipv4_module \<Rightarrow> finsFrame \<Rightarrow> ip4_header \<Rightarrow> byte list \<Rightarrow> ipv4_module res" where
  "ipv4_send_fdf_in m ff h p =
    (if unat (h_packet_length h) < unat (h_header_length h) then free_ff ff m
     else case metaData ff of None \<Rightarrow> Inl MemFault | Some meta \<Rightarrow>
     let protocol = (ucast (h_protocol h) :: u32);
         n = unat (h_packet_length h) - unat (h_header_length h);
         out = (\<lambda>ff1 flow.
           andThen (meta_writes meta [(''recv_protocol'', protocol), (''recv_family'', of_nat AF_INET),
                      (''recv_src_ipv4'', h_source h), (''recv_dst_ipv4'', h_destination h), (''recv_ttl'', ucast (h_ttl h))]) (\<lambda>meta1.
             send_or_free m (ff1\<lparr>metaData := Some meta1\<rparr>) flow));
         strip = (\<lambda>flow. andThen (slice p IP4_MIN_HLEN n) (\<lambda>data.
             out (ff\<lparr>dataFrame := (dataFrame ff)\<lparr>pduLength := of_nat n, pdu := Some data\<rparr>\<rparr>) flow)) in
     if protocol = IP4_PT_ICMP then out ff IPV4_FLOW_ICMP
     else if protocol = IP4_PT_TCP then strip IPV4_FLOW_TCP
     else if protocol = IP4_PT_UDP then strip IPV4_FLOW_UDP
     else free_ff ff m)"

text \<open>\<^verbatim>\<open>return 0; //to disable\<close>\<close>

definition ipv4_forward :: "ipv4_module \<Rightarrow> finsFrame \<Rightarrow> byte list \<Rightarrow> u32 \<Rightarrow> u16 \<Rightarrow> bool" where
  "ipv4_forward m ff p dest len = False"

definition ipv4_in_fdf :: "ipv4_module \<Rightarrow> finsFrame \<Rightarrow> ipv4_module res" where
  "ipv4_in_fdf m ff =
    (case pdu (dataFrame ff) of None \<Rightarrow> Inl MemFault | Some p \<Rightarrow>
     let len = sint (pduLength (dataFrame ff));
         m1 = upd_ip_stats (\<lambda>s. s\<lparr>receivedtotal := receivedtotal s + 1\<rparr>) m in
     andThen (ip4_parse p) (\<lambda>h.
     if h_version h \<noteq> IP4_VERSION
     then Inr (upd_ip_stats (\<lambda>s. s\<lparr>badver := badver s + 1, droppedtotal := droppedtotal s + 1\<rparr>) m1)
     else if unat (h_header_length h) < IP4_MIN_HLEN
     then free_ff ff (upd_ip_stats (\<lambda>s. s\<lparr>badhlen := badhlen s + 1, droppedtotal := droppedtotal s + 1\<rparr>) m1)
     else andThen (ipv4_checksum p (unat (h_header_length h))) (\<lambda>ck.
     if ck \<noteq> 0
     then free_ff ff (upd_ip_stats (\<lambda>s. s\<lparr>badsum := badsum s + 1, droppedtotal := droppedtotal s + 1\<rparr>) m1)
     else
     let plen = uint (h_packet_length h);
         m2 = (if plen \<noteq> len then upd_ip_stats (\<lambda>s. s\<lparr>badlen := badlen s + 1\<rparr>) m1 else m1) in
     if plen > len
     then free_ff ff (upd_ip_stats (\<lambda>s. s\<lparr>droppedtotal := droppedtotal s + 1\<rparr>) m2)
     else if h_ttl h = 0 then free_ff ff m2
     else if h_destination h \<noteq> IPV4_ADDR_ANY_IP \<and> h_destination h \<noteq> IPV4_ADDR_EVERY_IP
          \<and> find (\<lambda>a. addr_ipv4_test a (h_destination h)) (i4_addr_list (m_data m2)) = None
          \<and> find (\<lambda>a. addr_bdcv4_test a (h_destination h)) (i4_addr_list (m_data m2)) = None
     then if ipv4_forward m2 ff p (h_destination h) (ucast (pduLength (dataFrame ff)))
          then Inr (upd_ip_stats (\<lambda>s. s\<lparr>forwarded := forwarded s + 1\<rparr>) m2)
          else free_ff ff (upd_ip_stats (\<lambda>s. s\<lparr>droppedtotal := droppedtotal s + 1\<rparr>) m2)
     else if h_flags h AND (IP4_DF OR IP4_MF) = (IP4_DF OR IP4_MF)
     then free_ff ff (upd_ip_stats (\<lambda>s. s\<lparr>fragerror := fragerror s + 1, droppedtotal := droppedtotal s + 1\<rparr>) m2)
     else if (h_flags h AND IP4_MF) OR h_fragmentation_offset h = 0
     then ipv4_send_fdf_in (upd_ip_stats (\<lambda>s. s\<lparr>delivered := delivered s + 1\<rparr>) m2) ff h p
     else Inr m2)))"

section \<open>Outgoing packets\<close>

definition ipv4_route_dst_test :: "route_record \<Rightarrow> u32 \<Rightarrow> bool" where
  "ipv4_route_dst_test route dst \<longleftrightarrow>
     (addr4_get_ip (rt_dst route) AND addr4_get_ip (rt_mask route)) = (dst AND addr4_get_ip (rt_mask route))
     \<or> addr4_get_ip (rt_dst route) = IPV4_ADDR_ANY_IP"

text \<open>
  \<^verbatim>\<open>secure_malloc\<close> of 20 bytes more than the frame has and the two copies; \<open>n\<close> is the number of bytes copied behind the
  header, the rest of the buffer is zero.
\<close>

definition ip4_prepend :: "ip4_packet_header \<Rightarrow> finsFrame \<Rightarrow> nat \<Rightarrow> finsFrame res" where
  "ip4_prepend h ff n =
    (let total = pduLength (dataFrame ff) + of_nat IP4_MIN_HLEN in
     if unat total < IP4_MIN_HLEN + n then Inl MemFault
     else andThen (case pdu (dataFrame ff) of None \<Rightarrow> (if n = 0 then Inr [] else Inl MemFault) | Some p \<Rightarrow> slice p 0 n) (\<lambda>data.
       Inr (ff\<lparr>dataFrame := (dataFrame ff)\<lparr>pduLength := total,
              pdu := Some (ip4_bytes h @ data @ replicate (unat total - IP4_MIN_HLEN - n) 0)\<rparr>\<rparr>)))"

definition ipv4_send_fdf_out :: "ipv4_module \<Rightarrow> finsFrame \<Rightarrow> ip4_packet_header \<Rightarrow> u32 \<Rightarrow> u32 \<Rightarrow> ipv4_module res" where
  "ipv4_send_fdf_out m ff h address ifindex =
    andThen (ip4_prepend h ff (unat (pduLength (dataFrame ff)))) (\<lambda>ff1.
    case metaData ff of None \<Rightarrow> Inl MemFault | Some meta \<Rightarrow>
    andThen (meta_writes meta [(''send_ether_type'', IP4_ETH_TYPE), (''send_if_index'', ifindex), (''send_dst_ipv4'', address)]) (\<lambda>meta1.
      send_or_free m (ff1\<lparr>metaData := Some meta1\<rparr>) IPV4_FLOW_INTERFACE))"

text \<open>The packets to an address of the host: they go back up; \<open>current\<close> is the time of \<^verbatim>\<open>gettimeofday\<close>.\<close>

definition ipv4_loopback ::
  "ipv4_module \<Rightarrow> u64 \<Rightarrow> finsFrame \<Rightarrow> settings \<Rightarrow> ip4_packet_header \<Rightarrow> u32 \<Rightarrow> u32 \<Rightarrow> u32 \<Rightarrow> u32 \<Rightarrow> u32 \<Rightarrow> u32 \<Rightarrow> ipv4_module res" where
  "ipv4_loopback m current ff meta h protocol family src_ip dst_ip send_ttl send_tos =
    (let up = (\<lambda>ff1 flow.
       andThen (secure_metadata_writeToElement meta ''recv_stamp'' (DInt64 current)) (\<lambda>meta1.
       andThen (meta_writes meta1 ([(''recv_protocol'', protocol), (''recv_family'', family), (''recv_src_ipv4'', src_ip),
                 (''recv_dst_ipv4'', dst_ip)] @ (if send_ttl \<noteq> 0 then [(''recv_ttl'', send_ttl)] else [])
                 @ (if send_tos \<noteq> 0 then [(''recv_tos'', send_tos)] else []))) (\<lambda>meta2.
         send_or_free m (ff1\<lparr>metaData := Some meta2, dataFrame := (dataFrame ff1)\<lparr>directionFlag := DIR_UP\<rparr>\<rparr>) flow))) in
     if protocol = IP4_PT_ICMP
     then let len = (ucast (pduLength (dataFrame ff)) :: u16) in
          andThen (ip4_finish h len) (\<lambda>h1.
          andThen (ip4_prepend h1 ff (unat len)) (\<lambda>ff1. up ff1 IPV4_FLOW_ICMP))
     else if protocol = IP4_PT_TCP then up ff IPV4_FLOW_TCP
     else if protocol = IP4_PT_UDP then up ff IPV4_FLOW_UDP
     else free_ff ff m)"

definition ipv4_out_fdf :: "u64 \<Rightarrow> ipv4_module \<Rightarrow> finsFrame \<Rightarrow> ipv4_module res" where
  "ipv4_out_fdf current m ff =
    (case metaData ff of None \<Rightarrow> Inl MemFault | Some meta \<Rightarrow>
     andThen (secure_metadata_read_u32 meta ''send_protocol'') (\<lambda>protocol.
     andThen (secure_metadata_read_u32 meta ''send_family'') (\<lambda>family.
     andThen (secure_metadata_read_u32 meta ''send_src_ipv4'') (\<lambda>src_ip.
     andThen (secure_metadata_read_u32 meta ''send_dst_ipv4'') (\<lambda>dst_ip.
     let (h0, m1) = ipv4_const_header m src_ip dst_ip (ucast protocol) in
     andThen (read_opt_u32 meta ''send_ttl'') (\<lambda>ttl.
     let h = (case ttl of None \<Rightarrow> h0 | Some v \<Rightarrow> h0\<lparr>ip_ttl := ucast v\<rparr>);
         send_ttl = (case ttl of None \<Rightarrow> 0 | Some v \<Rightarrow> v) in
     andThen (read_opt_u32 meta ''send_tos'') (\<lambda>tos.
     let send_tos = (case tos of None \<Rightarrow> 0 | Some v \<Rightarrow> v) in
     case find (\<lambda>r. ipv4_route_dst_test r dst_ip) (i4_route_list (m_data m1)) of
       None \<Rightarrow> Inr m1
     | Some route \<Rightarrow>
       let address = (if addr4_get_ip (rt_gw route) = IPV4_ADDR_ANY_IP then dst_ip else addr4_get_ip (rt_gw route));
           loopback = (case i4_addr_loopback (m_data m1) of
               Some a \<Rightarrow> ad_if_index a = rt_if_index route
             | None \<Rightarrow> find (\<lambda>a. addr_ipv4_test a address) (i4_addr_list (m_data m1)) \<noteq> None) in
       if loopback then ipv4_loopback m1 current ff meta h protocol family src_ip dst_ip send_ttl send_tos
       else andThen (ip4_finish h (ucast (pduLength (dataFrame ff)))) (\<lambda>h1.
              ipv4_send_fdf_out m1 ff h1 address (rt_if_index route)))))))))"

section \<open>Control frames\<close>

definition ipv4_read_param :: "ipv4_module \<Rightarrow> finsFrame \<Rightarrow> ipv4_module res" where
  "ipv4_read_param m ff = module_reply_fcf m ff FCF_FALSE 0"

definition ipv4_set_param :: "ipv4_module \<Rightarrow> finsFrame \<Rightarrow> ipv4_module res" where
  "ipv4_set_param m ff =
    (let p = param_id (ctrlFrame ff) in
     if p = MOD_SET_PARAM_FLOWS then module_set_param_flows m ff
     else if p = MOD_SET_PARAM_LINKS then module_set_param_links m ff
     else if p = MOD_SET_PARAM_DUAL then module_set_param_dual m ff
     else module_reply_fcf m ff FCF_FALSE 0)"

definition ipv4_exec :: "ipv4_module \<Rightarrow> finsFrame \<Rightarrow> ipv4_module res" where
  "ipv4_exec m ff = module_reply_fcf m ff FCF_FALSE 0"

definition ipv4_exec_reply :: "ipv4_module \<Rightarrow> finsFrame \<Rightarrow> ipv4_module res" where
  "ipv4_exec_reply m ff = free_ff ff m"

definition ipv4_error :: "ipv4_module \<Rightarrow> finsFrame \<Rightarrow> ipv4_module res" where
  "ipv4_error m ff =
    (if param_id (ctrlFrame ff) = IPV4_ERROR_GET_ADDR
     then send_or_free m (ff\<lparr>ctrlFrame := (ctrlFrame ff)\<lparr>sender_id := ucast (m_index m), param_id := IPV4_ERROR_GET_ADDR\<rparr>\<rparr>) IPV4_FLOW_ICMP
     else free_ff ff m)"

definition ipv4_fcf :: "ipv4_module \<Rightarrow> finsFrame \<Rightarrow> ipv4_module res" where
  "ipv4_fcf m ff =
    (let op = opcode (ctrlFrame ff) in
     if op = CTRL_ALERT then module_reply_fcf m ff FCF_FALSE 0
     else if op = CTRL_ALERT_REPLY then free_ff ff m
     else if op = CTRL_READ_PARAM then ipv4_read_param m ff
     else if op = CTRL_READ_PARAM_REPLY then free_ff ff m
     else if op = CTRL_SET_PARAM then ipv4_set_param m ff
     else if op = CTRL_SET_PARAM_REPLY then free_ff ff m
     else if op = CTRL_EXEC then ipv4_exec m ff
     else if op = CTRL_EXEC_REPLY then ipv4_exec_reply m ff
     else if op = CTRL_ERROR then ipv4_error m ff
     else Inl ExitFailure)"

section \<open>Life cycle\<close>

definition ipv4_get_ff :: "u64 \<Rightarrow> ipv4_module \<Rightarrow> ipv4_module option res" where
  "ipv4_get_ff current m =
    andThen (wait_ff (m_event_sem m) m) (\<lambda>r.
      case r of None \<Rightarrow> Inr None
      | Some (x, m1) \<Rightarrow>
        if m_state m1 \<noteq> FMS_RUNNING
        then (case x of None \<Rightarrow> Inr (Some m1) | Some ff \<Rightarrow> andThen (free_ff ff m1) (\<lambda>m2. Inr (Some m2)))
        else (case x of None \<Rightarrow> Inl MemFault
          | Some ff \<Rightarrow>
            if metaData ff = None then Inl ExitFailure
            else if dataOrCtrl ff = FF_CONTROL then andThen (ipv4_fcf m1 ff) (\<lambda>m2. Inr (Some m2))
            else if dataOrCtrl ff = FF_DATA then
              (if directionFlag (dataFrame ff) = DIR_UP then andThen (ipv4_in_fdf m1 ff) (\<lambda>m2. Inr (Some m2))
               else if directionFlag (dataFrame ff) = DIR_DOWN then andThen (ipv4_out_fdf current m1 ff) (\<lambda>m2. Inr (Some m2))
               else Inl ExitFailure)
            else Inl ExitFailure))"

text \<open>
  The addresses of the interfaces are collected with \<^verbatim>\<open>list_join\<close>. When a list fits only partly its elements are linked
  in but the length is not updated (\<open>list_join_part_breaks\<close>); \<open>len\<close> is the length the list header holds.
\<close>

definition join_addrs :: "addr_record list \<times> u32 \<Rightarrow> addr_record list \<Rightarrow> addr_record list \<times> u32" where
  "join_addrs l temp =
    (case l of (chain, len) \<Rightarrow>
     let space = IPV4_ADDRESS_LIST_MAX - len; base = (if len = 0 then [] else chain) in
     if temp = [] then (chain, len)
     else if length temp \<le> unat space then (base @ temp, len + of_nat (length temp))
     else if 0 < space then (base @ take (unat space) temp, len)
     else (chain, len))"

definition ipv4_ifr_get_addr_func :: "if_record \<Rightarrow> addr_record list \<times> u32 \<Rightarrow> (addr_record list \<times> u32) res" where
  "ipv4_ifr_get_addr_func ifr ret_list =
    (if ifr_running_test ifr
     then case if_addr_list ifr of None \<Rightarrow> Inl MemFault | Some as \<Rightarrow> Inr (join_addrs ret_list (filter addr_is_v4 as))
     else Inr ret_list)"

fun ipv4_get_addrs :: "if_record list \<Rightarrow> addr_record list \<times> u32 \<Rightarrow> (addr_record list \<times> u32) res" where
  "ipv4_get_addrs [] l = Inr l"
| "ipv4_get_addrs (ifr # ifs) l = andThen (ipv4_ifr_get_addr_func ifr l) (ipv4_get_addrs ifs)"

definition first_v4 :: "if_record option \<Rightarrow> addr_record option res" where
  "first_v4 x =
    (case x of None \<Rightarrow> Inr None
     | Some ifr \<Rightarrow> (case if_addr_list ifr of None \<Rightarrow> Inl MemFault | Some as \<Rightarrow> Inr (find addr_is_v4 as)))"

definition ipv4_init ::
  "if_record list \<Rightarrow> if_record option \<Rightarrow> if_record option \<Rightarrow> route_record list \<Rightarrow> ipv4_module \<Rightarrow> ipv4_module res" where
  "ipv4_init if_list if_loopback if_main route_list m =
    andThen (ipv4_get_addrs if_list ([], 0)) (\<lambda>(addrs, len).
    andThen (first_v4 if_loopback) (\<lambda>lo.
    andThen (first_v4 if_main) (\<lambda>mn.
      Inr ((module_create_structs (m\<lparr>m_state := FMS_INIT\<rparr>))
        \<lparr>m_table := \<lparr>mt_link_list = None, mt_flows_num = 0, mt_flows = replicate 4 \<lparr>fl_link_id = 0, fl_link = None\<rparr>\<rparr>,
         m_data := \<lparr>i4_addr_list = addrs, i4_addr_loopback = lo, i4_addr_main = mn,
           i4_route_list = take IPV4_ROUTE_LIST_MAX (filter route_is_addr4 route_list), i4_unique_id = 0,
           i4_stats = \<lparr>badhlen = 0, badlen = 0, badsum = 0, badver = 0, delivered = 0, forwarded = 0, fragerror = 0,
                        receivedtotal = 0, droppedtotal = 0\<rparr>\<rparr>\<rparr>))))"

definition ipv4_create :: "u32 \<Rightarrow> u32 \<Rightarrow> string \<Rightarrow> ipv4_module \<Rightarrow> ipv4_module" where
  "ipv4_create index i name m =
    m\<lparr>m_flows_max := IPV4_MAX_FLOWS, m_state := FMS_FREE, m_index := index, m_id := i, m_name := name\<rparr>"

definition ipv4_run :: "u64 \<Rightarrow> ipv4_module \<Rightarrow> ipv4_module option res" where
  "ipv4_run current m = ipv4_get_ff current (m\<lparr>m_state := FMS_RUNNING\<rparr>)"

definition ipv4_pause :: "ipv4_module \<Rightarrow> ipv4_module" where
  "ipv4_pause m = m\<lparr>m_state := FMS_PAUSED\<rparr>"

definition ipv4_unpause :: "ipv4_module \<Rightarrow> ipv4_module" where
  "ipv4_unpause m = m\<lparr>m_state := FMS_RUNNING\<rparr>"

definition ipv4_shutdown :: "ipv4_module \<Rightarrow> ipv4_module" where
  "ipv4_shutdown m = m\<lparr>m_state := FMS_SHUTDOWN, m_event_sem := m_event_sem m + 1\<rparr>"

definition ipv4_release :: "ipv4_module \<Rightarrow> ipv4_module res" where
  "ipv4_release m = module_destroy_structs (m\<lparr>m_table := (m_table m)\<lparr>mt_link_list := None\<rparr>\<rparr>)"

section \<open>Well formed packets\<close>

text \<open>The words of a buffer in the byte order of the host.\<close>

fun le_total :: "byte list \<Rightarrow> nat" where
  "le_total (a # b # bs) = unat a + 256 * unat b + le_total bs"
| "le_total _ = 0"

text \<open>The header of an unfragmented packet of \<open>n\<close> bytes.\<close>

definition ip4_good :: "ip4_packet_header \<Rightarrow> nat \<Rightarrow> u8 \<Rightarrow> u8 \<Rightarrow> u32 \<Rightarrow> u32 \<Rightarrow> bool" where
  "ip4_good h n proto ttl src dst \<longleftrightarrow> ip_verlen h = 0x45 \<and> ip_len h = htons (of_nat n) \<and> ip_fragoff h = htons 0
     \<and> ip_ttl h = ttl \<and> ip_proto h = proto \<and> ip_src h = htonl src \<and> ip_dst h = htonl dst
     \<and> inet_cksum (le_total (ip4_bytes h)) = 0"

text \<open>An address of the host: one of its interfaces, a broadcast address of them, or one of the two wildcards.\<close>

definition ip4_local :: "ipv4_module \<Rightarrow> u32 \<Rightarrow> bool" where
  "ip4_local m dst \<longleftrightarrow> dst = IPV4_ADDR_ANY_IP \<or> dst = IPV4_ADDR_EVERY_IP
     \<or> (\<exists>a \<in> set (i4_addr_list (m_data m)). addr_ipv4_test a dst \<or> addr_bdcv4_test a dst)"

text \<open>The metadata of a packet to send and of a received one.\<close>

definition ip4_send_meta :: "settings \<Rightarrow> u32 \<Rightarrow> u32 \<Rightarrow> u32 \<Rightarrow> u32 option \<Rightarrow> bool" where
  "ip4_send_meta ms proto src dst ttl \<longleftrightarrow> meta_plain ms \<and> has_u32 ms ''send_protocol'' proto \<and> (\<exists>f. has_u32 ms ''send_family'' f)
     \<and> has_u32 ms ''send_src_ipv4'' src \<and> has_u32 ms ''send_dst_ipv4'' dst \<and> read_opt_u32 ms ''send_ttl'' = Inr ttl
     \<and> (\<exists>t. read_opt_u32 ms ''send_tos'' = Inr t) \<and> free_u32 ms ''send_ether_type'' \<and> free_u32 ms ''send_if_index''"

definition ip4_recv_free :: "settings \<Rightarrow> bool" where
  "ip4_recv_free ms \<longleftrightarrow> meta_plain ms
     \<and> (\<forall>t \<in> {''recv_protocol'', ''recv_family'', ''recv_src_ipv4'', ''recv_dst_ipv4'', ''recv_ttl''}. free_u32 ms t)"

text \<open>The metadata of a packet on its way to the interface.\<close>

definition wire_meta :: "settings \<Rightarrow> u32 \<Rightarrow> u32 \<Rightarrow> u32 \<Rightarrow> bool" where
  "wire_meta ms ifx src a \<longleftrightarrow> meta_plain ms \<and> has_u32 ms ''send_ether_type'' IP4_ETH_TYPE \<and> has_u32 ms ''send_if_index'' ifx
     \<and> has_u32 ms ''send_src_ipv4'' src \<and> has_u32 ms ''send_dst_ipv4'' a"

text \<open>The frame that enters a host: the bytes of a frame that left another host, with the metadata of the receiver.\<close>

definition arrives :: "finsFrame \<Rightarrow> finsFrame \<Rightarrow> finsFrame" where
  "arrives rf r = rf\<lparr>dataFrame := (dataFrame rf)\<lparr>pduLength := pduLength (dataFrame r), pdu := pdu (dataFrame r)\<rparr>\<rparr>"

text \<open>The metadata \<^verbatim>\<open>ipv4_send_fdf_in\<close> writes.\<close>

definition ip4_writes :: "ip4_header \<Rightarrow> (string \<times> u32) list" where
  "ip4_writes hh = [(''recv_protocol'', ucast (h_protocol hh)), (''recv_family'', of_nat AF_INET), (''recv_src_ipv4'', h_source hh),
      (''recv_dst_ipv4'', h_destination hh), (''recv_ttl'', ucast (h_ttl hh))]"

text \<open>
  The fate of an incoming packet with the header \<open>h\<close>: a packet of another version or a fragment is lost, one that
  fails a test or has nobody to go to is refused, the others are passed to a protocol. The payload of TCP and UDP is
  what follows the first 20 bytes, ICMP gets the whole packet.
\<close>

datatype ip4_fate = Lost | Refused | Passed u32

definition ip4_valid :: "ipv4_module \<Rightarrow> ip4_header \<Rightarrow> byte list \<Rightarrow> bool" where
  "ip4_valid m h p \<longleftrightarrow> 20 \<le> unat (h_header_length h) \<and> ipv4_checksum p (unat (h_header_length h)) = Inr 0
     \<and> unat (h_packet_length h) \<le> length p \<and> h_ttl h \<noteq> 0 \<and> ip4_local m (h_destination h)
     \<and> h_flags h AND (IP4_DF OR IP4_MF) \<noteq> (IP4_DF OR IP4_MF)"

definition ip4_fragment :: "ip4_header \<Rightarrow> bool" where
  "ip4_fragment h \<longleftrightarrow> (h_flags h AND IP4_MF) OR h_fragmentation_offset h \<noteq> 0"

definition ip4_up_flow :: "ip4_header \<Rightarrow> u32 option" where
  "ip4_up_flow h =
    (if unat (h_packet_length h) < unat (h_header_length h) then None
     else if h_protocol h = 1 then Some IPV4_FLOW_ICMP
     else if h_protocol h = 6 then Some IPV4_FLOW_TCP
     else if h_protocol h = 17 then Some IPV4_FLOW_UDP else None)"

definition ip4_fate :: "ipv4_module \<Rightarrow> ip4_header \<Rightarrow> byte list \<Rightarrow> ip4_fate" where
  "ip4_fate m h p =
    (if h_version h \<noteq> IP4_VERSION then Lost
     else if \<not> ip4_valid m h p then Refused
     else if ip4_fragment h then Lost
     else case ip4_up_flow h of None \<Rightarrow> Refused | Some flow \<Rightarrow> Passed flow)"

definition ip4_payload :: "ip4_header \<Rightarrow> byte list \<Rightarrow> finsDataFrame \<Rightarrow> finsDataFrame" where
  "ip4_payload h p d =
    (let n = unat (h_packet_length h) - unat (h_header_length h) in
     if h_protocol h = 1 then d else d\<lparr>pduLength := of_nat n, pdu := Some (take n (drop 20 p))\<rparr>)"

text \<open>The module with other counts.\<close>

definition counted :: "ipv4_statistics \<Rightarrow> ipv4_module \<Rightarrow> ipv4_module" where
  "counted st m = m\<lparr>m_data := (m_data m)\<lparr>i4_stats := st\<rparr>\<rparr>"

text \<open>A module with a route for every destination on interface 3, and a host with address 192.168.1.2, for the examples.\<close>

definition ex_addr4 :: "u32 \<Rightarrow> sockaddr4" where
  "ex_addr4 a = \<lparr>sin_family = 2, sin_port = 0, sin_addr = a\<rparr>"

definition ex_addr :: "u32 \<Rightarrow> u32 \<Rightarrow> addr_record" where
  "ex_addr i a = \<lparr>ad_if_index = i, ad_family = 2, ad_ip = ex_addr4 a, ad_mask = ex_addr4 0xFFFFFF00, ad_gw = ex_addr4 0,
     ad_bdc = ex_addr4 (a OR 0xFF), ad_dst = ex_addr4 a\<rparr>"

definition ex_route :: route_record where
  "ex_route = \<lparr>rt_if_index = 3, rt_family = 2, rt_dst = ex_addr4 0, rt_mask = ex_addr4 0, rt_gw = ex_addr4 0xC0A801FE,
     rt_metric = 0, rt_timeout = 0\<rparr>"

definition ex_ipv4 :: ipv4_module where
  "ex_ipv4 = \<lparr>m_flows_max = 4, m_state = FMS_RUNNING, m_index = 4, m_id = 4, m_name = ''ipv4'',
      m_input_queue = CreateQueue 10, m_output_queue = CreateQueue 10, m_event_sem = 0, m_switch_sem = 0, m_knobs = [],
      m_table = \<lparr>mt_link_list = Some [], mt_flows_num = 4, mt_flows = replicate 4 \<lparr>fl_link_id = 1,
         fl_link = Some \<lparr>lk_id = 1, lk_src_index = 4, lk_dsts_num = 1, lk_dsts_index = replicate 32 2\<rparr>\<rparr>\<rparr>,
      m_freed = [],
      m_data = \<lparr>i4_addr_list = [ex_addr 1 0x7F000001, ex_addr 3 0xC0A80102], i4_addr_loopback = Some (ex_addr 1 0x7F000001),
         i4_addr_main = None, i4_route_list = [\<lparr>rt_if_index = 3, rt_family = 2, rt_dst = ex_addr4 0, rt_mask = ex_addr4 0,
           rt_gw = ex_addr4 0xC0A801FE, rt_metric = 0, rt_timeout = 0\<rparr>], i4_unique_id = 0,
         i4_stats = \<lparr>badhlen = 0, badlen = 0, badsum = 0, badver = 0, delivered = 0, forwarded = 0, fragerror = 0,
                      receivedtotal = 0, droppedtotal = 0\<rparr>\<rparr>\<rparr>"

text \<open>A packet of 24 bytes to that host whose checksum ends in the given byte, and a frame from the interface.\<close>

definition ex_ip_packet :: "byte \<Rightarrow> byte list" where
  "ex_ip_packet c = [0x45, 0, 0, 24, 0, 0, 0, 0, 0x40, 17, 0xf7, c, 0xC0, 0xA8, 1, 1, 0xC0, 0xA8, 1, 2, 7, 7, 7, 7]"

definition ex_ip_frame :: "byte list \<Rightarrow> finsFrame" where
  "ex_ip_frame p = ex_frame\<lparr>metaData := Some [], dataFrame := \<lparr>directionFlag = DIR_UP, pduLength = of_nat (length p), pdu = Some p\<rparr>\<rparr>"

definition ex_ip_meta :: settings where
  "ex_ip_meta = [(''send_family'', CInt 2), (''send_src_ipv4'', CInt 0xC0A80101), (''send_dst_ipv4'', CInt 0xC0A80102),
     (''send_protocol'', CInt 17)]"

section \<open>The header checksum\<close>

lemma sum_host_words_total:
  assumes "i + 2 * n \<le> length bs"
  shows "sum_host_words bs i n acc = Inr (acc + of_nat (le_total (take (2 * n) (drop i bs))))"
  using assms
proof (induction n arbitrary: i acc)
  case (Suc n)
  have d: "drop i bs = bs ! i # bs ! (i + 1) # drop (i + 2) bs"
    using Suc.prems by (simp add: Cons_nth_drop_Suc)
  have w: "ucast (mk16 b a) = (of_nat (unat a + 256 * unat b) :: u32)" for a b :: u8
  proof -
    have "unat (mk16 b a) = 256 * unat b + unat a" using unat_hi_lo [of "mk16 b a"] by simp
    then show ?thesis by (metis add.commute of_nat_unat)
  qed
  have "sum_host_words bs i (Suc n) acc = sum_host_words bs (i + 2) n (acc + of_nat (unat (bs ! i) + 256 * unat (bs ! (i + 1))))"
    using load16_ok [of i bs] Suc.prems by (simp add: w del: of_nat_add)
  also have "\<dots> = Inr (acc + of_nat (unat (bs ! i) + 256 * unat (bs ! (i + 1))) + of_nat (le_total (take (2 * n) (drop (i + 2) bs))))"
    using Suc.IH [of "i + 2"] Suc.prems by simp
  finally show ?case unfolding d by (simp add: add.assoc)
qed simp

lemma le_total_bound: "le_total bs \<le> 65535 * (length bs div 2)"
proof (induction bs rule: le_total.induct)
  case (1 a b bs)
  have "unat a < 2 ^ LENGTH(8)" "unat b < 2 ^ LENGTH(8)" by (rule unsigned_less)+
  with 1 show ?case by simp
qed simp_all

lemma ones_unique: "x \<le> m \<Longrightarrow> 0 < m \<Longrightarrow> x mod m = n mod m \<Longrightarrow> (x = 0 \<longleftrightarrow> n = 0) \<Longrightarrow> x = ones m n"
proof -
  assume a: "x \<le> m" "0 < m" "x mod m = n mod m" "x = 0 \<longleftrightarrow> n = 0"
  show "x = ones m n"
  proof (cases "x = 0")
    case False
    then have "ones m x = x" using a(1) by (cases x) (auto simp: ones_def)
    then show ?thesis using ones_cong [of x n m] a(3,4) False by simp
  qed (use a(4) in \<open>simp add: ones_def\<close>)
qed

text \<open>Adding the upper half twice folds all carries of a sum below \<open>2 ^ 31\<close>.\<close>

lemma two_folds:
  assumes "unat (s :: u32) < 2147483648"
  shows "unat ((drop_bit 16 s + (s AND 0xFFFF)) + drop_bit 16 (drop_bit 16 s + (s AND 0xFFFF))) mod 65536 = ones 65535 (unat s)"
proof -
  let ?t = "drop_bit 16 s + (s AND 0xFFFF)"
  have t: "unat ?t = unat s mod 65536 + unat s div 65536" using fold_step [of s] by (simp add: add.commute)
  have lt: "unat ?t < 98303"
  proof -
    have "unat s div 65536 < 32768" using assms by (simp add: less_mult_imp_div_less)
    moreover have "unat s mod 65536 < 65536" by simp
    ultimately show ?thesis unfolding t by linarith
  qed
  have eq: "unat s = 65535 * (unat s div 65536) + unat ?t"
    unfolding t using div_mult_mod_eq [of "unat s" 65536] by linarith
  then have md: "unat ?t mod 65535 = unat s mod 65535" by (metis mod_mult_self4)
  have z: "unat ?t = 0 \<longleftrightarrow> unat s = 0" using eq unfolding t by auto
  have u: "unat (?t + drop_bit 16 ?t) = unat ?t + unat ?t div 65536"
  proof -
    have "unat ?t + unat ?t div 65536 < 2 ^ LENGTH(32)" using lt by simp
    then show ?thesis using unat_high_half [of ?t] by (metis unat_add_lem)
  qed
  show ?thesis
  proof (cases "unat ?t < 65536")
    case True
    then have "unat (?t + drop_bit 16 ?t) mod 65536 = unat ?t" unfolding u by simp
    moreover have "unat ?t = ones 65535 (unat s)" using ones_unique [OF _ _ md z] True by simp
    ultimately show ?thesis by simp
  next
    case False
    then have "unat ?t div 65536 = 1" using lt by (simp add: div_nat_eqI)
    then have x: "unat (?t + drop_bit 16 ?t) mod 65536 = unat ?t - 65535" unfolding u using False lt by (simp add: mod_if)
    have "(unat ?t - 65535) mod 65535 = unat s mod 65535" using md False by (simp add: mod_if le_mod_geq)
    then have "unat ?t - 65535 = ones 65535 (unat s)" using ones_unique [of "unat ?t - 65535" 65535 "unat s"] False lt z by simp
    with x show ?thesis by simp
  qed
qed

lemma complement16_mod: "(ucast (NOT (s :: u32)) :: u16) = of_nat (65535 - unat s mod 65536)"
proof -
  have "(ucast (NOT s) :: u16) = ucast (NOT (take_bit 16 s))" by (rule bit_word_eqI) (simp add: bit_simps)
  moreover have "unat (take_bit 16 s) = unat s mod 65536" by (simp only: unsigned_take_bit_eq) (simp add: take_bit_eq_mod)
  ultimately show ?thesis using complement16 [of "take_bit 16 s"] by simp
qed

lemma ipv4_checksum_spec:
  assumes "even len" "len \<le> length bs" "len < 65536"
  shows "ipv4_checksum bs len = Inr (inet_cksum (le_total (take len bs)))"
proof -
  let ?n = "le_total (take len bs)"
  have s: "sum_host_words bs 0 (len div 2) 0 = Inr (of_nat ?n)"
    using sum_host_words_total [of 0 "len div 2" bs 0] assms(1,2) by simp
  have "?n \<le> 65535 * (len div 2)" using le_total_bound [of "take len bs"] assms(2) by (simp add: min_absorb2)
  then have b: "?n < 2147483648" using assms(3) by linarith
  then have u: "unat (of_nat ?n :: u32) = ?n" unfolding unat_of_nat by simp
  show ?thesis unfolding ipv4_checksum_def s andThen_Inr Let_def complement16_mod
    using two_folds [of "of_nat ?n"] b unfolding u by (simp add: inet_cksum_def)
qed

lemma ip4_bytes_length [simp]: "length (ip4_bytes h) = 20"
  by (simp add: ip4_bytes_def mem16_def mem32_def)

interpretation ip4_ck: checksum_field "\<lambda>h. le_total (ip4_bytes h)" "\<lambda>h c. h\<lparr>ip_cksum := c\<rparr>" "\<lambda>h. ip_verlen h \<noteq> 0"
proof unfold_locales
  fix h :: ip4_packet_header and c
  have "unat (lo8 c) + 256 * unat (hi8 c) = unat c" "unat (lo8 0) = 0" "unat (hi8 0) = 0"
    using unat_hi_lo [of c] unat_hi_lo [of 0] by (auto simp: add.commute)
  then show "le_total (ip4_bytes (h\<lparr>ip_cksum := c\<rparr>)) = le_total (ip4_bytes (h\<lparr>ip_cksum := 0\<rparr>)) + unat c"
    by (simp add: ip4_bytes_def mem16_def mem32_def)
  assume "ip_verlen h \<noteq> 0"
  then have "0 < unat (ip_verlen h)" by (simp add: unat_gt_0)
  then show "0 < le_total (ip4_bytes (h\<lparr>ip_cksum := 0\<rparr>))" by (simp add: ip4_bytes_def)
qed

section \<open>The data paths\<close>

lemma ip4_parse_bytes:
  "ip4_parse (ip4_bytes h @ data) = Inr \<lparr>h_source = ntohl (ip_src h), h_destination = ntohl (ip_dst h),
     h_version = drop_bit 4 (ip_verlen h), h_header_length = push_bit 2 (ip_verlen h AND 0xf), h_differentiated_service = ip_dif h,
     h_packet_length = ntohs (ip_len h), h_id = ntohs (ip_id h), h_flags = drop_bit 13 (ntohs (ip_fragoff h)) AND 7,
     h_fragmentation_offset = ntohs (ip_fragoff h) AND IP4_FRAGOFF, h_ttl = ip_ttl h, h_protocol = ip_proto h,
     h_checksum = ntohs (ip_cksum h)\<rparr>"
  by (simp add: ip4_parse_def ip4_bytes_def loads)

lemma ip4_checksum_header:
  "ipv4_checksum (ip4_bytes h @ data) 20 = Inr (inet_cksum (le_total (ip4_bytes h)))"
  using ipv4_checksum_spec [of 20 "ip4_bytes h @ data"] by simp

lemma verlen_45: "drop_bit 4 (0x45 :: u8) = IP4_VERSION" "unat (push_bit 2 ((0x45 :: u8) AND 0xf)) = 20"
  by (simp_all add: IP4_VERSION_def)

lemma fragoff_zero: "drop_bit 13 (ntohs (htons 0)) AND 7 = (0 :: u16)" "ntohs (htons 0) AND IP4_FRAGOFF = 0"
  by simp_all

lemma upd_ip_stats_fields [simp]:
  "m_output_queue (upd_ip_stats f m) = m_output_queue m" "m_table (upd_ip_stats f m) = m_table m"
  "m_freed (upd_ip_stats f m) = m_freed m" "i4_addr_list (m_data (upd_ip_stats f m)) = i4_addr_list (m_data m)"
  "i4_stats (m_data (upd_ip_stats f m)) = f (i4_stats (m_data m))"
  "room (upd_ip_stats f m) xs = room m xs" "flow_to (upd_ip_stats f m) flow d = flow_to m flow d"
  by (simp_all add: upd_ip_stats_def room_def flow_to_def)

lemma ip4_finish_good:
  assumes "ip_verlen h = 0x45"
  shows "\<exists>h1. ip4_finish h len = Inr h1 \<and> ip_verlen h1 = 0x45 \<and> ip_len h1 = htons (len + 20) \<and> ip_fragoff h1 = htons 0
    \<and> ip_ttl h1 = ip_ttl h \<and> ip_proto h1 = ip_proto h \<and> ip_src h1 = ip_src h \<and> ip_dst h1 = ip_dst h
    \<and> inet_cksum (le_total (ip4_bytes h1)) = 0"
proof -
  let ?h = "h\<lparr>ip_fragoff := htons 0, ip_id := htons 0, ip_len := htons (len + of_nat IP4_MIN_HLEN), ip_cksum := 0\<rparr>"
  let ?c = "inet_cksum (le_total (ip4_bytes ?h))"
  have "ipv4_checksum (ip4_bytes ?h) IP4_MIN_HLEN = Inr ?c"
    using ip4_checksum_header [of ?h "[]"] by (simp add: IP4_MIN_HLEN_def)
  then have "ip4_finish h len = Inr (?h\<lparr>ip_cksum := ?c\<rparr>)" by (simp add: ip4_finish_def Let_def)
  moreover have "inet_cksum (le_total (ip4_bytes (?h\<lparr>ip_cksum := ?c\<rparr>))) = 0"
    using ip4_ck.verifies [of ?h] assms by simp
  ultimately show ?thesis using assms by (intro exI [of _ "?h\<lparr>ip_cksum := ?c\<rparr>"]) (simp add: IP4_MIN_HLEN_def)
qed

lemma ip4_prepend_ok:
  assumes "pdu (dataFrame ff) = Some data" "length data = unat (pduLength (dataFrame ff))" "length data + 20 < 65536"
  shows "ip4_prepend h ff (unat (pduLength (dataFrame ff))) = Inr (ff\<lparr>dataFrame := (dataFrame ff)\<lparr>
    pduLength := of_nat (length data + 20), pdu := Some (ip4_bytes h @ data)\<rparr>\<rparr>)"
proof -
  have t: "pduLength (dataFrame ff) + of_nat IP4_MIN_HLEN = of_nat (length data + 20)"
    using assms(2) by (simp add: IP4_MIN_HLEN_def)
  have u: "unat (of_nat (length data + 20) :: u32) = length data + 20" using assms(3) unfolding unat_of_nat by simp
  show ?thesis unfolding ip4_prepend_def t Let_def u
    using assms(1,2) by (simp add: IP4_MIN_HLEN_def slice_def)
qed

lemma ipv4_out_sends:
  assumes ff: "metaData ff = Some ms" "ip4_send_meta ms proto src dst ttl"
    and p: "pdu (dataFrame ff) = Some data" "length data = unat (pduLength (dataFrame ff))" "length data + 20 < 65536"
    and route: "find (\<lambda>r. ipv4_route_dst_test r dst) (i4_route_list (m_data m)) = Some route"
      "i4_addr_loopback (m_data m) = Some lo" "ad_if_index lo \<noteq> rt_if_index route"
    and q: "room m xs" "flow_to m IPV4_FLOW_INTERFACE d"
  shows "\<exists>m' r h. ipv4_out_fdf now m ff = Inr m' \<and> queue_rep (m_output_queue m') (xs @ [r]) \<and> m_freed m' = m_freed m
    \<and> destinationID r = d \<and> pdu (dataFrame r) = Some (ip4_bytes h @ data) \<and> pduLength (dataFrame r) = of_nat (length data + 20)
    \<and> ip4_good h (length data + 20) (ucast proto) (case ttl of None \<Rightarrow> IP4_INIT_TTL | Some v \<Rightarrow> ucast v) src dst
    \<and> has_u32 (the (metaData r)) ''send_dst_ipv4'' (if sin_addr (rt_gw route) = 0 then dst else sin_addr (rt_gw route))
    \<and> has_u32 (the (metaData r)) ''send_if_index'' (rt_if_index route)
    \<and> (\<exists>ms'. metaData r = Some ms' \<and> wire_meta ms' (rt_if_index route) src (if sin_addr (rt_gw route) = 0 then dst else sin_addr (rt_gw route)))
    \<and> dataOrCtrl r = dataOrCtrl ff \<and> directionFlag (dataFrame r) = directionFlag (dataFrame ff)"
proof -
  let ?a = "if sin_addr (rt_gw route) = 0 then dst else sin_addr (rt_gw route)"
  obtain f tos where rd: "secure_metadata_read_u32 ms ''send_protocol'' = Inr proto" "secure_metadata_read_u32 ms ''send_family'' = Inr f"
      "secure_metadata_read_u32 ms ''send_src_ipv4'' = Inr src" "secure_metadata_read_u32 ms ''send_dst_ipv4'' = Inr dst"
      "read_opt_u32 ms ''send_ttl'' = Inr ttl" "read_opt_u32 ms ''send_tos'' = Inr tos"
    using ff(2) has_read by (auto simp: ip4_send_meta_def)
  have fr: "meta_plain ms" "free_u32 ms ''send_ether_type''" "free_u32 ms ''send_if_index''" "free_u32 ms ''send_dst_ipv4''"
    using ff(2) by (auto simp: ip4_send_meta_def has_u32_def free_u32_def)
  obtain h0 m1 where c: "ipv4_const_header m src dst (ucast proto) = (h0, m1)" by (cases "ipv4_const_header m src dst (ucast proto)")
  then have h0: "ip_verlen h0 = 0x45" "ip_ttl h0 = IP4_INIT_TTL" "ip_proto h0 = ucast proto" "ip_src h0 = htonl src" "ip_dst h0 = htonl dst"
    and m1: "m1 = m\<lparr>m_data := (m_data m)\<lparr>i4_unique_id := i4_unique_id (m_data m) + 1\<rparr>\<rparr>"
    by (auto simp: ipv4_const_header_def IP4_VERSION_def IP4_MIN_HLEN_def)
  define h where "h = (case ttl of None \<Rightarrow> h0 | Some v \<Rightarrow> h0\<lparr>ip_ttl := ucast v\<rparr>)"
  have hv: "ip_verlen h = 0x45" using h0(1) by (simp add: h_def split: option.splits)
  obtain h1 where h1: "ip4_finish h (ucast (pduLength (dataFrame ff))) = Inr h1" "ip_verlen h1 = 0x45"
      "ip_len h1 = htons (ucast (pduLength (dataFrame ff)) + 20)" "ip_fragoff h1 = htons 0"
      "ip_ttl h1 = ip_ttl h" "ip_proto h1 = ip_proto h" "ip_src h1 = ip_src h" "ip_dst h1 = ip_dst h"
      "inet_cksum (le_total (ip4_bytes h1)) = 0"
    using ip4_finish_good [OF hv] by blast
  have n: "ucast (pduLength (dataFrame ff)) + 20 = (of_nat (length data + 20) :: u16)"
    using p(2) by (metis of_nat_add of_nat_numeral of_nat_unat)
  have good: "ip4_good h1 (length data + 20) (ucast proto) (case ttl of None \<Rightarrow> IP4_INIT_TTL | Some v \<Rightarrow> ucast v) src dst"
    using h1 h0 n by (simp add: ip4_good_def h_def split: option.splits)
  let ?ws = "[(''send_ether_type'', IP4_ETH_TYPE), (''send_if_index'', rt_if_index route), (''send_dst_ipv4'', ?a)]"
  obtain ms1 where ms1: "meta_writes ms ?ws = Inr ms1" "meta_plain ms1"
      "map_of ms1 = map_of ms ++ map_of (rev (map (\<lambda>(t, v). (t, CInt v)) ?ws))"
    using writes_ok [OF fr(1), of ?ws] fr(2-4) by auto
  have "has_u32 ms ''send_src_ipv4'' src" using ff(2) by (simp add: ip4_send_meta_def)
  then have has: "has_u32 ms1 ''send_dst_ipv4'' ?a" "has_u32 ms1 ''send_if_index'' (rt_if_index route)"
      "has_u32 ms1 ''send_ether_type'' IP4_ETH_TYPE" "has_u32 ms1 ''send_src_ipv4'' src"
    using ms1(3) fr(2-4) by (simp_all add: has_u32_def free_u32_def map_add_def)
  let ?ff = "ff\<lparr>dataFrame := (dataFrame ff)\<lparr>pduLength := of_nat (length data + 20), pdu := Some (ip4_bytes h1 @ data)\<rparr>, metaData := Some ms1\<rparr>"
  have "room m1 xs" "flow_to m1 IPV4_FLOW_INTERFACE d" using q m1 by simp_all
  then obtain m2 where m2: "send_or_free m1 ?ff IPV4_FLOW_INTERFACE = Inr m2" "sent xs m1 [?ff\<lparr>destinationID := d\<rparr>] m2"
    by (rule send_single)
  have "ipv4_send_fdf_out m1 ff h1 ?a (rt_if_index route) = Inr m2"
    using ip4_prepend_ok [OF p, of h1] ff(1) ms1(1) m2(1) by (simp add: ipv4_send_fdf_out_def)
  then have "ipv4_out_fdf now m ff = Inr m2"
    using ff(1) rd c route m1 h1(1) h_def
    by (cases "sin_addr (rt_gw route) = 0")
      (simp_all add: ipv4_out_fdf_def addr4_get_ip_def IPV4_ADDR_ANY_IP_def Let_def split: option.splits)
  moreover have "queue_rep (m_output_queue m2) (xs @ [?ff\<lparr>destinationID := d\<rparr>])" "m_freed m2 = m_freed m"
    using m2(2) sent_fields(2) [OF m2(2)] m1 by (simp_all add: sent_def)
  ultimately show ?thesis using good has ms1(2)
    by (intro exI [of _ m2] exI [of _ "?ff\<lparr>destinationID := d\<rparr>"] exI [of _ h1]) (simp add: wire_meta_def)
qed

lemma sint_small: "n < 65536 \<Longrightarrow> sint (of_nat n :: u32) = int n"
  by (simp add: signed_of_nat signed_take_bit_int_eq_self)

lemma uint_small: "n < 65536 \<Longrightarrow> uint (of_nat n :: u16) = int n"
  by (simp add: unsigned_of_nat take_bit_nat_eq_self)

lemma local_find:
  "ip4_local m dst \<longleftrightarrow> \<not> (dst \<noteq> IPV4_ADDR_ANY_IP \<and> dst \<noteq> IPV4_ADDR_EVERY_IP
     \<and> find (\<lambda>a. addr_ipv4_test a dst) (i4_addr_list (m_data m)) = None
     \<and> find (\<lambda>a. addr_bdcv4_test a dst) (i4_addr_list (m_data m)) = None)"
  by (auto simp: ip4_local_def find_None_iff)

text \<open>A packet that passes all tests, whatever its header length, goes to \<^verbatim>\<open>ipv4_send_fdf_in\<close>.\<close>

lemma ipv4_in_tests:
  assumes p: "pdu (dataFrame ff) = Some p" "pduLength (dataFrame ff) = of_nat (length p)" "length p < 65536"
    and hh: "ip4_parse p = Inr hh" "h_version hh = IP4_VERSION" "20 \<le> unat (h_header_length hh)"
      "h_packet_length hh = of_nat (length p)" "h_flags hh AND IP4_MF = 0" "h_fragmentation_offset hh = 0" "h_ttl hh \<noteq> 0"
      "ip4_local m (h_destination hh)" "ipv4_checksum p (unat (h_header_length hh)) = Inr 0"
    and q: "room m xs" "flow_to m flow d"
  obtains m1 where "ipv4_in_fdf m ff = ipv4_send_fdf_in m1 ff hh p" "room m1 xs" "flow_to m1 flow d" "m_freed m1 = m_freed m"
proof -
  let ?m = "upd_ip_stats (\<lambda>s. s\<lparr>delivered := delivered s + 1\<rparr>) (upd_ip_stats (\<lambda>s. s\<lparr>receivedtotal := receivedtotal s + 1\<rparr>) m)"
  have loc: "ip4_local (upd_ip_stats (\<lambda>s. s\<lparr>receivedtotal := receivedtotal s + 1\<rparr>) m) (h_destination hh)"
    using hh(8) by (simp add: ip4_local_def)
  have fl3: "h_flags hh AND (IP4_DF OR IP4_MF) \<noteq> (IP4_DF OR IP4_MF)"
  proof
    assume "h_flags hh AND (IP4_DF OR IP4_MF) = (IP4_DF OR IP4_MF)"
    then have "bit (h_flags hh AND (IP4_DF OR IP4_MF)) 0 = bit (IP4_DF OR IP4_MF) 0" by simp
    moreover have "\<not> bit (h_flags hh AND IP4_MF) 0" using hh(5) by simp
    ultimately show False by (simp add: bit_simps IP4_DF_def IP4_MF_def)
  qed
  have "ipv4_in_fdf m ff = ipv4_send_fdf_in ?m ff hh p"
    using p(1) hh loc [unfolded local_find] sint_small [OF p(3)] uint_small [OF p(3)] p(2) fl3
    by (auto simp: ipv4_in_fdf_def Let_def IP4_MIN_HLEN_def)
  then show thesis using that [of ?m] q by simp
qed

lemma ip4_writes_ok:
  assumes "ip4_recv_free ms"
  obtains ms1 where "meta_writes ms (ip4_writes hh) = Inr ms1" "meta_plain ms1"
    "map_of ms1 = (map_of ms)(''recv_protocol'' \<mapsto> CInt (ucast (h_protocol hh)), ''recv_family'' \<mapsto> CInt 2,
        ''recv_src_ipv4'' \<mapsto> CInt (h_source hh), ''recv_dst_ipv4'' \<mapsto> CInt (h_destination hh), ''recv_ttl'' \<mapsto> CInt (ucast (h_ttl hh)))"
proof -
  obtain ms1 where ms1: "meta_writes ms (ip4_writes hh) = Inr ms1" "meta_plain ms1"
      "map_of ms1 = map_of ms ++ map_of (rev (map (\<lambda>(t, v). (t, CInt v)) (ip4_writes hh)))"
    using writes_ok [of ms "ip4_writes hh"] assms by (auto simp: ip4_recv_free_def ip4_writes_def)
  then show thesis using that [of ms1] by (simp add: ip4_writes_def AF_INET_def map_add_def fun_eq_iff)
qed

lemma ipv4_in_accepts:
  assumes ff: "metaData ff = Some ms" "ip4_recv_free ms"
    and p: "pdu (dataFrame ff) = Some p" "pduLength (dataFrame ff) = of_nat (length p)" "length p < 65536"
    and hh: "ip4_parse p = Inr hh" "h_version hh = IP4_VERSION" "20 \<le> unat (h_header_length hh)" "unat (h_header_length hh) \<le> length p"
      "h_packet_length hh = of_nat (length p)" "h_flags hh AND IP4_MF = 0" "h_fragmentation_offset hh = 0" "h_ttl hh \<noteq> 0"
      "ip4_local m (h_destination hh)" "ipv4_checksum p (unat (h_header_length hh)) = Inr 0"
    and fl: "h_protocol hh = 17 \<and> flow = IPV4_FLOW_UDP \<or> h_protocol hh = 6 \<and> flow = IPV4_FLOW_TCP"
    and q: "room m xs" "flow_to m flow d"
  shows "\<exists>m' r ms'. ipv4_in_fdf m ff = Inr m' \<and> queue_rep (m_output_queue m') (xs @ [r]) \<and> m_freed m' = m_freed m
    \<and> destinationID r = d \<and> pdu (dataFrame r) = Some (take (length p - unat (h_header_length hh)) (drop 20 p))
    \<and> pduLength (dataFrame r) = of_nat (length p - unat (h_header_length hh))
    \<and> metaData r = Some ms' \<and> meta_plain ms'
    \<and> map_of ms' = (map_of ms)(''recv_protocol'' \<mapsto> CInt (ucast (h_protocol hh)), ''recv_family'' \<mapsto> CInt 2,
        ''recv_src_ipv4'' \<mapsto> CInt (h_source hh), ''recv_dst_ipv4'' \<mapsto> CInt (h_destination hh), ''recv_ttl'' \<mapsto> CInt (ucast (h_ttl hh)))"
proof -
  let ?n = "length p - unat (h_header_length hh)"
  have un: "unat (h_packet_length hh) = length p" using p(3) unfolding hh(5) unat_of_nat by simp
  obtain ms1 where ms1: "meta_writes ms (ip4_writes hh) = Inr ms1" "meta_plain ms1"
    "map_of ms1 = (map_of ms)(''recv_protocol'' \<mapsto> CInt (ucast (h_protocol hh)), ''recv_family'' \<mapsto> CInt 2,
        ''recv_src_ipv4'' \<mapsto> CInt (h_source hh), ''recv_dst_ipv4'' \<mapsto> CInt (h_destination hh), ''recv_ttl'' \<mapsto> CInt (ucast (h_ttl hh)))"
    by (rule ip4_writes_ok [OF ff(2)])
  obtain m1 where m1: "ipv4_in_fdf m ff = ipv4_send_fdf_in m1 ff hh p" "room m1 xs" "flow_to m1 flow d" "m_freed m1 = m_freed m"
    by (rule ipv4_in_tests [OF p hh(1-3,5-10) q])
  let ?ff = "ff\<lparr>dataFrame := (dataFrame ff)\<lparr>pduLength := of_nat ?n, pdu := Some (take ?n (drop 20 p))\<rparr>, metaData := Some ms1\<rparr>"
  from m1(2,3) obtain m' where m': "send_or_free m1 ?ff flow = Inr m'" "sent xs m1 [?ff\<lparr>destinationID := d\<rparr>] m'"
    by (rule send_single)
  have sl: "slice p IP4_MIN_HLEN ?n = Inr (take ?n (drop 20 p))" using hh(3,4) by (simp add: slice_def IP4_MIN_HLEN_def)
  have "ipv4_in_fdf m ff = Inr m'"
    using fl ff(1) hh(4) un ms1(1) m'(1) sl unfolding m1(1)
    by (auto simp: ipv4_send_fdf_in_def ip4_writes_def Let_def IP4_PT_ICMP_def IP4_PT_TCP_def IP4_PT_UDP_def)
  moreover have "queue_rep (m_output_queue m') (xs @ [?ff\<lparr>destinationID := d\<rparr>])" "m_freed m' = m_freed m"
    using m'(2) sent_fields(2) [OF m'(2)] m1(4) by (simp_all add: sent_def)
  ultimately show ?thesis using ms1(2,3)
    by (intro exI [of _ m'] exI [of _ "?ff\<lparr>destinationID := d\<rparr>"] exI [of _ ms1]) simp
qed

text \<open>The tests of an incoming packet, and where a packet that passes them goes.\<close>

lemma counted_simps [simp]:
  "upd_ip_stats f m = counted (f (i4_stats (m_data m))) m" "counted st (counted st2 m) = counted st m" "m_freed (counted st m) = m_freed m"
  "m_table (counted st m) = m_table m" "m_output_queue (counted st m) = m_output_queue m" "i4_addr_list (m_data (counted st m)) = i4_addr_list (m_data m)"
  "flow_ready (counted st m) xs flow = flow_ready m xs flow"
  by (simp_all add: upd_ip_stats_def counted_def flow_ready_def)

lemma sint_31: "n < 2147483648 \<Longrightarrow> sint (of_nat n :: u32) = int n"
  by (simp add: signed_of_nat signed_take_bit_int_eq_self)

lemma protocol_eq: "(ucast (b :: u8) :: u32) = 1 \<longleftrightarrow> b = 1" "(ucast (b :: u8) :: u32) = 6 \<longleftrightarrow> b = 6" "(ucast (b :: u8) :: u32) = 17 \<longleftrightarrow> b = 17"
  by (transfer; simp add: take_bit_eq_mod)+

lemma ipv4_in_verdict:
  assumes "dataOrCtrl ff = FF_DATA" "pdu (dataFrame ff) = Some p" "pduLength (dataFrame ff) = of_nat (length p)" "length p < 2147483648"
    "ip4_parse p = Inr h" "unat (h_header_length h) \<le> length p"
  shows "\<exists>st. ipv4_in_fdf m ff =
    (if h_version h \<noteq> IP4_VERSION \<or> ip4_valid m h p \<and> ip4_fragment h then Inr (counted st m)
     else if \<not> ip4_valid m h p then Inr ((counted st m)\<lparr>m_freed := m_freed m @ [ff]\<rparr>)
     else ipv4_send_fdf_in (counted st m) ff h p)"
proof -
  have fr: "free_ff ff x = Inr (x\<lparr>m_freed := m_freed x @ [ff]\<rparr>)" for x :: ipv4_module using assms(1) by (simp add: free_ff_ctrl)
  obtain ck where ck: "ipv4_checksum p (unat (h_header_length h)) = Inr ck"
    using sum_host_words_total [of 0 "unat (h_header_length h) div 2" p 0] assms(6) by (auto simp: ipv4_checksum_def Let_def)
  have pl: "uint (h_packet_length h) > sint (pduLength (dataFrame ff)) \<longleftrightarrow> \<not> unat (h_packet_length h) \<le> length p"
    unfolding assms(3) sint_31 [OF assms(4)] uint_nat by linarith
  let ?A = "\<lambda>x. find (\<lambda>a. x a (h_destination h)) (i4_addr_list (m_data m))"
  have far: "h_destination h \<noteq> IPV4_ADDR_ANY_IP" "h_destination h \<noteq> IPV4_ADDR_EVERY_IP" "?A addr_ipv4_test = None" "?A addr_bdcv4_test = None"
    if "\<not> ip4_local m (h_destination h)" using that by (simp_all add: local_find)
  have near: "h_destination h = IPV4_ADDR_ANY_IP \<or> h_destination h = IPV4_ADDR_EVERY_IP \<or> (\<exists>a. ?A addr_ipv4_test = Some a) \<or> (\<exists>a. ?A addr_bdcv4_test = Some a)"
    if "ip4_local m (h_destination h)" using that by (simp add: local_find)
  note run = ipv4_in_fdf_def [of m ff] assms(2,5) Let_def ck fr pl ipv4_forward_def IP4_MIN_HLEN_def
  consider "h_version h \<noteq> IP4_VERSION" | "h_version h = IP4_VERSION" "\<not> ip4_valid m h p" | "h_version h = IP4_VERSION" "ip4_valid m h p"
    by blast
  then show ?thesis
  proof cases
    case 1
    then show ?thesis by (simp add: run) blast
  next
    case 2
    let ?g = "20 \<le> unat (h_header_length h)" and ?c = "ck = 0" and ?l = "unat (h_packet_length h) \<le> length p"
      and ?t = "h_ttl h \<noteq> 0" and ?d = "ip4_local m (h_destination h)"
    have "\<exists>st. ipv4_in_fdf m ff = Inr ((counted st m)\<lparr>m_freed := m_freed m @ [ff]\<rparr>)"
    proof -
      consider "\<not> ?g" | "?g" "\<not> ?c" | "?g" "?c" "\<not> ?l" | "?g" "?c" "?l" "\<not> ?t" | "?g" "?c" "?l" "?t" "\<not> ?d"
        | "?g" "?c" "?l" "?t" "?d" "h_flags h AND (IP4_DF OR IP4_MF) = (IP4_DF OR IP4_MF)"
        using 2(2) ck by (auto simp: ip4_valid_def)
      then show ?thesis
      proof cases
        case 5
        then show ?thesis using 2(1) far by (simp add: run) blast
      next
        case 6
        then show ?thesis using 2(1) near [OF 6(5)] by (elim disjE exE) (simp_all add: run, blast+)
      qed (use 2(1) in \<open>simp add: run, blast\<close>)+
    qed
    then show ?thesis using 2 by simp
  next
    case 3
    then have v: "20 \<le> unat (h_header_length h)" "ck = 0" "unat (h_packet_length h) \<le> length p" "h_ttl h \<noteq> 0" "ip4_local m (h_destination h)"
        "h_flags h AND (IP4_DF OR IP4_MF) \<noteq> (IP4_DF OR IP4_MF)"
      using ck by (simp_all add: ip4_valid_def)
    have "\<exists>st. ipv4_in_fdf m ff = (if ip4_fragment h then Inr (counted st m) else ipv4_send_fdf_in (counted st m) ff h p)"
      using near [OF v(5)] 3(1) v(1-4,6) by (elim disjE exE) (simp_all add: run ip4_fragment_def, blast+)
    then show ?thesis using 3 by (cases "ip4_fragment h") simp_all
  qed
qed

lemma ipv4_send_refused:
  assumes "ip4_up_flow h = None" "dataOrCtrl ff = FF_DATA" "metaData ff = Some ms"
  shows "ipv4_send_fdf_in m ff h p = Inr (m\<lparr>m_freed := m_freed m @ [ff]\<rparr>)"
  using assms by (auto simp: ipv4_send_fdf_in_def ip4_up_flow_def free_ff_ctrl Let_def IP4_PT_ICMP_def IP4_PT_TCP_def IP4_PT_UDP_def protocol_eq
      split: if_splits)

lemma ipv4_send_passes:
  assumes "ip4_up_flow h = Some flow" "metaData ff = Some ms" "meta_writes ms (ip4_writes h) = Inr ms'"
    "unat (h_packet_length h) \<le> length p" "20 \<le> unat (h_header_length h)"
  shows "ipv4_send_fdf_in m ff h p = send_or_free m (ff\<lparr>dataFrame := ip4_payload h p (dataFrame ff), metaData := Some ms'\<rparr>) flow"
proof -
  let ?n = "unat (h_packet_length h) - unat (h_header_length h)"
  have "\<not> unat (h_packet_length h) < unat (h_header_length h)" using assms(1) by (auto simp: ip4_up_flow_def)
  moreover from this have "slice p IP4_MIN_HLEN ?n = Inr (take ?n (drop 20 p))" using assms(4,5) by (simp add: slice_def IP4_MIN_HLEN_def)
  ultimately show ?thesis using assms(1-3)
    by (auto simp: ipv4_send_fdf_in_def ip4_up_flow_def ip4_payload_def ip4_writes_def Let_def IP4_PT_ICMP_def IP4_PT_TCP_def IP4_PT_UDP_def protocol_eq
        split: if_splits)
qed

text \<open>The parsed header of a good packet.\<close>

lemma ip4_good_parse:
  assumes "ip4_good h (length data + 20) proto ttl src dst"
  obtains hh where "ip4_parse (ip4_bytes h @ data) = Inr hh" "h_source hh = src" "h_destination hh = dst" "h_version hh = IP4_VERSION"
      "unat (h_header_length hh) = 20" "h_packet_length hh = of_nat (length data + 20)" "h_flags hh = 0" "h_fragmentation_offset hh = 0"
      "h_ttl hh = ttl" "h_protocol hh = proto" "ipv4_checksum (ip4_bytes h @ data) 20 = Inr 0"
proof -
  have hd: "ip_verlen h = 0x45" "ip_len h = htons (of_nat (length data + 20))" "ip_fragoff h = htons 0" "ip_ttl h = ttl" "ip_proto h = proto"
    "ip_src h = htonl src" "ip_dst h = htonl dst" "inet_cksum (le_total (ip4_bytes h)) = 0"
    using assms by (auto simp: ip4_good_def)
  then show thesis using that ip4_parse_bytes [of h data] verlen_45 ip4_checksum_header [of h data] by simp
qed

text \<open>A good ICMP packet goes up whole.\<close>

lemma ipv4_in_icmp:
  assumes ff: "metaData ff = Some ms" "ip4_recv_free ms"
    and p: "pdu (dataFrame ff) = Some (ip4_bytes h @ data)" "pduLength (dataFrame ff) = of_nat (length data + 20)" "length data + 20 < 65536"
    and h: "ip4_good h (length data + 20) 1 ttl src dst" "ttl \<noteq> 0" "ip4_local m dst"
    and q: "room m xs" "flow_to m IPV4_FLOW_ICMP d"
  obtains m' ms' where "ipv4_in_fdf m ff = Inr m'"
    "queue_rep (m_output_queue m') (xs @ [ff\<lparr>metaData := Some ms', destinationID := d\<rparr>])" "m_freed m' = m_freed m" "meta_plain ms'"
    "map_of ms' = (map_of ms)(''recv_protocol'' \<mapsto> CInt 1, ''recv_family'' \<mapsto> CInt 2, ''recv_src_ipv4'' \<mapsto> CInt src,
        ''recv_dst_ipv4'' \<mapsto> CInt dst, ''recv_ttl'' \<mapsto> CInt (ucast ttl))"
proof -
  obtain hh where hh: "ip4_parse (ip4_bytes h @ data) = Inr hh" "h_source hh = src" "h_destination hh = dst" "h_version hh = IP4_VERSION"
      "unat (h_header_length hh) = 20" "h_packet_length hh = of_nat (length data + 20)" "h_flags hh = 0" "h_fragmentation_offset hh = 0"
      "h_ttl hh = ttl" "h_protocol hh = 1" "ipv4_checksum (ip4_bytes h @ data) 20 = Inr 0"
    by (rule ip4_good_parse [OF h(1)])
  have len: "length (ip4_bytes h @ data) = length data + 20" by simp
  obtain m1 where m1: "ipv4_in_fdf m ff = ipv4_send_fdf_in m1 ff hh (ip4_bytes h @ data)" "room m1 xs" "flow_to m1 IPV4_FLOW_ICMP d"
      "m_freed m1 = m_freed m"
    by (rule ipv4_in_tests [OF p(1) _ _ hh(1,4) _ _ _ hh(8) _ _ _ q]) (use p(2,3) hh h(2,3) len in simp_all)
  obtain ms1 where ms1: "meta_writes ms (ip4_writes hh) = Inr ms1" "meta_plain ms1"
    "map_of ms1 = (map_of ms)(''recv_protocol'' \<mapsto> CInt (ucast (h_protocol hh)), ''recv_family'' \<mapsto> CInt 2,
        ''recv_src_ipv4'' \<mapsto> CInt (h_source hh), ''recv_dst_ipv4'' \<mapsto> CInt (h_destination hh), ''recv_ttl'' \<mapsto> CInt (ucast (h_ttl hh)))"
    by (rule ip4_writes_ok [OF ff(2)])
  from m1(2,3) obtain m' where m': "send_or_free m1 (ff\<lparr>metaData := Some ms1\<rparr>) IPV4_FLOW_ICMP = Inr m'"
      "sent xs m1 [(ff\<lparr>metaData := Some ms1\<rparr>)\<lparr>destinationID := d\<rparr>] m'"
    by (rule send_single)
  have un: "unat (h_packet_length hh) = length data + 20" using p(3) unfolding hh(6) unat_of_nat by simp
  have "ipv4_in_fdf m ff = Inr m'"
    using ff(1) un hh(5,10) ms1(1) m'(1) unfolding m1(1) by (simp add: ipv4_send_fdf_in_def ip4_writes_def Let_def IP4_PT_ICMP_def)
  moreover have "queue_rep (m_output_queue m') (xs @ [ff\<lparr>metaData := Some ms1, destinationID := d\<rparr>])" "m_freed m' = m_freed m"
    using m'(2) sent_fields(2) [OF m'(2)] m1(4) by (simp_all add: sent_def)
  moreover have "map_of ms1 = (map_of ms)(''recv_protocol'' \<mapsto> CInt 1, ''recv_family'' \<mapsto> CInt 2, ''recv_src_ipv4'' \<mapsto> CInt src,
        ''recv_dst_ipv4'' \<mapsto> CInt dst, ''recv_ttl'' \<mapsto> CInt (ucast ttl))"
    using ms1(3) hh(2,3,9,10) by simp
  ultimately show thesis using that ms1(2) by blast
qed

lemma ipv4_in_delivers:
  assumes ff: "metaData ff = Some ms" "ip4_recv_free ms"
    and p: "pdu (dataFrame ff) = Some (ip4_bytes h @ data)" "pduLength (dataFrame ff) = of_nat (length data + 20)" "length data + 20 < 65536"
    and h: "ip4_good h (length data + 20) proto ttl src dst" "ttl \<noteq> 0" "ip4_local m dst"
    and fl: "proto = 17 \<and> flow = IPV4_FLOW_UDP \<or> proto = 6 \<and> flow = IPV4_FLOW_TCP"
    and q: "room m xs" "flow_to m flow d"
  shows "\<exists>m' r ms'. ipv4_in_fdf m ff = Inr m' \<and> queue_rep (m_output_queue m') (xs @ [r]) \<and> m_freed m' = m_freed m
    \<and> destinationID r = d \<and> pdu (dataFrame r) = Some data \<and> pduLength (dataFrame r) = of_nat (length data)
    \<and> metaData r = Some ms' \<and> meta_plain ms'
    \<and> map_of ms' = (map_of ms)(''recv_protocol'' \<mapsto> CInt (ucast proto), ''recv_family'' \<mapsto> CInt 2, ''recv_src_ipv4'' \<mapsto> CInt src,
        ''recv_dst_ipv4'' \<mapsto> CInt dst, ''recv_ttl'' \<mapsto> CInt (ucast ttl))"
proof -
  obtain hh where hh: "ip4_parse (ip4_bytes h @ data) = Inr hh" "h_source hh = src" "h_destination hh = dst" "h_version hh = IP4_VERSION"
      "unat (h_header_length hh) = 20" "h_packet_length hh = of_nat (length data + 20)" "h_flags hh = 0" "h_fragmentation_offset hh = 0"
      "h_ttl hh = ttl" "h_protocol hh = proto" and ck: "ipv4_checksum (ip4_bytes h @ data) 20 = Inr 0"
    by (rule ip4_good_parse [OF h(1)])
  show ?thesis
    using ipv4_in_accepts [OF ff p(1) _ _ hh(1), of m flow xs d] p(2,3) hh ck h(2,3) fl q by (simp add: add.commute)
qed

section \<open>The theorems\<close>

text \<open>
  C25: IPv4 round trip. A UDP or TCP payload of up to 65515 bytes that goes down through \<^verbatim>\<open>ipv4_out_fdf\<close> leaves as one
  packet for the interface of the first matching route, addressed to the gateway of the route or directly to the
  destination; when its bytes come back up through \<^verbatim>\<open>ipv4_in_fdf\<close> of a host that has the destination address, every
  test of the header passes and exactly the payload is delivered to the transport module, with the addresses, the
  protocol and the time to live of the sender in its metadata.
\<close>

theorem ipv4_roundtrip:
  assumes "metaData ff = Some ms" "ip4_send_meta ms proto src dst ttl"
    "pdu (dataFrame ff) = Some data" "length data = unat (pduLength (dataFrame ff))" "length data + 20 < 65536"
    "find (\<lambda>r. ipv4_route_dst_test r dst) (i4_route_list (m_data m)) = Some route"
    "i4_addr_loopback (m_data m) = Some lo" "ad_if_index lo \<noteq> rt_if_index route" "room m xs" "flow_to m IPV4_FLOW_INTERFACE d"
    "case ttl of None \<Rightarrow> True | Some v \<Rightarrow> (ucast v :: u8) \<noteq> 0"
    "proto = 17 \<and> flow = IPV4_FLOW_UDP \<or> proto = 6 \<and> flow = IPV4_FLOW_TCP"
    "metaData rf = Some rms" "ip4_recv_free rms" "ip4_local rm dst" "room rm ys" "flow_to rm flow e"
  shows "\<exists>m' r rm' r2. ipv4_out_fdf now m ff = Inr m' \<and> queue_rep (m_output_queue m') (xs @ [r]) \<and> destinationID r = d
    \<and> has_u32 (the (metaData r)) ''send_dst_ipv4'' (if sin_addr (rt_gw route) = 0 then dst else sin_addr (rt_gw route))
    \<and> has_u32 (the (metaData r)) ''send_if_index'' (rt_if_index route)
    \<and> ipv4_in_fdf rm (rf\<lparr>dataFrame := (dataFrame rf)\<lparr>pduLength := pduLength (dataFrame r), pdu := pdu (dataFrame r)\<rparr>\<rparr>) = Inr rm'
    \<and> queue_rep (m_output_queue rm') (ys @ [r2]) \<and> destinationID r2 = e \<and> pdu (dataFrame r2) = Some data
    \<and> map_of (the (metaData r2)) = (map_of rms)(''recv_protocol'' \<mapsto> CInt proto, ''recv_family'' \<mapsto> CInt 2, ''recv_src_ipv4'' \<mapsto> CInt src,
        ''recv_dst_ipv4'' \<mapsto> CInt dst, ''recv_ttl'' \<mapsto> CInt (case ttl of None \<Rightarrow> 255 | Some v \<Rightarrow> ucast (ucast v :: u8)))"
proof -
  let ?ttl = "case ttl of None \<Rightarrow> IP4_INIT_TTL | Some v \<Rightarrow> ucast v"
  obtain m' r h where r: "ipv4_out_fdf now m ff = Inr m'" "queue_rep (m_output_queue m') (xs @ [r])" "destinationID r = d"
      "pdu (dataFrame r) = Some (ip4_bytes h @ data)" "pduLength (dataFrame r) = of_nat (length data + 20)"
      "ip4_good h (length data + 20) (ucast proto) ?ttl src dst"
      "has_u32 (the (metaData r)) ''send_dst_ipv4'' (if sin_addr (rt_gw route) = 0 then dst else sin_addr (rt_gw route))"
      "has_u32 (the (metaData r)) ''send_if_index'' (rt_if_index route)"
    using ipv4_out_sends [OF assms(1-10), of now] by blast
  let ?f = "rf\<lparr>dataFrame := (dataFrame rf)\<lparr>pduLength := pduLength (dataFrame r), pdu := pdu (dataFrame r)\<rparr>\<rparr>"
  have "?ttl \<noteq> 0" using assms(11) by (auto simp: IP4_INIT_TTL_def split: option.splits)
  moreover have "(ucast proto :: u8) = 17 \<and> flow = IPV4_FLOW_UDP \<or> (ucast proto :: u8) = 6 \<and> flow = IPV4_FLOW_TCP" using assms(12) by auto
  ultimately obtain rm' r2 where r2: "ipv4_in_fdf rm ?f = Inr rm'" "queue_rep (m_output_queue rm') (ys @ [r2])" "destinationID r2 = e"
      "pdu (dataFrame r2) = Some data"
      "map_of (the (metaData r2)) = (map_of rms)(''recv_protocol'' \<mapsto> CInt (ucast (ucast proto :: u8)), ''recv_family'' \<mapsto> CInt 2,
        ''recv_src_ipv4'' \<mapsto> CInt src, ''recv_dst_ipv4'' \<mapsto> CInt dst, ''recv_ttl'' \<mapsto> CInt (ucast ?ttl))"
    using ipv4_in_delivers [of ?f rms h data "ucast proto" ?ttl src dst rm flow ys e] r(4-6) assms(5,13-17) by auto
  have "ucast (ucast proto :: u8) = proto" using assms(12) by auto
  with r r2 show ?thesis
    by (intro exI [of _ m'] exI [of _ r] exI [of _ rm'] exI [of _ r2]) (simp add: IP4_INIT_TTL_def split: option.splits)
qed

lemma ex_ipv4_ready: "room ex_ipv4 []" "flow_to ex_ipv4 IPV4_FLOW_INTERFACE 2" "flow_to ex_ipv4 IPV4_FLOW_UDP 2"
    "flow_to ex_ipv4 IPV4_FLOW_ICMP 2" "flow_to ex_ipv4 IPV4_FLOW_TCP 2"
  by (simp_all add: room_def flow_to_def ex_ipv4_def CreateQueue_rep IPV4_FLOW_INTERFACE_def IPV4_FLOW_UDP_def IPV4_FLOW_ICMP_def IPV4_FLOW_TCP_def
      LINK_NULL_def)
    (simp add: queue_cap_def CreateQueue_def MakeEmpty_def)

lemma ex_ipv4_route:
  "find (\<lambda>r. ipv4_route_dst_test r 0xC0A80102) (i4_route_list (m_data ex_ipv4)) = Some ex_route"
  "i4_addr_loopback (m_data ex_ipv4) = Some (ex_addr 1 0x7F000001)" "ad_if_index (ex_addr 1 0x7F000001) \<noteq> rt_if_index ex_route"
  by (simp_all add: ex_ipv4_def ex_route_def ex_addr_def ipv4_route_dst_test_def addr4_get_ip_def ex_addr4_def IPV4_ADDR_ANY_IP_def)

lemma ip_names:
  "config_validate_name ''send_family''" "config_validate_name ''send_src_ipv4''" "config_validate_name ''send_dst_ipv4''"
  "config_validate_name ''send_protocol''" "config_validate_name ''send_ttl''" "config_validate_name ''send_tos''"
  "config_validate_name ''send_ether_type''" "config_validate_name ''send_if_index''"
  "config_validate_name ''recv_protocol''" "config_validate_name ''recv_family''" "config_validate_name ''recv_src_ipv4''"
  "config_validate_name ''recv_dst_ipv4''" "config_validate_name ''recv_ttl''"
  by code_simp+

lemma ex_ip_send_meta: "ip4_send_meta ex_ip_meta 17 0xC0A80101 0xC0A80102 None"
proof -
  have p: "meta_plain ex_ip_meta" using ip_names by (simp add: meta_plain_def ex_ip_meta_def plain_def)
  have "read_opt_u32 ex_ip_meta ''send_ttl'' = Inr None" "read_opt_u32 ex_ip_meta ''send_tos'' = Inr None"
    using read_opt_none [OF p] ip_names by (simp_all add: ex_ip_meta_def)
  then show ?thesis using p ip_names by (simp add: ip4_send_meta_def has_u32_def free_u32_def ex_ip_meta_def)
qed

lemma ex_ip_recv_free: "ip4_recv_free []"
  using ip_names by (simp add: ip4_recv_free_def meta_plain_def free_u32_def)

lemma ex_ip_local: "ip4_local ex_ipv4 0xC0A80102"
  by (simp add: ip4_local_def ex_ipv4_def ex_addr_def ex_addr4_def addr_ipv4_test_def AF_INET_def)

theorem ipv4_roundtrip_witness:
  "\<exists>m' r rm' r2. ipv4_out_fdf 0 ex_ipv4 (ex_frame\<lparr>metaData := Some ex_ip_meta\<rparr>) = Inr m' \<and> queue_rep (m_output_queue m') [r]
    \<and> ipv4_in_fdf ex_ipv4 (zeroFrame\<lparr>metaData := Some [], dataFrame := (dataFrame zeroFrame)\<lparr>pduLength := pduLength (dataFrame r),
        pdu := pdu (dataFrame r)\<rparr>\<rparr>) = Inr rm'
    \<and> queue_rep (m_output_queue rm') [r2] \<and> pdu (dataFrame r2) = Some [9]"
proof -
  from ipv4_roundtrip [of "ex_frame\<lparr>metaData := Some ex_ip_meta\<rparr>" ex_ip_meta 17 "0xC0A80101" "0xC0A80102" None "[9]", OF _ ex_ip_send_meta _ _ _ ex_ipv4_route
      ex_ipv4_ready(1,2) _ _ _ ex_ip_recv_free ex_ip_local ex_ipv4_ready(1,3), of "zeroFrame\<lparr>metaData := Some []\<rparr>" 0]
  show ?thesis by (auto simp: ex_frame_def ex_addr_def)
qed

text \<open>
  C26: what \<^verbatim>\<open>ipv4_in_fdf\<close> does with every frame whose buffer holds the header it announces. It always returns, and besides the counts of
  the module only this happens. A packet of another IP version and a valid fragment are neither freed nor
  sent: their frames are lost. A packet that fails the test of its header length, checksum, length, time to live, destination
  or flags, one shorter than its header and one of an unknown protocol are freed once and nothing is sent. Any other
  is sent exactly once to the destination of the flow of its protocol, with its addresses, protocol and time to
  live in the metadata, and is not freed; only when that flow has no destination is it freed instead. (A flow has at most one destination here.)
\<close>

theorem ipv4_in_exactly_once:
  assumes "dataOrCtrl ff = FF_DATA" "metaData ff = Some ms" "ip4_recv_free ms"
    "pdu (dataFrame ff) = Some p" "pduLength (dataFrame ff) = of_nat (length p)" "length p < 2147483648"
    "ip4_parse p = Inr h" "unat (h_header_length h) \<le> length p"
    "\<forall>flow \<in> {IPV4_FLOW_ICMP, IPV4_FLOW_TCP, IPV4_FLOW_UDP}. flow_ready m xs flow \<and> length (flow_dsts (m_table m) flow) \<le> 1"
  shows "\<exists>st. case ip4_fate m h p of
      Lost \<Rightarrow> ipv4_in_fdf m ff = Inr (counted st m)
    | Refused \<Rightarrow> ipv4_in_fdf m ff = Inr ((counted st m)\<lparr>m_freed := m_freed m @ [ff]\<rparr>)
    | Passed flow \<Rightarrow> \<exists>ms' r. r = ff\<lparr>dataFrame := ip4_payload h p (dataFrame ff), metaData := Some ms'\<rparr>
        \<and> map_of ms' = (map_of ms)(''recv_protocol'' \<mapsto> CInt (ucast (h_protocol h)), ''recv_family'' \<mapsto> CInt 2,
            ''recv_src_ipv4'' \<mapsto> CInt (h_source h), ''recv_dst_ipv4'' \<mapsto> CInt (h_destination h), ''recv_ttl'' \<mapsto> CInt (ucast (h_ttl h)))
        \<and> (case flow_dsts (m_table m) flow of
             [] \<Rightarrow> ipv4_in_fdf m ff = Inr ((counted st m)\<lparr>m_freed := m_freed m @ [r]\<rparr>)
           | d # ds \<Rightarrow> \<exists>m'. ipv4_in_fdf m ff = Inr m' \<and> sent xs (counted st m) [r\<lparr>destinationID := d\<rparr>] m')"
proof -
  obtain st where st: "ipv4_in_fdf m ff =
      (if h_version h \<noteq> IP4_VERSION \<or> ip4_valid m h p \<and> ip4_fragment h then Inr (counted st m)
       else if \<not> ip4_valid m h p then Inr ((counted st m)\<lparr>m_freed := m_freed m @ [ff]\<rparr>)
       else ipv4_send_fdf_in (counted st m) ff h p)"
    using ipv4_in_verdict [OF assms(1,4-8)] by blast
  show ?thesis
  proof (cases "h_version h = IP4_VERSION \<and> ip4_valid m h p \<and> \<not> ip4_fragment h")
    case False
    then show ?thesis using st by (intro exI [of _ st]) (auto simp: ip4_fate_def)
  next
    case True
    then have run: "ipv4_in_fdf m ff = ipv4_send_fdf_in (counted st m) ff h p"
      and fate: "ip4_fate m h p = (case ip4_up_flow h of None \<Rightarrow> Refused | Some flow \<Rightarrow> Passed flow)"
      and len: "unat (h_packet_length h) \<le> length p" "20 \<le> unat (h_header_length h)"
      using st by (simp_all add: ip4_fate_def ip4_valid_def)
    show ?thesis
    proof (cases "ip4_up_flow h")
      case None
      then show ?thesis using run fate ipv4_send_refused [OF None assms(1,2), of "counted st m" p] by (intro exI [of _ st]) simp
    next
      case (Some flow)
      then have "flow \<in> {IPV4_FLOW_ICMP, IPV4_FLOW_TCP, IPV4_FLOW_UDP}" by (auto simp: ip4_up_flow_def split: if_splits)
      then have fl: "flow_ready (counted st m) xs flow" "length (flow_dsts (m_table (counted st m)) flow) \<le> 1" using assms(9) by auto
      obtain ms' where ms': "meta_writes ms (ip4_writes h) = Inr ms'"
        "map_of ms' = (map_of ms)(''recv_protocol'' \<mapsto> CInt (ucast (h_protocol h)), ''recv_family'' \<mapsto> CInt 2,
            ''recv_src_ipv4'' \<mapsto> CInt (h_source h), ''recv_dst_ipv4'' \<mapsto> CInt (h_destination h), ''recv_ttl'' \<mapsto> CInt (ucast (h_ttl h)))"
        by (rule ip4_writes_ok [OF assms(3)])
      let ?r = "ff\<lparr>dataFrame := ip4_payload h p (dataFrame ff), metaData := Some ms'\<rparr>"
      have s: "ipv4_in_fdf m ff = send_or_free (counted st m) ?r flow"
        unfolding run by (rule ipv4_send_passes [OF Some assms(2) ms'(1) len])
      have fr: "free_ff ?r (counted st m) = Inr ((counted st m)\<lparr>m_freed := m_freed m @ [?r]\<rparr>)" using assms(1) by (simp add: free_ff_ctrl)
      have "case flow_dsts (m_table m) flow of
             [] \<Rightarrow> ipv4_in_fdf m ff = Inr ((counted st m)\<lparr>m_freed := m_freed m @ [?r]\<rparr>)
           | d # ds \<Rightarrow> \<exists>m'. ipv4_in_fdf m ff = Inr m' \<and> sent xs (counted st m) [?r\<lparr>destinationID := d\<rparr>] m'"
        using send_or_free_dsts [OF fl, of ?r] unfolding s fr by simp
      then show ?thesis unfolding fate Some using ms'(2)
        by (intro exI [of _ st]) (simp only: option.case ip4_fate.case, intro exI [of _ ms'] exI [of _ ?r] conjI refl)
    qed
  qed
qed

text \<open>
  The witness: for the module of the examples, a packet of version 0 is lost, the packet of 24 bytes with a bad checksum is
  refused, and the same packet with the right one is passed to UDP.
\<close>

theorem ipv4_in_exactly_once_witness:
  "\<exists>m1 m2 m3 r. ipv4_in_fdf ex_ipv4 (ex_ip_frame (replicate 20 0)) = Inr m1 \<and> m_freed m1 = [] \<and> m_output_queue m1 = m_output_queue ex_ipv4
    \<and> ipv4_in_fdf ex_ipv4 (ex_ip_frame (ex_ip_packet 0)) = Inr m2 \<and> m_freed m2 = [ex_ip_frame (ex_ip_packet 0)] \<and> m_output_queue m2 = m_output_queue ex_ipv4
    \<and> ipv4_in_fdf ex_ipv4 (ex_ip_frame (ex_ip_packet 0x81)) = Inr m3 \<and> m_freed m3 = [] \<and> queue_rep (m_output_queue m3) [r]
    \<and> pdu (dataFrame r) = Some [7, 7, 7, 7]"
proof -
  let ?h = "\<lambda>c. \<lparr>h_source = 0xC0A80101, h_destination = 0xC0A80102, h_version = 4, h_header_length = 20, h_differentiated_service = 0,
     h_packet_length = 24, h_id = 0, h_flags = 0, h_fragmentation_offset = 0, h_ttl = 0x40, h_protocol = 17, h_checksum = c\<rparr>"
  let ?z = "\<lparr>h_source = 0, h_destination = 0, h_version = 0, h_header_length = 0, h_differentiated_service = 0,
     h_packet_length = 0, h_id = 0, h_flags = 0, h_fragmentation_offset = 0, h_ttl = 0, h_protocol = 0, h_checksum = 0\<rparr>"
  have parse: "ip4_parse (replicate 20 0) = Inr ?z" "ip4_parse (ex_ip_packet 0) = Inr (?h 0xf700)" "ip4_parse (ex_ip_packet 0x81) = Inr (?h 0xf781)"
    by code_simp+
  have ck: "ipv4_checksum (ex_ip_packet 0) 20 = Inr 0x8100" "ipv4_checksum (ex_ip_packet 0x81) 20 = Inr 0" by code_simp+
  have len: "length (ex_ip_packet c) = 24" for c by (simp add: ex_ip_packet_def)
  have fate: "ip4_fate ex_ipv4 ?z (replicate 20 0) = Lost" "ip4_fate ex_ipv4 (?h 0xf700) (ex_ip_packet 0) = Refused"
      "ip4_fate ex_ipv4 (?h 0xf781) (ex_ip_packet 0x81) = Passed IPV4_FLOW_UDP"
    using ex_ip_local by (simp_all add: ip4_fate_def ip4_valid_def ip4_fragment_def ip4_up_flow_def IP4_VERSION_def ck len IP4_DF_def IP4_MF_def)
  have fr: "dataOrCtrl (ex_ip_frame p) = FF_DATA" "metaData (ex_ip_frame p) = Some []" "pdu (dataFrame (ex_ip_frame p)) = Some p"
      "pduLength (dataFrame (ex_ip_frame p)) = of_nat (length p)" for p by (simp_all add: ex_ip_frame_def ex_frame_def)
  note rdy = flow_to_ready [OF ex_ipv4_ready(1,3)] flow_to_ready [OF ex_ipv4_ready(1,4)] flow_to_ready [OF ex_ipv4_ready(1,5)]
  have fl: "\<forall>flow \<in> {IPV4_FLOW_ICMP, IPV4_FLOW_TCP, IPV4_FLOW_UDP}. flow_ready ex_ipv4 [] flow \<and> length (flow_dsts (m_table ex_ipv4) flow) \<le> 1"
    using rdy by simp
  note all = ipv4_in_exactly_once [OF fr(1,2) ex_ip_recv_free fr(3,4) _ _ _ fl]
  obtain s1 where "ipv4_in_fdf ex_ipv4 (ex_ip_frame (replicate 20 0)) = Inr (counted s1 ex_ipv4)"
    using all [OF _ parse(1)] fate(1) by auto
  moreover obtain s2 where "ipv4_in_fdf ex_ipv4 (ex_ip_frame (ex_ip_packet 0)) = Inr ((counted s2 ex_ipv4)\<lparr>m_freed := m_freed ex_ipv4 @ [ex_ip_frame (ex_ip_packet 0)]\<rparr>)"
    using all [OF _ parse(2)] fate(2) len by auto
  moreover obtain s3 ms' m3 where "ipv4_in_fdf ex_ipv4 (ex_ip_frame (ex_ip_packet 0x81)) = Inr m3"
      "sent [] (counted s3 ex_ipv4) [(ex_ip_frame (ex_ip_packet 0x81))\<lparr>dataFrame := ip4_payload (?h 0xf781) (ex_ip_packet 0x81) (dataFrame (ex_ip_frame (ex_ip_packet 0x81))),
         metaData := Some ms', destinationID := 2\<rparr>] m3"
    using all [OF _ parse(3)] fate(3) len rdy(2) by auto
  moreover have "pdu (ip4_payload (?h 0xf781) (ex_ip_packet 0x81) d) = Some [7, 7, 7, 7]" for d by (simp add: ip4_payload_def ex_ip_packet_def)
  moreover have "m_freed ex_ipv4 = []" by (simp add: ex_ipv4_def)
  ultimately show ?thesis using sent_fields(2) by (fastforce simp: sent_def)
qed

text \<open>
  the payload of an accepted packet is taken from behind the first 20 bytes even when the header has options: what
  is delivered starts with the options and loses as many bytes at its end.
\<close>

theorem ipv4_in_options_as_data:
  assumes "metaData ff = Some ms" "ip4_recv_free ms"
    "pdu (dataFrame ff) = Some p" "pduLength (dataFrame ff) = of_nat (length p)" "length p < 65536"
    "ip4_parse p = Inr hh" "h_version hh = IP4_VERSION" "20 < unat (h_header_length hh)" "unat (h_header_length hh) \<le> length p"
    "h_packet_length hh = of_nat (length p)" "h_flags hh AND IP4_MF = 0" "h_fragmentation_offset hh = 0" "h_ttl hh \<noteq> 0"
    "ip4_local m (h_destination hh)" "ipv4_checksum p (unat (h_header_length hh)) = Inr 0"
    "h_protocol hh = 17 \<and> flow = IPV4_FLOW_UDP \<or> h_protocol hh = 6 \<and> flow = IPV4_FLOW_TCP"
    "room m xs" "flow_to m flow d"
  shows "\<exists>m' r options payload. ipv4_in_fdf m ff = Inr m' \<and> queue_rep (m_output_queue m') (xs @ [r])
    \<and> p = take 20 p @ options @ payload \<and> length options = unat (h_header_length hh) - 20 \<and> options \<noteq> []
    \<and> pdu (dataFrame r) = Some (take (length payload) (options @ payload))"
proof -
  let ?h = "unat (h_header_length hh)"
  have h20: "20 \<le> ?h" using assms(8) by simp
  obtain m' r where r: "ipv4_in_fdf m ff = Inr m'" "queue_rep (m_output_queue m') (xs @ [r])"
      "pdu (dataFrame r) = Some (take (length p - ?h) (drop 20 p))"
    using ipv4_in_accepts [OF assms(1-7) h20 assms(9-18)] by blast
  let ?o = "take (?h - 20) (drop 20 p)"
  have "drop 20 p = ?o @ drop ?h p" using h20 append_take_drop_id [of "?h - 20" "drop 20 p"] by simp
  moreover have "length (drop ?h p) = length p - ?h" by simp
  moreover have "length ?o = ?h - 20" using assms(9) by simp
  ultimately show ?thesis using r assms(8)
    by (intro exI [of _ m'] exI [of _ r] exI [of _ ?o] exI [of _ "drop ?h p"]) (auto simp: append_take_drop_id)
qed

theorem ipv4_in_options_as_data_witness:
  "\<exists>m' r. ipv4_in_fdf ex_ipv4 (ex_frame\<lparr>metaData := Some [], dataFrame := \<lparr>directionFlag = DIR_UP, pduLength = 28,
      pdu = Some [0x46, 0, 0, 28, 0, 0, 0, 0, 0x40, 17, 0xf4, 0x7c, 0xC0, 0xA8, 1, 1, 0xC0, 0xA8, 1, 2, 1, 1, 1, 0, 7, 7, 7, 7]\<rparr>\<rparr>) = Inr m'
    \<and> queue_rep (m_output_queue m') [r] \<and> pdu (dataFrame r) = Some [1, 1, 1, 0]"
proof -
  let ?p = "[0x46, 0, 0, 28, 0, 0, 0, 0, 0x40, 17, 0xf4, 0x7c, 0xC0, 0xA8, 1, 1, 0xC0, 0xA8, 1, 2, 1, 1, 1, 0, 7, 7, 7, 7] :: byte list"
  let ?h = "\<lparr>h_source = 0xC0A80101, h_destination = 0xC0A80102, h_version = 4, h_header_length = 24, h_differentiated_service = 0,
     h_packet_length = 28, h_id = 0, h_flags = 0, h_fragmentation_offset = 0, h_ttl = 0x40, h_protocol = 17, h_checksum = 0xf47c\<rparr>"
  have parse: "ip4_parse ?p = Inr ?h" by code_simp
  have ck: "ipv4_checksum ?p (unat (h_header_length ?h)) = Inr 0" by code_simp
  let ?f = "ex_frame\<lparr>metaData := Some [], dataFrame := \<lparr>directionFlag = DIR_UP, pduLength = 28, pdu = Some ?p\<rparr>\<rparr>"
  have "\<exists>m' r options payload. ipv4_in_fdf ex_ipv4 ?f = Inr m' \<and> queue_rep (m_output_queue m') ([] @ [r])
    \<and> ?p = take 20 ?p @ options @ payload \<and> length options = unat (h_header_length ?h) - 20 \<and> options \<noteq> []
    \<and> pdu (dataFrame r) = Some (take (length payload) (options @ payload))"
    by (rule ipv4_in_options_as_data [OF _ ex_ip_recv_free _ _ _ parse _ _ _ _ _ _ _ _ ck _ ex_ipv4_ready(1,3)])
      (simp_all add: IP4_VERSION_def ex_ip_local)
  then obtain m' r options payload where r: "ipv4_in_fdf ex_ipv4 ?f = Inr m'" "queue_rep (m_output_queue m') [r]"
      "drop 20 ?p = options @ payload" "length options = 4" "pdu (dataFrame r) = Some (take (length payload) (options @ payload))"
    by auto
  have "length payload = 4" using arg_cong [OF r(3), of length] r(4) by simp
  then have "pdu (dataFrame r) = Some [1, 1, 1, 0]" using r(5) unfolding r(3) [symmetric] by simp
  with r(1,2) show ?thesis by blast
qed

end
