(* ===== verification/Icmp_Paths.thy ===== *)
theory Icmp_Paths
  imports Icmp_Module Ipv4_Module
begin

text \<open>
  ICMP together with the modules around it: an echo request and its reply between the ICMP and IPv4 modules of two hosts, and
  an error another host reports about a datagram that UDP of this host sent.
\<close>

section \<open>Specification\<close>

text \<open>An IPv4 module that routes packets to \<open>dst\<close> out of the host, with room in its output queue \<open>ys\<close>.\<close>

definition routes :: "ipv4_module \<Rightarrow> u32 \<Rightarrow> u32 \<Rightarrow> finsFrame list \<Rightarrow> bool" where
  "routes i dst d ys \<longleftrightarrow> (\<exists>route lo. find (\<lambda>r. ipv4_route_dst_test r dst) (i4_route_list (m_data i)) = Some route
     \<and> i4_addr_loopback (m_data i) = Some lo \<and> ad_if_index lo \<noteq> rt_if_index route) \<and> room i ys \<and> flow_to i IPV4_FLOW_INTERFACE d"

text \<open>The metadata of a packet to send without a time to live and type of service, and of a captured packet.\<close>

definition plain_send :: "settings \<Rightarrow> bool" where
  "plain_send ms \<longleftrightarrow> map_of ms ''send_ttl'' = None \<and> map_of ms ''send_tos'' = None
     \<and> free_u32 ms ''send_ether_type'' \<and> free_u32 ms ''send_if_index''"

definition captured_meta :: "settings \<Rightarrow> bool" where
  "captured_meta ms \<longleftrightarrow> ip4_recv_free ms \<and> free_u32 ms ''recv_icmp_type'' \<and> free_u32 ms ''recv_icmp_code'' \<and> free_u32 ms ''recv_ee_origin''"

text \<open>All names of a metadata start with the five characters \<open>s\<close>.\<close>

definition names_start :: "string \<Rightarrow> settings \<Rightarrow> bool" where
  "names_start s ms \<longleftrightarrow> (\<forall>t \<in> dom (map_of ms). take 5 t = s)"

text \<open>
  A datagram as UDP remembers it, and one that agrees with quoted bytes as far as \<^verbatim>\<open>strncmp\<close> compares them: up to the
  length of the shorter one and not beyond a zero byte.
\<close>

definition remembered :: "udp_sent \<Rightarrow> bool" where
  "remembered x \<longleftrightarrow> dataOrCtrl (us_ff x) = FF_DATA
     \<and> (case pdu (dataFrame (us_ff x)) of None \<Rightarrow> False
        | Some p \<Rightarrow> pduLength (dataFrame (us_ff x)) = of_nat (length p) \<and> length p < 65536)
     \<and> (case metaData (us_ff x) of None \<Rightarrow> False | Some ms \<Rightarrow> meta_plain ms \<and> names_start ''send_'' ms)"

definition c_string :: "byte list \<Rightarrow> byte list" where
  "c_string bs = takeWhile (\<lambda>b. b \<noteq> 0) bs"

definition resembles :: "byte list \<Rightarrow> udp_sent \<Rightarrow> bool" where
  "resembles q x = (case pdu (dataFrame (us_ff x)) of None \<Rightarrow> False
     | Some p \<Rightarrow> c_string (take (min (length p) (length q)) p) = c_string (take (min (length p) (length q)) q))"

text \<open>A datagram with one byte from the given port of this host to port 53 of another, remembered by UDP, for the examples.\<close>

definition ex_old :: "u32 \<Rightarrow> udp_sent" where
  "ex_old sp = udp_sent_create (ex_frame\<lparr>metaData := Some ex_udp_meta, dataFrame := \<lparr>directionFlag = DIR_DOWN, pduLength = 9,
     pdu = Some (datagram 0xC0A80101 sp 0xC0A80102 53 [1])\<rparr>\<rparr>) 0xC0A80101 (ucast sp) 0xC0A80102 53"

section \<open>One ICMP message over IPv4\<close>

lemma good_carries:
  assumes "ip4_good h (length msg + 20) proto ttl src dst" "8 \<le> length msg" "length msg + 20 < 65536"
  shows "carries (ip4_bytes h @ msg) msg"
proof -
  have h: "ip_verlen h = 0x45" "ip_len h = htons (of_nat (length msg + 20))" using assms(1) by (simp_all add: ip4_good_def)
  have b: "ip4_bytes h ! 0 = 0x45" "ip4_bytes h ! 2 = hi8 (of_nat (length msg + 20))" "ip4_bytes h ! 3 = lo8 (of_nat (length msg + 20))"
    using h by (simp_all add: ip4_bytes_def mem16_def htons_def del: of_nat_add)
  then show ?thesis using assms(2,3) by (simp add: carries_def nth_append ip4_bytes_length add.commute del: of_nat_add)
qed

lemma icmp_over_ip:
  assumes r1: "metaData r1 = Some ms1" "ip4_send_meta ms1 1 src dst None"
    and p: "pdu (dataFrame r1) = Some msg" "length msg = unat (pduLength (dataFrame r1))" "8 \<le> length msg" "length msg + 20 < 65536"
    and i: "routes i dst d ys"
    and rf: "metaData rf = Some rms" "captured_meta rms" "ip4_local ri dst" "room ri zs" "flow_to ri IPV4_FLOW_ICMP e"
  obtains i' r2 ri' r3 q ms3 where "ipv4_out_fdf now i r1 = Inr i'" "newest i' r2" "destinationID r2 = d"
    "ipv4_in_fdf ri (arrives rf r2) = Inr ri'" "newest ri' r3" "destinationID r3 = e"
    "pdu (dataFrame r3) = Some q" "carries q msg" "metaData r3 = Some ms3" "icmp_recv_meta ms3 2 src dst 255"
proof -
  obtain route lo where rt: "find (\<lambda>r. ipv4_route_dst_test r dst) (i4_route_list (m_data i)) = Some route"
      "i4_addr_loopback (m_data i) = Some lo" "ad_if_index lo \<noteq> rt_if_index route" "room i ys" "flow_to i IPV4_FLOW_INTERFACE d"
    using i by (auto simp: routes_def)
  obtain i' r2 h where r2: "ipv4_out_fdf now i r1 = Inr i'" "queue_rep (m_output_queue i') (ys @ [r2])" "destinationID r2 = d"
      "pdu (dataFrame r2) = Some (ip4_bytes h @ msg)" "pduLength (dataFrame r2) = of_nat (length msg + 20)"
      "ip4_good h (length msg + 20) (ucast (1 :: u32)) (case None of None \<Rightarrow> IP4_INIT_TTL | Some (v :: u32) \<Rightarrow> ucast v) src dst"
    using ipv4_out_sends [OF r1 p(1,2,4) rt, of now] by blast
  have good: "ip4_good h (length msg + 20) 1 IP4_INIT_TTL src dst" using r2(6) by simp
  have f: "metaData (arrives rf r2) = Some rms" "pdu (dataFrame (arrives rf r2)) = Some (ip4_bytes h @ msg)"
    "pduLength (dataFrame (arrives rf r2)) = of_nat (length msg + 20)"
    using rf(1) r2(4,5) by (simp_all add: arrives_def)
  have fr: "ip4_recv_free rms" using rf(2) by (simp add: captured_meta_def)
  have ttl: "IP4_INIT_TTL \<noteq> 0" by (simp add: IP4_INIT_TTL_def)
  obtain ri' ms3 where r3: "ipv4_in_fdf ri (arrives rf r2) = Inr ri'"
      "queue_rep (m_output_queue ri') (zs @ [(arrives rf r2)\<lparr>metaData := Some ms3, destinationID := e\<rparr>])" "meta_plain ms3"
      "map_of ms3 = (map_of rms)(''recv_protocol'' \<mapsto> CInt 1, ''recv_family'' \<mapsto> CInt 2, ''recv_src_ipv4'' \<mapsto> CInt src,
        ''recv_dst_ipv4'' \<mapsto> CInt dst, ''recv_ttl'' \<mapsto> CInt (ucast IP4_INIT_TTL))"
    by (rule ipv4_in_icmp [OF f(1) fr f(2,3) p(4) good ttl rf(3-5)])
  have "icmp_recv_meta ms3 2 src dst 255"
    using r3(3,4) rf(2) ip_names by (simp add: icmp_recv_meta_def captured_meta_def has_u32_def free_u32_def ICMP_PT_ICMP_def IP4_INIT_TTL_def)
  then show thesis
    using that [OF r2(1) newestI [OF r2(2)] r2(3) r3(1) newestI [OF r3(2)] _ _ good_carries [OF good p(3,4)]] f(2) by simp
qed

text \<open>The metadata \<^verbatim>\<open>icmp_out_fdf\<close> and \<^verbatim>\<open>icmp_ping_reply\<close> hand to IPv4.\<close>

lemma icmp_ip_meta:
  assumes "meta_plain ms1" "map_of ms1 = (map_of ms)(''send_protocol'' \<mapsto> CInt ICMP_PT_ICMP)"
    "has_u32 ms ''send_family'' f" "has_u32 ms ''send_src_ipv4'' src" "has_u32 ms ''send_dst_ipv4'' dst" "plain_send ms"
  shows "ip4_send_meta ms1 1 src dst None"
proof -
  have "read_opt_u32 ms1 ''send_ttl'' = Inr None" "read_opt_u32 ms1 ''send_tos'' = Inr None"
    using read_opt_none [OF assms(1)] ip_names assms(2,6) by (simp_all add: plain_send_def)
  then show ?thesis using assms ip_names
    by (simp add: ip4_send_meta_def has_u32_def free_u32_def plain_send_def ICMP_PT_ICMP_def)
qed

section \<open>The theorems\<close>

text \<open>
  C3: an echo request is answered. An application's echo request goes down through ICMP and IPv4 and arrives at the host that
  has the destination address. ICMP there hands the request to its daemon and sends a reply with the same identifier,
  sequence number and data to the address the request came from. The reply goes back through IPv4 of both hosts, its
  checksums are accepted, and the daemon of the asking host gets it with the address of the other host as its source.
\<close>

theorem ping_answered:
  assumes "dataOrCtrl ff = FF_DATA" "metaData ff = Some ms" "icmp_send_meta ms src dst" "plain_send ms"
    "pdu (dataFrame ff) = Some (icmp_message ICMP_TYPE_ECHOREQUEST ICMP_CODE_ECHO ident seq data)"
    "pduLength (dataFrame ff) = of_nat (length data + 8)" "length data + 28 < 65536"
    "room a xs" "flow_to a ICMP_FLOW_IPV4 d1" "length (ic_sent_list (m_data a)) < ic_sent_max (m_data a)"
    "routes i dst d2 ys" "metaData rf = Some rms" "captured_meta rms" "ip4_local ri dst" "room ri zs" "flow_to ri IPV4_FLOW_ICMP d3"
    "space b ws 2" "flow_to b ICMP_FLOW_DAEMON d4" "flow_to b ICMP_FLOW_IPV4 d5"
    "routes i2 src d6 ys2" "metaData rf2 = Some rms2" "captured_meta rms2" "ip4_local ri2 src" "room ri2 zs2" "flow_to ri2 IPV4_FLOW_ICMP d7"
    "room a2 vs" "flow_to a2 ICMP_FLOW_DAEMON d8"
  shows "\<exists>a' r1 i' r2 ri' r3 b' f r4 i2' r5 ri2' r6 a2' r7 p q ms7.
      icmp_out_fdf a ff = Inr a' \<and> newest a' r1 \<and> destinationID r1 = d1
    \<and> ipv4_out_fdf now i r1 = Inr i' \<and> newest i' r2 \<and> destinationID r2 = d2
    \<and> ipv4_in_fdf ri (arrives rf r2) = Inr ri' \<and> newest ri' r3 \<and> destinationID r3 = d3
    \<and> icmp_in_fdf junk b r3 = Inr b' \<and> queue_rep (m_output_queue b') (ws @ [f, r4]) \<and> destinationID f = d4 \<and> destinationID r4 = d5
    \<and> pdu (dataFrame f) = Some p \<and> carries p (icmp_message ICMP_TYPE_ECHOREQUEST ICMP_CODE_ECHO ident seq data)
    \<and> ipv4_out_fdf now2 i2 r4 = Inr i2' \<and> newest i2' r5 \<and> destinationID r5 = d6
    \<and> ipv4_in_fdf ri2 (arrives rf2 r5) = Inr ri2' \<and> newest ri2' r6 \<and> destinationID r6 = d7
    \<and> icmp_in_fdf junk2 a2 r6 = Inr a2' \<and> newest a2' r7 \<and> destinationID r7 = d8
    \<and> pdu (dataFrame r7) = Some q \<and> carries q (icmp_message ICMP_TYPE_ECHOREPLY ICMP_CODE_ECHO ident seq data)
    \<and> metaData r7 = Some ms7 \<and> has_u32 ms7 ''recv_src_ipv4'' dst \<and> has_u32 ms7 ''recv_dst_ipv4'' src
    \<and> has_u32 ms7 ''recv_icmp_type'' 0"
proof -
  let ?q = "icmp_message ICMP_TYPE_ECHOREQUEST ICMP_CODE_ECHO ident seq data" and ?r = "icmp_message ICMP_TYPE_ECHOREPLY ICMP_CODE_ECHO ident seq data"
  note fq = icmp_message_facts [of ICMP_TYPE_ECHOREQUEST ICMP_CODE_ECHO ident seq data]
  note fr = icmp_message_facts [of ICMP_TYPE_ECHOREPLY ICMP_CODE_ECHO ident seq data]
  have u: "unat (of_nat (length data + 8) :: u32) = length data + 8" using assms(7) unfolding unat_of_nat by simp
  have lq: "length ?q = unat (pduLength (dataFrame ff))" "?q \<noteq> []" "8 \<le> length ?q" "length ?q + 20 < 65536"
    using u fq(1) assms(6,7) by auto
  obtain a' ms1 where r1: "icmp_out_fdf a ff = Inr a'" "queue_rep (m_output_queue a') (xs @ [ff\<lparr>metaData := Some ms1, destinationID := d1\<rparr>])"
      "meta_plain ms1" "map_of ms1 = (map_of ms)(''send_protocol'' \<mapsto> CInt ICMP_PT_ICMP)"
    by (rule icmp_out_sends [OF assms(1-3,5) lq(1,2) assms(8-10)])
  obtain f0 where "has_u32 ms ''send_family'' f0" "has_u32 ms ''send_src_ipv4'' src" "has_u32 ms ''send_dst_ipv4'' dst"
    using assms(3) by (auto simp: icmp_send_meta_def)
  note im = icmp_ip_meta [OF r1(3,4) this assms(4)]
  let ?r1 = "ff\<lparr>metaData := Some ms1, destinationID := d1\<rparr>"
  have r1p: "metaData ?r1 = Some ms1" "pdu (dataFrame ?r1) = Some ?q" "length ?q = unat (pduLength (dataFrame ?r1))"
    using assms(5) lq(1) by simp_all
  obtain i' r2 ri' r3 p ms3 where r3: "ipv4_out_fdf now i ?r1 = Inr i'" "newest i' r2" "destinationID r2 = d2"
      "ipv4_in_fdf ri (arrives rf r2) = Inr ri'" "newest ri' r3" "destinationID r3 = d3"
      "pdu (dataFrame r3) = Some p" "carries p ?q" "metaData r3 = Some ms3" "icmp_recv_meta ms3 2 src dst 255"
    by (rule icmp_over_ip [OF r1p(1) im r1p(2,3) lq(3,4) assms(11-16)])
  obtain b' ms4 r4 ms5 where r4: "icmp_in_fdf junk b r3 = Inr b'" "sent ws b [r3\<lparr>metaData := Some ms4, destinationID := d4\<rparr>, r4] b'"
      "destinationID r4 = d5" "metaData r4 = Some ms5" "meta_plain ms5"
      "map_of ms5 = [''send_protocol'' \<mapsto> CInt ICMP_PT_ICMP, ''send_family'' \<mapsto> CInt 2, ''send_src_ipv4'' \<mapsto> CInt dst, ''send_dst_ipv4'' \<mapsto> CInt src]"
      "dataFrame r4 = \<lparr>directionFlag = DIR_DOWN, pduLength = of_nat (length data + 8), pdu = Some ?r\<rparr>"
    by (rule icmp_request_answered [OF r3(7,9,10,8) assms(17-19)])
  have im5: "ip4_send_meta ms5 1 dst src None"
    by (rule icmp_ip_meta [OF r4(5), of ms5 2]) (use r4(6) ip_names in \<open>simp_all add: has_u32_def plain_send_def free_u32_def fun_eq_iff\<close>)
  have r4p: "pdu (dataFrame r4) = Some ?r" "length ?r = unat (pduLength (dataFrame r4))" "8 \<le> length ?r" "length ?r + 20 < 65536"
    using r4(7) fr(1) u assms(7) by simp_all
  obtain i2' r5 ri2' r6 q ms6 where r6: "ipv4_out_fdf now2 i2 r4 = Inr i2'" "newest i2' r5" "destinationID r5 = d6"
      "ipv4_in_fdf ri2 (arrives rf2 r5) = Inr ri2'" "newest ri2' r6" "destinationID r6 = d7"
      "pdu (dataFrame r6) = Some q" "carries q ?r" "metaData r6 = Some ms6" "icmp_recv_meta ms6 2 dst src 255"
    by (rule icmp_over_ip [OF r4(4) im5 r4p assms(20-25)])
  obtain a2' ms7 where r7: "icmp_in_fdf junk2 a2 r6 = Inr a2'" "sent vs a2 [r6\<lparr>metaData := Some ms7, destinationID := d8\<rparr>] a2'"
      "icmp_recv_meta ms7 2 dst src 255" "has_u32 ms7 ''recv_icmp_type'' 0"
    by (rule icmp_in_delivers [OF r6(7,9,10,8) fr(7,2) assms(26,27)])
  have qb: "queue_rep (m_output_queue b') (ws @ [r3\<lparr>metaData := Some ms4, destinationID := d4\<rparr>, r4])" using r4(2) by (simp add: sent_def)
  have q7: "newest a2' (r6\<lparr>metaData := Some ms7, destinationID := d8\<rparr>)" using r7(2) by (intro newestI [of _ vs]) (simp add: sent_def)
  have m7: "has_u32 ms7 ''recv_src_ipv4'' dst" "has_u32 ms7 ''recv_dst_ipv4'' src" using r7(3) by (simp_all add: icmp_recv_meta_def)
  have d: "destinationID ?r1 = d1" "destinationID (r3\<lparr>metaData := Some ms4, destinationID := d4\<rparr>) = d4"
      "pdu (dataFrame (r3\<lparr>metaData := Some ms4, destinationID := d4\<rparr>)) = Some p"
      "destinationID (r6\<lparr>metaData := Some ms7, destinationID := d8\<rparr>) = d8" "pdu (dataFrame (r6\<lparr>metaData := Some ms7, destinationID := d8\<rparr>)) = Some q"
      "metaData (r6\<lparr>metaData := Some ms7, destinationID := d8\<rparr>) = Some ms7"
    using r3(7) r6(7) by simp_all
  show ?thesis
    by (intro exI conjI) (rule r1(1) newestI [OF r1(2)] d r3 r4(1,3) qb r6 r7(1,4) q7 m7)+
qed

lemma ex_captured: "captured_meta []"
  using ex_ip_recv_free icmp_names by (simp add: captured_meta_def free_u32_def)

lemma ex_routes: "routes ex_ipv4 dst 2 []"
  unfolding routes_def using ex_ipv4_ready(1,2)
  by (simp add: ex_ipv4_def ex_addr_def ipv4_route_dst_test_def addr4_get_ip_def ex_addr4_def IPV4_ADDR_ANY_IP_def)

lemma ex_ipv4_icmp: "flow_to ex_ipv4 IPV4_FLOW_ICMP 2"
  by (simp add: flow_to_def ex_ipv4_def IPV4_FLOW_ICMP_def LINK_NULL_def)

theorem ping_answered_witness:
  "\<exists>a' r1 i' r2 ri' r3 b' f r4 i2' r5 ri2' r6 a2' r7 q.
      icmp_out_fdf ex_icmp (zeroFrame\<lparr>dataOrCtrl := FF_DATA, metaData := Some [(''send_family'', CInt 2), (''send_src_ipv4'', CInt 0xC0A80102),
        (''send_dst_ipv4'', CInt 0xC0A80102)], dataFrame := \<lparr>directionFlag = DIR_DOWN, pduLength = 10,
        pdu = Some (icmp_message ICMP_TYPE_ECHOREQUEST ICMP_CODE_ECHO 7 1 [5, 6])\<rparr>\<rparr>) = Inr a' \<and> newest a' r1
    \<and> ipv4_out_fdf 0 ex_ipv4 r1 = Inr i' \<and> newest i' r2 \<and> ipv4_in_fdf ex_ipv4 (arrives (zeroFrame\<lparr>metaData := Some []\<rparr>) r2) = Inr ri' \<and> newest ri' r3
    \<and> icmp_in_fdf 0 ex_icmp r3 = Inr b' \<and> queue_rep (m_output_queue b') [f, r4] \<and> ipv4_out_fdf 0 ex_ipv4 r4 = Inr i2' \<and> newest i2' r5
    \<and> ipv4_in_fdf ex_ipv4 (arrives (zeroFrame\<lparr>metaData := Some []\<rparr>) r5) = Inr ri2' \<and> newest ri2' r6
    \<and> icmp_in_fdf 0 ex_icmp r6 = Inr a2' \<and> newest a2' r7 \<and> pdu (dataFrame r7) = Some q
    \<and> carries q (icmp_message ICMP_TYPE_ECHOREPLY ICMP_CODE_ECHO 7 1 [5, 6])"
proof -
  let ?ms = "[(''send_family'', CInt 2), (''send_src_ipv4'', CInt 0xC0A80102), (''send_dst_ipv4'', CInt 0xC0A80102)]"
  let ?f = "zeroFrame\<lparr>dataOrCtrl := FF_DATA, metaData := Some ?ms, dataFrame := \<lparr>directionFlag = DIR_DOWN, pduLength = 10,
        pdu = Some (icmp_message ICMP_TYPE_ECHOREQUEST ICMP_CODE_ECHO 7 1 [5, 6])\<rparr>\<rparr>"
  let ?g = "zeroFrame\<lparr>metaData := Some []\<rparr>"
  have ms: "icmp_send_meta ?ms 0xC0A80102 0xC0A80102" "plain_send ?ms"
    using ip_names by (simp_all add: icmp_send_meta_def plain_send_def meta_plain_def has_u32_def free_u32_def plain_def)
  have s2: "space ex_icmp [] 2" using ex_icmp_ready(1) by (simp add: space_def)
  have f: "dataOrCtrl ?f = FF_DATA" "metaData ?f = Some ?ms" "pdu (dataFrame ?f) = Some (icmp_message ICMP_TYPE_ECHOREQUEST ICMP_CODE_ECHO 7 1 [5, 6])"
    "pduLength (dataFrame ?f) = of_nat (length [5 :: byte, 6] + 8)" "length [5 :: byte, 6] + 28 < 65536" "metaData ?g = Some []"
    "length (ic_sent_list (m_data ex_icmp)) < ic_sent_max (m_data ex_icmp)"
    by (simp_all add: ex_icmp_def)
  from ping_answered [OF f(1,2) ms f(3-5) ex_icmp_ready(2,3) f(7) ex_routes f(6) ex_captured ex_ip_local ex_ipv4_ready(1) ex_ipv4_icmp s2 ex_icmp_ready(5,3)
      ex_routes f(6) ex_captured ex_ip_local ex_ipv4_ready(1) ex_ipv4_icmp ex_icmp_ready(2,5), of 0 0 0 0, unfolded append_Nil]
  show ?thesis by (elim exE conjE) (intro exI conjI, assumption+)
qed

section \<open>Errors about datagrams\<close>

lemma strncmp_c_string:
  assumes "i + n \<le> length a" "i + n \<le> length b"
  shows "strncmp_eq a b i n = Inr (c_string (take n (drop i a)) = c_string (take n (drop i b)))"
  using assms
proof (induction n arbitrary: i)
  case (Suc n)
  have d: "drop i a = a ! i # drop (i + 1) a" "drop i b = b ! i # drop (i + 1) b"
    using Suc.prems by (simp_all add: Cons_nth_drop_Suc)
  have l: "load8 a (int i) = Inr (a ! i)" "load8 b (int i) = Inr (b ! i)"
    using Suc.prems by (simp_all add: load8_ok)
  show ?case using Suc.IH [of "i + 1"] Suc.prems l unfolding d by (auto simp: c_string_def)
qed (simp add: c_string_def)

lemma match_resembles:
  assumes "remembered x" "length q < 65536"
  shows "udp_sent_match_test x (of_nat (length q)) q = Inr (resembles q x)"
proof -
  obtain p where p: "pdu (dataFrame (us_ff x)) = Some p" "pduLength (dataFrame (us_ff x)) = of_nat (length p)" "length p < 65536"
    using assms(1) by (auto simp: remembered_def split: option.splits)
  have u: "unat (of_nat (length q) :: u32) = length q" "unat (of_nat (length p) :: u32) = length p"
    using assms(2) p(3) unfolding unat_of_nat by simp_all
  show ?thesis
  proof (cases "length q \<le> length p")
    case True
    then show ?thesis using p u strncmp_c_string [of 0 "length q" p q]
      by (simp add: udp_sent_match_test_def resembles_def word_le_nat_alt)
  next
    case False
    then show ?thesis using p u strncmp_c_string [of 0 "length p" p q]
      by (simp add: udp_sent_match_test_def resembles_def word_le_nat_alt)
  qed
qed

lemma find_sent_first:
  assumes "list_all remembered pre" "remembered x" "list_all (\<lambda>y. \<not> resembles q y) pre" "resembles q x" "length q < 65536"
  shows "find_sent (pre @ x # post) (of_nat (length q)) q i = Inr (Some (i + length pre))"
  using assms by (induction pre arbitrary: i) (simp_all add: match_resembles)

lemma names_disjoint:
  assumes "meta_plain ms" "meta_plain ns" "names_start s ms" "names_start t ns" "s \<noteq> t"
  shows "meta_ok (ms @ ns)" "map_of (ms @ ns) = map_of ns ++ map_of ms"
    "u \<in> dom (map_of ns) \<Longrightarrow> map_of (ms @ ns) u = map_of ns u" "u \<in> dom (map_of ms) \<Longrightarrow> map_of (ms @ ns) u = map_of ms u"
proof -
  have d: "dom (map_of ms) \<inter> dom (map_of ns) = {}" using assms(3-5) by (fastforce simp: names_start_def)
  then have "set (map fst ms) \<inter> set (map fst ns) = {}" by (simp add: dom_map_of_conv_image_fst)
  then show "meta_ok (ms @ ns)" using assms(1,2) by (auto simp: meta_plain_def meta_ok_def)
  show eq: "map_of (ms @ ns) = map_of ns ++ map_of ms" by simp
  show "u \<in> dom (map_of ns) \<Longrightarrow> map_of (ms @ ns) u = map_of ns u" "u \<in> dom (map_of ms) \<Longrightarrow> map_of (ms @ ns) u = map_of ms u"
    using d by (auto simp: eq map_add_def split: option.splits)
qed

text \<open>UDP gets a report; \<open>x\<close> is the first datagram it remembers that resembles the quoted bytes \<open>q\<close>.\<close>

lemma udp_forwards_error:
  assumes r: "dataOrCtrl r = FF_CONTROL" "metaData r = Some rms" "opcode (ctrlFrame r) = CTRL_ERROR"
      "param_id (ctrlFrame r) \<in> {UDP_ERROR_TTL, UDP_ERROR_DEST_UNREACH}"
      "ctrl_dat (ctrlFrame r) = CD_BYTES q" "data_len (ctrlFrame r) = of_nat (length q)" "length q < 65536"
    and x: "ud_sent_packet_list (m_data u) = pre @ x # post" "list_all remembered pre" "remembered x"
      "list_all (\<lambda>y. \<not> resembles q y) pre" "resembles q x"
    and n: "meta_plain rms" "names_start ''recv_'' rms"
    and q: "room u zs" "flow_to u UDP_FLOW_DAEMON e"
  obtains u' p sms where "udp_fcf u r = Inr u'" "ud_sent_packet_list (m_data u') = pre @ post"
    "pdu (dataFrame (us_ff x)) = Some p" "metaData (us_ff x) = Some sms" "meta_plain sms" "names_start ''send_'' sms"
    "queue_rep (m_output_queue u') (zs @ [r\<lparr>metaData := Some (rms @ sms),
       ctrlFrame := (ctrlFrame r)\<lparr>sender_id := ucast (m_index u), data_len := of_nat (length p), ctrl_dat := CD_BYTES p\<rparr>, destinationID := e\<rparr>])"
proof -
  obtain p sms where p: "pdu (dataFrame (us_ff x)) = Some p" "pduLength (dataFrame (us_ff x)) = of_nat (length p)"
      "metaData (us_ff x) = Some sms" "meta_plain sms" "names_start ''send_'' sms" "dataOrCtrl (us_ff x) = FF_DATA"
    using x(3) by (auto simp: remembered_def split: option.splits)
  have fnd: "find_sent (pre @ x # post) (of_nat (length q)) q 0 = Inr (Some (length pre))"
    using find_sent_first [OF x(2-5) r(7), of post 0] by simp
  have ok: "meta_ok (rms @ sms)" by (rule names_disjoint(1) [OF n(1) p(4) n(2) p(5)]) simp
  have cp: "metadata_copy sms rms = Inr (True, rms @ sms)"
    using copy_loop_ok [OF ok, of 0] p(4) by (simp add: metadata_copy_def meta_plain_def)
  let ?r = "r\<lparr>metaData := Some (rms @ sms),
       ctrlFrame := (ctrlFrame r)\<lparr>sender_id := ucast (m_index u), data_len := of_nat (length p), ctrl_dat := CD_BYTES p\<rparr>\<rparr>"
  obtain u1 where u1: "send_or_free u ?r UDP_FLOW_DAEMON = Inr u1" "sent zs u [?r\<lparr>destinationID := e\<rparr>] u1" by (rule send_single [OF q])
  let ?sf = "(us_ff x)\<lparr>dataFrame := (dataFrame (us_ff x))\<lparr>pdu := None\<rparr>\<rparr>"
  let ?u = "(set_sent (pre @ post) u1)\<lparr>m_freed := m_freed u1 @ [?sf]\<rparr>"
  have fr: "udp_sent_free (x\<lparr>us_ff := ?sf\<rparr>) (set_sent (pre @ post) u1) = Inr ?u" using p(6) by (simp add: udp_sent_free_def free_ff_ctrl)
  have "udp_error_forward u r = Inr ?u"
    unfolding udp_error_forward_def Let_def x(1) r(5,6) using r(2) fnd p(1-3) cp u1(1) fr by (simp add: data_bytes_def)
  then have "udp_fcf u r = Inr ?u" using r(3,4) by (auto simp: udp_fcf_def udp_error_def Let_def CTRL_defs)
  moreover have "queue_rep (m_output_queue ?u) (zs @ [?r\<lparr>destinationID := e\<rparr>])" using u1(2) by (simp add: sent_def)
  ultimately show thesis using that [of ?u p sms] p by simp
qed

text \<open>A datagram to port 53 has its first zero byte right behind the source port, if not in it.\<close>

lemma c_string_datagram:
  assumes "3 \<le> n"
  shows "c_string (take n (datagram src sp dst 53 data)) = c_string [hi8 (ucast sp), lo8 (ucast sp)]"
proof -
  have z: "hi8 53 = 0" by (simp add: hi8_def)
  obtain r where "datagram src sp dst 53 data = [hi8 (ucast sp), lo8 (ucast sp), 0] @ r"
    using z by (simp add: datagram_def build_datagram_def put16_def mem16_def htons_def Let_def)
  moreover have "take n ([x, y, 0] @ r) = [x, y, 0] @ take (n - 3) r" for x y :: byte and r unfolding take_append using assms by (simp add: numeral_3_eq_3)
  ultimately show ?thesis by (simp add: c_string_def)
qed

text \<open>
  C4: an error about a datagram reaches the application. UDP sends a datagram and remembers it behind those it sent before, as long as its list has
  space; later a port unreachable or time exceeded message arrives that quotes an IPv4 header and at least the first 8 bytes of the datagram. ICMP hands the
  message to the daemon and a report to UDP, which may have sent more in the meantime. UDP reports the error to the daemon
  with the first datagram it remembers that agrees with the quoted bytes up to a zero byte, whole, with the metadata it was sent with and that
  of the message, and forgets that datagram and no other. This is the datagram the error is about whenever no
  datagram sent before it agrees with the quoted bytes that far; otherwise it is the older one.
\<close>

theorem udp_error_reported:
  assumes "dataOrCtrl ff = FF_DATA" "metaData ff = Some ms" "send_meta ms src sp dst dp" "names_start ''send_'' ms"
    "pdu (dataFrame ff) = Some data" "length data = unat (pduLength (dataFrame ff))" "length data + 8 < 65536"
    "room u xs" "flow_to u UDP_FLOW_IPV4 d"
    "list_all remembered (ud_sent_packet_list (m_data u))" "length (ud_sent_packet_list (m_data u)) < ud_sent_max (m_data u)"
    "pdu (dataFrame gg) = Some p" "metaData gg = Some rms" "icmp_recv_meta rms family from host ttl" "names_start ''recv_'' rms"
    "carries p (icmp_message type code a b (hdr @ quote))" "length hdr = 20" "hdr ! 0 AND 0xf = 5" "hdr ! 9 = 17"
    "quote = take k (datagram src sp dst dp data)" "8 \<le> k"
    "icmp_reports type code param" "type = ICMP_TYPE_DESTUNREACH \<longrightarrow> code = ICMP_CODE_PORTUNREACH"
    "space ic ys 2" "flow_to ic ICMP_FLOW_DAEMON d1" "flow_to ic ICMP_FLOW_UDP d2"
  shows "\<exists>u' r1 new nms ic' f r2. udp_out_fdf u ff = Inr u' \<and> queue_rep (m_output_queue u') (xs @ [r1]) \<and> pdu (dataFrame r1) = Some (datagram src sp dst dp data)
    \<and> ud_sent_packet_list (m_data u') = ud_sent_packet_list (m_data u) @ [new] \<and> pdu (dataFrame (us_ff new)) = Some (datagram src sp dst dp data)
    \<and> metaData (us_ff new) = Some nms \<and> has_u32 nms ''send_src_port'' sp \<and> has_u32 nms ''send_dst_port'' dp
    \<and> icmp_in_fdf junk ic gg = Inr ic' \<and> queue_rep (m_output_queue ic') (ys @ [f, r2]) \<and> destinationID f = d1 \<and> destinationID r2 = d2
    \<and> (\<forall>u2 later zs e. ud_sent_packet_list (m_data u2) = ud_sent_packet_list (m_data u') @ later \<and> room u2 zs \<and> flow_to u2 UDP_FLOW_DAEMON e \<longrightarrow>
        (\<exists>pre x post u3 r3 bs sms ms3. ud_sent_packet_list (m_data u2) = pre @ x # post
          \<and> list_all (\<lambda>y. \<not> resembles quote y) pre \<and> resembles quote x
          \<and> (list_all (\<lambda>y. \<not> resembles quote y) (ud_sent_packet_list (m_data u)) \<longrightarrow> x = new)
          \<and> udp_fcf u2 r2 = Inr u3 \<and> queue_rep (m_output_queue u3) (zs @ [r3]) \<and> destinationID r3 = e
          \<and> opcode (ctrlFrame r3) = CTRL_ERROR \<and> param_id (ctrlFrame r3) = param
          \<and> pdu (dataFrame (us_ff x)) = Some bs \<and> ctrl_dat (ctrlFrame r3) = CD_BYTES bs
          \<and> metaData (us_ff x) = Some sms \<and> metaData r3 = Some ms3 \<and> (\<forall>t v. has_u32 sms t v \<longrightarrow> has_u32 ms3 t v)
          \<and> has_u32 ms3 ''recv_src_ipv4'' from \<and> has_u32 ms3 ''recv_icmp_type'' (ucast type) \<and> has_u32 ms3 ''recv_icmp_code'' (ucast code)
          \<and> ud_sent_packet_list (m_data u3) = pre @ post))"
proof -
  let ?dg = "datagram src sp dst dp data" and ?msg = "icmp_message type code a b (hdr @ take k (datagram src sp dst dp data))"
  let ?old = "ud_sent_packet_list (m_data u)"
  note dg = datagram_facts [OF assms(7), where src = src and sp = sp and dst = dst and dp = dp]
  obtain u' r1 ff1 ms1 where r0: "udp_out_fdf u ff = Inr u'" "queue_rep (m_output_queue u') (xs @ [r1])" "pdu (dataFrame r1) = Some ?dg"
      "ud_sent_packet_list (m_data u') = ?old @ [udp_sent_create ff1 src (ucast sp) dst (ucast dp)]"
      "pduLength (dataFrame r1) = of_nat (length data + 8)" "metaData r1 = Some ms1" "dataOrCtrl r1 = FF_DATA"
      "meta_plain ms1" "map_of ms1 = (map_of ms)(''send_protocol'' \<mapsto> CInt UDP_PT_UDP)" "r1 = ff1\<lparr>destinationID := d\<rparr>"
    using udp_out_sends [OF assms(1-3,5-9,11)] by blast
  let ?x = "udp_sent_create ff1 src (ucast sp) dst (ucast dp)"
  have nsend: "names_start ''send_'' ms1" using r0(9) assms(4) by (auto simp: names_start_def)
  have x: "pdu (dataFrame (us_ff ?x)) = Some ?dg" "metaData (us_ff ?x) = Some ms1" "remembered ?x"
    using r0(3,5-8,10) nsend assms(7) dg(3) by (simp_all add: udp_sent_create_def remembered_def)
  have lq: "length quote < 65536" "length quote \<le> length ?dg" using assms(7,20) dg(3) by simp_all
  have tq: "take (length quote) ?dg = quote" unfolding assms(20) by (cases "k \<le> length ?dg") simp_all
  have rx: "resembles quote ?x" using x(1) lq(2) tq by (simp add: resembles_def min_absorb2)
  have ports: "has_u32 ms1 ''send_src_port'' sp" "has_u32 ms1 ''send_dst_port'' dp"
    using r0(9) assms(3) by (simp_all add: send_meta_def has_u32_def)
  note mf = icmp_message_facts [of type code a b "hdr @ take k ?dg"]
  have lm: "36 \<le> length ?msg" using mf(1) assms(17,21) dg(3) by simp
  have at: "?msg ! (8 + j) = hdr ! j" if "j < 20" for j
  proof -
    have "8 \<le> length ?msg" using lm by simp
    then have "?msg ! (8 + j) = drop 8 ?msg ! j" by (rule nth_drop [symmetric])
    then show ?thesis unfolding mf(4) using that assms(17) by (simp add: nth_append)
  qed
  have m8: "?msg ! 8 AND 0xf = 5" "?msg ! 17 = 17" using at [of 0] at [of 9] assms(18,19) by simp_all
  have d28: "drop 28 ?msg = quote"
  proof -
    have "drop 28 ?msg = drop 20 (drop 8 ?msg)" by simp
    then show ?thesis unfolding mf(4) using assms(17,20) by simp
  qed
  have c: "icmp_reports (?msg ! 0) (?msg ! 1) param" "?msg ! 0 = ICMP_TYPE_DESTUNREACH \<longrightarrow> ?msg ! 1 = ICMP_CODE_PORTUNREACH"
    using assms(22,23) unfolding mf(2,3) by simp_all
  have car: "carries p ?msg" using assms(16,20) by simp
  obtain ic' ms4 ms2 r2 n ic1 where r2: "icmp_in_fdf junk ic gg = Inr ic'" "icmp_serial ic = (n, ic1)"
      "sent ys ic1 [gg\<lparr>metaData := Some ms4, destinationID := d1\<rparr>, r2] ic'" "udp_report ic param ms2 (drop 28 ?msg) d2 r2"
      "icmp_recv_meta ms2 family from host ttl"
      "map_of ms2 = (map_of rms)(''recv_icmp_type'' \<mapsto> CInt (ucast (?msg ! 0)), ''recv_icmp_code'' \<mapsto> CInt (ucast (?msg ! 1)))"
    by (rule icmp_error_reported [OF assms(12-14) car lm m8 mf(7) c assms(24-26)])
  have qr: "queue_rep (m_output_queue ic') (ys @ [gg\<lparr>metaData := Some ms4, destinationID := d1\<rparr>, r2])" using r2(3) by (simp add: sent_def)
  have rp: "dataOrCtrl r2 = FF_CONTROL" "metaData r2 = Some ms2" "opcode (ctrlFrame r2) = CTRL_ERROR"
      "param_id (ctrlFrame r2) \<in> {UDP_ERROR_TTL, UDP_ERROR_DEST_UNREACH}" "ctrl_dat (ctrlFrame r2) = CD_BYTES quote"
      "data_len (ctrlFrame r2) = of_nat (length quote)" "destinationID r2 = d2" "param_id (ctrlFrame r2) = param"
    using r2(4) assms(22) unfolding d28
    by (auto simp: udp_report_def icmp_reports_def UDP_ERROR_TTL_def UDP_ERROR_DEST_UNREACH_def ICMP_ERROR_TTL_def ICMP_ERROR_DEST_UNREACH_def)
  have nm: "meta_plain ms2" "names_start ''recv_'' ms2"
    using r2(5,6) assms(15) by (auto simp: names_start_def icmp_recv_meta_def)
  have recv: "has_u32 ms2 ''recv_src_ipv4'' from" "has_u32 ms2 ''recv_icmp_type'' (ucast type)" "has_u32 ms2 ''recv_icmp_code'' (ucast code)"
    using r2(5,6) mf(2,3) icmp_names by (simp_all add: has_u32_def icmp_recv_meta_def)
  have last: "\<exists>pre x post u3 r3 bs sms ms3. ud_sent_packet_list (m_data u2) = pre @ x # post
          \<and> list_all (\<lambda>y. \<not> resembles quote y) pre \<and> resembles quote x
          \<and> (list_all (\<lambda>y. \<not> resembles quote y) ?old \<longrightarrow> x = ?x)
          \<and> udp_fcf u2 r2 = Inr u3 \<and> queue_rep (m_output_queue u3) (zs @ [r3]) \<and> destinationID r3 = e
          \<and> opcode (ctrlFrame r3) = CTRL_ERROR \<and> param_id (ctrlFrame r3) = param
          \<and> pdu (dataFrame (us_ff x)) = Some bs \<and> ctrl_dat (ctrlFrame r3) = CD_BYTES bs
          \<and> metaData (us_ff x) = Some sms \<and> metaData r3 = Some ms3 \<and> (\<forall>t v. has_u32 sms t v \<longrightarrow> has_u32 ms3 t v)
          \<and> has_u32 ms3 ''recv_src_ipv4'' from \<and> has_u32 ms3 ''recv_icmp_type'' (ucast type) \<and> has_u32 ms3 ''recv_icmp_code'' (ucast code)
          \<and> ud_sent_packet_list (m_data u3) = pre @ post"
    if u2: "ud_sent_packet_list (m_data u2) = ud_sent_packet_list (m_data u') @ later" "room u2 zs" "flow_to u2 UDP_FLOW_DAEMON e" for u2 later zs e
  proof -
    have "\<exists>y \<in> set (?old @ [?x]). resembles quote y" using rx by simp
    then obtain pre y post where y: "?old @ [?x] = pre @ y # post" "resembles quote y" "\<forall>z \<in> set pre. \<not> resembles quote z"
      using split_list_first_prop [of "?old @ [?x]" "resembles quote"] by blast
    have l2: "ud_sent_packet_list (m_data u2) = pre @ y # (post @ later)" using u2(1) r0(4) y(1) by simp
    have "list_all remembered (pre @ y # post)" using assms(10) x(3) unfolding y(1) [symmetric] by simp
    then have rem: "list_all remembered pre" "remembered y" by simp_all
    have pre: "list_all (\<lambda>y. \<not> resembles quote y) pre" using y(3) by (simp add: list_all_iff)
    have "y \<in> set (?old @ [?x])" unfolding y(1) by simp
    then have own: "list_all (\<lambda>y. \<not> resembles quote y) ?old \<longrightarrow> y = ?x" using y(2) by (auto simp: list_all_iff)
    obtain u3 bs sms where u3: "udp_fcf u2 r2 = Inr u3" "ud_sent_packet_list (m_data u3) = pre @ post @ later"
        "pdu (dataFrame (us_ff y)) = Some bs" "metaData (us_ff y) = Some sms" "meta_plain sms" "names_start ''send_'' sms"
        "queue_rep (m_output_queue u3) (zs @ [r2\<lparr>metaData := Some (ms2 @ sms),
           ctrlFrame := (ctrlFrame r2)\<lparr>sender_id := ucast (m_index u2), data_len := of_nat (length bs), ctrl_dat := CD_BYTES bs\<rparr>, destinationID := e\<rparr>])"
      by (rule udp_forwards_error [OF rp(1-6) lq(1) l2 rem pre y(2) nm u2(2,3)])
    let ?r = "r2\<lparr>metaData := Some (ms2 @ sms),
       ctrlFrame := (ctrlFrame r2)\<lparr>sender_id := ucast (m_index u2), data_len := of_nat (length bs), ctrl_dat := CD_BYTES bs\<rparr>, destinationID := e\<rparr>"
    note dj = names_disjoint(3,4) [OF nm(1) u3(5) nm(2) u3(6)]
    have has: "\<forall>t v. has_u32 sms t v \<longrightarrow> has_u32 (ms2 @ sms) t v" "has_u32 (ms2 @ sms) ''recv_src_ipv4'' from"
        "has_u32 (ms2 @ sms) ''recv_icmp_type'' (ucast type)" "has_u32 (ms2 @ sms) ''recv_icmp_code'' (ucast code)"
      using dj recv by (auto simp: has_u32_def dom_def)
    have f: "destinationID ?r = e" "opcode (ctrlFrame ?r) = CTRL_ERROR" "param_id (ctrlFrame ?r) = param" "ctrl_dat (ctrlFrame ?r) = CD_BYTES bs"
        "metaData ?r = Some (ms2 @ sms)"
      using rp(3,8) by simp_all
    show ?thesis
      by (intro exI [of _ pre] exI [of _ y] exI [of _ "post @ later"] exI [of _ u3] exI [of _ ?r] exI [of _ bs] exI [of _ sms] exI [of _ "ms2 @ sms"] conjI)
        (rule l2 pre y(2) own u3 f has)+
  qed
  show ?thesis
    using r0(1-4) x(1,2) ports r2(1) qr rp(7) last
    by (intro exI [of _ u'] exI [of _ r1] exI [of _ ?x] exI [of _ ms1] exI [of _ ic'] exI [of _ "gg\<lparr>metaData := Some ms4, destinationID := d1\<rparr>"] exI [of _ r2]) simp
qed

text \<open>
  The witness: UDP remembers a datagram from another port, and the error is reported about the new datagram; or UDP remembers another one
  between the same ports, whose first zero byte is in the port 53, and the error is reported about that one.
\<close>

theorem udp_error_reported_witness:
  "(\<exists>u' ic' f r2 u3 r3. udp_out_fdf (set_sent [ex_old 6000] ex_udp) (ex_frame\<lparr>metaData := Some ex_udp_meta\<rparr>) = Inr u'
    \<and> icmp_in_fdf 0 ex_icmp (ex_icmp_frame (icmp_message ICMP_TYPE_DESTUNREACH ICMP_CODE_PORTUNREACH 0 0
        (take 20 (ex_quote 0x45) @ take 8 (datagram 0xC0A80101 5000 0xC0A80102 53 [9])))) = Inr ic'
    \<and> queue_rep (m_output_queue ic') [f, r2] \<and> udp_fcf (ex_udp\<lparr>m_data := m_data u'\<rparr>) r2 = Inr u3 \<and> queue_rep (m_output_queue u3) [r3]
    \<and> ctrl_dat (ctrlFrame r3) = CD_BYTES (datagram 0xC0A80101 5000 0xC0A80102 53 [9]) \<and> ud_sent_packet_list (m_data u3) = [ex_old 6000])
  \<and> (\<exists>u' ic' f r2 u3 r3. udp_out_fdf (set_sent [ex_old 5000] ex_udp) (ex_frame\<lparr>metaData := Some ex_udp_meta\<rparr>) = Inr u'
    \<and> icmp_in_fdf 0 ex_icmp (ex_icmp_frame (icmp_message ICMP_TYPE_DESTUNREACH ICMP_CODE_PORTUNREACH 0 0
        (take 20 (ex_quote 0x45) @ take 8 (datagram 0xC0A80101 5000 0xC0A80102 53 [9])))) = Inr ic'
    \<and> queue_rep (m_output_queue ic') [f, r2] \<and> udp_fcf (ex_udp\<lparr>m_data := m_data u'\<rparr>) r2 = Inr u3 \<and> queue_rep (m_output_queue u3) [r3]
    \<and> ctrl_dat (ctrlFrame r3) = CD_BYTES (datagram 0xC0A80101 5000 0xC0A80102 53 [1]))"
proof -
  let ?dg = "datagram 0xC0A80101 5000 0xC0A80102 53 [9]" and ?h = "take 20 (ex_quote 0x45)"
  let ?q = "take 8 ?dg" and ?u = "\<lambda>sp. set_sent [ex_old sp] ex_udp"
  let ?msg = "icmp_message ICMP_TYPE_DESTUNREACH ICMP_CODE_PORTUNREACH 0 0 (?h @ ?q)"
  let ?f = "ex_frame\<lparr>metaData := Some ex_udp_meta\<rparr>"
  have ldg: "length ?dg = 9" using datagram_facts(3) [of "[9]"] by simp
  have lm: "length ?msg = 36" using ldg by (simp add: icmp_message_facts ex_quote_def)
  have c: "carries ([0x45, 0, 0, of_nat (length ?msg + 20), 0, 0, 0, 0, 64, 1, 0, 0, 192, 168, 1, 2, 192, 168, 1, 1] @ ?msg) ?msg"
    by (rule ex_icmp_carries) (simp_all add: lm)
  have f: "dataOrCtrl ?f = FF_DATA" "metaData ?f = Some ex_udp_meta" "pdu (dataFrame ?f) = Some [9]"
    "length [9 :: byte] = unat (pduLength (dataFrame ?f))" "length [9 :: byte] + 8 < 65536"
    by (simp_all add: ex_frame_def)
  have g: "pdu (dataFrame (ex_icmp_frame ?msg)) = Some ([0x45, 0, 0, of_nat (length ?msg + 20), 0, 0, 0, 0, 64, 1, 0, 0, 192, 168, 1, 2, 192, 168, 1, 1] @ ?msg)"
    "metaData (ex_icmp_frame ?msg) = Some ex_icmp_recv" by (simp_all add: ex_icmp_frame_def)
  have h: "length ?h = 20" "?h ! 0 AND 0xf = 5" "?h ! 9 = 17" by (simp_all add: ex_quote_def)
  have nm: "names_start ''send_'' ex_udp_meta" "names_start ''recv_'' ex_icmp_recv"
    by (auto simp: names_start_def ex_udp_meta_def ex_icmp_recv_def split: if_splits)
  have rem: "list_all remembered (ud_sent_packet_list (m_data (?u sp)))" "length (ud_sent_packet_list (m_data (?u sp))) < ud_sent_max (m_data (?u sp))" for sp
    using nm(1) ex_udp_send_meta datagram_facts(3) [where data = "[1]" and src = "0xC0A80101" and sp = sp and dst = "0xC0A80102" and dp = 53]
    by (simp_all add: set_sent_def ex_udp_def remembered_def ex_old_def udp_sent_create_def ex_frame_def send_meta_def)
  have s2: "space ex_icmp [] 2" using ex_icmp_ready(1) by (simp add: space_def)
  have rep: "icmp_reports ICMP_TYPE_DESTUNREACH ICMP_CODE_PORTUNREACH ICMP_ERROR_DEST_UNREACH" by (simp add: icmp_reports_def)
  have imp: "ICMP_TYPE_DESTUNREACH = ICMP_TYPE_DESTUNREACH \<longrightarrow> ICMP_CODE_PORTUNREACH = ICMP_CODE_PORTUNREACH" by simp
  have u: "room (?u sp) []" "flow_to (?u sp) UDP_FLOW_IPV4 4" for sp using ex_udp_ready(1,2) by (simp_all add: set_sent_def)
  have r: "room (ex_udp\<lparr>m_data := x\<rparr>) []" "flow_to (ex_udp\<lparr>m_data := x\<rparr>) UDP_FLOW_DAEMON 4" for x using ex_udp_ready(1,3) by simp_all
  have run: "\<exists>u' new ic' f1 r2 pre x post u3 r3 bs. udp_out_fdf (?u sp) ?f = Inr u' \<and> pdu (dataFrame (us_ff new)) = Some ?dg
      \<and> icmp_in_fdf 0 ex_icmp (ex_icmp_frame ?msg) = Inr ic' \<and> queue_rep (m_output_queue ic') [f1, r2]
      \<and> [ex_old sp, new] = pre @ x # post \<and> list_all (\<lambda>y. \<not> resembles ?q y) pre \<and> resembles ?q x \<and> (\<not> resembles ?q (ex_old sp) \<longrightarrow> x = new)
      \<and> udp_fcf (ex_udp\<lparr>m_data := m_data u'\<rparr>) r2 = Inr u3 \<and> queue_rep (m_output_queue u3) [r3]
      \<and> pdu (dataFrame (us_ff x)) = Some bs \<and> ctrl_dat (ctrlFrame r3) = CD_BYTES bs \<and> ud_sent_packet_list (m_data u3) = pre @ post" for sp
  proof -
    have old: "ud_sent_packet_list (m_data (?u sp)) = [ex_old sp]" by (simp add: set_sent_def)
    obtain u' new ic' f1 r2 where o: "udp_out_fdf (?u sp) ?f = Inr u'" "pdu (dataFrame (us_ff new)) = Some ?dg"
        "ud_sent_packet_list (m_data u') = ud_sent_packet_list (m_data (?u sp)) @ [new]"
        "icmp_in_fdf 0 ex_icmp (ex_icmp_frame ?msg) = Inr ic'" "queue_rep (m_output_queue ic') ([] @ [f1, r2])"
        "\<forall>u2 later zs e. ud_sent_packet_list (m_data u2) = ud_sent_packet_list (m_data u') @ later \<and> room u2 zs \<and> flow_to u2 UDP_FLOW_DAEMON e \<longrightarrow>
          (\<exists>pre x post u3 r3 bs sms ms3. ud_sent_packet_list (m_data u2) = pre @ x # post
            \<and> list_all (\<lambda>y. \<not> resembles ?q y) pre \<and> resembles ?q x
            \<and> (list_all (\<lambda>y. \<not> resembles ?q y) (ud_sent_packet_list (m_data (?u sp))) \<longrightarrow> x = new)
            \<and> udp_fcf u2 r2 = Inr u3 \<and> queue_rep (m_output_queue u3) (zs @ [r3]) \<and> destinationID r3 = e
            \<and> opcode (ctrlFrame r3) = CTRL_ERROR \<and> param_id (ctrlFrame r3) = ICMP_ERROR_DEST_UNREACH
            \<and> pdu (dataFrame (us_ff x)) = Some bs \<and> ctrl_dat (ctrlFrame r3) = CD_BYTES bs
            \<and> metaData (us_ff x) = Some sms \<and> metaData r3 = Some ms3 \<and> (\<forall>t v. has_u32 sms t v \<longrightarrow> has_u32 ms3 t v)
            \<and> has_u32 ms3 ''recv_src_ipv4'' 0xC0A80102 \<and> has_u32 ms3 ''recv_icmp_type'' (ucast ICMP_TYPE_DESTUNREACH)
            \<and> has_u32 ms3 ''recv_icmp_code'' (ucast ICMP_CODE_PORTUNREACH) \<and> ud_sent_packet_list (m_data u3) = pre @ post)"
      using udp_error_reported [OF f(1,2) ex_udp_send_meta nm(1) f(3-5) u [of sp] rem [of sp] g ex_icmp_recv_meta nm(2) c h refl order_refl rep imp s2 ex_icmp_ready(5,4), where junk = 0]
      by blast
    have l2: "ud_sent_packet_list (m_data (ex_udp\<lparr>m_data := m_data u'\<rparr>)) = ud_sent_packet_list (m_data u') @ []" by simp
    from o(6) [rule_format, OF conjI [OF l2 conjI [OF r]]] obtain pre x post u3 r3 bs where x:
        "ud_sent_packet_list (m_data (ex_udp\<lparr>m_data := m_data u'\<rparr>)) = pre @ x # post" "list_all (\<lambda>y. \<not> resembles ?q y) pre" "resembles ?q x"
        "list_all (\<lambda>y. \<not> resembles ?q y) (ud_sent_packet_list (m_data (?u sp))) \<longrightarrow> x = new"
        "udp_fcf (ex_udp\<lparr>m_data := m_data u'\<rparr>) r2 = Inr u3" "queue_rep (m_output_queue u3) ([] @ [r3])"
        "pdu (dataFrame (us_ff x)) = Some bs" "ctrl_dat (ctrlFrame r3) = CD_BYTES bs" "ud_sent_packet_list (m_data u3) = pre @ post" by blast
    have l: "[ex_old sp, new] = pre @ x # post" using x(1) o(3) old by simp
    have y: "\<not> resembles ?q (ex_old sp) \<longrightarrow> x = new" using x(4) old by simp
    show ?thesis
      by (intro exI conjI) (rule o(1,2,4) o(5) [unfolded append_Nil] l x(2,3) y x(5) x(6) [unfolded append_Nil] x(7-9))+
  qed
  have old: "\<not> resembles ?q (ex_old 6000)" "resembles ?q (ex_old 5000)"
    using c_string_datagram [of 8 "0xC0A80101" 5000 "0xC0A80102" "[9]"] c_string_datagram [of 8 "0xC0A80101" 5000 "0xC0A80102" "[1]"]
      c_string_datagram [of 8 "0xC0A80101" 6000 "0xC0A80102" "[1]"] ldg
      datagram_facts(3) [where data = "[1]" and src = "0xC0A80101" and dst = "0xC0A80102" and dp = 53]
    by (simp_all add: resembles_def ex_old_def udp_sent_create_def) (simp_all add: c_string_def hi8_def lo8_def)
  show ?thesis
  proof
    from run [of 6000] old(1) show "\<exists>u' ic' f r2 u3 r3. udp_out_fdf (?u 6000) ?f = Inr u' \<and> icmp_in_fdf 0 ex_icmp (ex_icmp_frame ?msg) = Inr ic'
        \<and> queue_rep (m_output_queue ic') [f, r2] \<and> udp_fcf (ex_udp\<lparr>m_data := m_data u'\<rparr>) r2 = Inr u3 \<and> queue_rep (m_output_queue u3) [r3]
        \<and> ctrl_dat (ctrlFrame r3) = CD_BYTES ?dg \<and> ud_sent_packet_list (m_data u3) = [ex_old 6000]"
      by (auto simp: Cons_eq_append_conv) blast+
    from run [of 5000] old(2) show "\<exists>u' ic' f r2 u3 r3. udp_out_fdf (?u 5000) ?f = Inr u' \<and> icmp_in_fdf 0 ex_icmp (ex_icmp_frame ?msg) = Inr ic'
        \<and> queue_rep (m_output_queue ic') [f, r2] \<and> udp_fcf (ex_udp\<lparr>m_data := m_data u'\<rparr>) r2 = Inr u3 \<and> queue_rep (m_output_queue u3) [r3]
        \<and> ctrl_dat (ctrlFrame r3) = CD_BYTES (datagram 0xC0A80101 5000 0xC0A80102 53 [1])"
      by (auto simp: Cons_eq_append_conv ex_old_def udp_sent_create_def) blast+
  qed
qed

end
