(* ===== verification/Arp_Module.thy ===== *)
theory Arp_Module
  imports Module_Common "HOL-Library.Multiset"
begin

text \<open>
  The ARP module, \<^verbatim>\<open>trunk/modules/arp\<close>: its messages, the cache of addresses it is looking for or has found, the
  requests that wait for an answer, the retransmission timer and the thread that serves them.

  The lists of caches and requests are HOL lists with the capacity of the C list beside them. The timer of a cache is
  the number of milliseconds it was armed with, \<open>None\<close> when it is stopped. The clock is an argument of the operations
  that read it; it does not advance within one of them.
\<close>

unbundle bit_operations_syntax

section \<open>Time\<close>

record timeval =
  tv_sec :: int
  tv_usec :: int

text \<open>
  The difference of two times in microseconds. The code computes milliseconds in double precision; its only use
  compares them with a whole number of seconds, where the rounding does not matter.
\<close>

definition time_diff :: "timeval \<Rightarrow> timeval \<Rightarrow> int" where
  "time_diff time1 time2 =
    (if tv_usec time1 > tv_usec time2
     then (1000000 + tv_usec time2 - tv_usec time1) + 1000000 * (tv_sec time2 - tv_sec time1 - 1)
     else (tv_usec time2 - tv_usec time1) + 1000000 * (tv_sec time2 - tv_sec time1))"

section \<open>Messages\<close>

definition ARP_OP_REQUEST :: u16 where "ARP_OP_REQUEST = 1"
definition ARP_OP_REPLY :: u16 where "ARP_OP_REPLY = 2"
definition ARP_HWD_TYPE :: u16 where "ARP_HWD_TYPE = 1"
definition ARP_PROTOCOL_TYPE :: u16 where "ARP_PROTOCOL_TYPE = 0x800"
definition ARP_HDW_ADDR_LEN :: u8 where "ARP_HDW_ADDR_LEN = 6"
definition ARP_PROTOCOL_ADDR_LEN :: u8 where "ARP_PROTOCOL_ADDR_LEN = 4"
definition ARP_TYPE :: u32 where "ARP_TYPE = 0x0806"
definition ARP_MAC_BROADCAST :: u64 where "ARP_MAC_BROADCAST = 0xFFFFFFFFFFFF"
definition ARP_MAC_NULL :: u64 where "ARP_MAC_NULL = 0"
definition ARP_IP_NULL :: u32 where "ARP_IP_NULL = 0"
definition ARP_IF_LIST_MAX :: nat where "ARP_IF_LIST_MAX = 256"
definition ARP_REQUEST_LIST_MAX :: nat where "ARP_REQUEST_LIST_MAX = 2 * 65536"
definition ARP_RETRANS_TO_DEFAULT :: nat where "ARP_RETRANS_TO_DEFAULT = 1000"
definition ARP_CACHE_TO_DEFAULT :: int where "ARP_CACHE_TO_DEFAULT = 50000"
definition ARP_RETRIES :: int where "ARP_RETRIES = 2"
definition ARP_CACHE_LIST_MAX :: nat where "ARP_CACHE_LIST_MAX = 8192"
definition ARP_MAX_FLOWS :: u32 where "ARP_MAX_FLOWS = 1"
definition ARP_FLOW_INTERFACE :: u32 where "ARP_FLOW_INTERFACE = 0"
definition ARP_EXEC_GET_ADDR :: u32 where "ARP_EXEC_GET_ADDR = 0"
definition ARP_EXEC_GET_ADDR__id :: u32 where "ARP_EXEC_GET_ADDR__id = 1"
definition SIZEOF_ARP_HDR :: u32 where "SIZEOF_ARP_HDR = 28"

lemmas ARP_defs = ARP_OP_REQUEST_def ARP_OP_REPLY_def ARP_HWD_TYPE_def ARP_PROTOCOL_TYPE_def ARP_HDW_ADDR_LEN_def
  ARP_PROTOCOL_ADDR_LEN_def ARP_MAC_NULL_def ARP_IP_NULL_def

record arp_message =
  am_hardware_type :: u16
  am_protocol_type :: u16
  am_hardware_addrs_length :: u8
  am_protocol_addrs_length :: u8
  am_operation :: u16
  am_sender_MAC_addrs :: u64
  am_sender_IP_addrs :: u32
  am_target_MAC_addrs :: u64
  am_target_IP_addrs :: u32

definition gen_MAC_addrs :: "u8 \<Rightarrow> u8 \<Rightarrow> u8 \<Rightarrow> u8 \<Rightarrow> u8 \<Rightarrow> u8 \<Rightarrow> u64" where
  "gen_MAC_addrs a b c d e f =
    1099511627776 * ucast a + 4294967296 * ucast b + 16777216 * ucast c + 65536 * ucast d + 256 * ucast e + ucast f"

definition gen_IP_addrs :: "u8 \<Rightarrow> u8 \<Rightarrow> u8 \<Rightarrow> u8 \<Rightarrow> u32" where
  "gen_IP_addrs a b c d = 16777216 * ucast a + 65536 * ucast b + 256 * ucast c + ucast d"

text \<open>The arrays the conversions fill, from index 0 on.\<close>

definition MAC_addrs_conversion :: "u64 \<Rightarrow> byte list" where
  "MAC_addrs_conversion int_addrs =
    [ucast (drop_bit 40 (int_addrs AND 0x0000FF0000000000)), ucast (drop_bit 32 (int_addrs AND 0x000000FF00000000)),
     ucast (drop_bit 24 (int_addrs AND 0x00000000FF000000)), ucast (drop_bit 16 (int_addrs AND 0x0000000000FF0000)),
     ucast (drop_bit 8 (int_addrs AND 0x000000000000FF00)), ucast (int_addrs AND 0x00000000000000FF)]"

definition IP_addrs_conversion :: "u32 \<Rightarrow> byte list" where
  "IP_addrs_conversion int_addrs =
    [ucast (drop_bit 24 (int_addrs AND 0xFF000000)), ucast (drop_bit 16 (int_addrs AND 0x00FF0000)),
     ucast (drop_bit 8 (int_addrs AND 0x0000FF00)), ucast (int_addrs AND 0x000000FF)]"

definition gen_requestARP :: "u64 \<Rightarrow> u32 \<Rightarrow> u64 \<Rightarrow> u32 \<Rightarrow> arp_message" where
  "gen_requestARP sender_mac sender_ip target_mac target_ip =
    \<lparr>am_hardware_type = ARP_HWD_TYPE, am_protocol_type = ARP_PROTOCOL_TYPE, am_hardware_addrs_length = ARP_HDW_ADDR_LEN,
     am_protocol_addrs_length = ARP_PROTOCOL_ADDR_LEN, am_operation = ARP_OP_REQUEST, am_sender_MAC_addrs = sender_mac,
     am_sender_IP_addrs = sender_ip, am_target_MAC_addrs = target_mac, am_target_IP_addrs = target_ip\<rparr>"

definition gen_replyARP :: "u64 \<Rightarrow> u32 \<Rightarrow> u64 \<Rightarrow> u32 \<Rightarrow> arp_message" where
  "gen_replyARP sender_mac sender_ip target_mac target_ip =
    \<lparr>am_hardware_type = ARP_HWD_TYPE, am_protocol_type = ARP_PROTOCOL_TYPE, am_hardware_addrs_length = ARP_HDW_ADDR_LEN,
     am_protocol_addrs_length = ARP_PROTOCOL_ADDR_LEN, am_operation = ARP_OP_REPLY, am_sender_MAC_addrs = sender_mac,
     am_sender_IP_addrs = sender_ip, am_target_MAC_addrs = target_mac, am_target_IP_addrs = target_ip\<rparr>"

definition check_valid_arp :: "arp_message \<Rightarrow> bool" where
  "check_valid_arp msg \<longleftrightarrow> am_hardware_type msg = ARP_HWD_TYPE
     \<and> (am_operation msg = ARP_OP_REQUEST \<or> am_operation msg = ARP_OP_REPLY)
     \<and> am_hardware_addrs_length msg = ARP_HDW_ADDR_LEN \<and> am_protocol_addrs_length msg = ARP_PROTOCOL_ADDR_LEN
     \<and> am_protocol_type msg = ARP_PROTOCOL_TYPE \<and> am_sender_MAC_addrs msg \<noteq> ARP_MAC_NULL
     \<and> am_sender_IP_addrs msg \<noteq> ARP_IP_NULL \<and> am_target_IP_addrs msg \<noteq> ARP_IP_NULL"

text \<open>The bytes of a \<^verbatim>\<open>struct arp_hdr\<close>, which has no padding.\<close>

definition arp_hdr_bytes :: "arp_message \<Rightarrow> byte list" where
  "arp_hdr_bytes msg =
    mem16 (htons (am_hardware_type msg)) @ mem16 (htons (am_protocol_type msg))
    @ [am_hardware_addrs_length msg, am_protocol_addrs_length msg] @ mem16 (htons (am_operation msg))
    @ MAC_addrs_conversion (am_sender_MAC_addrs msg) @ IP_addrs_conversion (am_sender_IP_addrs msg)
    @ MAC_addrs_conversion (am_target_MAC_addrs msg) @ IP_addrs_conversion (am_target_IP_addrs msg)"

definition arp_to_fdf :: "arp_message \<Rightarrow> finsFrame res" where
  "arp_to_fdf msg =
    andThen (secure_metadata_writeToElement metadata_create ''send_ether_type'' (DInt32 ARP_TYPE)) (\<lambda>meta1.
    andThen (secure_metadata_writeToElement meta1 ''send_dst_mac'' (DInt64 (am_target_MAC_addrs msg))) (\<lambda>meta2.
    andThen (secure_metadata_writeToElement meta2 ''send_src_mac'' (DInt64 (am_sender_MAC_addrs msg))) (\<lambda>meta3.
      Inr (zeroFrame\<lparr>dataOrCtrl := FF_DATA, metaData := Some meta3,
             dataFrame := \<lparr>directionFlag = DIR_DOWN, pduLength = SIZEOF_ARP_HDR, pdu = Some (arp_hdr_bytes msg)\<rparr>\<rparr>))))"

definition mac_at :: "byte list \<Rightarrow> nat \<Rightarrow> u64 res" where
  "mac_at p i = andThen (slice p i 6) (\<lambda>s. Inr (gen_MAC_addrs (s ! 0) (s ! 1) (s ! 2) (s ! 3) (s ! 4) (s ! 5)))"

definition ip_at :: "byte list \<Rightarrow> nat \<Rightarrow> u32 res" where
  "ip_at p i = andThen (slice p i 4) (\<lambda>s. Inr (gen_IP_addrs (s ! 0) (s ! 1) (s ! 2) (s ! 3)))"

text \<open>The result \<open>None\<close> is the NULL pointer the code returns for a frame shorter than a header.\<close>

definition fdf_to_arp :: "finsFrame \<Rightarrow> arp_message option res" where
  "fdf_to_arp ff =
    (if pduLength (dataFrame ff) < SIZEOF_ARP_HDR then Inr None
     else case pdu (dataFrame ff) of None \<Rightarrow> Inl MemFault
     | Some p \<Rightarrow>
       andThen (load16 p 0) (\<lambda>ht. andThen (load16 p 2) (\<lambda>pt. andThen (load8 p 4) (\<lambda>hl. andThen (load8 p 5) (\<lambda>pl.
       andThen (load16 p 6) (\<lambda>op. andThen (mac_at p 8) (\<lambda>sm. andThen (ip_at p 14) (\<lambda>si.
       andThen (mac_at p 18) (\<lambda>tm. andThen (ip_at p 24) (\<lambda>ti.
         Inr (Some \<lparr>am_hardware_type = ntohs ht, am_protocol_type = ntohs pt, am_hardware_addrs_length = hl,
            am_protocol_addrs_length = pl, am_operation = ntohs op, am_sender_MAC_addrs = sm, am_sender_IP_addrs = si,
            am_target_MAC_addrs = tm, am_target_IP_addrs = ti\<rparr>)))))))))))"

section \<open>Requests and caches\<close>

record arp_request =
  rq_ff :: "finsFrame option"
  rq_src_mac :: u64
  rq_src_ip :: u32

record arp_cache =
  ac_mac :: u64
  ac_ip :: u32
  ac_request_list :: "arp_request list"
  ac_request_max :: nat
  ac_seeking :: bool
  ac_updated_stamp :: timeval
  ac_timer :: "nat option"
  ac_to_flag :: bool
  ac_retries :: int

record arp_data =
  ar_if_list :: "if_record list"
  ar_cache_list :: "arp_cache list"
  ar_cache_max :: nat
  ar_interrupt_flag :: bool

type_synonym arp_module = "arp_data fins_module"

definition set_caches :: "arp_cache list \<Rightarrow> arp_module \<Rightarrow> arp_module" where
  "set_caches cs m = m\<lparr>m_data := (m_data m)\<lparr>ar_cache_list := cs\<rparr>\<rparr>"

definition arp_request_create :: "finsFrame \<Rightarrow> u64 \<Rightarrow> u32 \<Rightarrow> arp_request" where
  "arp_request_create ff src_mac src_ip = \<lparr>rq_ff = Some ff, rq_src_mac = src_mac, rq_src_ip = src_ip\<rparr>"

definition arp_request_ip_test :: "arp_request \<Rightarrow> u32 \<Rightarrow> bool" where
  "arp_request_ip_test request src_ip \<longleftrightarrow> rq_src_ip request = src_ip"

definition arp_request_free :: "arp_request \<Rightarrow> arp_module \<Rightarrow> arp_module res" where
  "arp_request_free request m = (case rq_ff request of Some ff \<Rightarrow> free_ff ff m | None \<Rightarrow> Inr m)"

definition arp_cache_create :: "u32 \<Rightarrow> arp_cache" where
  "arp_cache_create ip =
    \<lparr>ac_mac = ARP_MAC_NULL, ac_ip = ip, ac_request_list = [], ac_request_max = ARP_REQUEST_LIST_MAX, ac_seeking = False,
     ac_updated_stamp = \<lparr>tv_sec = 0, tv_usec = 0\<rparr>, ac_timer = None, ac_to_flag = False, ac_retries = 0\<rparr>"

definition arp_cache_shutdown :: "arp_cache \<Rightarrow> arp_cache" where
  "arp_cache_shutdown c = c\<lparr>ac_timer := None\<rparr>"

fun free_requests :: "arp_request list \<Rightarrow> arp_module \<Rightarrow> arp_module res" where
  "free_requests [] m = Inr m"
| "free_requests (r # rs) m = andThen (arp_request_free r m) (free_requests rs)"

definition arp_cache_free :: "arp_cache \<Rightarrow> arp_module \<Rightarrow> arp_module res" where
  "arp_cache_free c m = free_requests (ac_request_list c) m"

definition arp_cache_ip_test :: "arp_cache \<Rightarrow> u32 \<Rightarrow> bool" where
  "arp_cache_ip_test c ip \<longleftrightarrow> ac_ip c = ip"

definition arp_cache_non_seeking_test :: "arp_cache \<Rightarrow> bool" where
  "arp_cache_non_seeking_test c \<longleftrightarrow> \<not> ac_seeking c"

section \<open>Answering requests\<close>

text \<open>The positive answer to a request that asked for an address.\<close>

definition arp_answer :: "arp_module \<Rightarrow> finsFrame \<Rightarrow> u64 \<Rightarrow> arp_module res" where
  "arp_answer m ff dst_mac =
    (case metaData ff of None \<Rightarrow> Inl MemFault
     | Some meta \<Rightarrow> andThen (secure_metadata_writeToElement meta ''dst_mac'' (DInt64 dst_mac)) (\<lambda>meta1.
         module_to_switch m (ff\<lparr>metaData := Some meta1, destinationID := ucast (sender_id (ctrlFrame ff)),
           ctrlFrame := (ctrlFrame ff)\<lparr>sender_id := ucast (m_index m), opcode := CTRL_EXEC_REPLY, ret_val := FCF_TRUE\<rparr>\<rparr>)))"

text \<open>
  The loops that empty a list of requests: each frame is answered, then the request without its frame is freed
  (\<^verbatim>\<open>request->ff = NULL; arp_request_free(request)\<close>).
\<close>

fun answer_all :: "u64 \<Rightarrow> arp_request list \<Rightarrow> arp_module \<Rightarrow> arp_module res" where
  "answer_all mac [] m = Inr m"
| "answer_all mac (r # rs) m =
    (case rq_ff r of None \<Rightarrow> Inl MemFault
     | Some ff \<Rightarrow> andThen (arp_answer m ff mac) (\<lambda>m1.
         andThen (arp_request_free (r\<lparr>rq_ff := None\<rparr>) m1) (\<lambda>m2. answer_all mac rs m2)))"

fun reject_all :: "arp_request list \<Rightarrow> arp_module \<Rightarrow> arp_module res" where
  "reject_all [] m = Inr m"
| "reject_all (r # rs) m =
    (case rq_ff r of None \<Rightarrow> Inl MemFault
     | Some ff \<Rightarrow> andThen (module_reply_fcf m ff FCF_FALSE 0) (\<lambda>m1.
         andThen (arp_request_free (r\<lparr>rq_ff := None\<rparr>) m1) (\<lambda>m2. reject_all rs m2)))"

text \<open>
  \<^verbatim>\<open>gen_requestARP\<close>, \<^verbatim>\<open>arp_to_fdf\<close> and \<^verbatim>\<open>module_send_flow\<close>; a request that could not be sent is freed. The result
  tells whether it was sent (\<^verbatim>\<open>sent > 0\<close>, a signed comparison).
\<close>

definition send_request :: "arp_module \<Rightarrow> u64 \<Rightarrow> u32 \<Rightarrow> u64 \<Rightarrow> u32 \<Rightarrow> (bool \<times> arp_module) res" where
  "send_request m src_mac src_ip dst_mac dst_ip =
    andThen (arp_to_fdf (gen_requestARP src_mac src_ip dst_mac dst_ip)) (\<lambda>ff_req.
    andThen (module_send_flow m ff_req ARP_FLOW_INTERFACE) (\<lambda>(n, m1).
      if 0 < sint n then Inr (True, m1) else andThen (free_ff ff_req m1) (\<lambda>m2. Inr (False, m2))))"

text \<open>The entry the code makes for a new search, with its first request.\<close>

definition start_seeking :: "timeval \<Rightarrow> arp_cache \<Rightarrow> arp_cache" where
  "start_seeking current c =
    c\<lparr>ac_seeking := True, ac_retries := 0, ac_updated_stamp := current, ac_timer := Some ARP_RETRANS_TO_DEFAULT\<rparr>"

definition add_request :: "arp_request \<Rightarrow> arp_cache \<Rightarrow> arp_cache" where
  "add_request r c = c\<lparr>ac_request_list := ac_request_list c @ [r]\<rparr>"

text \<open>
  Making space in a full list of caches: the first cache that is not seeking is removed, its requests are refused and
  it is freed; \<open>None\<close> when all caches are seeking.
\<close>

definition evict_cache :: "arp_module \<Rightarrow> arp_module option res" where
  "evict_cache m =
    (case List.extract arp_cache_non_seeking_test (ar_cache_list (m_data m)) of
       None \<Rightarrow> Inr None
     | Some (pre, temp_cache, post) \<Rightarrow>
         andThen (reject_all (ac_request_list temp_cache) (set_caches (pre @ post) m)) (\<lambda>m1.
         andThen (arp_cache_free ((arp_cache_shutdown temp_cache)\<lparr>ac_request_list := []\<rparr>) m1) (\<lambda>m2. Inr (Some m2))))"

section \<open>The handlers\<close>

text \<open>The branch of \<^verbatim>\<open>arp_exec_get_addr\<close> for an address that is in the list of caches.\<close>

definition get_addr_cached ::
  "timeval \<Rightarrow> arp_module \<Rightarrow> finsFrame \<Rightarrow> u64 \<Rightarrow> u32 \<Rightarrow> u32 \<Rightarrow> arp_cache list \<Rightarrow> arp_cache \<Rightarrow> arp_cache list \<Rightarrow> arp_module res" where
  "get_addr_cached current m ff src_mac src_ip dst_ip pre c post =
    (if ac_seeking c
     then if length (ac_request_list c) < ac_request_max c
          then Inr (set_caches (pre @ add_request (arp_request_create ff src_mac src_ip) c # post) m)
          else module_reply_fcf m ff FCF_FALSE 0
     else if time_diff (ac_updated_stamp c) current \<le> 1000 * ARP_CACHE_TO_DEFAULT
     then arp_answer m ff (ac_mac c)
     else andThen (send_request m src_mac src_ip (ac_mac c) dst_ip) (\<lambda>(ok, m1).
       if ok
       then if length (ac_request_list c) < ac_request_max c
            then Inr (set_caches (pre @ add_request (arp_request_create ff src_mac src_ip) (start_seeking current c) # post) m1)
            else module_reply_fcf (set_caches (pre @ start_seeking current c # post) m1) ff FCF_FALSE 0
       else module_reply_fcf m1 ff FCF_FALSE 0))"

text \<open>The branch for an address that is not there.\<close>

definition get_addr_new :: "timeval \<Rightarrow> arp_module \<Rightarrow> finsFrame \<Rightarrow> u64 \<Rightarrow> u32 \<Rightarrow> u32 \<Rightarrow> arp_module res" where
  "get_addr_new current m ff src_mac src_ip dst_ip =
    andThen (send_request m src_mac src_ip ARP_MAC_BROADCAST dst_ip) (\<lambda>(ok, m1).
      if ok then
        andThen (if length (ar_cache_list (m_data m1)) < ar_cache_max (m_data m1) then Inr (Some m1) else evict_cache m1) (\<lambda>r.
          case r of None \<Rightarrow> module_reply_fcf m1 ff FCF_FALSE 0
          | Some m2 \<Rightarrow>
            Inr (set_caches (ar_cache_list (m_data m2)
              @ [add_request (arp_request_create ff src_mac src_ip) (start_seeking current (arp_cache_create dst_ip))]) m2))
      else module_reply_fcf m1 ff FCF_FALSE 0)"

definition arp_exec_get_addr :: "timeval \<Rightarrow> arp_module \<Rightarrow> finsFrame \<Rightarrow> u32 \<Rightarrow> u32 \<Rightarrow> arp_module res" where
  "arp_exec_get_addr current m ff src_ip dst_ip =
    (case find (\<lambda>i. ifr_ipv4_test i src_ip) (ar_if_list (m_data m)) of
       None \<Rightarrow> module_reply_fcf m ff FCF_FALSE 0
     | Some ifr \<Rightarrow>
       (case metaData ff of None \<Rightarrow> Inl MemFault
        | Some meta \<Rightarrow> andThen (secure_metadata_writeToElement meta ''src_mac'' (DInt64 (if_mac ifr))) (\<lambda>meta1.
            let ff1 = ff\<lparr>metaData := Some meta1\<rparr> in
            case List.extract (\<lambda>c. arp_cache_ip_test c dst_ip) (ar_cache_list (m_data m)) of
              Some (pre, c, post) \<Rightarrow> get_addr_cached current m ff1 (if_mac ifr) src_ip dst_ip pre c post
            | None \<Rightarrow> get_addr_new current m ff1 (if_mac ifr) src_ip dst_ip)))"

text \<open>A valid message for one of the addresses of the host.\<close>

definition arp_in_request :: "arp_module \<Rightarrow> arp_message \<Rightarrow> u64 \<Rightarrow> arp_module res" where
  "arp_in_request m msg dst_mac =
    andThen (arp_to_fdf (gen_replyARP dst_mac (am_target_IP_addrs msg) (am_sender_MAC_addrs msg) (am_sender_IP_addrs msg)))
      (\<lambda>ff_reply. send_or_free m ff_reply ARP_FLOW_INTERFACE)"

definition arp_in_reply :: "timeval \<Rightarrow> arp_module \<Rightarrow> arp_message \<Rightarrow> arp_module res" where
  "arp_in_reply current m msg =
    (case List.extract (\<lambda>c. arp_cache_ip_test c (am_sender_IP_addrs msg)) (ar_cache_list (m_data m)) of
       None \<Rightarrow> Inr m
     | Some (pre, c, post) \<Rightarrow>
       if ac_seeking c
       then answer_all (am_sender_MAC_addrs msg) (ac_request_list c)
              (set_caches (pre @ c\<lparr>ac_timer := None, ac_to_flag := False, ac_updated_stamp := current, ac_seeking := False,
                 ac_mac := am_sender_MAC_addrs msg, ac_request_list := []\<rparr> # post) m)
       else Inr m)"

definition arp_in_fdf :: "timeval \<Rightarrow> arp_module \<Rightarrow> finsFrame \<Rightarrow> arp_module res" where
  "arp_in_fdf current m ff =
    andThen (fdf_to_arp ff) (\<lambda>r.
    andThen (case r of None \<Rightarrow> Inr m
       | Some msg \<Rightarrow>
         if check_valid_arp msg
         then case find (\<lambda>i. ifr_ipv4_test i (am_target_IP_addrs msg)) (ar_if_list (m_data m)) of
                None \<Rightarrow> Inr m
              | Some ifr \<Rightarrow>
                if am_operation msg = ARP_OP_REQUEST then arp_in_request m msg (if_mac ifr) else arp_in_reply current m msg
         else Inr m) (\<lambda>m1. free_ff ff m1))"

text \<open>
  The timeout of one cache. The result is the cache as it is left behind, \<open>None\<close> when it was removed from the list of
  caches and freed; the caller puts the list together again.
\<close>

definition arp_handle_to :: "arp_module \<Rightarrow> arp_cache \<Rightarrow> (arp_cache option \<times> arp_module) res" where
  "arp_handle_to m c =
    (if ac_seeking c
     then if ac_retries c < ARP_RETRIES
          then case ac_request_list c of
                 [] \<Rightarrow> Inr (Some c, m)
               | request # _ \<Rightarrow>
                 andThen (send_request m (rq_src_mac request) (rq_src_ip request) ARP_MAC_BROADCAST (ac_ip c)) (\<lambda>(ok, m1).
                   if ok then Inr (Some (c\<lparr>ac_retries := ac_retries c + 1, ac_timer := Some ARP_RETRANS_TO_DEFAULT\<rparr>), m1)
                   else Inr (Some c, m1))
          else andThen (reject_all (ac_request_list c) m) (\<lambda>m1.
               andThen (arp_cache_free ((arp_cache_shutdown c)\<lparr>ac_request_list := []\<rparr>) m1) (\<lambda>m2. Inr (None, m2)))
     else Inr (Some c, m))"

definition arp_to_func :: "arp_module \<Rightarrow> arp_cache \<Rightarrow> (arp_cache option \<times> arp_module) res" where
  "arp_to_func m c = (if ac_to_flag c then arp_handle_to m (c\<lparr>ac_to_flag := False\<rparr>) else Inr (Some c, m))"

definition list_of_option :: "'a option \<Rightarrow> 'a list" where
  "list_of_option r = (case r of None \<Rightarrow> [] | Some x \<Rightarrow> [x])"

text \<open>
  \<^verbatim>\<open>list_for_each1\<close> over the caches; the callback may remove the cache it is called with, and no other.
\<close>

fun arp_to_each :: "arp_cache list \<Rightarrow> arp_module \<Rightarrow> (arp_cache list \<times> arp_module) res" where
  "arp_to_each [] m = Inr ([], m)"
| "arp_to_each (c # cs) m =
    andThen (arp_to_func m c) (\<lambda>(r, m1). andThen (arp_to_each cs m1) (\<lambda>(rs, m2). Inr (list_of_option r @ rs, m2)))"

definition arp_interrupt :: "arp_module \<Rightarrow> arp_module res" where
  "arp_interrupt m = andThen (arp_to_each (ar_cache_list (m_data m)) m) (\<lambda>(cs, m1). Inr (set_caches cs m1))"

text \<open>The handler of the timer signal, \<^verbatim>\<open>intsem_to_handler\<close>, for the cache at a position of the list.\<close>

definition intsem_to_handler :: "nat \<Rightarrow> arp_module \<Rightarrow> arp_module" where
  "intsem_to_handler i m =
    m\<lparr>m_data := (m_data m)\<lparr>ar_interrupt_flag := True,
        ar_cache_list := (ar_cache_list (m_data m))[i := (ar_cache_list (m_data m) ! i)\<lparr>ac_to_flag := True, ac_timer := None\<rparr>]\<rparr>,
      m_event_sem := m_event_sem m + 1\<rparr>"

section \<open>Control frames and the thread\<close>

definition arp_set_param :: "arp_module \<Rightarrow> finsFrame \<Rightarrow> arp_module res" where
  "arp_set_param m ff =
    (if param_id (ctrlFrame ff) = MOD_SET_PARAM_FLOWS then module_set_param_flows m ff
     else if param_id (ctrlFrame ff) = MOD_SET_PARAM_LINKS then module_set_param_links m ff
     else if param_id (ctrlFrame ff) = MOD_SET_PARAM_DUAL then module_set_param_dual m ff
     else module_reply_fcf m ff FCF_FALSE 0)"

definition arp_exec :: "timeval \<Rightarrow> arp_module \<Rightarrow> finsFrame \<Rightarrow> arp_module res" where
  "arp_exec current m ff =
    (if param_id (ctrlFrame ff) = ARP_EXEC_GET_ADDR
     then case metaData ff of None \<Rightarrow> Inl MemFault
       | Some meta \<Rightarrow>
         andThen (secure_metadata_read_u32 meta ''src_ip'') (\<lambda>src_ip.
         andThen (secure_metadata_read_u32 meta ''dst_ip'') (\<lambda>dst_ip.
           arp_exec_get_addr current m ff src_ip dst_ip))
     else module_reply_fcf m ff FCF_FALSE 0)"

definition arp_fcf :: "timeval \<Rightarrow> arp_module \<Rightarrow> finsFrame \<Rightarrow> arp_module res" where
  "arp_fcf current m ff =
    (let op = opcode (ctrlFrame ff) in
     if op = CTRL_ALERT then module_reply_fcf m ff FCF_FALSE 0
     else if op = CTRL_ALERT_REPLY then free_ff ff m
     else if op = CTRL_READ_PARAM then module_reply_fcf m ff FCF_FALSE 0
     else if op = CTRL_READ_PARAM_REPLY then free_ff ff m
     else if op = CTRL_SET_PARAM then arp_set_param m ff
     else if op = CTRL_SET_PARAM_REPLY then free_ff ff m
     else if op = CTRL_EXEC then arp_exec current m ff
     else if op = CTRL_EXEC_REPLY then free_ff ff m
     else if op = CTRL_ERROR then free_ff ff m
     else Inl ExitFailure)"

text \<open>The waiting loop of \<^verbatim>\<open>arp_get_ff\<close>, which an interrupt ends too; \<open>None\<close> means that the thread blocks.\<close>

fun arp_wait_ff :: "nat \<Rightarrow> arp_module \<Rightarrow> (finsFrame option \<times> arp_module) option res" where
  "arp_wait_ff 0 m = Inr None"
| "arp_wait_ff (Suc e) m =
    andThen (read_queue (m_input_queue m)) (\<lambda>(ff, q).
      let m1 = m\<lparr>m_input_queue := q, m_event_sem := e\<rparr> in
      if m_state m1 = FMS_RUNNING \<and> ff = None \<and> \<not> ar_interrupt_flag (m_data m1) then arp_wait_ff e m1 else Inr (Some (ff, m1)))"

definition arp_dispatch :: "timeval \<Rightarrow> arp_module \<Rightarrow> finsFrame \<Rightarrow> arp_module res" where
  "arp_dispatch current m ff =
    (if metaData ff = None then Inl ExitFailure
     else if dataOrCtrl ff = FF_CONTROL then arp_fcf current m ff
     else if dataOrCtrl ff = FF_DATA then
       (if directionFlag (dataFrame ff) = DIR_UP then arp_in_fdf current m ff
        else if directionFlag (dataFrame ff) = DIR_DOWN then free_ff ff m
        else Inl ExitFailure)
     else Inl ExitFailure)"

definition arp_get_ff :: "timeval \<Rightarrow> arp_module \<Rightarrow> arp_module option res" where
  "arp_get_ff current m =
    andThen (arp_wait_ff (m_event_sem m) m) (\<lambda>r.
      case r of None \<Rightarrow> Inr None
      | Some (x, m1) \<Rightarrow>
        andThen (if m_state m1 \<noteq> FMS_RUNNING
             then (case x of None \<Rightarrow> Inr m1 | Some ff \<Rightarrow> free_ff ff m1)
             else (case x of Some ff \<Rightarrow> arp_dispatch current m1 ff
               | None \<Rightarrow>
                 if ar_interrupt_flag (m_data m1) then arp_interrupt (m1\<lparr>m_data := (m_data m1)\<lparr>ar_interrupt_flag := False\<rparr>\<rparr>)
                 else Inl ExitFailure)) (\<lambda>m2. Inr (Some m2)))"

section \<open>Life cycle\<close>

definition arp_create :: "u32 \<Rightarrow> u32 \<Rightarrow> string \<Rightarrow> arp_module \<Rightarrow> arp_module" where
  "arp_create index i name m =
    m\<lparr>m_flows_max := ARP_MAX_FLOWS, m_state := FMS_FREE, m_index := index, m_id := i, m_name := name\<rparr>"

definition arp_init_knobs :: "settings \<Rightarrow> settings res" where
  "arp_init_knobs root =
    (case config_setting_add root ''exec'' CONFIG_TYPE_GROUP of None \<Rightarrow> Inl ExitFailure
     | Some (ms, i) \<Rightarrow>
       andThen (elem_add_param [] ''get_addr'' ARP_EXEC_GET_ADDR__id (of_int CONFIG_TYPE_INT)) (\<lambda>exec_elem.
         Inr (ms[i := (''exec'', CGroup exec_elem)])))"

definition arp_init :: "if_record list \<Rightarrow> arp_module \<Rightarrow> arp_module res" where
  "arp_init if_list m =
    (let m1 = module_create_structs (m\<lparr>m_state := FMS_INIT\<rparr>) in
     andThen (arp_init_knobs (m_knobs m1)) (\<lambda>knobs.
       Inr (m1\<lparr>m_knobs := knobs,
         m_table := \<lparr>mt_link_list = None, mt_flows_num = 0, mt_flows = replicate 1 \<lparr>fl_link_id = 0, fl_link = None\<rparr>\<rparr>,
         m_data := \<lparr>ar_if_list = take ARP_IF_LIST_MAX if_list, ar_cache_list = [], ar_cache_max = ARP_CACHE_LIST_MAX,
                    ar_interrupt_flag = False\<rparr>\<rparr>)))"

definition arp_run :: "timeval \<Rightarrow> arp_module \<Rightarrow> arp_module option res" where
  "arp_run current m = arp_get_ff current (m\<lparr>m_state := FMS_RUNNING\<rparr>)"

definition arp_pause :: "arp_module \<Rightarrow> arp_module" where
  "arp_pause m = m\<lparr>m_state := FMS_PAUSED\<rparr>"

definition arp_unpause :: "arp_module \<Rightarrow> arp_module" where
  "arp_unpause m = m\<lparr>m_state := FMS_RUNNING\<rparr>"

definition arp_shutdown :: "arp_module \<Rightarrow> arp_module" where
  "arp_shutdown m = m\<lparr>m_state := FMS_SHUTDOWN, m_event_sem := m_event_sem m + 1\<rparr>"

fun free_caches :: "arp_cache list \<Rightarrow> arp_module \<Rightarrow> arp_module res" where
  "free_caches [] m = Inr m"
| "free_caches (c # cs) m = andThen (arp_cache_free (arp_cache_shutdown c) m) (free_caches cs)"

definition arp_release :: "arp_module \<Rightarrow> arp_module res" where
  "arp_release m =
    andThen (free_caches (ar_cache_list (m_data m)) m) (\<lambda>m1.
      module_destroy_structs ((set_caches [] m1)\<lparr>m_table := (m_table m1)\<lparr>mt_link_list := None\<rparr>\<rparr>))"

section \<open>What the module promises\<close>

text \<open>
  A request is known by its sender and its serial number; its answer carries both back. The answers among the frames
  sent, and the requests that wait in the caches.
\<close>

definition req_key :: "finsFrame \<Rightarrow> u32 \<times> u32" where
  "req_key f = (ucast (sender_id (ctrlFrame f)), serial_num (ctrlFrame f))"

definition ans_key :: "finsFrame \<Rightarrow> u32 \<times> u32" where
  "ans_key f = (destinationID f, serial_num (ctrlFrame f))"

definition answers :: "finsFrame list \<Rightarrow> (u32 \<times> u32) multiset" where
  "answers fs = mset (map ans_key (filter (\<lambda>f. dataOrCtrl f = FF_CONTROL) fs))"

definition cache_requests :: "arp_cache \<Rightarrow> (u32 \<times> u32) list" where
  "cache_requests c = map (\<lambda>r. req_key (the (rq_ff r))) (ac_request_list c)"

definition requests :: "arp_cache list \<Rightarrow> (u32 \<times> u32) multiset" where
  "requests cs = mset (concat (map cache_requests cs))"

definition pending :: "arp_module \<Rightarrow> (u32 \<times> u32) multiset" where
  "pending m = requests (ar_cache_list (m_data m))"

text \<open>A request that can be answered.\<close>

definition arp_query :: "finsFrame \<Rightarrow> bool" where
  "arp_query f \<longleftrightarrow> dataOrCtrl f = FF_CONTROL \<and> opcode (ctrlFrame f) = CTRL_EXEC \<and> param_id (ctrlFrame f) = ARP_EXEC_GET_ADDR
     \<and> (case metaData f of None \<Rightarrow> False
        | Some ms \<Rightarrow> meta_plain ms \<and> free_u64 ms ''src_mac'' \<and> free_u64 ms ''dst_mac'' \<and> free_u32 ms ''ret_msg'')"

definition req_ok :: "arp_request \<Rightarrow> bool" where
  "req_ok r \<longleftrightarrow> (case rq_ff r of None \<Rightarrow> False | Some f \<Rightarrow> arp_query f)"

text \<open>
  The invariant: a cache is seeking exactly when requests wait for it, it keeps within its capacity and its retries,
  and there is one cache per address.
\<close>

definition cache_ok :: "arp_cache \<Rightarrow> bool" where
  "cache_ok c \<longleftrightarrow> ac_seeking c = (ac_request_list c \<noteq> []) \<and> length (ac_request_list c) \<le> ac_request_max c \<and> 0 < ac_request_max c
     \<and> 0 \<le> ac_retries c \<and> ac_retries c \<le> ARP_RETRIES \<and> list_all req_ok (ac_request_list c)"

definition caches_ok :: "nat \<Rightarrow> arp_cache list \<Rightarrow> bool" where
  "caches_ok n cs \<longleftrightarrow> list_all cache_ok cs \<and> distinct (map ac_ip cs) \<and> length cs \<le> n"

definition arp_ok :: "arp_module \<Rightarrow> bool" where
  "arp_ok m \<longleftrightarrow> caches_ok (ar_cache_max (m_data m)) (ar_cache_list (m_data m))"

text \<open>The module sent \<open>outs\<close> and kept its links.\<close>

definition moved :: "finsFrame list \<Rightarrow> arp_module \<Rightarrow> finsFrame list \<Rightarrow> arp_module \<Rightarrow> bool" where
  "moved xs m outs m' \<longleftrightarrow> queue_rep (m_output_queue m') (xs @ outs)
     \<and> queue_cap (m_output_queue m') = queue_cap (m_output_queue m) \<and> m_table m' = m_table m \<and> m_index m' = m_index m
     \<and> m_state m' = m_state m \<and> m_input_queue m' = m_input_queue m \<and> m_event_sem m' = m_event_sem m
     \<and> ar_if_list (m_data m') = ar_if_list (m_data m) \<and> ar_cache_max (m_data m') = ar_cache_max (m_data m)
     \<and> ar_interrupt_flag (m_data m') = ar_interrupt_flag (m_data m)"

text \<open>The flow to the interface has one destination, or the module is not linked and sends nothing.\<close>

definition no_flow :: "'md fins_module \<Rightarrow> u32 \<Rightarrow> bool" where
  "no_flow m flow \<longleftrightarrow> unat (mt_flows_num (m_table m)) \<le> length (mt_flows (m_table m))
     \<and> (flow < mt_flows_num (m_table m) \<longrightarrow> fl_link (mt_flows (m_table m) ! unat flow) = None)"

definition arp_linked :: "arp_module \<Rightarrow> bool" where
  "arp_linked m \<longleftrightarrow> (\<exists>d. flow_to m ARP_FLOW_INTERFACE d) \<or> no_flow m ARP_FLOW_INTERFACE"

text \<open>What one operation does with a new request, if any: it is answered or waits, and no other request is lost.\<close>

definition arp_handled :: "finsFrame list \<Rightarrow> arp_module \<Rightarrow> (u32 \<times> u32) multiset \<Rightarrow> arp_module \<Rightarrow> bool" where
  "arp_handled xs m new m' \<longleftrightarrow> arp_ok m' \<and> (\<exists>outs. moved xs m outs m' \<and> answers outs + pending m' = pending m + new)"

text \<open>A positive answer, and the metadata of a message for the interface.\<close>

definition addr_answer :: "u64 \<Rightarrow> finsFrame \<Rightarrow> bool" where
  "addr_answer mac f \<longleftrightarrow> ret_val (ctrlFrame f) = FCF_TRUE \<and> opcode (ctrlFrame f) = CTRL_EXEC_REPLY \<and> param_id (ctrlFrame f) = ARP_EXEC_GET_ADDR
     \<and> (case metaData f of None \<Rightarrow> False | Some ms \<Rightarrow> meta_plain ms \<and> has_u64 ms ''dst_mac'' mac)"

definition arp_meta :: "finsFrame \<Rightarrow> arp_message \<Rightarrow> bool" where
  "arp_meta f msg \<longleftrightarrow> directionFlag (dataFrame f) = DIR_DOWN
     \<and> (case metaData f of None \<Rightarrow> False
        | Some ms \<Rightarrow> meta_plain ms \<and> has_u32 ms ''send_ether_type'' ARP_TYPE \<and> has_u64 ms ''send_dst_mac'' (am_target_MAC_addrs msg)
            \<and> has_u64 ms ''send_src_mac'' (am_sender_MAC_addrs msg))"

text \<open>A request for an address as it arrives, and a frame whose bytes are there.\<close>

definition get_addr_frame :: "finsFrame \<Rightarrow> u32 \<Rightarrow> u32 \<Rightarrow> bool" where
  "get_addr_frame f si di \<longleftrightarrow> arp_query f
     \<and> has_u32 (the (metaData f)) ''src_ip'' si \<and> has_u32 (the (metaData f)) ''dst_ip'' di"

definition packet_frame :: "finsFrame \<Rightarrow> bool" where
  "packet_frame f \<longleftrightarrow> dataOrCtrl f = FF_DATA
     \<and> (case pdu (dataFrame f) of None \<Rightarrow> pduLength (dataFrame f) = 0 | Some p \<Rightarrow> length p = unat (pduLength (dataFrame f)))"

text \<open>What the thread serves: a request of another module, a packet from the network, the expired timers.\<close>

datatype arp_event = GetAddr finsFrame | Packet finsFrame | Timeouts

fun arp_serve :: "timeval \<Rightarrow> arp_event \<Rightarrow> arp_module \<Rightarrow> arp_module res" where
  "arp_serve current (GetAddr f) m = arp_dispatch current m f"
| "arp_serve current (Packet f) m = arp_dispatch current m f"
| "arp_serve current Timeouts m = arp_interrupt m"

fun event_ok :: "arp_event \<Rightarrow> bool" where
  "event_ok (GetAddr f) = (\<exists>si di. get_addr_frame f si di)"
| "event_ok (Packet f) = (packet_frame f \<and> directionFlag (dataFrame f) = DIR_UP \<and> metaData f \<noteq> None)"
| "event_ok Timeouts = True"

fun new_requests :: "arp_event \<Rightarrow> (u32 \<times> u32) multiset" where
  "new_requests (GetAddr f) = {#req_key f#}"
| "new_requests _ = {#}"

text \<open>A packet on its way to another host: the bytes arrive, the metadata is that of the receiver.\<close>

definition on_wire :: "finsFrame \<Rightarrow> finsFrame" where
  "on_wire q = zeroFrame\<lparr>dataOrCtrl := FF_DATA, metaData := Some [],
     dataFrame := \<lparr>directionFlag = DIR_UP, pduLength = pduLength (dataFrame q), pdu = pdu (dataFrame q)\<rparr>\<rparr>"

text \<open>The timer of the cache at a position expires and the thread handles the interrupt.\<close>

definition ticked :: "nat \<Rightarrow> arp_module \<Rightarrow> arp_module" where
  "ticked i m = (intsem_to_handler i m)\<lparr>m_data := (m_data (intsem_to_handler i m))\<lparr>ar_interrupt_flag := False\<rparr>\<rparr>"

definition arp_timeout :: "nat \<Rightarrow> arp_module \<Rightarrow> arp_module res" where
  "arp_timeout i m = arp_interrupt (ticked i m)"

text \<open>Two hosts with one interface each, and a request, for the examples.\<close>

definition ex_host :: "u32 \<Rightarrow> u64 \<Rightarrow> arp_module" where
  "ex_host ip mac = \<lparr>m_flows_max = 1, m_state = FMS_RUNNING, m_index = 6, m_id = 6, m_name = ''arp'',
      m_input_queue = CreateQueue 20, m_output_queue = CreateQueue 20, m_event_sem = 0, m_switch_sem = 0, m_knobs = [],
      m_table = \<lparr>mt_link_list = Some [], mt_flows_num = 1, mt_flows = [\<lparr>fl_link_id = 1,
         fl_link = Some \<lparr>lk_id = 1, lk_src_index = 6, lk_dsts_num = 1, lk_dsts_index = replicate 32 2\<rparr>\<rparr>]\<rparr>,
      m_freed = [],
      m_data = \<lparr>ar_if_list = [\<lparr>if_index = 1, if_name = ''eth0'', if_mac = mac, if_mode = 1, if_mtu = 1500, if_flags = 0,
           if_addr_list = Some [\<lparr>ad_if_index = 1, ad_family = 2, ad_ip = \<lparr>sin_family = 2, sin_port = 0, sin_addr = ip\<rparr>,
             ad_mask = \<lparr>sin_family = 2, sin_port = 0, sin_addr = 0\<rparr>, ad_gw = \<lparr>sin_family = 2, sin_port = 0, sin_addr = 0\<rparr>,
             ad_bdc = \<lparr>sin_family = 2, sin_port = 0, sin_addr = 0\<rparr>, ad_dst = \<lparr>sin_family = 2, sin_port = 0, sin_addr = 0\<rparr>\<rparr>]\<rparr>],
         ar_cache_list = [], ar_cache_max = 4, ar_interrupt_flag = False\<rparr>\<rparr>"

definition ex_query :: finsFrame where
  "ex_query = zeroFrame\<lparr>dataOrCtrl := FF_CONTROL, metaData := Some [(''src_ip'', CInt 1), (''dst_ip'', CInt 2)],
     ctrlFrame := (ctrlFrame zeroFrame)\<lparr>sender_id := 4, serial_num := 77, opcode := CTRL_EXEC, param_id := ARP_EXEC_GET_ADDR\<rparr>\<rparr>"

definition ex_search :: arp_module where
  "ex_search = set_caches [add_request (arp_request_create ex_query 0xAA 1) (start_seeking \<lparr>tv_sec = 0, tv_usec = 0\<rparr> (arp_cache_create 2))]
     (ex_host 1 0xAA)"

section \<open>Sending and answering\<close>

lemma moved_refl: "queue_rep (m_output_queue m) xs \<Longrightarrow> moved xs m [] m"
  by (simp add: moved_def)

lemma moved_trans: "moved xs m a m1 \<Longrightarrow> moved (xs @ a) m1 b m2 \<Longrightarrow> moved xs m (a @ b) m2"
  by (simp add: moved_def)

lemma sent_moved: "sent xs m fs m' \<Longrightarrow> moved xs m fs m'"
  using sent_fields [of xs m fs m'] by (simp add: moved_def sent_def)

lemma set_caches_simps [simp]:
  "ar_cache_list (m_data (set_caches cs m)) = cs" "m_output_queue (set_caches cs m) = m_output_queue m"
  "ar_if_list (m_data (set_caches cs m)) = ar_if_list (m_data m)" "ar_cache_max (m_data (set_caches cs m)) = ar_cache_max (m_data m)"
  "ar_interrupt_flag (m_data (set_caches cs m)) = ar_interrupt_flag (m_data m)" "m_table (set_caches cs m) = m_table m"
  "m_index (set_caches cs m) = m_index m" "m_state (set_caches cs m) = m_state m" "m_input_queue (set_caches cs m) = m_input_queue m"
  "m_event_sem (set_caches cs m) = m_event_sem m" "m_freed (set_caches cs m) = m_freed m"
  by (simp_all add: set_caches_def)

lemma moved_caches [simp]: "moved xs m outs (set_caches cs m') = moved xs m outs m'" "moved xs (set_caches cs m) outs m' = moved xs m outs m'"
  by (simp_all add: moved_def)

lemma space_caches [simp]: "space (set_caches cs m) xs n = space m xs n"
  by (simp add: space_def)

lemma moved_freed [simp]: "moved xs m outs (m'\<lparr>m_freed := fs\<rparr>) = moved xs m outs m'"
  by (simp add: moved_def)

lemma space_moved: "moved xs m outs m' \<Longrightarrow> space m xs n \<Longrightarrow> length outs \<le> k \<Longrightarrow> k + j \<le> n \<Longrightarrow> space m' (xs @ outs) j"
  by (simp add: space_def moved_def)

lemma answers_simps [simp]:
  "answers [] = {#}" "answers (xs @ ys) = answers xs + answers ys"
  "answers (f # fs) = (if dataOrCtrl f = FF_CONTROL then add_mset (ans_key f) (answers fs) else answers fs)"
  by (simp_all add: answers_def)

lemma requests_simps [simp]:
  "requests [] = {#}" "requests (xs @ ys) = requests xs + requests ys" "requests (c # cs) = mset (cache_requests c) + requests cs"
  by (simp_all add: requests_def)

lemma list_of_option_simps [simp]: "list_of_option None = []" "list_of_option (Some x) = [x]"
  by (simp_all add: list_of_option_def)

lemma arp_names:
  "config_validate_name ''send_ether_type''" "config_validate_name ''send_dst_mac''" "config_validate_name ''send_src_mac''"
  "config_validate_name ''src_mac''" "config_validate_name ''dst_mac''" "config_validate_name ''src_ip''" "config_validate_name ''dst_ip''"
  by code_simp+

text \<open>A frame is made from every message.\<close>

lemma arp_to_fdf_ok:
  obtains f where "arp_to_fdf msg = Inr f" "dataOrCtrl f = FF_DATA" "pdu (dataFrame f) = Some (arp_hdr_bytes msg)"
    "pduLength (dataFrame f) = SIZEOF_ARP_HDR" "arp_meta f msg"
proof -
  have p0: "meta_plain metadata_create" "free_u32 metadata_create ''send_ether_type''"
    using arp_names by (simp_all add: meta_plain_def metadata_create_def free_u32_def)
  obtain m1 where m1: "secure_metadata_writeToElement metadata_create ''send_ether_type'' (DInt32 ARP_TYPE) = Inr m1" "meta_plain m1"
      "map_of m1 = (map_of metadata_create)(''send_ether_type'' \<mapsto> CInt ARP_TYPE)"
    by (rule write_u32 [OF p0])
  have f1: "free_u64 m1 ''send_dst_mac''" using arp_names m1(3) by (simp add: free_u64_def metadata_create_def)
  obtain m2 where m2: "secure_metadata_writeToElement m1 ''send_dst_mac'' (DInt64 (am_target_MAC_addrs msg)) = Inr m2" "meta_plain m2"
      "map_of m2 = (map_of m1)(''send_dst_mac'' \<mapsto> CInt64 (am_target_MAC_addrs msg))"
    by (rule write_u64 [OF m1(2) f1])
  have f2: "free_u64 m2 ''send_src_mac''" using arp_names m1(3) m2(3) by (simp add: free_u64_def metadata_create_def)
  obtain m3 where m3: "secure_metadata_writeToElement m2 ''send_src_mac'' (DInt64 (am_sender_MAC_addrs msg)) = Inr m3" "meta_plain m3"
      "map_of m3 = (map_of m2)(''send_src_mac'' \<mapsto> CInt64 (am_sender_MAC_addrs msg))"
    by (rule write_u64 [OF m2(2) f2])
  have "has_u64 m3 ''send_dst_mac'' (am_target_MAC_addrs msg)" "has_u64 m3 ''send_src_mac'' (am_sender_MAC_addrs msg)"
      "has_u32 m3 ''send_ether_type'' ARP_TYPE"
    using arp_names m1(3) m2(3) m3(3) by (simp_all add: has_u64_def has_u32_def)
  with m1(1) m2(1) m3(1,2) that show thesis by (simp add: arp_to_fdf_def arp_meta_def)
qed

lemma arp_send_flow:
  assumes "space m xs 1" "arp_linked m" "dataOrCtrl f = FF_DATA"
  shows "(\<exists>m' d. module_send_flow m f ARP_FLOW_INTERFACE = Inr (1, m') \<and> sent xs m [f\<lparr>destinationID := d\<rparr>] m')
    \<or> module_send_flow m f ARP_FLOW_INTERFACE = Inr (0, m)"
proof (cases "\<exists>d. flow_to m ARP_FLOW_INTERFACE d")
  case True
  then obtain d where d: "flow_to m ARP_FLOW_INTERFACE d" ..
  have "room m xs" using space_room [OF assms(1)] by simp
  from flow_single [OF this d, of f] show ?thesis by blast
next
  case False
  then have "no_flow m ARP_FLOW_INTERFACE" using assms(2) by (simp add: arp_linked_def)
  then show ?thesis using send_flow_none [of ARP_FLOW_INTERFACE m f] by (auto simp: no_flow_def)
qed

lemma send_request_ok:
  assumes "space m xs 1" "arp_linked m"
  obtains ok m' outs where "send_request m sm si dm di = Inr (ok, m')" "moved xs m outs m'" "answers outs = {#}"
    "length outs \<le> 1" "m_data m' = m_data m"
proof -
  obtain f where f: "arp_to_fdf (gen_requestARP sm si dm di) = Inr f" "dataOrCtrl f = FF_DATA" by (rule arp_to_fdf_ok)
  from arp_send_flow [OF assms f(2)] show thesis
  proof
    assume "\<exists>m' d. module_send_flow m f ARP_FLOW_INTERFACE = Inr (1, m') \<and> sent xs m [f\<lparr>destinationID := d\<rparr>] m'"
    then obtain m' d where m': "module_send_flow m f ARP_FLOW_INTERFACE = Inr (1, m')" "sent xs m [f\<lparr>destinationID := d\<rparr>] m'" by blast
    have "send_request m sm si dm di = Inr (True, m')" using f(1) m'(1) by (simp add: send_request_def)
    moreover have "answers [f\<lparr>destinationID := d\<rparr>] = {#}" using f(2) by (simp add: FF_defs)
    ultimately show thesis using that sent_moved [OF m'(2)] sent_fields(3) [OF m'(2)] by fastforce
  next
    assume "module_send_flow m f ARP_FLOW_INTERFACE = Inr (0, m)"
    then have "send_request m sm si dm di = Inr (False, m\<lparr>m_freed := m_freed m @ [f]\<rparr>)"
      using f free_ff_ctrl [of f m] by (simp add: send_request_def)
    moreover have "moved xs m [] (m\<lparr>m_freed := m_freed m @ [f]\<rparr>)" using assms(1) by (simp add: moved_def space_def)
    ultimately show thesis using that by fastforce
  qed
qed

lemma arp_answer_ok:
  assumes "space m xs 1" "arp_query f"
  obtains m' r where "arp_answer m f mac = Inr m'" "sent xs m [r] m'" "dataOrCtrl r = FF_CONTROL" "ans_key r = req_key f"
    "addr_answer mac r"
proof -
  obtain ms where ms: "metaData f = Some ms" "meta_plain ms" "free_u64 ms ''dst_mac''" "dataOrCtrl f = FF_CONTROL" "param_id (ctrlFrame f) = ARP_EXEC_GET_ADDR"
    using assms(2) by (auto simp: arp_query_def split: option.splits)
  obtain ms1 where ms1: "secure_metadata_writeToElement ms ''dst_mac'' (DInt64 mac) = Inr ms1" "meta_plain ms1"
      "map_of ms1 = (map_of ms)(''dst_mac'' \<mapsto> CInt64 mac)" by (rule write_u64 [OF ms(2,3)])
  let ?r = "f\<lparr>metaData := Some ms1, destinationID := ucast (sender_id (ctrlFrame f)),
      ctrlFrame := (ctrlFrame f)\<lparr>sender_id := ucast (m_index m), opcode := CTRL_EXEC_REPLY, ret_val := FCF_TRUE\<rparr>\<rparr>"
  obtain m' where m': "module_to_switch m ?r = Inr m'" "sent xs m [?r] m'"
    using module_to_switch_ok [of m xs ?r] assms(1) by (auto simp: space_def)
  show thesis using that [of m' ?r] m' ms ms1 arp_names by (simp add: arp_answer_def ans_key_def req_key_def has_u64_def addr_answer_def)
qed

lemma arp_reject_ok:
  assumes "space m xs 1" "arp_query f"
  obtains m' r where "module_reply_fcf m f FCF_FALSE 0 = Inr m'" "sent xs m [r] m'" "dataOrCtrl r = FF_CONTROL"
    "ans_key r = req_key f" "ret_val (ctrlFrame r) = FCF_FALSE"
proof -
  obtain ms where ms: "metaData f = Some ms" "meta_plain ms" "free_u32 ms ''ret_msg''" "dataOrCtrl f = FF_CONTROL" "opcode (ctrlFrame f) = CTRL_EXEC"
    using assms(2) by (auto simp: arp_query_def split: option.splits)
  obtain ms1 where ms1: "secure_metadata_writeToElement ms ''ret_msg'' (DInt32 0) = Inr ms1" by (rule write_u32 [OF ms(2,3)])
  have op: "reply_opcode CTRL_EXEC = Inr CTRL_EXEC_REPLY" by (simp add: reply_opcode_def CTRL_defs)
  let ?r = "f\<lparr>metaData := Some ms1, destinationID := ucast (sender_id (ctrlFrame f)),
      ctrlFrame := (ctrlFrame f)\<lparr>sender_id := ucast (m_index m), opcode := CTRL_EXEC_REPLY, ret_val := FCF_FALSE\<rparr>\<rparr>"
  obtain m' where m': "module_to_switch m ?r = Inr m'" "sent xs m [?r] m'"
    using module_to_switch_ok [of m xs ?r] assms(1) by (auto simp: space_def)
  show thesis using that [of m' ?r] m' ms ms1 op by (simp add: module_reply_fcf_def ans_key_def req_key_def)
qed

text \<open>
  The contract of the two loops that empty a list of requests: each request gets one answer, in order, and the answers
  satisfy the promise of the single reply.
\<close>

locale arp_replier =
  fixes reply :: "arp_module \<Rightarrow> finsFrame \<Rightarrow> arp_module res"
    and loop :: "arp_request list \<Rightarrow> arp_module \<Rightarrow> arp_module res"
    and good :: "finsFrame \<Rightarrow> bool"
  assumes reply_law: "space m xs 1 \<Longrightarrow> arp_query f \<Longrightarrow> \<exists>m' r. reply m f = Inr m' \<and> sent xs m [r] m'
      \<and> dataOrCtrl r = FF_CONTROL \<and> ans_key r = req_key f \<and> good r"
    and loop_nil: "loop [] m = Inr m"
    and loop_cons: "rq_ff r = Some f \<Longrightarrow> loop (r # rs) m = andThen (reply m f) (loop rs)"
begin

lemma loop_answers:
  assumes "space m xs (length rs)" "list_all req_ok rs"
  shows "\<exists>m' outs. loop rs m = Inr m' \<and> sent xs m outs m' \<and> map ans_key outs = map (\<lambda>r. req_key (the (rq_ff r))) rs
    \<and> list_all (\<lambda>r. dataOrCtrl r = FF_CONTROL \<and> good r) outs"
  using assms
proof (induction rs arbitrary: m xs)
  case Nil
  then show ?case using sent_refl [of m xs] by (simp add: loop_nil space_def)
next
  case (Cons r rs)
  then obtain f where f: "rq_ff r = Some f" "arp_query f" by (auto simp: req_ok_def split: option.splits)
  have "space m xs 1" using Cons.prems(1) by (simp add: space_def)
  from reply_law [OF this f(2)] obtain m1 a where a: "reply m f = Inr m1" "sent xs m [a] m1" "dataOrCtrl a = FF_CONTROL"
      "ans_key a = req_key f" "good a" by blast
  have "space m1 (xs @ [a]) (length rs)" using a(2) Cons.prems(1) by (simp add: space_def sent_def)
  from Cons.IH [OF this] Cons.prems(2) obtain m' outs where o: "loop rs m1 = Inr m'" "sent (xs @ [a]) m1 outs m'"
      "map ans_key outs = map (\<lambda>r. req_key (the (rq_ff r))) rs" "list_all (\<lambda>r. dataOrCtrl r = FF_CONTROL \<and> good r) outs" by auto
  show ?case using loop_cons [OF f(1)] a o sent_trans [OF a(2) o(2)] f(1)
    by (intro exI [of _ m'] exI [of _ "a # outs"]) simp
qed

end

interpretation accepting: arp_replier "\<lambda>m f. arp_answer m f mac" "answer_all mac"
    "addr_answer mac" for mac
proof unfold_locales
  fix m :: arp_module and xs f assume "space m xs 1" "arp_query f"
  then show "\<exists>m' r. arp_answer m f mac = Inr m' \<and> sent xs m [r] m' \<and> dataOrCtrl r = FF_CONTROL \<and> ans_key r = req_key f
      \<and> addr_answer mac r"
    by (rule arp_answer_ok) blast
qed (simp_all add: arp_request_free_def)

interpretation refusing: arp_replier "\<lambda>m f. module_reply_fcf m f FCF_FALSE 0" reject_all "\<lambda>r. ret_val (ctrlFrame r) = FCF_FALSE"
proof unfold_locales
  fix m :: arp_module and xs f assume "space m xs 1" "arp_query f"
  then show "\<exists>m' r. module_reply_fcf m f FCF_FALSE 0 = Inr m' \<and> sent xs m [r] m' \<and> dataOrCtrl r = FF_CONTROL
      \<and> ans_key r = req_key f \<and> ret_val (ctrlFrame r) = FCF_FALSE"
    by (rule arp_reject_ok) blast
qed (simp_all add: arp_request_free_def)

text \<open>Counting the answers of a loop.\<close>

lemma answers_all:
  "map ans_key outs = ks \<Longrightarrow> list_all (\<lambda>r. dataOrCtrl r = FF_CONTROL \<and> P r) outs \<Longrightarrow> answers outs = mset ks"
proof -
  assume "list_all (\<lambda>r. dataOrCtrl r = FF_CONTROL \<and> P r) outs"
  then have "filter (\<lambda>f. dataOrCtrl f = FF_CONTROL) outs = outs" by (simp add: filter_id_conv list_all_iff)
  moreover assume "map ans_key outs = ks"
  ultimately show "answers outs = mset ks" by (simp add: answers_def)
qed

section \<open>Every request is answered once\<close>

lemma extract_parts: "List.extract P xs = Some (pre, c, post) \<Longrightarrow> xs = pre @ c # post \<and> P c"
  by (simp add: extract_Some_iff)

lemma caches_ok_parts:
  "caches_ok n (pre @ c # post) \<longleftrightarrow> cache_ok c \<and> caches_ok (n - 1) (pre @ post) \<and> ac_ip c \<notin> set (map ac_ip (pre @ post)) \<and> 0 < n"
  by (auto simp: caches_ok_def)

lemma reply_handled:
  assumes "space m xs 1" "arp_query f" "arp_ok m"
  shows "\<exists>m'. module_reply_fcf m f FCF_FALSE 0 = Inr m' \<and> arp_handled xs m {#req_key f#} m'"
proof -
  obtain m' r where r: "module_reply_fcf m f FCF_FALSE 0 = Inr m'" "sent xs m [r] m'" "dataOrCtrl r = FF_CONTROL" "ans_key r = req_key f"
    using arp_reject_ok [OF assms(1,2)] by blast
  have "m_data m' = m_data m" by (rule sent_fields(3) [OF r(2)])
  then show ?thesis using r sent_moved [OF r(2)] assms(3)
    by (intro exI [of _ m']) (auto simp: arp_handled_def arp_ok_def pending_def intro!: exI [of _ "[r]"])
qed

lemma answer_handled:
  assumes "space m xs 1" "arp_query f" "arp_ok m"
  shows "\<exists>m'. arp_answer m f mac = Inr m' \<and> arp_handled xs m {#req_key f#} m'"
proof -
  obtain m' r where r: "arp_answer m f mac = Inr m'" "sent xs m [r] m'" "dataOrCtrl r = FF_CONTROL" "ans_key r = req_key f"
    using arp_answer_ok [OF assms(1,2)] by blast
  have "m_data m' = m_data m" by (rule sent_fields(3) [OF r(2)])
  then show ?thesis using r sent_moved [OF r(2)] assms(3)
    by (intro exI [of _ m']) (auto simp: arp_handled_def arp_ok_def pending_def intro!: exI [of _ "[r]"])
qed

text \<open>Handling behind frames that carry no answer.\<close>

lemma handled_after:
  assumes "moved xs m outs m1" "answers outs = {#}" "pending m1 = pending m" "arp_handled (xs @ outs) m1 new m'"
  shows "arp_handled xs m new m'"
proof -
  obtain b where b: "moved (xs @ outs) m1 b m'" "answers b + pending m' = pending m1 + new" "arp_ok m'"
    using assms(4) by (auto simp: arp_handled_def)
  then show ?thesis using moved_trans [OF assms(1) b(1)] assms(2,3) by (auto simp: arp_handled_def intro!: exI [of _ "outs @ b"])
qed

text \<open>A request that is put into the list of a seeking cache.\<close>

lemma store_handled:
  assumes "moved xs m outs m1" "answers outs = {#}" "caches_ok (ar_cache_max (m_data m)) cs"
    "requests cs = pending m + new"
  shows "arp_handled xs m new (set_caches cs m1)"
  using assms by (auto simp: arp_handled_def arp_ok_def pending_def moved_def intro!: exI [of _ outs])

lemma linked_table: "m_table m' = m_table m \<Longrightarrow> arp_linked m' = arp_linked m"
  by (simp add: arp_linked_def flow_to_def no_flow_def)

lemma get_addr_cached_handled:
  assumes "space m xs 2" "arp_linked m" "arp_ok m" "arp_query f" "ar_cache_list (m_data m) = pre @ c # post"
  shows "\<exists>m'. get_addr_cached current m f sm si di pre c post = Inr m' \<and> arp_handled xs m {#req_key f#} m'"
proof -
  have s1: "space m xs 1" using assms(1) by (simp add: space_def)
  have cok: "caches_ok (ar_cache_max (m_data m)) (pre @ c # post)" using assms(3,5) by (simp add: arp_ok_def)
  have c: "cache_ok c" using cok by (simp add: caches_ok_parts)
  let ?r = "arp_request_create f sm si"
  have rq: "req_ok ?r" using assms(4) by (simp add: req_ok_def arp_request_create_def)
  have put: "caches_ok (ar_cache_max (m_data m)) (pre @ d # post)" if "cache_ok d" "ac_ip d = ac_ip c" for d
    using cok that by (simp add: caches_ok_parts)
  have pend: "requests (pre @ d # post) = pending m + {#req_key f#}" if "ac_request_list d = ac_request_list c @ [?r]" for d
    using assms(5) that by (simp add: pending_def cache_requests_def arp_request_create_def)
  consider (wait) "ac_seeking c" "length (ac_request_list c) < ac_request_max c"
    | (full) "ac_seeking c" "\<not> length (ac_request_list c) < ac_request_max c"
    | (fresh) "\<not> ac_seeking c" "time_diff (ac_updated_stamp c) current \<le> 1000 * ARP_CACHE_TO_DEFAULT"
    | (old) "\<not> ac_seeking c" "\<not> time_diff (ac_updated_stamp c) current \<le> 1000 * ARP_CACHE_TO_DEFAULT" by blast
  then show ?thesis
  proof cases
    case wait
    let ?c = "add_request ?r c"
    have "cache_ok ?c" using wait c rq by (simp add: cache_ok_def add_request_def)
    then have "arp_handled xs m {#req_key f#} (set_caches (pre @ ?c # post) m)"
      using store_handled [of xs m "[]" m "pre @ ?c # post"] put [of ?c] pend [of ?c] assms(1) by (simp add: moved_refl space_def add_request_def)
    with wait show ?thesis by (simp add: get_addr_cached_def)
  next
    case full
    then show ?thesis using reply_handled [OF s1 assms(4,3)] by (simp add: get_addr_cached_def)
  next
    case fresh
    then show ?thesis using answer_handled [OF s1 assms(4,3)] by (simp add: get_addr_cached_def)
  next
    case old
    obtain ok m1 outs where sr: "send_request m sm si (ac_mac c) di = Inr (ok, m1)" "moved xs m outs m1" "answers outs = {#}"
        "length outs \<le> 1" "m_data m1 = m_data m"
      by (rule send_request_ok [OF s1 assms(2)])
    have e: "ac_request_list c = []" "0 < ac_request_max c" using c old(1) by (simp_all add: cache_ok_def)
    let ?c = "add_request ?r (start_seeking current c)"
    have "cache_ok ?c" using e rq c by (simp add: cache_ok_def add_request_def start_seeking_def ARP_RETRIES_def)
    then have st: "arp_handled xs m {#req_key f#} (set_caches (pre @ ?c # post) m1)"
      using store_handled [OF sr(2,3)] put [of ?c] pend [of ?c] by (simp add: add_request_def start_seeking_def)
    have sp: "space m1 (xs @ outs) 1" by (rule space_moved [OF sr(2) assms(1) sr(4)]) simp
    have ok1: "arp_ok m1" "pending m1 = pending m" using sr(5) assms(3) by (simp_all add: arp_ok_def pending_def)
    from reply_handled [OF sp assms(4) ok1(1)] handled_after [OF sr(2,3) ok1(2)]
    have "\<exists>m'. module_reply_fcf m1 f FCF_FALSE 0 = Inr m' \<and> arp_handled xs m {#req_key f#} m'" by blast
    with old sr(1) e st show ?thesis by (simp add: get_addr_cached_def)
  qed
qed

text \<open>A cache that is not seeking has no requests, so making space answers nobody.\<close>

lemma evict_ok:
  assumes "arp_ok m"
  shows "evict_cache m = Inr None \<or> (\<exists>cs. evict_cache m = Inr (Some (set_caches cs m)) \<and> caches_ok (ar_cache_max (m_data m) - 1) cs
      \<and> 0 < ar_cache_max (m_data m) \<and> requests cs = pending m \<and> ac_ip ` set cs \<subseteq> ac_ip ` set (ar_cache_list (m_data m)))"
proof (cases "List.extract arp_cache_non_seeking_test (ar_cache_list (m_data m))")
  case None
  then show ?thesis by (simp add: evict_cache_def)
next
  case (Some a)
  then obtain pre c post where x: "List.extract arp_cache_non_seeking_test (ar_cache_list (m_data m)) = Some (pre, c, post)"
    by (cases a) auto
  have l: "ar_cache_list (m_data m) = pre @ c # post" "\<not> ac_seeking c"
    using extract_parts [OF x] by (simp_all add: arp_cache_non_seeking_test_def)
  have ok: "cache_ok c" "caches_ok (ar_cache_max (m_data m) - 1) (pre @ post)" "0 < ar_cache_max (m_data m)"
    using assms l(1) by (simp_all add: arp_ok_def caches_ok_parts)
  have e: "ac_request_list c = []" using ok(1) l(2) by (simp add: cache_ok_def)
  have "evict_cache m = Inr (Some (set_caches (pre @ post) m))"
    using x e by (simp add: evict_cache_def arp_cache_free_def)
  moreover have "requests (pre @ post) = pending m" using l(1) e by (simp add: pending_def cache_requests_def)
  ultimately show ?thesis using ok l(1) by auto
qed

lemma get_addr_new_handled:
  assumes "space m xs 2" "arp_linked m" "arp_ok m" "arp_query f" "di \<notin> ac_ip ` set (ar_cache_list (m_data m))"
  shows "\<exists>m'. get_addr_new current m f sm si di = Inr m' \<and> arp_handled xs m {#req_key f#} m'"
proof -
  have s1: "space m xs 1" using assms(1) by (simp add: space_def)
  obtain ok m1 outs where sr: "send_request m sm si ARP_MAC_BROADCAST di = Inr (ok, m1)" "moved xs m outs m1" "answers outs = {#}"
      "length outs \<le> 1" "m_data m1 = m_data m"
    by (rule send_request_ok [OF s1 assms(2)])
  have sp: "space m1 (xs @ outs) 1" by (rule space_moved [OF sr(2) assms(1) sr(4)]) simp
  have ok1: "arp_ok m1" "pending m1 = pending m" using sr(5) assms(3) by (simp_all add: arp_ok_def pending_def)
  from reply_handled [OF sp assms(4) ok1(1)] handled_after [OF sr(2,3) ok1(2)]
  have rej: "\<exists>m'. module_reply_fcf m1 f FCF_FALSE 0 = Inr m' \<and> arp_handled xs m {#req_key f#} m'" by blast
  let ?c = "add_request (arp_request_create f sm si) (start_seeking current (arp_cache_create di))"
  have c: "cache_ok ?c" "ac_ip ?c = di" "mset (cache_requests ?c) = {#req_key f#}"
    using assms(4) by (simp_all add: cache_ok_def add_request_def start_seeking_def arp_cache_create_def arp_request_create_def
        ARP_RETRIES_def ARP_REQUEST_LIST_MAX_def req_ok_def cache_requests_def)
  have new: "arp_handled xs m {#req_key f#} (set_caches (cs @ [?c]) m1)"
    if "caches_ok (ar_cache_max (m_data m) - 1) cs" "0 < ar_cache_max (m_data m)" "requests cs = pending m"
      "ac_ip ` set cs \<subseteq> ac_ip ` set (ar_cache_list (m_data m))" for cs
  proof -
    have "di \<notin> ac_ip ` set cs" using that(4) assms(5) by blast
    then have "caches_ok (ar_cache_max (m_data m)) (cs @ [?c])" using that(1,2) c(1,2) by (auto simp: caches_ok_def)
    then show ?thesis using store_handled [OF sr(2,3)] that(3) c(3) by simp
  qed
  show ?thesis
  proof (cases "ok \<and> length (ar_cache_list (m_data m)) < ar_cache_max (m_data m)")
    case True
    then have "caches_ok (ar_cache_max (m_data m) - 1) (ar_cache_list (m_data m))" "0 < ar_cache_max (m_data m)"
      using assms(3) by (auto simp: arp_ok_def caches_ok_def)
    then show ?thesis using True new [of "ar_cache_list (m_data m)"] sr(1,5) by (simp add: get_addr_new_def pending_def)
  next
    case False
    then show ?thesis using evict_ok [OF ok1(1)] new rej sr(1,5) ok1(2) by (auto simp: get_addr_new_def set_caches_def)
  qed
qed

lemma exec_reads:
  assumes "get_addr_frame f si di"
  shows "arp_exec current m f = arp_exec_get_addr current m f si di"
proof -
  obtain ms where ms: "metaData f = Some ms" "meta_plain ms" "has_u32 ms ''src_ip'' si" "has_u32 ms ''dst_ip'' di"
      "param_id (ctrlFrame f) = ARP_EXEC_GET_ADDR"
    using assms by (auto simp: get_addr_frame_def arp_query_def split: option.splits)
  then show ?thesis using has_read [OF ms(2)] by (simp add: arp_exec_def)
qed

text \<open>A request from one of the addresses of the host, with the hardware address of its interface written into it.\<close>

lemma exec_opens:
  assumes "get_addr_frame f si di" "find (\<lambda>i. ifr_ipv4_test i si) (ar_if_list (m_data m)) = Some ifr"
  obtains g where "arp_query g" "req_key g = req_key f"
    "arp_exec current m f = (case List.extract (\<lambda>c. arp_cache_ip_test c di) (ar_cache_list (m_data m)) of
        Some (pre, c, post) \<Rightarrow> get_addr_cached current m g (if_mac ifr) si di pre c post
      | None \<Rightarrow> get_addr_new current m g (if_mac ifr) si di)"
proof -
  have q: "arp_query f" using assms(1) by (simp add: get_addr_frame_def)
  obtain ms where ms: "metaData f = Some ms" "meta_plain ms" "free_u64 ms ''src_mac''" "free_u64 ms ''dst_mac''" "free_u32 ms ''ret_msg''"
    using q by (auto simp: arp_query_def split: option.splits)
  obtain ms1 where ms1: "secure_metadata_writeToElement ms ''src_mac'' (DInt64 (if_mac ifr)) = Inr ms1" "meta_plain ms1"
      "map_of ms1 = (map_of ms)(''src_mac'' \<mapsto> CInt64 (if_mac ifr))"
    by (rule write_u64 [OF ms(2,3)])
  let ?g = "f\<lparr>metaData := Some ms1\<rparr>"
  have g: "arp_query ?g" "req_key ?g = req_key f"
    using q ms ms1(2,3) by (simp_all add: arp_query_def req_key_def free_u64_def free_u32_def)
  have "arp_exec current m f = (case List.extract (\<lambda>c. arp_cache_ip_test c di) (ar_cache_list (m_data m)) of
        Some (pre, c, post) \<Rightarrow> get_addr_cached current m ?g (if_mac ifr) si di pre c post
      | None \<Rightarrow> get_addr_new current m ?g (if_mac ifr) si di)"
    using exec_reads [OF assms(1), of current m] assms(2) ms(1) ms1(1) by (simp add: arp_exec_get_addr_def Let_def)
  then show thesis by (rule that [OF g])
qed

lemma extract_cases:
  fixes cs :: "arp_cache list"
  obtains (new) "List.extract (\<lambda>c. arp_cache_ip_test c di) cs = None" "di \<notin> ac_ip ` set cs"
    | (old) pre c post where "List.extract (\<lambda>c. arp_cache_ip_test c di) cs = Some (pre, c, post)" "cs = pre @ c # post"
proof (cases "List.extract (\<lambda>c. arp_cache_ip_test c di) cs")
  case None
  then show thesis using new by (auto simp: extract_None_iff arp_cache_ip_test_def)
next
  case (Some a)
  obtain pre c post where a: "a = (pre, c, post)" by (cases a)
  show thesis using old [OF Some [unfolded a]] extract_parts [OF Some [unfolded a]] by simp
qed

lemma extract_last:
  assumes "ac_ip c = di" "di \<notin> ac_ip ` set cs"
  shows "List.extract (\<lambda>c. arp_cache_ip_test c di) (cs @ [c]) = Some (cs, c, [])"
  using assms unfolding extract_Some_iff arp_cache_ip_test_def by (metis image_eqI)

lemma arp_exec_handled:
  assumes "space m xs 2" "arp_linked m" "arp_ok m" "get_addr_frame f si di"
  shows "\<exists>m'. arp_exec current m f = Inr m' \<and> arp_handled xs m {#req_key f#} m'"
proof (cases "find (\<lambda>i. ifr_ipv4_test i si) (ar_if_list (m_data m))")
  case None
  have "space m xs 1" "arp_query f" using assms(1,4) by (simp_all add: space_def get_addr_frame_def)
  from reply_handled [OF this assms(3)] None show ?thesis using exec_reads [OF assms(4)] by (simp add: arp_exec_get_addr_def)
next
  case (Some ifr)
  obtain g where g: "arp_query g" "req_key g = req_key f"
    "arp_exec current m f = (case List.extract (\<lambda>c. arp_cache_ip_test c di) (ar_cache_list (m_data m)) of
        Some (pre, c, post) \<Rightarrow> get_addr_cached current m g (if_mac ifr) si di pre c post
      | None \<Rightarrow> get_addr_new current m g (if_mac ifr) si di)"
    by (rule exec_opens [OF assms(4) Some])
  show ?thesis
  proof (cases rule: extract_cases [of di "ar_cache_list (m_data m)"])
    case new
    then show ?thesis using get_addr_new_handled [OF assms(1-3) g(1) new(2)] g(2,3) by simp
  next
    case (old pre c post)
    then show ?thesis using get_addr_cached_handled [OF assms(1-3) g(1) old(2)] g(2,3) by simp
  qed
qed

lemma fdf_to_arp_total: "packet_frame f \<Longrightarrow> \<exists>r. fdf_to_arp f = Inr r"
  by (auto simp: packet_frame_def fdf_to_arp_def load16_def load8_def mac_at_def ip_at_def slice_def SIZEOF_ARP_HDR_def
      word_less_nat_alt split: option.splits)

lemma free_handled:
  assumes "dataOrCtrl f = FF_DATA" "arp_handled xs m new m'"
  shows "\<exists>m2. free_ff f m' = Inr m2 \<and> arp_handled xs m new m2"
  using assms free_ff_ctrl [of f m'] by (simp add: arp_handled_def arp_ok_def pending_def)

lemma keep_handled: "queue_rep (m_output_queue m) xs \<Longrightarrow> arp_ok m \<Longrightarrow> arp_handled xs m {#} m"
  by (auto simp: arp_handled_def intro!: exI [of _ "[]"] moved_refl)

lemma arp_in_request_handled:
  assumes "space m xs 1" "arp_linked m" "arp_ok m"
  shows "\<exists>m'. arp_in_request m msg mac = Inr m' \<and> arp_handled xs m {#} m'"
proof -
  obtain f where f: "arp_to_fdf (gen_replyARP mac (am_target_IP_addrs msg) (am_sender_MAC_addrs msg) (am_sender_IP_addrs msg)) = Inr f"
      "dataOrCtrl f = FF_DATA" by (rule arp_to_fdf_ok)
  have q: "queue_rep (m_output_queue m) xs" using assms(1) by (simp add: space_def)
  from arp_send_flow [OF assms(1,2) f(2)] show ?thesis
  proof
    assume "\<exists>m' d. module_send_flow m f ARP_FLOW_INTERFACE = Inr (1, m') \<and> sent xs m [f\<lparr>destinationID := d\<rparr>] m'"
    then obtain m' d where m': "module_send_flow m f ARP_FLOW_INTERFACE = Inr (1, m')" "sent xs m [f\<lparr>destinationID := d\<rparr>] m'" by blast
    have "arp_handled xs m {#} m'" using sent_moved [OF m'(2)] sent_fields(3) [OF m'(2)] assms(3) f(2)
      by (auto simp: arp_handled_def arp_ok_def pending_def FF_defs intro!: exI [of _ "[f\<lparr>destinationID := d\<rparr>]"])
    with f(1) m'(1) show ?thesis by (simp add: arp_in_request_def send_or_free_def)
  next
    assume "module_send_flow m f ARP_FLOW_INTERFACE = Inr (0, m)"
    with f(1) free_handled [OF f(2) keep_handled [OF q assms(3)]] show ?thesis
      by (simp add: arp_in_request_def send_or_free_def)
  qed
qed

lemma arp_in_reply_handled:
  assumes "space m xs (size (pending m))" "arp_ok m"
  shows "\<exists>m'. arp_in_reply current m msg = Inr m' \<and> arp_handled xs m {#} m'"
proof -
  have q: "queue_rep (m_output_queue m) xs" using assms(1) by (simp add: space_def)
  note keep = keep_handled [OF q assms(2)]
  show ?thesis
  proof (cases "List.extract (\<lambda>c. arp_cache_ip_test c (am_sender_IP_addrs msg)) (ar_cache_list (m_data m))")
    case None
    then show ?thesis using keep by (simp add: arp_in_reply_def)
  next
    case (Some a)
    then obtain pre c post where x: "List.extract (\<lambda>c. arp_cache_ip_test c (am_sender_IP_addrs msg)) (ar_cache_list (m_data m)) = Some (pre, c, post)"
      by (cases a) auto
    have l: "ar_cache_list (m_data m) = pre @ c # post" using extract_parts [OF x] by simp
    let ?c = "c\<lparr>ac_timer := None, ac_to_flag := False, ac_updated_stamp := current, ac_seeking := False,
        ac_mac := am_sender_MAC_addrs msg, ac_request_list := []\<rparr>"
    let ?m = "set_caches (pre @ ?c # post) m"
    have cok: "cache_ok c" using assms(2) l by (simp add: arp_ok_def caches_ok_parts)
    then have c1: "cache_ok ?c" by (simp add: cache_ok_def)
    have rs: "list_all req_ok (ac_request_list c)" using cok by (simp add: cache_ok_def)
    have "space ?m xs (length (ac_request_list c))"
      using assms(1) l by (simp add: space_def pending_def cache_requests_def)
    from accepting.loop_answers [OF this rs, of "am_sender_MAC_addrs msg"] obtain m' outs where
      o: "answer_all (am_sender_MAC_addrs msg) (ac_request_list c) ?m = Inr m'" "sent xs ?m outs m'"
        "map ans_key outs = cache_requests c"
        "list_all (\<lambda>r. dataOrCtrl r = FF_CONTROL \<and> addr_answer (am_sender_MAC_addrs msg) r) outs"
      unfolding cache_requests_def by blast
    note ans = answers_all [OF o(3,4)]
    have "arp_ok m'" using assms(2) l c1 sent_fields(3) [OF o(2)] by (simp add: arp_ok_def caches_ok_parts)
    moreover have "answers outs + pending m' = pending m"
      using ans l sent_fields(3) [OF o(2)] by (simp add: pending_def cache_requests_def)
    ultimately have "arp_handled xs m {#} m'" using sent_moved [OF o(2)] by (auto simp: arp_handled_def)
    with x o(1) keep show ?thesis by (simp add: arp_in_reply_def)
  qed
qed

lemma arp_in_handled:
  assumes "space m xs (Suc (size (pending m)))" "arp_linked m" "arp_ok m" "packet_frame f"
  shows "\<exists>m'. arp_in_fdf current m f = Inr m' \<and> arp_handled xs m {#} m'"
proof -
  obtain r where r: "fdf_to_arp f = Inr r" using fdf_to_arp_total [OF assms(4)] ..
  have d: "dataOrCtrl f = FF_DATA" using assms(4) by (simp add: packet_frame_def)
  have s: "space m xs 1" "space m xs (size (pending m))" "queue_rep (m_output_queue m) xs" using assms(1) by (simp_all add: space_def)
  note keep = keep_handled [OF s(3) assms(3)]
  obtain m1 where m1: "(case r of None \<Rightarrow> Inr m | Some msg \<Rightarrow>
         if check_valid_arp msg
         then case find (\<lambda>i. ifr_ipv4_test i (am_target_IP_addrs msg)) (ar_if_list (m_data m)) of
                None \<Rightarrow> Inr m
              | Some ifr \<Rightarrow>
                if am_operation msg = ARP_OP_REQUEST then arp_in_request m msg (if_mac ifr) else arp_in_reply current m msg
         else Inr m) = Inr m1" "arp_handled xs m {#} m1"
  proof (cases r)
    case None
    with that keep show thesis by simp
  next
    case (Some msg)
    let ?i = "find (\<lambda>i. ifr_ipv4_test i (am_target_IP_addrs msg)) (ar_if_list (m_data m))"
    consider "\<not> check_valid_arp msg \<or> ?i = None" | ifr where "check_valid_arp msg" "?i = Some ifr" by (cases ?i) auto
    then show thesis
    proof cases
      case 1
      with Some that keep show thesis by auto
    next
      case 2
      obtain a b where "arp_in_request m msg (if_mac ifr) = Inr a" "arp_handled xs m {#} a"
          "arp_in_reply current m msg = Inr b" "arp_handled xs m {#} b"
        using arp_in_request_handled [OF s(1) assms(2,3)] arp_in_reply_handled [OF s(2) assms(3)] by blast
      then show thesis using 2 Some that by (cases "am_operation msg = ARP_OP_REQUEST") simp_all
    qed
  qed
  from free_handled [OF d m1(2)] show ?thesis using r m1(1) by (auto simp: arp_in_fdf_def)
qed

section \<open>Timeouts\<close>

lemma arp_to_func_ok:
  assumes "space m xs (Suc (length (ac_request_list c)))" "arp_linked m" "cache_ok c"
  shows "\<exists>r m' outs. arp_to_func m c = Inr (r, m') \<and> moved xs m outs m' \<and> m_data m' = m_data m
    \<and> length outs \<le> Suc (length (ac_request_list c)) \<and> answers outs + requests (list_of_option r) = requests [c]
    \<and> (\<forall>d. r = Some d \<longrightarrow> cache_ok d \<and> ac_ip d = ac_ip c)"
proof -
  have q: "queue_rep (m_output_queue m) xs" using assms(1) by (simp add: space_def)
  have c: "ac_seeking c = (ac_request_list c \<noteq> [])" "list_all req_ok (ac_request_list c)" using assms(3) by (simp_all add: cache_ok_def)
  consider (idle) "\<not> ac_to_flag c \<or> \<not> ac_seeking c" | (retry) "ac_to_flag c" "ac_seeking c" "ac_retries c < ARP_RETRIES"
    | (give_up) "ac_to_flag c" "ac_seeking c" "\<not> ac_retries c < ARP_RETRIES" by blast
  then show ?thesis
  proof cases
    case idle
    have k: "cache_ok (c\<lparr>ac_to_flag := False\<rparr>)" using assms(3) by (simp add: cache_ok_def)
    from idle show ?thesis
    proof
      assume "\<not> ac_to_flag c"
      then show ?thesis using assms(3) moved_refl [OF q] by (intro exI [of _ "Some c"] exI [of _ m] exI [of _ "[]"]) (simp add: arp_to_func_def)
    next
      assume "\<not> ac_seeking c"
      then show ?thesis using assms(3) k moved_refl [OF q]
        by (intro exI [of _ "Some (if ac_to_flag c then c\<lparr>ac_to_flag := False\<rparr> else c)"] exI [of _ m] exI [of _ "[]"])
          (simp add: arp_to_func_def arp_handle_to_def cache_requests_def)
    qed
  next
    case retry
    then obtain r rs where rs: "ac_request_list c = r # rs" using c(1) by (cases "ac_request_list c") auto
    have s1: "space m xs 1" using assms(1) by (simp add: space_def)
    obtain ok m' outs where sr: "send_request m (rq_src_mac r) (rq_src_ip r) ARP_MAC_BROADCAST (ac_ip c) = Inr (ok, m')"
        "moved xs m outs m'" "answers outs = {#}" "length outs \<le> 1" "m_data m' = m_data m"
      by (rule send_request_ok [OF s1 assms(2)])
    let ?d = "if ok then c\<lparr>ac_to_flag := False, ac_retries := ac_retries c + 1, ac_timer := Some ARP_RETRANS_TO_DEFAULT\<rparr> else c\<lparr>ac_to_flag := False\<rparr>"
    have "arp_to_func m c = Inr (Some ?d, m')" using retry rs sr(1) by (auto simp: arp_to_func_def arp_handle_to_def)
    moreover have "cache_ok ?d" using assms(3) retry(3) by (simp add: cache_ok_def)
    ultimately show ?thesis using sr by (intro exI [of _ "Some ?d"] exI [of _ m'] exI [of _ outs]) (simp add: cache_requests_def)
  next
    case give_up
    have "space m xs (length (ac_request_list c))" using assms(1) by (simp add: space_def)
    from refusing.loop_answers [OF this c(2)] obtain m' outs where
      o: "reject_all (ac_request_list c) m = Inr m'" "sent xs m outs m'" "map ans_key outs = cache_requests c"
        "list_all (\<lambda>r. dataOrCtrl r = FF_CONTROL \<and> ret_val (ctrlFrame r) = FCF_FALSE) outs"
      unfolding cache_requests_def by blast
    have "length outs = length (ac_request_list c)" using arg_cong [OF o(3), of length] by (simp add: cache_requests_def)
    then show ?thesis using give_up o(1) answers_all [OF o(3,4)] sent_moved [OF o(2)] sent_fields(3) [OF o(2)]
      by (intro exI [of _ None] exI [of _ m'] exI [of _ outs])
        (simp add: arp_to_func_def arp_handle_to_def arp_cache_free_def arp_cache_shutdown_def)
  qed
qed

lemma size_requests: "size (requests (c # cs)) = length (ac_request_list c) + size (requests cs)"
  by (simp add: cache_requests_def)

lemma arp_to_each_ok:
  assumes "space m xs (length cs + size (requests cs))" "arp_linked m" "list_all cache_ok cs" "distinct (map ac_ip cs)"
  shows "\<exists>ds m' outs. arp_to_each cs m = Inr (ds, m') \<and> moved xs m outs m' \<and> m_data m' = m_data m
    \<and> answers outs + requests ds = requests cs \<and> list_all cache_ok ds \<and> distinct (map ac_ip ds)
    \<and> ac_ip ` set ds \<subseteq> ac_ip ` set cs \<and> length ds \<le> length cs"
  using assms
proof (induction cs arbitrary: m xs)
  case Nil
  then show ?case using moved_refl [of m xs] by (intro exI [of _ "[]"] exI [of _ m]) (auto simp: space_def)
next
  case (Cons c cs)
  have "space m xs (Suc (length (ac_request_list c)))" using Cons.prems(1) unfolding size_requests by (simp add: space_def)
  moreover have "cache_ok c" using Cons.prems(3) by simp
  ultimately obtain r m1 o1 where 1: "arp_to_func m c = Inr (r, m1)" "moved xs m o1 m1" "m_data m1 = m_data m"
      "length o1 \<le> Suc (length (ac_request_list c))" "answers o1 + requests (list_of_option r) = requests [c]"
      "\<forall>d. r = Some d \<longrightarrow> cache_ok d \<and> ac_ip d = ac_ip c"
    using arp_to_func_ok [OF _ Cons.prems(2)] by blast
  have "space m1 (xs @ o1) (length cs + size (requests cs))"
    by (rule space_moved [OF 1(2) Cons.prems(1) 1(4)]) (simp add: size_requests del: requests_simps)
  moreover have "arp_linked m1" using Cons.prems(2) linked_table [of m1 m] 1(2) by (simp add: moved_def)
  ultimately obtain ds m2 o2 where 2: "arp_to_each cs m1 = Inr (ds, m2)" "moved (xs @ o1) m1 o2 m2" "m_data m2 = m_data m1"
      "answers o2 + requests ds = requests cs" "list_all cache_ok ds" "distinct (map ac_ip ds)"
      "ac_ip ` set ds \<subseteq> ac_ip ` set cs" "length ds \<le> length cs"
    using Cons.IH [of m1 "xs @ o1"] Cons.prems(3,4) by auto
  have "ac_ip c \<notin> ac_ip ` set ds" using 2(7) Cons.prems(4) by auto
  moreover have "answers (o1 @ o2) + requests (list_of_option r @ ds) = requests (c # cs)" using 1(5) 2(4) by (simp add: add.assoc add.left_commute)
  ultimately show ?case using 1 2 moved_trans [OF 1(2) 2(2)]
    by (intro exI [of _ "list_of_option r @ ds"] exI [of _ m2] exI [of _ "o1 @ o2"]) (cases r; auto)
qed

lemma arp_interrupt_handled:
  assumes "space m xs (length (ar_cache_list (m_data m)) + size (pending m))" "arp_linked m" "arp_ok m"
  shows "\<exists>m'. arp_interrupt m = Inr m' \<and> arp_handled xs m {#} m'"
proof -
  let ?cs = "ar_cache_list (m_data m)"
  have ok: "list_all cache_ok ?cs" "distinct (map ac_ip ?cs)" "length ?cs \<le> ar_cache_max (m_data m)"
    using assms(3) by (simp_all add: arp_ok_def caches_ok_def)
  obtain ds m' outs where d: "arp_to_each ?cs m = Inr (ds, m')" "moved xs m outs m'" "m_data m' = m_data m"
      "answers outs + requests ds = requests ?cs" "list_all cache_ok ds" "distinct (map ac_ip ds)" "length ds \<le> length ?cs"
    using arp_to_each_ok [OF _ assms(2) ok(1,2)] assms(1) unfolding pending_def by blast
  have "arp_handled xs m {#} (set_caches ds m')"
    using d ok(3) by (auto simp: arp_handled_def arp_ok_def caches_ok_def pending_def intro!: exI [of _ outs])
  with d(1) show ?thesis by (simp add: arp_interrupt_def)
qed

section \<open>Messages survive the network\<close>

lemma byte_of_masked: "(ucast (drop_bit k (w AND push_bit k (mask 8))) :: u8) = ucast (drop_bit k (w :: 'a::len word))"
  by (rule bit_word_eqI) (auto simp: bit_simps dest: bit_imp_le_length)

lemma unat_byte: "unat (ucast (drop_bit k (w :: 'a::len word)) :: u8) = unat w div 2 ^ k mod 256"
  by (simp only: unsigned_ucast_eq unsigned_take_bit_eq unat_drop_bit_eq) (simp add: drop_bit_eq_div take_bit_eq_mod)

lemma unat_low_byte: "unat (ucast (w :: 'a::len word) :: u8) = unat w mod 256"
  using unat_byte [of 0 w] by simp

lemma mac_masks:
  "(0x0000FF0000000000 :: u64) = push_bit 40 (mask 8)" "(0x000000FF00000000 :: u64) = push_bit 32 (mask 8)"
  "(0x00000000FF000000 :: u64) = push_bit 24 (mask 8)" "(0x0000000000FF0000 :: u64) = push_bit 16 (mask 8)"
  "(0x000000000000FF00 :: u64) = push_bit 8 (mask 8)" "(0x00000000000000FF :: u64) = push_bit 0 (mask 8)"
  by (simp_all add: mask_eq_exp_minus_1 push_bit_eq_mult)

lemma ip_masks:
  "(0xFF000000 :: u32) = push_bit 24 (mask 8)" "(0x00FF0000 :: u32) = push_bit 16 (mask 8)"
  "(0x0000FF00 :: u32) = push_bit 8 (mask 8)" "(0x000000FF :: u32) = push_bit 0 (mask 8)"
  by (simp_all add: mask_eq_exp_minus_1 push_bit_eq_mult)

lemma MAC_bytes:
  "MAC_addrs_conversion w = map (\<lambda>k. ucast (drop_bit k w)) [40, 32, 24, 16, 8, 0]"
proof -
  have 0: "ucast (w AND push_bit 0 (mask 8)) = (ucast (drop_bit 0 w) :: u8)" using byte_of_masked [of 0 w] by simp
  show ?thesis unfolding MAC_addrs_conversion_def mac_masks by (simp only: byte_of_masked 0 list.map)
qed

lemma IP_bytes:
  "IP_addrs_conversion w = map (\<lambda>k. ucast (drop_bit k w)) [24, 16, 8, 0]"
proof -
  have 0: "ucast (w AND push_bit 0 (mask 8)) = (ucast (drop_bit 0 w) :: u8)" using byte_of_masked [of 0 w] by simp
  show ?thesis unfolding IP_addrs_conversion_def ip_masks by (simp only: byte_of_masked 0 list.map)
qed

lemma digits4: "(n :: nat) mod 4294967296
    = 16777216 * (n div 16777216 mod 256) + 65536 * (n div 65536 mod 256) + 256 * (n div 256 mod 256) + n mod 256"
  using mod_mult2_eq [of n 16777216 256] mod_mult2_eq [of n 65536 256] mod_mult2_eq [of n 256 256] by simp

lemma digits6: "(n :: nat) < 281474976710656 \<Longrightarrow> n = 1099511627776 * (n div 1099511627776 mod 256) + 4294967296 * (n div 4294967296 mod 256)
    + 16777216 * (n div 16777216 mod 256) + 65536 * (n div 65536 mod 256) + 256 * (n div 256 mod 256) + n mod 256"
  using mod_mult2_eq [of n 1099511627776 256] mod_mult2_eq [of n 4294967296 256] digits4 [of n] by simp

lemma gen_MAC_unat: "unat (gen_MAC_addrs a b c d e f)
    = 1099511627776 * unat a + 4294967296 * unat b + 16777216 * unat c + 65536 * unat d + 256 * unat e + unat f"
proof -
  have l: "unat x < 256" for x :: u8 using unsigned_less [of x] by simp
  let ?n = "1099511627776 * unat a + 4294967296 * unat b + 16777216 * unat c + 65536 * unat d + 256 * unat e + unat f"
  have "?n < 2 ^ 64" using l [of a] l [of b] l [of c] l [of d] l [of e] l [of f] by simp
  moreover have eq: "gen_MAC_addrs a b c d e f = of_nat ?n" by (simp add: gen_MAC_addrs_def)
  ultimately show ?thesis unfolding eq unat_of_nat by simp
qed

lemma gen_IP_unat: "unat (gen_IP_addrs a b c d) = 16777216 * unat a + 65536 * unat b + 256 * unat c + unat d"
proof -
  have l: "unat x < 256" for x :: u8 using unsigned_less [of x] by simp
  let ?n = "16777216 * unat a + 65536 * unat b + 256 * unat c + unat d"
  have "?n < 2 ^ 32" using l [of a] l [of b] l [of c] l [of d] by simp
  moreover have eq: "gen_IP_addrs a b c d = of_nat ?n" by (simp add: gen_IP_addrs_def)
  ultimately show ?thesis unfolding eq unat_of_nat by simp
qed

lemma MAC_inverse:
  assumes "unat w < 281474976710656"
  shows "gen_MAC_addrs (MAC_addrs_conversion w ! 0) (MAC_addrs_conversion w ! 1) (MAC_addrs_conversion w ! 2)
     (MAC_addrs_conversion w ! 3) (MAC_addrs_conversion w ! 4) (MAC_addrs_conversion w ! 5) = w"
  using digits6 [OF assms] unat_low_byte [of w] by (intro unsigned_word_eqI [where ?'a = nat]) (simp add: gen_MAC_unat MAC_bytes unat_byte)

lemma IP_inverse:
  "gen_IP_addrs (IP_addrs_conversion w ! 0) (IP_addrs_conversion w ! 1) (IP_addrs_conversion w ! 2) (IP_addrs_conversion w ! 3) = w"
proof -
  have "unat w < 4294967296" using unsigned_less [of w] by simp
  then show ?thesis using digits4 [of "unat w"] unat_low_byte [of w] by (intro unsigned_word_eqI [where ?'a = nat]) (simp add: gen_IP_unat IP_bytes unat_byte)
qed

lemma conversion_lengths [simp]: "length (MAC_addrs_conversion w) = 6" "length (IP_addrs_conversion v) = 4"
  by (simp_all add: MAC_addrs_conversion_def IP_addrs_conversion_def)

lemma mac_at_mid:
  assumes "unat w < 281474976710656" "length xs = i"
  shows "mac_at (xs @ MAC_addrs_conversion w @ ys) i = Inr w"
proof -
  have "slice (xs @ MAC_addrs_conversion w @ ys) i 6 = Inr (MAC_addrs_conversion w)"
    using assms(2) by (simp add: slice_def)
  then show ?thesis using MAC_inverse [OF assms(1)] by (simp add: mac_at_def)
qed

lemma ip_at_mid:
  assumes "length xs = i"
  shows "ip_at (xs @ IP_addrs_conversion w @ ys) i = Inr w"
proof -
  have "slice (xs @ IP_addrs_conversion w @ ys) i 4 = Inr (IP_addrs_conversion w)" using assms by (simp add: slice_def)
  then show ?thesis using IP_inverse [of w] by (simp add: ip_at_def)
qed

lemma arp_bytes_parse:
  assumes "unat (am_sender_MAC_addrs msg) < 281474976710656" "unat (am_target_MAC_addrs msg) < 281474976710656"
    "pdu (dataFrame f) = Some (arp_hdr_bytes msg)" "pduLength (dataFrame f) = SIZEOF_ARP_HDR"
  shows "fdf_to_arp f = Inr (Some msg)"
proof -
  let ?h = "mem16 (htons (am_hardware_type msg)) @ mem16 (htons (am_protocol_type msg))
    @ [am_hardware_addrs_length msg, am_protocol_addrs_length msg] @ mem16 (htons (am_operation msg))"
  let ?sm = "MAC_addrs_conversion (am_sender_MAC_addrs msg)" and ?si = "IP_addrs_conversion (am_sender_IP_addrs msg)"
    and ?tm = "MAC_addrs_conversion (am_target_MAC_addrs msg)" and ?ti = "IP_addrs_conversion (am_target_IP_addrs msg)"
  let ?p = "arp_hdr_bytes msg"
  have p: "?p = ?h @ ?sm @ (?si @ ?tm @ ?ti)" "?p = (?h @ ?sm) @ ?si @ (?tm @ ?ti)" "?p = (?h @ ?sm @ ?si) @ ?tm @ ?ti"
    "?p = (?h @ ?sm @ ?si @ ?tm) @ ?ti @ []"
    by (simp_all add: arp_hdr_bytes_def)
  have a: "mac_at ?p 8 = Inr (am_sender_MAC_addrs msg)" unfolding p(1) by (rule mac_at_mid [OF assms(1)]) simp
  have b: "ip_at ?p 14 = Inr (am_sender_IP_addrs msg)" unfolding p(2) by (rule ip_at_mid) simp
  have c: "mac_at ?p 18 = Inr (am_target_MAC_addrs msg)" unfolding p(3) by (rule mac_at_mid [OF assms(2)]) simp
  have d: "ip_at ?p 24 = Inr (am_target_IP_addrs msg)" unfolding p(4) by (rule ip_at_mid) simp
  have h: "load16 ?p 0 = Inr (htons (am_hardware_type msg))" "load16 ?p 2 = Inr (htons (am_protocol_type msg))"
    "load8 ?p 4 = Inr (am_hardware_addrs_length msg)" "load8 ?p 5 = Inr (am_protocol_addrs_length msg)"
    "load16 ?p 6 = Inr (htons (am_operation msg))"
    by (simp_all add: arp_hdr_bytes_def load16_def mem16_def load8_Cons)
  show ?thesis using assms(3,4) h a b c d by (simp add: fdf_to_arp_def)
qed

section \<open>Finding an address\<close>

text \<open>Sending along the flow to the interface.\<close>

lemma arp_frame_sent:
  assumes "space m xs 1" "flow_to m ARP_FLOW_INTERFACE d"
  obtains f q m' where "arp_to_fdf msg = Inr f" "module_send_flow m f ARP_FLOW_INTERFACE = Inr (1, m')" "sent xs m [q] m'"
    "pdu (dataFrame q) = Some (arp_hdr_bytes msg)" "pduLength (dataFrame q) = SIZEOF_ARP_HDR" "destinationID q = d"
    "dataOrCtrl q = FF_DATA" "arp_meta q msg"
proof -
  obtain f where f: "arp_to_fdf msg = Inr f" "dataOrCtrl f = FF_DATA" "pdu (dataFrame f) = Some (arp_hdr_bytes msg)"
      "pduLength (dataFrame f) = SIZEOF_ARP_HDR" "arp_meta f msg" by (rule arp_to_fdf_ok)
  have "room m xs" using space_room [OF assms(1)] by simp
  then obtain m' where "module_send_flow m f ARP_FLOW_INTERFACE = Inr (1, m')" "sent xs m [f\<lparr>destinationID := d\<rparr>] m'"
    by (rule flow_single [OF _ assms(2)])
  with f that [of f m' "f\<lparr>destinationID := d\<rparr>"] show thesis by (simp add: arp_meta_def)
qed

lemma on_wire_simps [simp]:
  "dataOrCtrl (on_wire q) = FF_DATA" "pdu (dataFrame (on_wire q)) = pdu (dataFrame q)"
  "pduLength (dataFrame (on_wire q)) = pduLength (dataFrame q)"
  by (simp_all add: on_wire_def)

text \<open>A new search: the request goes to the interface, the asking frame waits.\<close>

lemma get_addr_starts:
  assumes "space m xs 1" "flow_to m ARP_FLOW_INTERFACE d" "get_addr_frame f si di"
    "find (\<lambda>i. ifr_ipv4_test i si) (ar_if_list (m_data m)) = Some ifr"
    "di \<notin> ac_ip ` set (ar_cache_list (m_data m))" "length (ar_cache_list (m_data m)) < ar_cache_max (m_data m)"
  obtains m' q g c where "arp_exec current m f = Inr m'" "moved xs m [q] m'" "destinationID q = d" "dataOrCtrl q = FF_DATA"
    "pdu (dataFrame q) = Some (arp_hdr_bytes (gen_requestARP (if_mac ifr) si ARP_MAC_BROADCAST di))" "pduLength (dataFrame q) = SIZEOF_ARP_HDR"
    "ar_cache_list (m_data m') = ar_cache_list (m_data m) @ [c]" "ac_ip c = di" "ac_seeking c"
    "ac_request_list c = [arp_request_create g (if_mac ifr) si]" "arp_query g" "req_key g = req_key f"
    "ac_retries c = 0" "ac_to_flag c = False" "ac_timer c = Some ARP_RETRANS_TO_DEFAULT" "ac_request_max c = ARP_REQUEST_LIST_MAX"
    "arp_meta q (gen_requestARP (if_mac ifr) si ARP_MAC_BROADCAST di)"
proof -
  obtain g where g: "arp_query g" "req_key g = req_key f"
    "arp_exec current m f = (case List.extract (\<lambda>c. arp_cache_ip_test c di) (ar_cache_list (m_data m)) of
        Some (pre, c, post) \<Rightarrow> get_addr_cached current m g (if_mac ifr) si di pre c post
      | None \<Rightarrow> get_addr_new current m g (if_mac ifr) si di)"
    by (rule exec_opens [OF assms(3,4)])
  obtain fr q m1 where q: "arp_to_fdf (gen_requestARP (if_mac ifr) si ARP_MAC_BROADCAST di) = Inr fr"
      "module_send_flow m fr ARP_FLOW_INTERFACE = Inr (1, m1)" "sent xs m [q] m1"
      "pdu (dataFrame q) = Some (arp_hdr_bytes (gen_requestARP (if_mac ifr) si ARP_MAC_BROADCAST di))" "pduLength (dataFrame q) = SIZEOF_ARP_HDR"
      "destinationID q = d" "dataOrCtrl q = FF_DATA" "arp_meta q (gen_requestARP (if_mac ifr) si ARP_MAC_BROADCAST di)"
    by (rule arp_frame_sent [OF assms(1,2)])
  have sr: "send_request m (if_mac ifr) si ARP_MAC_BROADCAST di = Inr (True, m1)" using q(1,2) by (simp add: send_request_def)
  have d: "m_data m1 = m_data m" by (rule sent_fields(3) [OF q(3)])
  have x: "List.extract (\<lambda>c. arp_cache_ip_test c di) (ar_cache_list (m_data m)) = None"
    using assms(5) by (auto simp: extract_None_iff arp_cache_ip_test_def)
  let ?c = "add_request (arp_request_create g (if_mac ifr) si) (start_seeking current (arp_cache_create di))"
  have "arp_exec current m f = Inr (set_caches (ar_cache_list (m_data m) @ [?c]) m1)"
    using assms(6) x sr d g(3) by (simp add: get_addr_new_def)
  then show thesis using that [of "set_caches (ar_cache_list (m_data m) @ [?c]) m1" q ?c g] sent_moved [OF q(3)] q(4-8) g(1,2)
    by (simp add: add_request_def start_seeking_def arp_cache_create_def)
qed

text \<open>The host that is asked answers.\<close>

lemma arp_in_request_answered:
  assumes "space m xs 1" "flow_to m ARP_FLOW_INTERFACE d"
    "pdu (dataFrame f) = Some (arp_hdr_bytes (gen_requestARP sm si tm ti))" "pduLength (dataFrame f) = SIZEOF_ARP_HDR" "dataOrCtrl f = FF_DATA"
    "unat sm < 281474976710656" "unat tm < 281474976710656" "sm \<noteq> 0" "si \<noteq> 0" "ti \<noteq> 0"
    "find (\<lambda>i. ifr_ipv4_test i ti) (ar_if_list (m_data m)) = Some ifr"
  obtains m' q where "arp_in_fdf current m f = Inr m'" "moved xs m [q] m'" "destinationID q = d" "dataOrCtrl q = FF_DATA" "m_data m' = m_data m"
    "pdu (dataFrame q) = Some (arp_hdr_bytes (gen_replyARP (if_mac ifr) ti sm si))" "pduLength (dataFrame q) = SIZEOF_ARP_HDR"
    "arp_meta q (gen_replyARP (if_mac ifr) ti sm si)"
proof -
  let ?msg = "gen_requestARP sm si tm ti"
  have parse: "fdf_to_arp f = Inr (Some ?msg)" using arp_bytes_parse [of ?msg f] assms(3,4,6,7) by (simp add: gen_requestARP_def)
  have val: "check_valid_arp ?msg" using assms(8-10) by (simp add: check_valid_arp_def gen_requestARP_def ARP_defs)
  obtain fr q m1 where q: "arp_to_fdf (gen_replyARP (if_mac ifr) ti sm si) = Inr fr"
      "module_send_flow m fr ARP_FLOW_INTERFACE = Inr (1, m1)" "sent xs m [q] m1"
      "pdu (dataFrame q) = Some (arp_hdr_bytes (gen_replyARP (if_mac ifr) ti sm si))" "pduLength (dataFrame q) = SIZEOF_ARP_HDR"
      "destinationID q = d" "dataOrCtrl q = FF_DATA" "arp_meta q (gen_replyARP (if_mac ifr) ti sm si)"
    by (rule arp_frame_sent [OF assms(1,2)])
  have "arp_in_request m ?msg (if_mac ifr) = Inr m1" using q(1,2) by (simp add: arp_in_request_def send_or_free_def gen_requestARP_def)
  then have "arp_in_fdf current m f = Inr (m1\<lparr>m_freed := m_freed m1 @ [f]\<rparr>)"
    using parse val assms(5,11) free_ff_ctrl [of f m1] by (simp add: arp_in_fdf_def) (simp add: gen_requestARP_def)
  with that q sent_moved [OF q(3)] sent_fields(3) [OF q(3)] show thesis by simp
qed

text \<open>A reply for the last cache of the list answers its requests.\<close>

lemma arp_in_reply_answers:
  assumes "space m xs (length (ac_request_list c))"
    "pdu (dataFrame f) = Some (arp_hdr_bytes (gen_replyARP sm si tm ti))" "pduLength (dataFrame f) = SIZEOF_ARP_HDR" "dataOrCtrl f = FF_DATA"
    "unat sm < 281474976710656" "unat tm < 281474976710656" "sm \<noteq> 0" "si \<noteq> 0" "ti \<noteq> 0"
    "find (\<lambda>i. ifr_ipv4_test i ti) (ar_if_list (m_data m)) = Some ifr"
    "ar_cache_list (m_data m) = cs @ [c]" "ac_ip c = si" "si \<notin> ac_ip ` set cs" "ac_seeking c" "list_all req_ok (ac_request_list c)"
  obtains m' outs c' where "arp_in_fdf current m f = Inr m'" "moved xs m outs m'" "map ans_key outs = cache_requests c"
    "list_all (\<lambda>r. dataOrCtrl r = FF_CONTROL \<and> addr_answer sm r) outs"
    "ar_cache_list (m_data m') = cs @ [c']" "ac_ip c' = si" "\<not> ac_seeking c'" "ac_mac c' = sm" "ac_updated_stamp c' = current"
proof -
  let ?msg = "gen_replyARP sm si tm ti"
  have parse: "fdf_to_arp f = Inr (Some ?msg)" using arp_bytes_parse [of ?msg f] assms(2,3,5,6) by (simp add: gen_replyARP_def)
  have val: "check_valid_arp ?msg" using assms(7-9) by (simp add: check_valid_arp_def gen_replyARP_def ARP_defs)
  have x: "List.extract (\<lambda>c. arp_cache_ip_test c si) (ar_cache_list (m_data m)) = Some (cs, c, [])"
    using extract_last [OF assms(12,13)] assms(11) by simp
  let ?c = "c\<lparr>ac_timer := None, ac_to_flag := False, ac_updated_stamp := current, ac_seeking := False, ac_mac := sm, ac_request_list := []\<rparr>"
  let ?m = "set_caches (cs @ [?c]) m"
  have "space ?m xs (length (ac_request_list c))" using assms(1) by simp
  from accepting.loop_answers [OF this assms(15), of sm] obtain m1 outs where
    o: "answer_all sm (ac_request_list c) ?m = Inr m1" "sent xs ?m outs m1" "map ans_key outs = cache_requests c"
      "list_all (\<lambda>r. dataOrCtrl r = FF_CONTROL \<and> addr_answer sm r) outs"
    unfolding cache_requests_def by blast
  have "arp_in_reply current m ?msg = Inr m1" using x assms(14) o(1) by (simp add: arp_in_reply_def gen_replyARP_def)
  then have "arp_in_fdf current m f = Inr (m1\<lparr>m_freed := m_freed m1 @ [f]\<rparr>)"
    using parse val assms(4,10) free_ff_ctrl [of f m1] by (simp add: arp_in_fdf_def) (simp add: gen_replyARP_def ARP_defs)
  with that [of "m1\<lparr>m_freed := m_freed m1 @ [f]\<rparr>" outs ?c] o sent_moved [OF o(2)] sent_fields(3) [OF o(2)] assms(12) show thesis by simp
qed

text \<open>An address that was found less than 50 seconds ago is answered at once.\<close>

lemma get_addr_known:
  assumes "space m xs 1" "get_addr_frame f si di" "find (\<lambda>i. ifr_ipv4_test i si) (ar_if_list (m_data m)) = Some ifr"
    "ar_cache_list (m_data m) = cs @ [c]" "ac_ip c = di" "di \<notin> ac_ip ` set cs" "\<not> ac_seeking c"
    "time_diff (ac_updated_stamp c) current \<le> 50000000"
  obtains m' r where "arp_exec current m f = Inr m'" "moved xs m [r] m'" "ans_key r = req_key f" "addr_answer (ac_mac c) r"
proof -
  obtain g where g: "arp_query g" "req_key g = req_key f"
    "arp_exec current m f = (case List.extract (\<lambda>c. arp_cache_ip_test c di) (ar_cache_list (m_data m)) of
        Some (pre, c, post) \<Rightarrow> get_addr_cached current m g (if_mac ifr) si di pre c post
      | None \<Rightarrow> get_addr_new current m g (if_mac ifr) si di)"
    by (rule exec_opens [OF assms(2,3)])
  obtain m' r where r: "arp_answer m g (ac_mac c) = Inr m'" "sent xs m [r] m'" "dataOrCtrl r = FF_CONTROL" "ans_key r = req_key g" "addr_answer (ac_mac c) r"
    by (rule arp_answer_ok [OF assms(1) g(1)])
  have "arp_exec current m f = Inr m'"
    using extract_last [OF assms(5,6)] assms(4,7,8) r(1) g(3) by (simp add: get_addr_cached_def ARP_CACHE_TO_DEFAULT_def)
  with that r g(2) sent_moved [OF r(2)] show thesis by simp
qed

section \<open>Giving up\<close>

lemma arp_to_each_idle: "list_all (\<lambda>c. \<not> ac_to_flag c) cs \<Longrightarrow> arp_to_each cs m = Inr (cs, m)"
  by (induction cs) (simp_all add: arp_to_func_def)

lemma arp_to_each_one:
  assumes "list_all (\<lambda>c. \<not> ac_to_flag c) pre" "list_all (\<lambda>c. \<not> ac_to_flag c) post"
  shows "arp_to_each (pre @ c # post) m = andThen (arp_to_func m c) (\<lambda>(r, m1). Inr (pre @ list_of_option r @ post, m1))"
  using assms(1)
proof (induction pre)
  case Nil
  then show ?case using arp_to_each_idle [OF assms(2)] by (cases "arp_to_func m c") auto
next
  case (Cons a pre)
  then have "arp_to_func m a = Inr (Some a, m)" by (simp add: arp_to_func_def)
  then show ?case using Cons by (cases "arp_to_func m c") (auto split: prod.splits)
qed

lemma ticked_simps [simp]:
  "space (ticked i m) xs n = space m xs n" "flow_to (ticked i m) fl d = flow_to m fl d" "no_flow (ticked i m) fl = no_flow m fl"
  "m_output_queue (ticked i m) = m_output_queue m" "m_table (ticked i m) = m_table m" "m_freed (ticked i m) = m_freed m"
  by (simp_all add: ticked_def intsem_to_handler_def space_def flow_to_def no_flow_def)

lemma arp_timeout_eq:
  assumes "ar_cache_list (m_data m) = pre @ c # post" "list_all (\<lambda>c. \<not> ac_to_flag c) pre" "list_all (\<lambda>c. \<not> ac_to_flag c) post"
  shows "arp_timeout (length pre) m = andThen (arp_handle_to (ticked (length pre) m) (c\<lparr>ac_timer := None, ac_to_flag := False\<rparr>))
    (\<lambda>(r, m1). Inr (set_caches (pre @ list_of_option r @ post) m1))"
proof -
  let ?c = "c\<lparr>ac_to_flag := True, ac_timer := None\<rparr>" and ?m = "ticked (length pre) m"
  have l: "ar_cache_list (m_data ?m) = pre @ ?c # post" using assms(1) by (simp add: ticked_def intsem_to_handler_def)
  have f: "arp_to_func ?m ?c = arp_handle_to ?m (c\<lparr>ac_timer := None, ac_to_flag := False\<rparr>)" by (simp add: arp_to_func_def)
  show ?thesis unfolding arp_timeout_def arp_interrupt_def l arp_to_each_one [OF assms(2,3)] f
    by (cases "arp_handle_to ?m (c\<lparr>ac_timer := None, ac_to_flag := False\<rparr>)") (auto split: prod.splits)
qed

lemma timeout_retries:
  assumes "space m xs 1" "flow_to m ARP_FLOW_INTERFACE d" "ar_cache_list (m_data m) = pre @ c # post"
    "list_all (\<lambda>c. \<not> ac_to_flag c) pre" "list_all (\<lambda>c. \<not> ac_to_flag c) post"
    "ac_seeking c" "ac_retries c < 2" "ac_request_list c = r # rs"
  shows "\<exists>m' q. arp_timeout (length pre) m = Inr m' \<and> moved xs (ticked (length pre) m) [q] m'
    \<and> pdu (dataFrame q) = Some (arp_hdr_bytes (gen_requestARP (rq_src_mac r) (rq_src_ip r) ARP_MAC_BROADCAST (ac_ip c)))
    \<and> ar_cache_list (m_data m') = pre @ c\<lparr>ac_to_flag := False, ac_retries := ac_retries c + 1, ac_timer := Some ARP_RETRANS_TO_DEFAULT\<rparr> # post"
proof -
  let ?m = "ticked (length pre) m"
  have "space ?m xs 1" "flow_to ?m ARP_FLOW_INTERFACE d" using assms(1,2) by simp_all
  then obtain fr q m1 where q: "arp_to_fdf (gen_requestARP (rq_src_mac r) (rq_src_ip r) ARP_MAC_BROADCAST (ac_ip c)) = Inr fr"
      "module_send_flow ?m fr ARP_FLOW_INTERFACE = Inr (1, m1)" "sent xs ?m [q] m1"
      "pdu (dataFrame q) = Some (arp_hdr_bytes (gen_requestARP (rq_src_mac r) (rq_src_ip r) ARP_MAC_BROADCAST (ac_ip c)))"
    by (rule arp_frame_sent)
  have "send_request ?m (rq_src_mac r) (rq_src_ip r) ARP_MAC_BROADCAST (ac_ip c) = Inr (True, m1)" using q(1,2) by (simp add: send_request_def)
  then have "arp_handle_to ?m (c\<lparr>ac_timer := None, ac_to_flag := False\<rparr>)
      = Inr (Some (c\<lparr>ac_to_flag := False, ac_retries := ac_retries c + 1, ac_timer := Some ARP_RETRANS_TO_DEFAULT\<rparr>), m1)"
    using assms(6-8) by (simp add: arp_handle_to_def ARP_RETRIES_def)
  then show ?thesis using q(4) sent_moved [OF q(3)] arp_timeout_eq [OF assms(3-5)] by auto
qed

lemma timeout_gives_up:
  assumes "space m xs (length (ac_request_list c))" "ar_cache_list (m_data m) = pre @ c # post"
    "list_all (\<lambda>c. \<not> ac_to_flag c) pre" "list_all (\<lambda>c. \<not> ac_to_flag c) post"
    "ac_seeking c" "2 \<le> ac_retries c" "list_all req_ok (ac_request_list c)"
  shows "\<exists>m' outs. arp_timeout (length pre) m = Inr m' \<and> moved xs (ticked (length pre) m) outs m' \<and> map ans_key outs = cache_requests c
    \<and> list_all (\<lambda>r. dataOrCtrl r = FF_CONTROL \<and> ret_val (ctrlFrame r) = FCF_FALSE) outs
    \<and> ar_cache_list (m_data m') = pre @ post"
proof -
  let ?m = "ticked (length pre) m"
  have "space ?m xs (length (ac_request_list c))" using assms(1) by simp
  from refusing.loop_answers [OF this assms(7)] obtain m1 outs where
    o: "reject_all (ac_request_list c) ?m = Inr m1" "sent xs ?m outs m1" "map ans_key outs = cache_requests c"
      "list_all (\<lambda>r. dataOrCtrl r = FF_CONTROL \<and> ret_val (ctrlFrame r) = FCF_FALSE) outs"
    unfolding cache_requests_def by blast
  then show ?thesis using sent_moved [OF o(2)] assms(5,6) arp_timeout_eq [OF assms(2-4)]
    by (intro exI [of _ "set_caches (pre @ post) m1"] exI [of _ outs])
      (simp add: arp_handle_to_def ARP_RETRIES_def arp_cache_free_def)
qed

section \<open>The theorems\<close>

text \<open>
  C6: no ARP request is lost and none is answered twice. In a module that satisfies its invariant (a cache is seeking
  exactly when requests wait for it, there is one cache per address, the lists keep within their capacities), serving a
  request for an address, a packet from the network or the expired timers returns, keeps the invariant, and the
  requests answered plus the requests still waiting are the requests that waited before plus the new one, counted by
  sender and serial number.
\<close>

theorem arp_requests_conserved:
  assumes "arp_ok m" "arp_linked m" "event_ok e" "space m xs (2 + length (ar_cache_list (m_data m)) + size (pending m))"
  shows "\<exists>m' outs. arp_serve current e m = Inr m' \<and> arp_ok m' \<and> arp_linked m' \<and> queue_rep (m_output_queue m') (xs @ outs)
    \<and> answers outs + pending m' = pending m + new_requests e"
proof -
  have "\<exists>m'. arp_serve current e m = Inr m' \<and> arp_handled xs m (new_requests e) m'"
  proof (cases e)
    case (GetAddr f)
    then obtain si di where f: "get_addr_frame f si di" using assms(3) by auto
    then have "arp_serve current e m = arp_exec current m f"
      by (auto simp: GetAddr get_addr_frame_def arp_query_def arp_dispatch_def arp_fcf_def CTRL_defs split: option.splits)
    moreover have "space m xs 2" using assms(4) by (simp add: space_def)
    ultimately show ?thesis using arp_exec_handled [OF _ assms(2,1) f] GetAddr by simp
  next
    case (Packet f)
    then have f: "packet_frame f" using assms(3) by simp
    have "arp_serve current e m = arp_in_fdf current m f"
      using Packet assms(3) by (auto simp: packet_frame_def arp_dispatch_def FF_defs)
    moreover have "space m xs (Suc (size (pending m)))" using assms(4) by (simp add: space_def)
    ultimately show ?thesis using arp_in_handled [OF _ assms(2,1) f] Packet by simp
  next
    case Timeouts
    moreover have "space m xs (length (ar_cache_list (m_data m)) + size (pending m))" using assms(4) by (simp add: space_def)
    ultimately show ?thesis using arp_interrupt_handled [OF _ assms(2,1)] by simp
  qed
  then obtain m' where m': "arp_serve current e m = Inr m'" "arp_handled xs m (new_requests e) m'" by blast
  then obtain outs where "moved xs m outs m'" "answers outs + pending m' = pending m + new_requests e" "arp_ok m'"
    by (auto simp: arp_handled_def)
  with m'(1) assms(2) linked_table [of m' m] show ?thesis by (auto simp: moved_def)
qed

lemma ex_host_ready: "arp_ok (ex_host ip mac)" "flow_to (ex_host ip mac) ARP_FLOW_INTERFACE 2" "arp_linked (ex_host ip mac)"
  "space (ex_host ip mac) [] 10" "pending (ex_host ip mac) = {#}"
proof -
  show f: "flow_to (ex_host ip mac) ARP_FLOW_INTERFACE 2"
    by (simp add: flow_to_def ex_host_def ARP_FLOW_INTERFACE_def LINK_NULL_def)
  show "arp_linked (ex_host ip mac)" using f by (auto simp: arp_linked_def)
  have q: "m_output_queue (ex_host ip mac) = CreateQueue 20" by (simp add: ex_host_def)
  show "space (ex_host ip mac) [] 10" unfolding space_def q by (simp add: CreateQueue_rep) (simp add: queue_cap_def CreateQueue_def MakeEmpty_def)
qed (simp_all add: arp_ok_def caches_ok_def ex_host_def pending_def)

lemma ex_query_frame: "get_addr_frame ex_query 1 2" "req_key ex_query = (4, 77)"
  using arp_names ret_msg_valid by (simp_all add: get_addr_frame_def arp_query_def ex_query_def meta_plain_def free_u64_def free_u32_def
      has_u32_def plain_def req_key_def)

theorem arp_requests_conserved_witness:
  "\<exists>m' outs. arp_serve \<lparr>tv_sec = 0, tv_usec = 0\<rparr> (GetAddr ex_query) (ex_host 1 0xAA) = Inr m' \<and> arp_ok m' \<and> arp_linked m'
    \<and> queue_rep (m_output_queue m') outs \<and> answers outs + pending m' = {#(4, 77)#}"
proof -
  have "length (ar_cache_list (m_data (ex_host 1 0xAA))) = 0" by (simp add: ex_host_def)
  then have sp: "space (ex_host 1 0xAA) [] (2 + length (ar_cache_list (m_data (ex_host 1 0xAA))) + size (pending (ex_host 1 0xAA)))"
    using ex_host_ready(4,5) [of 1 "0xAA"] by (simp add: space_def)
  have ev: "event_ok (GetAddr ex_query)" using ex_query_frame(1) by auto
  show ?thesis using arp_requests_conserved [OF ex_host_ready(1,3) ev sp] ex_query_frame(2) ex_host_ready(5) [of 1 "0xAA"] by simp
qed

text \<open>
  C28: ARP messages survive the network: the frame made from any message, whose hardware addresses have 48 bits, is read
  back as the same message.
\<close>

theorem arp_message_roundtrip:
  assumes "unat (am_sender_MAC_addrs msg) < 2 ^ 48" "unat (am_target_MAC_addrs msg) < 2 ^ 48"
  shows "\<exists>f. arp_to_fdf msg = Inr f \<and> fdf_to_arp (on_wire f) = Inr (Some msg)"
proof -
  obtain f where f: "arp_to_fdf msg = Inr f" "pdu (dataFrame f) = Some (arp_hdr_bytes msg)" "pduLength (dataFrame f) = SIZEOF_ARP_HDR"
    by (rule arp_to_fdf_ok)
  have "fdf_to_arp (on_wire f) = Inr (Some msg)" using arp_bytes_parse [of msg "on_wire f"] f(2,3) assms by simp
  with f(1) show ?thesis by blast
qed

theorem arp_message_roundtrip_witness:
  "\<exists>f. arp_to_fdf (gen_requestARP 0xAABBCCDDEEFF 0xC0A80101 ARP_MAC_BROADCAST 0xC0A80102) = Inr f
    \<and> fdf_to_arp (on_wire f) = Inr (Some (gen_requestARP 0xAABBCCDDEEFF 0xC0A80101 ARP_MAC_BROADCAST 0xC0A80102))"
  by (rule arp_message_roundtrip) (simp_all add: gen_requestARP_def ARP_MAC_BROADCAST_def)

text \<open>
  C27: address resolution between two hosts. A host that asks for an address it does not know sends one broadcast and
  keeps the asking frame; the host that has the address answers the broadcast; the reply makes the first host answer the
  asking frame with the hardware address of the second; and a request that comes within 50 seconds is answered from the
  cache, without a message.
\<close>

theorem arp_resolves:
  assumes "get_addr_frame f si di" "space a xs 3" "flow_to a ARP_FLOW_INTERFACE d"
    "find (\<lambda>i. ifr_ipv4_test i si) (ar_if_list (m_data a)) = Some ia" "di \<notin> ac_ip ` set (ar_cache_list (m_data a))"
    "length (ar_cache_list (m_data a)) < ar_cache_max (m_data a)"
    "find (\<lambda>i. ifr_ipv4_test i di) (ar_if_list (m_data b)) = Some ib" "space b ys 1" "flow_to b ARP_FLOW_INTERFACE e"
    "if_mac ia \<noteq> 0" "unat (if_mac ia) < 2 ^ 48" "if_mac ib \<noteq> 0" "unat (if_mac ib) < 2 ^ 48" "si \<noteq> 0" "di \<noteq> 0"
    "get_addr_frame g si di" "time_diff t2 t3 \<le> 50000000"
  shows "\<exists>a1 q b1 p a2 r a3 r2. arp_exec t1 a f = Inr a1 \<and> queue_rep (m_output_queue a1) (xs @ [q]) \<and> destinationID q = d
    \<and> arp_in_fdf tb b (on_wire q) = Inr b1 \<and> queue_rep (m_output_queue b1) (ys @ [p]) \<and> destinationID p = e
    \<and> arp_in_fdf t2 a1 (on_wire p) = Inr a2 \<and> queue_rep (m_output_queue a2) (xs @ [q, r])
    \<and> ans_key r = req_key f \<and> addr_answer (if_mac ib) r
    \<and> arp_exec t3 a2 g = Inr a3 \<and> queue_rep (m_output_queue a3) (xs @ [q, r, r2])
    \<and> ans_key r2 = req_key g \<and> addr_answer (if_mac ib) r2"
proof -
  have mac: "unat (if_mac ia) < 281474976710656" "unat (if_mac ib) < 281474976710656" "unat ARP_MAC_BROADCAST < 281474976710656"
    using assms(11,13) by (simp_all add: ARP_MAC_BROADCAST_def)
  have s1: "space a xs 1" using assms(2) by (simp add: space_def)
  obtain a1 q h c where 1: "arp_exec t1 a f = Inr a1" "moved xs a [q] a1" "destinationID q = d" "dataOrCtrl q = FF_DATA"
      "pdu (dataFrame q) = Some (arp_hdr_bytes (gen_requestARP (if_mac ia) si ARP_MAC_BROADCAST di))" "pduLength (dataFrame q) = SIZEOF_ARP_HDR"
      "ar_cache_list (m_data a1) = ar_cache_list (m_data a) @ [c]" "ac_ip c = di" "ac_seeking c"
      "ac_request_list c = [arp_request_create h (if_mac ia) si]" "arp_query h" "req_key h = req_key f"
    by (rule get_addr_starts [OF s1 assms(3,1,4-6)])
  have w: "pdu (dataFrame (on_wire q)) = Some (arp_hdr_bytes (gen_requestARP (if_mac ia) si ARP_MAC_BROADCAST di))"
    "pduLength (dataFrame (on_wire q)) = SIZEOF_ARP_HDR" "dataOrCtrl (on_wire q) = FF_DATA" using 1(5,6) by simp_all
  obtain b1 p where 2: "arp_in_fdf tb b (on_wire q) = Inr b1" "moved ys b [p] b1" "destinationID p = e" "dataOrCtrl p = FF_DATA"
      "pdu (dataFrame p) = Some (arp_hdr_bytes (gen_replyARP (if_mac ib) di (if_mac ia) si))" "pduLength (dataFrame p) = SIZEOF_ARP_HDR"
    by (rule arp_in_request_answered [OF assms(8,9) w mac(1,3) assms(10,14,15,7)])
  have v: "pdu (dataFrame (on_wire p)) = Some (arp_hdr_bytes (gen_replyARP (if_mac ib) di (if_mac ia) si))"
    "pduLength (dataFrame (on_wire p)) = SIZEOF_ARP_HDR" "dataOrCtrl (on_wire p) = FF_DATA" using 2(5,6) by simp_all
  have i1: "find (\<lambda>i. ifr_ipv4_test i si) (ar_if_list (m_data a1)) = Some ia" using assms(4) 1(2) by (simp add: moved_def)
  have sp1: "space a1 (xs @ [q]) (length (ac_request_list c))" "space a1 (xs @ [q]) 2" using assms(2) 1(2,10) by (simp_all add: space_def moved_def)
  have ok: "list_all req_ok (ac_request_list c)" "cache_requests c = [req_key f]"
    using 1(10-12) by (simp_all add: req_ok_def arp_request_create_def cache_requests_def)
  obtain a2 outs c2 where 3: "arp_in_fdf t2 a1 (on_wire p) = Inr a2" "moved (xs @ [q]) a1 outs a2" "map ans_key outs = cache_requests c"
      "list_all (\<lambda>r. dataOrCtrl r = FF_CONTROL \<and> addr_answer (if_mac ib) r) outs"
      "ar_cache_list (m_data a2) = ar_cache_list (m_data a) @ [c2]" "ac_ip c2 = di" "\<not> ac_seeking c2" "ac_mac c2 = if_mac ib" "ac_updated_stamp c2 = t2"
    by (rule arp_in_reply_answers [OF sp1(1) v mac(2,1) assms(12,15,14) i1 1(7,8) assms(5) 1(9) ok(1)])
  obtain r where r: "outs = [r]" "ans_key r = req_key f" using 3(3) ok(2) by auto
  have i2: "find (\<lambda>i. ifr_ipv4_test i si) (ar_if_list (m_data a2)) = Some ia" using i1 3(2) by (simp add: moved_def)
  have sp2: "space a2 ((xs @ [q]) @ [r]) 1" using sp1(2) 3(2) r(1) by (simp add: space_def moved_def)
  have t: "time_diff (ac_updated_stamp c2) t3 \<le> 50000000" using assms(17) 3(9) by simp
  obtain a3 r2 where 4: "arp_exec t3 a2 g = Inr a3" "moved ((xs @ [q]) @ [r]) a2 [r2] a3" "ans_key r2 = req_key g" "addr_answer (ac_mac c2) r2"
    by (rule get_addr_known [OF sp2 assms(16) i2 3(5,6) assms(5) 3(7) t])
  have rq: "queue_rep (m_output_queue a1) (xs @ [q])" "queue_rep (m_output_queue b1) (ys @ [p])" "queue_rep (m_output_queue a2) (xs @ [q, r])"
    "queue_rep (m_output_queue a3) (xs @ [q, r, r2])" using 1(2) 2(2) 3(2) 4(2) r(1) by (simp_all add: moved_def)
  show ?thesis using 1(1,3) 2(1,3) 3(1,4,8) 4(1,3,4) r rq
    by (intro exI [of _ a1] exI [of _ q] exI [of _ b1] exI [of _ p] exI [of _ a2] exI [of _ r] exI [of _ a3] exI [of _ r2]) simp
qed

lemma ex_host_if: "find (\<lambda>i. ifr_ipv4_test i ip) (ar_if_list (m_data (ex_host ip mac))) = Some (hd (ar_if_list (m_data (ex_host ip mac))))"
  "if_mac (hd (ar_if_list (m_data (ex_host ip mac)))) = mac" "ar_cache_list (m_data (ex_host ip mac)) = []" "ar_cache_max (m_data (ex_host ip mac)) = 4"
  by (simp_all add: ex_host_def ifr_ipv4_test_def addr_ipv4_test_def AF_INET_def)

theorem arp_resolves_witness:
  "\<exists>a1 q b1 p a2 r. arp_exec \<lparr>tv_sec = 0, tv_usec = 0\<rparr> (ex_host 1 0xAA) ex_query = Inr a1 \<and> queue_rep (m_output_queue a1) [q]
    \<and> arp_in_fdf \<lparr>tv_sec = 0, tv_usec = 1\<rparr> (ex_host 2 0xBB) (on_wire q) = Inr b1 \<and> queue_rep (m_output_queue b1) [p]
    \<and> arp_in_fdf \<lparr>tv_sec = 0, tv_usec = 2\<rparr> a1 (on_wire p) = Inr a2 \<and> queue_rep (m_output_queue a2) [q, r]
    \<and> ans_key r = (4, 77) \<and> addr_answer 0xBB r"
proof -
  have s: "space (ex_host 1 0xAA) [] 3" "space (ex_host 2 0xBB) [] 1" using ex_host_ready(4) [of 1 "0xAA"] ex_host_ready(4) [of 2 "0xBB"] by (simp_all add: space_def)
  have c: "2 \<notin> ac_ip ` set (ar_cache_list (m_data (ex_host 1 0xAA)))"
    "length (ar_cache_list (m_data (ex_host 1 0xAA))) < ar_cache_max (m_data (ex_host 1 0xAA))" by (simp_all add: ex_host_if)
  have t: "time_diff \<lparr>tv_sec = 0, tv_usec = 2\<rparr> \<lparr>tv_sec = 0, tv_usec = 3\<rparr> \<le> 50000000" by (simp add: time_diff_def)
  have m: "if_mac (hd (ar_if_list (m_data (ex_host 1 0xAA)))) \<noteq> 0" "unat (if_mac (hd (ar_if_list (m_data (ex_host 1 0xAA))))) < 2 ^ 48"
    "if_mac (hd (ar_if_list (m_data (ex_host 2 0xBB)))) \<noteq> 0" "unat (if_mac (hd (ar_if_list (m_data (ex_host 2 0xBB))))) < 2 ^ 48"
    "(1 :: u32) \<noteq> 0" "(2 :: u32) \<noteq> 0" by (simp_all add: ex_host_if)
  from arp_resolves [OF ex_query_frame(1) s(1) ex_host_ready(2) ex_host_if(1) c ex_host_if(1) s(2) ex_host_ready(2) m
      ex_query_frame(1) t, of "\<lparr>tv_sec = 0, tv_usec = 0\<rparr>" "\<lparr>tv_sec = 0, tv_usec = 1\<rparr>"]
  show ?thesis unfolding ex_host_if(2) ex_query_frame(2) append_Nil by (elim exE conjE) (intro exI conjI, assumption+)
qed

text \<open>
  C29: a search ends. When nobody answers, the first two expiries of the timer each send the broadcast again, and the third
  refuses every waiting request, in the order of arrival, and removes the cache.
\<close>

theorem arp_search_ends:
  assumes "space m xs (2 + length (ac_request_list c))" "flow_to m ARP_FLOW_INTERFACE d" "ar_cache_list (m_data m) = pre @ c # post"
    "list_all (\<lambda>c. \<not> ac_to_flag c) pre" "list_all (\<lambda>c. \<not> ac_to_flag c) post"
    "ac_seeking c" "ac_retries c = 0" "ac_request_list c = r # rs" "list_all req_ok (ac_request_list c)"
  shows "\<exists>m1 m2 m3 q1 q2 outs. arp_timeout (length pre) m = Inr m1 \<and> arp_timeout (length pre) m1 = Inr m2 \<and> arp_timeout (length pre) m2 = Inr m3
    \<and> queue_rep (m_output_queue m3) (xs @ [q1, q2] @ outs)
    \<and> pdu (dataFrame q1) = Some (arp_hdr_bytes (gen_requestARP (rq_src_mac r) (rq_src_ip r) ARP_MAC_BROADCAST (ac_ip c)))
    \<and> pdu (dataFrame q2) = pdu (dataFrame q1)
    \<and> map ans_key outs = cache_requests c \<and> list_all (\<lambda>f. dataOrCtrl f = FF_CONTROL \<and> ret_val (ctrlFrame f) = FCF_FALSE) outs
    \<and> ar_cache_list (m_data m3) = pre @ post"
proof -
  let ?c1 = "c\<lparr>ac_to_flag := False, ac_retries := ac_retries c + 1, ac_timer := Some ARP_RETRANS_TO_DEFAULT\<rparr>"
  have s: "space m xs 1" using assms(1) by (simp add: space_def)
  have lt: "ac_retries c < 2" using assms(7) by simp
  obtain m1 q1 where 1: "arp_timeout (length pre) m = Inr m1" "moved xs (ticked (length pre) m) [q1] m1"
      "pdu (dataFrame q1) = Some (arp_hdr_bytes (gen_requestARP (rq_src_mac r) (rq_src_ip r) ARP_MAC_BROADCAST (ac_ip c)))"
      "ar_cache_list (m_data m1) = pre @ ?c1 # post"
    using timeout_retries [OF s assms(2-6) lt assms(8)] by blast
  have f1: "flow_to m1 ARP_FLOW_INTERFACE d" "space m1 (xs @ [q1]) (1 + length (ac_request_list c))"
    using assms(1,2) 1(2) by (simp_all add: flow_to_def moved_def space_def)
  have s1: "space m1 (xs @ [q1]) 1" "ac_seeking ?c1" "ac_retries ?c1 < 2" "ac_request_list ?c1 = r # rs"
    using f1(2) assms(6-8) by (simp_all add: space_def)
  obtain m2 q2 c2 where 2: "arp_timeout (length pre) m1 = Inr m2" "moved (xs @ [q1]) (ticked (length pre) m1) [q2] m2"
      "pdu (dataFrame q2) = pdu (dataFrame q1)" "ar_cache_list (m_data m2) = pre @ c2 # post"
      "c2 = ?c1\<lparr>ac_to_flag := False, ac_retries := ac_retries ?c1 + 1, ac_timer := Some ARP_RETRANS_TO_DEFAULT\<rparr>"
    using timeout_retries [OF s1(1) f1(1) 1(4) assms(4,5) s1(2-4)] 1(3) by auto
  have s2: "space m2 ((xs @ [q1]) @ [q2]) (length (ac_request_list c2))" "ac_seeking c2" "2 \<le> ac_retries c2" "list_all req_ok (ac_request_list c2)"
    using f1(2) 2(2,5) assms(6,7,9) by (simp_all add: space_def moved_def)
  obtain m3 outs where "arp_timeout (length pre) m2 = Inr m3" "moved ((xs @ [q1]) @ [q2]) (ticked (length pre) m2) outs m3"
      "map ans_key outs = cache_requests c2" "list_all (\<lambda>r. dataOrCtrl r = FF_CONTROL \<and> ret_val (ctrlFrame r) = FCF_FALSE) outs"
      "ar_cache_list (m_data m3) = pre @ post"
    using timeout_gives_up [OF s2(1) 2(4) assms(4,5) s2(2-4)] by blast
  moreover have "cache_requests c2 = cache_requests c" using 2(5) by (simp add: cache_requests_def)
  ultimately show ?thesis using 1(1,3) 2(1,3)
    by (intro exI [of _ m1] exI [of _ m2] exI [of _ m3] exI [of _ q1] exI [of _ q2] exI [of _ outs]) (simp add: moved_def)
qed

theorem arp_search_ends_witness:
  "\<exists>m1 m2 m3. arp_timeout 0 ex_search = Inr m1 \<and> arp_timeout 0 m1 = Inr m2 \<and> arp_timeout 0 m2 = Inr m3 \<and> ar_cache_list (m_data m3) = []"
proof -
  let ?c = "add_request (arp_request_create ex_query 0xAA 1) (start_seeking \<lparr>tv_sec = 0, tv_usec = 0\<rparr> (arp_cache_create 2))"
  have "space ex_search [] (2 + length (ac_request_list ?c))" using ex_host_ready(4) [of 1 "0xAA"]
    by (simp add: ex_search_def space_def add_request_def start_seeking_def arp_cache_create_def)
  moreover have "flow_to ex_search ARP_FLOW_INTERFACE 2" using ex_host_ready(2) by (simp add: ex_search_def set_caches_def)
  moreover have "ar_cache_list (m_data ex_search) = [] @ ?c # []" by (simp add: ex_search_def)
  moreover have "ac_seeking ?c" "ac_retries ?c = 0" "ac_request_list ?c = arp_request_create ex_query 0xAA 1 # []"
      "list_all req_ok (ac_request_list ?c)"
    using ex_query_frame(1) by (simp_all add: add_request_def start_seeking_def arp_cache_create_def arp_request_create_def req_ok_def get_addr_frame_def)
  ultimately show ?thesis using arp_search_ends [of ex_search "[]" ?c 2 "[]" "[]"] by fastforce
qed

text \<open>
  a search can hang. When the timer of a seeking cache expires while the flow to the interface has no link, the
  retransmission fails, and the timer is not started again: the requests keep waiting, and no later interrupt answers
  them or changes the module.
\<close>

theorem arp_retry_hangs:
  assumes "no_flow m ARP_FLOW_INTERFACE" "ar_cache_list (m_data m) = pre @ c # post"
    "list_all (\<lambda>c. \<not> ac_to_flag c) pre" "list_all (\<lambda>c. \<not> ac_to_flag c) post"
    "ac_seeking c" "ac_retries c < 2" "ac_request_list c \<noteq> []"
  shows "\<exists>m' c'. arp_timeout (length pre) m = Inr m' \<and> m_output_queue m' = m_output_queue m \<and> ar_cache_list (m_data m') = pre @ c' # post
    \<and> ac_seeking c' \<and> ac_request_list c' = ac_request_list c \<and> ac_timer c' = None \<and> \<not> ac_to_flag c' \<and> arp_interrupt m' = Inr m'"
proof -
  let ?m = "ticked (length pre) m" and ?c = "c\<lparr>ac_timer := None, ac_to_flag := False\<rparr>"
  obtain r rs where r: "ac_request_list c = r # rs" using assms(7) by (cases "ac_request_list c") auto
  obtain f where f: "arp_to_fdf (gen_requestARP (rq_src_mac r) (rq_src_ip r) ARP_MAC_BROADCAST (ac_ip c)) = Inr f" "dataOrCtrl f = FF_DATA"
    by (rule arp_to_fdf_ok)
  have "module_send_flow ?m f ARP_FLOW_INTERFACE = Inr (0, ?m)"
    using send_flow_none [of ARP_FLOW_INTERFACE ?m f] assms(1) by (auto simp: no_flow_def)
  then have "send_request ?m (rq_src_mac r) (rq_src_ip r) ARP_MAC_BROADCAST (ac_ip c) = Inr (False, ?m\<lparr>m_freed := m_freed ?m @ [f]\<rparr>)"
    using f free_ff_ctrl [of f ?m] by (simp add: send_request_def)
  then have "arp_handle_to ?m ?c = Inr (Some ?c, ?m\<lparr>m_freed := m_freed ?m @ [f]\<rparr>)"
    using assms(5,6) r by (simp add: arp_handle_to_def ARP_RETRIES_def)
  then have run: "arp_timeout (length pre) m = Inr (set_caches (pre @ ?c # post) (?m\<lparr>m_freed := m_freed ?m @ [f]\<rparr>))"
    using arp_timeout_eq [OF assms(2-4)] by simp
  have "list_all (\<lambda>c. \<not> ac_to_flag c) (pre @ ?c # post)" using assms(3,4) by simp
  from arp_to_each_idle [OF this] have "arp_interrupt (set_caches (pre @ ?c # post) n) = Inr (set_caches (pre @ ?c # post) n)" for n
    by (simp add: arp_interrupt_def set_caches_def)
  with run assms(5) show ?thesis by (intro exI [of _ "set_caches (pre @ ?c # post) (?m\<lparr>m_freed := m_freed ?m @ [f]\<rparr>)"] exI [of _ ?c]) simp
qed

theorem arp_retry_hangs_witness:
  "\<exists>m'. arp_timeout 0 (ex_search\<lparr>m_table := \<lparr>mt_link_list = None, mt_flows_num = 0, mt_flows = []\<rparr>\<rparr>) = Inr m' \<and> arp_interrupt m' = Inr m'"
proof -
  let ?m = "ex_search\<lparr>m_table := \<lparr>mt_link_list = None, mt_flows_num = 0, mt_flows = []\<rparr>\<rparr>"
  let ?c = "add_request (arp_request_create ex_query 0xAA 1) (start_seeking \<lparr>tv_sec = 0, tv_usec = 0\<rparr> (arp_cache_create 2))"
  have "no_flow ?m ARP_FLOW_INTERFACE" by (simp add: no_flow_def ARP_FLOW_INTERFACE_def)
  moreover have "ar_cache_list (m_data ?m) = [] @ ?c # []" by (simp add: ex_search_def)
  moreover have "ac_seeking ?c" "ac_retries ?c < 2" "ac_request_list ?c \<noteq> []"
    by (simp_all add: add_request_def start_seeking_def arp_cache_create_def)
  ultimately show ?thesis using arp_retry_hangs [of ?m "[]" ?c "[]"] by fastforce
qed

end
