(* ===== verification/Interface_Module.thy ===== *)
theory Interface_Module
  imports Arp_Module
begin

text \<open>
  The interface module, \<^verbatim>\<open>trunk/modules/interface/interface.c\<close>: packets wait for the hardware address of their next hop,
  which the ARP module finds, and are injected into the network; captured frames go to IPv4 or ARP.

  Caches and requests have an address, because a \<^verbatim>\<open>struct interface_store\<close> keeps pointers to them across messages; both are
  freed when they leave their list, so following a pointer to one that is not in its list is a \<open>MemFault\<close>. The bytes
  written to the injecting socket are the ghost field \<open>io_injected\<close>, one list per frame; \<open>io_writable\<close> tells whether
  writing to the socket succeeds. The process wide counter of control serial numbers is a field as well. The frame of a
  request is never NULL in a list; where the code takes it out first, it is not freed with the request.
\<close>

unbundle bit_operations_syntax

section \<open>State\<close>

definition SIZE_ETHERNET :: nat where "SIZE_ETHERNET = 14"
definition ETH_TYPE_IP4 :: u32 where "ETH_TYPE_IP4 = 0x0800"
definition ETH_TYPE_ARP :: u32 where "ETH_TYPE_ARP = 0x0806"
definition ETH_TYPE_IP6 :: u32 where "ETH_TYPE_IP6 = 0x86dd"
definition ETH_FRAME_LEN_MAX :: nat where "ETH_FRAME_LEN_MAX = 10000"
definition INTERFACE_IF_LIST_MAX :: nat where "INTERFACE_IF_LIST_MAX = 256"
definition INTERFACE_CACHE_LIST_MAX :: nat where "INTERFACE_CACHE_LIST_MAX = 8192"
definition INTERFACE_STORE_LIST_MAX :: nat where "INTERFACE_STORE_LIST_MAX = 2 * 65536"
definition INTERFACE_REQUEST_LIST_MAX :: nat where "INTERFACE_REQUEST_LIST_MAX = 2 * 65536"
definition INTERFACE_CACHE_TO_DEFAULT :: int where "INTERFACE_CACHE_TO_DEFAULT = 15000"
definition INTERFACE_MAX_FLOWS :: u32 where "INTERFACE_MAX_FLOWS = 5"
definition INTERFACE_FLOW_IPV4 :: u32 where "INTERFACE_FLOW_IPV4 = 0"
definition INTERFACE_FLOW_ARP :: u32 where "INTERFACE_FLOW_ARP = 1"
definition INTERFACE_FLOW_ICMP :: u32 where "INTERFACE_FLOW_ICMP = 2"
definition INTERFACE_EXEC_GET_ADDR :: u32 where "INTERFACE_EXEC_GET_ADDR = 0"
definition INTERFACE_ERROR_GET_ADDR :: u32 where "INTERFACE_ERROR_GET_ADDR = 2"

record interface_request =
  ir_ptr :: nat
  ir_src_ip :: sockaddr4
  ir_src_mac :: u64
  ir_ff :: finsFrame

record interface_cache =
  ic_ptr :: nat
  ic_ip :: sockaddr4
  ic_mac :: u64
  ic_request_list :: "interface_request list"
  ic_request_max :: nat
  ic_seeking :: bool
  ic_updated_stamp :: timeval

text \<open>\<open>is_live\<close> is false for a store that was freed and left in the list.\<close>

record interface_store =
  is_serial_num :: u32
  is_sent :: u32
  is_cache :: nat
  is_request :: nat
  is_live :: bool

record interface_data =
  io_if_list :: "if_record list"
  io_cache_list :: "interface_cache list"
  io_cache_max :: nat
  io_store_list :: "interface_store list"
  io_store_max :: nat
  io_brk :: nat
  io_serial :: u32
  io_writable :: bool
  io_injected :: "byte list list"
  io_announced :: "(string \<times> u64) list"

type_synonym interface_module = "interface_data fins_module"

definition upd_io :: "(interface_data \<Rightarrow> interface_data) \<Rightarrow> interface_module \<Rightarrow> interface_module" where
  "upd_io f m = m\<lparr>m_data := f (m_data m)\<rparr>"

abbreviation io_caches :: "interface_module \<Rightarrow> interface_cache list" where
  "io_caches m \<equiv> io_cache_list (m_data m)"

abbreviation put_caches :: "interface_cache list \<Rightarrow> interface_module \<Rightarrow> interface_module" where
  "put_caches cs \<equiv> upd_io (\<lambda>d. d\<lparr>io_cache_list := cs\<rparr>)"

abbreviation put_stores :: "interface_store list \<Rightarrow> interface_module \<Rightarrow> interface_module" where
  "put_stores ss \<equiv> upd_io (\<lambda>d. d\<lparr>io_store_list := ss\<rparr>)"

definition interface_request_ipv4_test :: "interface_request \<Rightarrow> u32 \<Rightarrow> bool" where
  "interface_request_ipv4_test request src_ip \<longleftrightarrow> addr4_get_ip (ir_src_ip request) = src_ip"

definition interface_request_free :: "interface_request \<Rightarrow> interface_module \<Rightarrow> interface_module res" where
  "interface_request_free request m = free_ff (ir_ff request) m"

definition interface_cache_ipv4_test :: "interface_cache \<Rightarrow> u32 \<Rightarrow> bool" where
  "interface_cache_ipv4_test c ip \<longleftrightarrow> sin_family (ic_ip c) = of_nat AF_INET \<and> addr4_get_ip (ic_ip c) = ip"

definition interface_cache_non_seeking_test :: "interface_cache \<Rightarrow> bool" where
  "interface_cache_non_seeking_test c \<longleftrightarrow> \<not> ic_seeking c"

fun free_io_requests :: "interface_request list \<Rightarrow> interface_module \<Rightarrow> interface_module res" where
  "free_io_requests [] m = Inr m"
| "free_io_requests (r # rs) m = andThen (interface_request_free r m) (free_io_requests rs)"

definition interface_cache_free :: "interface_cache \<Rightarrow> interface_module \<Rightarrow> interface_module res" where
  "interface_cache_free c m = free_io_requests (ic_request_list c) m"

definition interface_store_create :: "u32 \<Rightarrow> u32 \<Rightarrow> nat \<Rightarrow> nat \<Rightarrow> interface_store" where
  "interface_store_create serial n cache request =
    \<lparr>is_serial_num = serial, is_sent = n, is_cache = cache, is_request = request, is_live = True\<rparr>"

definition interface_store_serial_test :: "interface_store \<Rightarrow> u32 \<Rightarrow> bool" where
  "interface_store_serial_test store serial \<longleftrightarrow> is_serial_num store = serial"

definition interface_store_request_test :: "interface_store \<Rightarrow> nat \<Rightarrow> bool" where
  "interface_store_request_test store request \<longleftrightarrow> is_request store = request"

text \<open>\<^verbatim>\<open>list_find1\<close> over the list of stores: the position of the first match; a freed store is not to be read.\<close>

fun find_store :: "(interface_store \<Rightarrow> bool) \<Rightarrow> interface_store list \<Rightarrow> nat option res" where
  "find_store P [] = Inr None"
| "find_store P (s # ss) =
    (if \<not> is_live s then Inl MemFault
     else if P s then Inr (Some 0)
     else andThen (find_store P ss) (\<lambda>r. Inr (map_option Suc r)))"

section \<open>Injecting and asking\<close>

definition mac_bytes :: "u64 \<Rightarrow> byte list" where
  "mac_bytes mac = map (\<lambda>k. ucast (drop_bit k mac AND 0xff)) [40, 32, 24, 16, 8, 0]"

text \<open>
  The frame that is written after its length. The length is an \<^verbatim>\<open>int\<close>: when the 32 bit sum wraps around, the memory
  allocated is too short for the header, and when it is negative \<^verbatim>\<open>write\<close> refuses it.
\<close>

definition interface_inject_pdu ::
  "interface_module \<Rightarrow> u32 \<Rightarrow> byte list option \<Rightarrow> u64 \<Rightarrow> u64 \<Rightarrow> u32 \<Rightarrow> (bool \<times> interface_module) res" where
  "interface_inject_pdu m len p dst_mac src_mac ether_type =
    (if unat len + SIZE_ETHERNET \<ge> 2 ^ 32 then Inl MemFault
     else if ether_type \<noteq> ETH_TYPE_ARP \<and> ether_type \<noteq> ETH_TYPE_IP4 then Inr (False, m)
     else andThen (case p of None \<Rightarrow> if len = 0 then Inr [] else Inl MemFault | Some bs \<Rightarrow> slice bs 0 (unat len)) (\<lambda>data.
       if io_writable (m_data m) \<and> unat len + SIZE_ETHERNET < 2 ^ 31
       then Inr (True, upd_io (\<lambda>d. d\<lparr>io_injected := io_injected d
              @ [mac_bytes dst_mac @ mac_bytes src_mac @ mem16 (htons (ucast ether_type)) @ data]\<rparr>) m)
       else Inr (False, m)))"

text \<open>Injecting a frame and freeing it, or stopping the process.\<close>

definition inject_or_exit :: "interface_module \<Rightarrow> finsFrame \<Rightarrow> u64 \<Rightarrow> u64 \<Rightarrow> u32 \<Rightarrow> interface_module res" where
  "inject_or_exit m ff dst_mac src_mac ether_type =
    andThen (interface_inject_pdu m (pduLength (dataFrame ff)) (pdu (dataFrame ff)) dst_mac src_mac ether_type) (\<lambda>(ok, m1).
      if ok then free_ff ff m1 else Inl ExitFailure)"

definition next_serial :: "interface_module \<Rightarrow> u32 \<times> interface_module" where
  "next_serial m = (let (n, g) = gen_control_serial_num (io_serial (m_data m)) in (n, upd_io (\<lambda>d. d\<lparr>io_serial := g\<rparr>) m))"

definition interface_send_request :: "interface_module \<Rightarrow> u32 \<Rightarrow> u32 \<Rightarrow> u32 \<Rightarrow> (u32 \<times> interface_module) res" where
  "interface_send_request m src_ip dst_ip serial =
    andThen (meta_writes metadata_create [(''src_ip'', src_ip), (''dst_ip'', dst_ip)]) (\<lambda>meta.
      let ff = zeroFrame\<lparr>dataOrCtrl := FF_CONTROL, metaData := Some meta,
            ctrlFrame := (ctrlFrame zeroFrame)\<lparr>sender_id := ucast (m_index m), serial_num := serial, opcode := CTRL_EXEC,
              param_id := INTERFACE_EXEC_GET_ADDR, data_len := 0, ctrl_dat := CD_NULL\<rparr>\<rparr> in
      andThen (module_send_flow m ff INTERFACE_FLOW_ARP) (\<lambda>(n, m1).
        if n = 0 then andThen (free_ff ff m1) (\<lambda>m2. Inr (n, m2)) else Inr (n, m1)))"

text \<open>A new request gets the next address of the heap.\<close>

definition interface_new_request :: "interface_module \<Rightarrow> u32 \<Rightarrow> u64 \<Rightarrow> finsFrame \<Rightarrow> interface_request \<times> interface_module" where
  "interface_new_request m src_ip src_mac ff =
    (\<lparr>ir_ptr = io_brk (m_data m), ir_src_ip = addr4_set_ip \<lparr>sin_family = 0, sin_port = 0, sin_addr = 0\<rparr> src_ip,
      ir_src_mac = src_mac, ir_ff = ff\<rparr>, upd_io (\<lambda>d. d\<lparr>io_brk := Suc (io_brk d)\<rparr>) m)"

definition io_add_request :: "interface_request \<Rightarrow> interface_cache \<Rightarrow> interface_cache" where
  "io_add_request r c = c\<lparr>ic_request_list := ic_request_list c @ [r]\<rparr>"

section \<open>Packets to send\<close>

text \<open>The branch of \<^verbatim>\<open>interface_out_ipv4\<close> for a next hop that is in the list of caches.\<close>

definition out_ipv4_cached ::
  "timeval \<Rightarrow> interface_module \<Rightarrow> finsFrame \<Rightarrow> u64 \<Rightarrow> u32 \<Rightarrow> u32 \<Rightarrow> interface_cache list \<Rightarrow> interface_cache \<Rightarrow> interface_cache list \<Rightarrow> interface_module res" where
  "out_ipv4_cached current m ff src_mac src_ip dst_ip pre c post =
    (if ic_seeking c
     then if length (ic_request_list c) < ic_request_max c
          then let (r, m1) = interface_new_request m src_ip src_mac ff in
               Inr (put_caches (pre @ (io_add_request r c)\<lparr>ic_updated_stamp := current\<rparr> # post) m1)
          else free_ff ff m
     else if time_diff (ic_updated_stamp c) current \<le> 1000 * INTERFACE_CACHE_TO_DEFAULT
     then inject_or_exit m ff (ic_mac c) src_mac ETH_TYPE_IP4
     else if length (ic_request_list c) < ic_request_max c \<and> length (io_store_list (m_data m)) < io_store_max (m_data m)
     then let (serial, m1) = next_serial m in
          andThen (interface_send_request m1 src_ip dst_ip serial) (\<lambda>(n, m2).
            let (r, m3) = interface_new_request m2 src_ip src_mac ff in
            Inr (put_stores (io_store_list (m_data m3) @ [interface_store_create serial n (ic_ptr c) (ir_ptr r)])
                  (put_caches (pre @ (io_add_request r c)\<lparr>ic_seeking := True, ic_updated_stamp := current\<rparr> # post) m3)))
     else free_ff ff m)"

fun io_reject_all :: "interface_request list \<Rightarrow> interface_module \<Rightarrow> interface_module res" where
  "io_reject_all [] m = Inr m"
| "io_reject_all (r # rs) m = andThen (module_reply_fcf m (ir_ff r) FCF_FALSE 0) (io_reject_all rs)"

text \<open>Making space in a full list of caches; \<open>None\<close> when all are seeking.\<close>

definition io_evict :: "interface_module \<Rightarrow> interface_module option res" where
  "io_evict m =
    (case List.extract interface_cache_non_seeking_test (io_caches m) of
       None \<Rightarrow> Inr None
     | Some (pre, temp_cache, post) \<Rightarrow>
         andThen (io_reject_all (ic_request_list temp_cache) (put_caches (pre @ post) m)) (\<lambda>m1.
         andThen (interface_cache_free (temp_cache\<lparr>ic_request_list := []\<rparr>) m1) (\<lambda>m2. Inr (Some m2))))"

definition out_ipv4_new :: "timeval \<Rightarrow> interface_module \<Rightarrow> finsFrame \<Rightarrow> u64 \<Rightarrow> u32 \<Rightarrow> u32 \<Rightarrow> interface_module res" where
  "out_ipv4_new current m ff src_mac src_ip dst_ip =
    (if length (io_store_list (m_data m)) < io_store_max (m_data m)
     then let (serial, m1) = next_serial m in
       andThen (interface_send_request m1 src_ip dst_ip serial) (\<lambda>(n, m2).
       andThen (if length (io_caches m2) < io_cache_max (m_data m2) then Inr (Some m2) else io_evict m2) (\<lambda>x.
         case x of None \<Rightarrow> free_ff ff m2
         | Some m3 \<Rightarrow>
           let c = \<lparr>ic_ptr = io_brk (m_data m3), ic_ip = addr4_set_ip \<lparr>sin_family = 0, sin_port = 0, sin_addr = 0\<rparr> dst_ip, ic_mac = 0,
                 ic_request_list = [], ic_request_max = INTERFACE_REQUEST_LIST_MAX, ic_seeking = True, ic_updated_stamp = current\<rparr>;
               (r, m4) = interface_new_request (upd_io (\<lambda>d. d\<lparr>io_brk := Suc (io_brk d)\<rparr>) m3) src_ip src_mac ff in
           Inr (put_stores (io_store_list (m_data m4) @ [interface_store_create serial n (ic_ptr c) (ir_ptr r)])
                 (put_caches (io_caches m4 @ [io_add_request r c]) m4))))
     else free_ff ff m)"

definition interface_out_ipv4 :: "timeval \<Rightarrow> interface_module \<Rightarrow> finsFrame \<Rightarrow> interface_module res" where
  "interface_out_ipv4 current m ff =
    (case metaData ff of None \<Rightarrow> Inl MemFault
     | Some meta \<Rightarrow>
       andThen (secure_metadata_read_u32 meta ''send_if_index'') (\<lambda>index.
       case find (\<lambda>i. ifr_index_test i index) (io_if_list (m_data m)) of
         None \<Rightarrow> free_ff ff m
       | Some ifr \<Rightarrow>
         andThen (secure_metadata_read_u32 meta ''send_src_ipv4'') (\<lambda>src_ip.
         andThen (secure_metadata_read_u32 meta ''send_dst_ipv4'') (\<lambda>dst_ip.
           case List.extract (\<lambda>c. interface_cache_ipv4_test c dst_ip) (io_caches m) of
             Some (pre, c, post) \<Rightarrow> out_ipv4_cached current m ff (if_mac ifr) src_ip dst_ip pre c post
           | None \<Rightarrow> out_ipv4_new current m ff (if_mac ifr) src_ip dst_ip))))"

definition interface_out_arp :: "interface_module \<Rightarrow> finsFrame \<Rightarrow> interface_module res" where
  "interface_out_arp m ff =
    (case metaData ff of None \<Rightarrow> Inl MemFault
     | Some meta \<Rightarrow>
       andThen (secure_metadata_read_u64 meta ''send_dst_mac'') (\<lambda>dst_mac.
       andThen (secure_metadata_read_u64 meta ''send_src_mac'') (\<lambda>src_mac.
         inject_or_exit m ff dst_mac src_mac ETH_TYPE_ARP)))"

definition interface_out_ipv6 :: "interface_module \<Rightarrow> finsFrame \<Rightarrow> interface_module res" where
  "interface_out_ipv6 m ff = free_ff ff m"

text \<open>A frame of another type is neither sent nor freed.\<close>

definition interface_out_fdf :: "timeval \<Rightarrow> interface_module \<Rightarrow> finsFrame \<Rightarrow> interface_module res" where
  "interface_out_fdf current m ff =
    (case metaData ff of None \<Rightarrow> Inl MemFault
     | Some meta \<Rightarrow>
       andThen (secure_metadata_read_u32 meta ''send_ether_type'') (\<lambda>ether_type.
         if ether_type = ETH_TYPE_IP4 then interface_out_ipv4 current m ff
         else if ether_type = ETH_TYPE_ARP then interface_out_arp m ff
         else if ether_type = ETH_TYPE_IP6 then interface_out_ipv6 m ff
         else Inr m))"

section \<open>Answers of ARP\<close>

fun inject_all :: "u64 \<Rightarrow> u64 \<Rightarrow> interface_request list \<Rightarrow> interface_module \<Rightarrow> interface_module res" where
  "inject_all dst_mac src_mac [] m = Inr m"
| "inject_all dst_mac src_mac (r # rs) m =
    andThen (interface_inject_pdu m (pduLength (dataFrame (ir_ff r))) (pdu (dataFrame (ir_ff r))) dst_mac src_mac ETH_TYPE_IP4) (\<lambda>(ok, m1).
      if ok then andThen (interface_request_free r m1) (inject_all dst_mac src_mac rs) else Inl ExitFailure)"

text \<open>
  The error that tells ICMP that a packet could not be sent; it takes the metadata and the bytes of the packet, whose
  emptied frame is freed with the request. A store of another search that has the request is freed, but stays in the list.
\<close>

definition io_report :: "interface_module \<Rightarrow> interface_request \<Rightarrow> interface_module res" where
  "io_report m r =
    andThen (find_store (\<lambda>s. interface_store_request_test s (ir_ptr r)) (io_store_list (m_data m))) (\<lambda>x.
      let m1 = (case x of None \<Rightarrow> m
            | Some i \<Rightarrow> put_stores ((io_store_list (m_data m))[i := (io_store_list (m_data m) ! i)\<lparr>is_live := False\<rparr>]) m) in
      if sin_family (ir_src_ip r) = of_nat AF_INET
      then let f = ir_ff r; (serial, m2) = next_serial m1;
               ff_err = zeroFrame\<lparr>dataOrCtrl := FF_CONTROL, metaData := metaData f,
                 ctrlFrame := (ctrlFrame zeroFrame)\<lparr>sender_id := ucast (m_index m2), serial_num := serial, opcode := CTRL_ERROR,
                   param_id := INTERFACE_ERROR_GET_ADDR, data_len := pduLength (dataFrame f),
                   ctrl_dat := (case pdu (dataFrame f) of None \<Rightarrow> CD_NULL | Some p \<Rightarrow> CD_BYTES p)\<rparr>\<rparr> in
           andThen (send_or_free m2 ff_err INTERFACE_FLOW_ICMP) (\<lambda>m3.
             interface_request_free (r\<lparr>ir_ff := f\<lparr>metaData := None, dataFrame := (dataFrame f)\<lparr>pduLength := 0, pdu := None\<rparr>\<rparr>\<rparr>) m3)
      else interface_request_free r m1)"

fun io_report_all :: "interface_request list \<Rightarrow> interface_module \<Rightarrow> interface_module res" where
  "io_report_all [] m = Inr m"
| "io_report_all (r # rs) m = andThen (io_report m r) (io_report_all rs)"

text \<open>The cache and the request of a store: a pointer to one that is not in its list is dangling.\<close>

definition cache_at :: "interface_module \<Rightarrow> nat \<Rightarrow> (interface_cache list \<times> interface_cache \<times> interface_cache list) res" where
  "cache_at m ptr = (case List.extract (\<lambda>c. ic_ptr c = ptr) (io_caches m) of None \<Rightarrow> Inl MemFault | Some x \<Rightarrow> Inr x)"

definition request_at :: "interface_cache \<Rightarrow> nat \<Rightarrow> (interface_request list \<times> interface_request \<times> interface_request list) res" where
  "request_at c ptr = (case List.extract (\<lambda>r. ir_ptr r = ptr) (ic_request_list c) of None \<Rightarrow> Inl MemFault | Some x \<Rightarrow> Inr x)"

text \<open>The address was found, and was not.\<close>

definition reply_found :: "timeval \<Rightarrow> interface_module \<Rightarrow> finsFrame \<Rightarrow> interface_store \<Rightarrow> interface_module res" where
  "reply_found current m ff store =
    andThen (cache_at m (is_cache store)) (\<lambda>(pre, c, post).
    andThen (request_at c (is_request store)) (\<lambda>(_, request, _).
    case metaData ff of None \<Rightarrow> Inl MemFault
    | Some meta \<Rightarrow>
      andThen (secure_metadata_read_u64 meta ''dst_mac'') (\<lambda>dst_mac.
        if ic_seeking c
        then inject_all dst_mac (ir_src_mac request) (ic_request_list c)
               (put_caches (pre @ c\<lparr>ic_mac := dst_mac, ic_seeking := False, ic_updated_stamp := current, ic_request_list := []\<rparr> # post) m)
        else Inr m)))"

definition reply_not_found :: "interface_module \<Rightarrow> interface_store \<Rightarrow> interface_module res" where
  "reply_not_found m store =
    (if is_sent store = 0
     then
       andThen (cache_at m (is_cache store)) (\<lambda>(pre, c, post).
       andThen (request_at c (is_request store)) (\<lambda>(rpre, request, rpost).
         if ic_seeking c
         then andThen (io_report_all (ic_request_list c) (put_caches (pre @ post) m)) (\<lambda>m1.
                interface_cache_free (c\<lparr>ic_request_list := []\<rparr>) m1)
         else interface_request_free request (put_caches (pre @ c\<lparr>ic_request_list := rpre @ rpost\<rparr> # post) m)))
     else Inr m)"

definition interface_exec_reply_get_addr :: "timeval \<Rightarrow> interface_module \<Rightarrow> finsFrame \<Rightarrow> interface_module res" where
  "interface_exec_reply_get_addr current m ff =
    andThen (find_store (\<lambda>s. interface_store_serial_test s (serial_num (ctrlFrame ff))) (io_store_list (m_data m))) (\<lambda>x.
    andThen (case x of None \<Rightarrow> Inr m
      | Some i \<Rightarrow>
        (let stores = io_store_list (m_data m); store = (stores ! i)\<lparr>is_sent := is_sent (stores ! i) - 1\<rparr>;
             m1 = put_stores (if is_sent store = 0 then take i stores @ drop (Suc i) stores else stores[i := store]) m in
         if ret_val (ctrlFrame ff) = FCF_TRUE then reply_found current m1 ff store else reply_not_found m1 store)) (\<lambda>m2.
      free_ff ff m2))"

section \<open>Captured frames\<close>

text \<open>
  One iteration of the thread that reads from the capturer: \<open>frame_len\<close> is the length it read, \<open>stream\<close> the bytes the
  socket has then. They are read into an array of \<^verbatim>\<open>ETH_FRAME_LEN_MAX\<close> bytes before the length is compared with its size.
  A negative length is refused by \<^verbatim>\<open>read\<close>; one that finds no bytes is at the end of the stream. The stamp is the first
  eight bytes of the \<^verbatim>\<open>struct timeval\<close>, its seconds.
\<close>

definition capturer_to_interface :: "timeval \<Rightarrow> interface_module \<Rightarrow> int \<Rightarrow> byte list \<Rightarrow> interface_module res" where
  "capturer_to_interface current m frame_len stream =
    (let numBytes = min (nat frame_len) (length stream) in
     if numBytes > ETH_FRAME_LEN_MAX then Inl MemFault
     else if numBytes = 0 then Inl ExitFailure
     else if int numBytes \<noteq> frame_len then Inr m
     else if frame_len > int ETH_FRAME_LEN_MAX then Inr m
     else if frame_len < int SIZE_ETHERNET then Inr m
     else let frame = take numBytes stream in
       andThen (mac_at frame 0) (\<lambda>dst_mac. andThen (mac_at frame 6) (\<lambda>src_mac. andThen (load16 frame 12) (\<lambda>t.
         let ether_type = ucast (ntohs t) in
         if ether_type \<noteq> ETH_TYPE_IP4 \<and> ether_type \<noteq> ETH_TYPE_ARP then Inr m
         else
           let flow = (if ether_type = ETH_TYPE_IP4 then INTERFACE_FLOW_IPV4 else INTERFACE_FLOW_ARP) in
           andThen (secure_metadata_writeToElement metadata_create ''recv_dst_mac'' (DInt64 dst_mac)) (\<lambda>meta1.
           andThen (secure_metadata_writeToElement meta1 ''recv_src_mac'' (DInt64 src_mac)) (\<lambda>meta2.
           andThen (secure_metadata_writeToElement meta2 ''recv_ether_type'' (DInt32 ether_type)) (\<lambda>meta3.
           andThen (secure_metadata_writeToElement meta3 ''recv_stamp'' (DInt64 (of_int (tv_sec current)))) (\<lambda>meta4.
             send_or_free m (zeroFrame\<lparr>dataOrCtrl := FF_DATA, metaData := Some meta4,
               dataFrame := \<lparr>directionFlag = DIR_UP, pduLength = of_nat (numBytes - SIZE_ETHERNET), pdu = Some (drop SIZE_ETHERNET frame)\<rparr>\<rparr>) flow))))))))"

section \<open>Control frames and the thread\<close>

definition interface_read_param :: "interface_module \<Rightarrow> finsFrame \<Rightarrow> interface_module res" where
  "interface_read_param m ff = module_reply_fcf m ff FCF_FALSE 0"

definition interface_set_param :: "interface_module \<Rightarrow> finsFrame \<Rightarrow> interface_module res" where
  "interface_set_param m ff =
    (if param_id (ctrlFrame ff) = MOD_SET_PARAM_FLOWS then module_set_param_flows m ff
     else if param_id (ctrlFrame ff) = MOD_SET_PARAM_LINKS then module_set_param_links m ff
     else if param_id (ctrlFrame ff) = MOD_SET_PARAM_DUAL then module_set_param_dual m ff
     else module_reply_fcf m ff FCF_FALSE 0)"

definition interface_exec :: "interface_module \<Rightarrow> finsFrame \<Rightarrow> interface_module res" where
  "interface_exec m ff = module_reply_fcf m ff FCF_FALSE 0"

definition interface_exec_reply :: "timeval \<Rightarrow> interface_module \<Rightarrow> finsFrame \<Rightarrow> interface_module res" where
  "interface_exec_reply current m ff =
    (if param_id (ctrlFrame ff) = INTERFACE_EXEC_GET_ADDR then interface_exec_reply_get_addr current m ff else free_ff ff m)"

definition interface_fcf :: "timeval \<Rightarrow> interface_module \<Rightarrow> finsFrame \<Rightarrow> interface_module res" where
  "interface_fcf current m ff =
    (let op = opcode (ctrlFrame ff) in
     if op = CTRL_ALERT then module_reply_fcf m ff FCF_FALSE 0
     else if op = CTRL_ALERT_REPLY then free_ff ff m
     else if op = CTRL_READ_PARAM then interface_read_param m ff
     else if op = CTRL_READ_PARAM_REPLY then free_ff ff m
     else if op = CTRL_SET_PARAM then interface_set_param m ff
     else if op = CTRL_SET_PARAM_REPLY then free_ff ff m
     else if op = CTRL_EXEC then interface_exec m ff
     else if op = CTRL_EXEC_REPLY then interface_exec_reply current m ff
     else if op = CTRL_ERROR then free_ff ff m
     else Inl ExitFailure)"

text \<open>What the thread does with a frame while the module runs.\<close>

definition interface_dispatch :: "timeval \<Rightarrow> interface_module \<Rightarrow> finsFrame \<Rightarrow> interface_module res" where
  "interface_dispatch current m ff =
    (if metaData ff = None then Inl ExitFailure
     else if dataOrCtrl ff = FF_CONTROL then interface_fcf current m ff
     else if dataOrCtrl ff = FF_DATA then
       (if directionFlag (dataFrame ff) = DIR_UP then free_ff ff m
        else if directionFlag (dataFrame ff) = DIR_DOWN then interface_out_fdf current m ff
        else Inl ExitFailure)
     else Inl ExitFailure)"

definition interface_get_ff :: "timeval \<Rightarrow> interface_module \<Rightarrow> interface_module option res" where
  "interface_get_ff current m =
    andThen (wait_ff (m_event_sem m) m) (\<lambda>r.
      case r of None \<Rightarrow> Inr None
      | Some (x, m1) \<Rightarrow>
        andThen (if m_state m1 \<noteq> FMS_RUNNING
             then (case x of None \<Rightarrow> Inr m1 | Some ff \<Rightarrow> free_ff ff m1)
             else (case x of None \<Rightarrow> Inl MemFault | Some ff \<Rightarrow> interface_dispatch current m1 ff)) (\<lambda>m2. Inr (Some m2)))"

definition interface_create :: "u32 \<Rightarrow> u32 \<Rightarrow> string \<Rightarrow> interface_module \<Rightarrow> interface_module" where
  "interface_create index i name m =
    m\<lparr>m_flows_max := INTERFACE_MAX_FLOWS, m_state := FMS_FREE, m_index := index, m_id := i, m_name := name\<rparr>"

text \<open>
  The lists of the module and its two sockets. Each of the calls \<^verbatim>\<open>socket\<close>, \<^verbatim>\<open>connect\<close>, \<^verbatim>\<open>write\<close>, \<^verbatim>\<open>write\<close>, \<^verbatim>\<open>socket\<close>,
  \<^verbatim>\<open>connect\<close> may fail, and the first that does ends the initialisation: \<open>calls\<close> tells how many succeed. The interfaces
  announced to the capturer are those that run and have an address.
\<close>

definition interface_init :: "nat \<Rightarrow> if_record list \<Rightarrow> interface_module \<Rightarrow> bool \<times> interface_module" where
  "interface_init calls if_list m =
    (let m1 = module_create_structs (m\<lparr>m_state := FMS_INIT\<rparr>);
         ifs = take INTERFACE_IF_LIST_MAX if_list in
     (6 \<le> calls,
      m1\<lparr>m_table := \<lparr>mt_link_list = None, mt_flows_num = 0, mt_flows = replicate (unat INTERFACE_MAX_FLOWS) \<lparr>fl_link_id = 0, fl_link = None\<rparr>\<rparr>,
        m_data := \<lparr>io_if_list = ifs, io_cache_list = [], io_cache_max = INTERFACE_CACHE_LIST_MAX, io_store_list = [],
          io_store_max = INTERFACE_STORE_LIST_MAX, io_brk = io_brk (m_data m), io_serial = io_serial (m_data m),
          io_writable = (2 \<le> calls), io_injected = [],
          io_announced = (if 4 \<le> calls then map (\<lambda>i. (if_name i, if_mac i)) (filter (\<lambda>i. ifr_running_test i \<and> if_mac i \<noteq> 0) ifs) else [])\<rparr>\<rparr>))"

definition interface_run :: "timeval \<Rightarrow> interface_module \<Rightarrow> interface_module option res" where
  "interface_run current m = interface_get_ff current (m\<lparr>m_state := FMS_RUNNING\<rparr>)"

definition interface_pause :: "interface_module \<Rightarrow> interface_module" where
  "interface_pause m = m\<lparr>m_state := FMS_PAUSED\<rparr>"

definition interface_unpause :: "interface_module \<Rightarrow> interface_module" where
  "interface_unpause m = m\<lparr>m_state := FMS_RUNNING\<rparr>"

definition interface_shutdown :: "interface_module \<Rightarrow> interface_module" where
  "interface_shutdown m = upd_io (\<lambda>d. d\<lparr>io_writable := False\<rparr>) (m\<lparr>m_state := FMS_SHUTDOWN, m_event_sem := m_event_sem m + 1\<rparr>)"

fun free_io_caches :: "interface_cache list \<Rightarrow> interface_module \<Rightarrow> interface_module res" where
  "free_io_caches [] m = Inr m"
| "free_io_caches (c # cs) m = andThen (interface_cache_free c m) (free_io_caches cs)"

definition interface_release :: "interface_module \<Rightarrow> interface_module res" where
  "interface_release m =
    andThen (free_io_caches (io_caches m) m) (\<lambda>m1.
      module_destroy_structs ((put_stores [] (put_caches [] m1))\<lparr>m_table := (m_table m1)\<lparr>mt_link_list := None\<rparr>\<rparr>))"


section \<open>Specification\<close>

text \<open>The bytes of a packet, and the frame that carries them.\<close>

definition payload :: "finsFrame \<Rightarrow> byte list" where
  "payload f = (case pdu (dataFrame f) of None \<Rightarrow> [] | Some p \<Rightarrow> p)"

definition eth_frame :: "u64 \<Rightarrow> u64 \<Rightarrow> u32 \<Rightarrow> byte list \<Rightarrow> byte list" where
  "eth_frame dst_mac src_mac ether_type p = mac_bytes dst_mac @ mac_bytes src_mac @ mem16 (htons (ucast ether_type)) @ p"

definition packet_fits :: "finsFrame \<Rightarrow> bool" where
  "packet_fits f \<longleftrightarrow> packet_frame f \<and> unat (pduLength (dataFrame f)) + SIZE_ETHERNET < 2 ^ 31"

text \<open>
  The invariant. A cache is seeking exactly when packets wait for it, addresses of the heap are used once, there is one
  cache per next hop, and the stores are the pending searches: each belongs to one seeking cache and one of its requests,
  waits for one answer, and every seeking cache has one.
\<close>

definition io_req_ok :: "interface_request \<Rightarrow> bool" where
  "io_req_ok r \<longleftrightarrow> packet_fits (ir_ff r) \<and> sin_family (ir_src_ip r) = of_nat AF_INET"

definition cache_ptrs :: "interface_cache \<Rightarrow> nat list" where
  "cache_ptrs c = map ir_ptr (ic_request_list c)"

definition io_cache_ok :: "interface_cache \<Rightarrow> bool" where
  "io_cache_ok c \<longleftrightarrow> ic_seeking c = (ic_request_list c \<noteq> []) \<and> length (ic_request_list c) \<le> ic_request_max c \<and> 0 < ic_request_max c
     \<and> list_all io_req_ok (ic_request_list c) \<and> distinct (cache_ptrs c) \<and> sin_family (ic_ip c) = of_nat AF_INET"

definition store_of :: "interface_cache list \<Rightarrow> interface_store \<Rightarrow> bool" where
  "store_of cs s \<longleftrightarrow> is_live s \<and> is_sent s = 1
     \<and> (\<exists>c \<in> set cs. ic_ptr c = is_cache s \<and> ic_seeking c \<and> is_request s \<in> set (cache_ptrs c))"

definition io_caches_ok :: "nat \<Rightarrow> interface_cache list \<Rightarrow> bool" where
  "io_caches_ok brk cs \<longleftrightarrow> list_all io_cache_ok cs \<and> distinct (map ic_ptr cs) \<and> distinct (concat (map cache_ptrs cs))
     \<and> distinct (map (\<lambda>c. addr4_get_ip (ic_ip c)) cs)
     \<and> (\<forall>c \<in> set cs. ic_ptr c < brk) \<and> (\<forall>p \<in> set (concat (map cache_ptrs cs)). p < brk)"

definition io_stores_ok :: "interface_cache list \<Rightarrow> interface_store list \<Rightarrow> bool" where
  "io_stores_ok cs ss \<longleftrightarrow> list_all (store_of cs) ss \<and> distinct (map is_serial_num ss) \<and> distinct (map is_cache ss)
     \<and> (\<forall>c \<in> set cs. ic_seeking c \<longrightarrow> ic_ptr c \<in> is_cache ` set ss)"

definition io_state_ok :: "nat \<Rightarrow> interface_cache list \<Rightarrow> interface_store list \<Rightarrow> bool" where
  "io_state_ok brk cs ss \<longleftrightarrow> io_caches_ok brk cs \<and> io_stores_ok cs ss"

definition io_ok :: "interface_module \<Rightarrow> bool" where
  "io_ok m \<longleftrightarrow> io_state_ok (io_brk (m_data m)) (io_caches m) (io_store_list (m_data m))
     \<and> length (io_caches m) \<le> io_cache_max (m_data m) \<and> length (io_store_list (m_data m)) \<le> io_store_max (m_data m)"

text \<open>A cache that can stand beside the caches \<open>cs\<close>.\<close>

definition joins :: "nat \<Rightarrow> interface_cache \<Rightarrow> interface_cache list \<Rightarrow> bool" where
  "joins brk c cs \<longleftrightarrow> io_cache_ok c \<and> ic_ptr c < brk \<and> ic_ptr c \<notin> ic_ptr ` set cs \<and> (\<forall>p \<in> set (cache_ptrs c). p < brk)
     \<and> set (cache_ptrs c) \<inter> set (concat (map cache_ptrs cs)) = {} \<and> addr4_get_ip (ic_ip c) \<notin> (\<lambda>c. addr4_get_ip (ic_ip c)) ` set cs"

text \<open>The packets that wait, that were reported to ICMP, and that were injected as IPv4.\<close>

definition io_waiting :: "interface_cache list \<Rightarrow> byte list multiset" where
  "io_waiting cs = mset (concat (map (\<lambda>c. map (\<lambda>r. payload (ir_ff r)) (ic_request_list c)) cs))"

definition ctrl_bytes :: "finsFrame \<Rightarrow> byte list" where
  "ctrl_bytes f = (case ctrl_dat (ctrlFrame f) of CD_BYTES p \<Rightarrow> p | _ \<Rightarrow> [])"

definition is_report :: "finsFrame \<Rightarrow> bool" where
  "is_report f \<longleftrightarrow> dataOrCtrl f = FF_CONTROL \<and> opcode (ctrlFrame f) = CTRL_ERROR"

definition reported :: "finsFrame list \<Rightarrow> byte list multiset" where
  "reported fs = mset (map ctrl_bytes (filter is_report fs))"

definition is_ipv4 :: "byte list \<Rightarrow> bool" where
  "is_ipv4 p \<longleftrightarrow> load16 p 12 = Inr (htons (ucast ETH_TYPE_IP4))"

definition injected_ipv4 :: "byte list list \<Rightarrow> byte list multiset" where
  "injected_ipv4 ps = mset (map (drop SIZE_ETHERNET) (filter is_ipv4 ps))"

text \<open>What an operation leaves alone, what it sends (\<open>outs\<close>) and what it injects (\<open>ws\<close>).\<close>

definition io_moved :: "finsFrame list \<Rightarrow> interface_module \<Rightarrow> finsFrame list \<Rightarrow> byte list list \<Rightarrow> interface_module \<Rightarrow> bool" where
  "io_moved xs m outs ws m' \<longleftrightarrow> queue_rep (m_output_queue m') (xs @ outs)
     \<and> queue_cap (m_output_queue m') = queue_cap (m_output_queue m) \<and> m_table m' = m_table m \<and> m_index m' = m_index m
     \<and> m_state m' = m_state m \<and> m_input_queue m' = m_input_queue m \<and> m_event_sem m' = m_event_sem m
     \<and> io_if_list (m_data m') = io_if_list (m_data m) \<and> io_cache_max (m_data m') = io_cache_max (m_data m)
     \<and> io_store_max (m_data m') = io_store_max (m_data m) \<and> io_writable (m_data m') = io_writable (m_data m)
     \<and> io_injected (m_data m') = io_injected (m_data m) @ ws"

text \<open>A packet to send, and the answer to a request.\<close>

definition out_frame :: "finsFrame \<Rightarrow> u32 \<Rightarrow> u32 \<Rightarrow> u32 \<Rightarrow> bool" where
  "out_frame f ifx src dst \<longleftrightarrow> packet_fits f \<and> directionFlag (dataFrame f) = DIR_DOWN
     \<and> (case metaData f of None \<Rightarrow> False
        | Some ms \<Rightarrow> meta_plain ms \<and> has_u32 ms ''send_ether_type'' ETH_TYPE_IP4 \<and> has_u32 ms ''send_if_index'' ifx
            \<and> has_u32 ms ''send_src_ipv4'' src \<and> has_u32 ms ''send_dst_ipv4'' dst)"

definition arp_out_frame :: "finsFrame \<Rightarrow> u64 \<Rightarrow> u64 \<Rightarrow> bool" where
  "arp_out_frame f dst_mac src_mac \<longleftrightarrow> packet_fits f \<and> directionFlag (dataFrame f) = DIR_DOWN
     \<and> (case metaData f of None \<Rightarrow> False
        | Some ms \<Rightarrow> meta_plain ms \<and> has_u32 ms ''send_ether_type'' ETH_TYPE_ARP \<and> has_u64 ms ''send_dst_mac'' dst_mac
            \<and> has_u64 ms ''send_src_mac'' src_mac)"

definition addr_reply :: "finsFrame \<Rightarrow> bool" where
  "addr_reply f \<longleftrightarrow> dataOrCtrl f = FF_CONTROL \<and> opcode (ctrlFrame f) = CTRL_EXEC_REPLY \<and> param_id (ctrlFrame f) = INTERFACE_EXEC_GET_ADDR
     \<and> (case metaData f of None \<Rightarrow> False
        | Some ms \<Rightarrow> meta_plain ms \<and> (ret_val (ctrlFrame f) = FCF_TRUE \<longrightarrow> (\<exists>mac. has_u64 ms ''dst_mac'' mac)))"

datatype io_event = IoPacket finsFrame | IoArp finsFrame | IoReply finsFrame

fun io_frame :: "io_event \<Rightarrow> finsFrame" where
  "io_frame (IoPacket f) = f" | "io_frame (IoArp f) = f" | "io_frame (IoReply f) = f"

text \<open>A new serial number must not be that of a search that is still pending.\<close>

fun io_event_ok :: "interface_module \<Rightarrow> io_event \<Rightarrow> bool" where
  "io_event_ok m (IoPacket f) = ((\<exists>ifx src dst. out_frame f ifx src dst) \<and> fst (next_serial m) \<notin> is_serial_num ` set (io_store_list (m_data m)))"
| "io_event_ok m (IoArp f) = (\<exists>dst_mac src_mac. arp_out_frame f dst_mac src_mac)"
| "io_event_ok m (IoReply f) = addr_reply f"

fun new_packets :: "io_event \<Rightarrow> byte list multiset" where
  "new_packets (IoPacket f) = {#payload f#}"
| "new_packets _ = {#}"

definition io_linked :: "interface_module \<Rightarrow> bool" where
  "io_linked m \<longleftrightarrow> (\<exists>d. flow_to m INTERFACE_FLOW_ARP d) \<and> (\<exists>d. flow_to m INTERFACE_FLOW_ICMP d)"

text \<open>
  What one operation does: the invariant holds again, and the packets that wait, were injected, were reported or were
  dropped are those that waited before and the new one. Only the new packet can be dropped, and only if \<open>P\<close> holds.
\<close>

definition io_handled :: "finsFrame list \<Rightarrow> interface_module \<Rightarrow> byte list multiset \<Rightarrow> bool \<Rightarrow> interface_module \<Rightarrow> bool" where
  "io_handled xs m new P m' \<longleftrightarrow> io_ok m' \<and> (\<exists>outs ws dropped. io_moved xs m outs ws m' \<and> dropped \<subseteq># new \<and> (dropped \<noteq> {#} \<longrightarrow> P)
     \<and> io_waiting (io_caches m') + injected_ipv4 ws + reported outs + dropped = io_waiting (io_caches m) + new)"

definition no_interface :: "interface_module \<Rightarrow> u32 \<Rightarrow> bool" where
  "no_interface m ifx \<longleftrightarrow> find (\<lambda>i. ifr_index_test i ifx) (io_if_list (m_data m)) = None"

definition io_full :: "interface_module \<Rightarrow> bool" where
  "io_full m \<longleftrightarrow> io_store_max (m_data m) \<le> length (io_store_list (m_data m)) \<or> io_cache_max (m_data m) \<le> length (io_caches m)
     \<or> (\<exists>c \<in> set (io_caches m). ic_request_max c \<le> length (ic_request_list c))"

text \<open>The address an answer brings.\<close>

definition the_mac :: "finsFrame \<Rightarrow> u64" where
  "the_mac f = (case metaData f of None \<Rightarrow> 0 | Some ms \<Rightarrow> (case secure_metadata_read_u64 ms ''dst_mac'' of Inl _ \<Rightarrow> 0 | Inr mac \<Rightarrow> mac))"

text \<open>The flow of a captured frame, and a flow with two destinations.\<close>

definition capture_flow :: "u32 \<Rightarrow> u32" where
  "capture_flow t = (if t = ETH_TYPE_IP4 then INTERFACE_FLOW_IPV4 else INTERFACE_FLOW_ARP)"

definition flow_to_two :: "interface_module \<Rightarrow> u32 \<Rightarrow> bool" where
  "flow_to_two m flow \<longleftrightarrow> flow < mt_flows_num (m_table m) \<and> unat (mt_flows_num (m_table m)) \<le> length (mt_flows (m_table m))
     \<and> fl_link_id (mt_flows (m_table m) ! unat flow) \<noteq> LINK_NULL
     \<and> (case fl_link (mt_flows (m_table m) ! unat flow) of None \<Rightarrow> False | Some l \<Rightarrow> lk_dsts_num l = 2 \<and> 2 \<le> length (lk_dsts_index l))"

text \<open>A module with one interface, and a packet, for the examples.\<close>

definition ex_flow :: "u32 \<Rightarrow> u32 \<Rightarrow> u32 \<Rightarrow> fins_module_flow" where
  "ex_flow i n d = \<lparr>fl_link_id = i, fl_link = Some \<lparr>lk_id = i, lk_src_index = 2, lk_dsts_num = n, lk_dsts_index = replicate 32 d\<rparr>\<rparr>"

definition ex_io :: "u32 \<Rightarrow> u64 \<Rightarrow> interface_module" where
  "ex_io n mac = \<lparr>m_flows_max = 5, m_state = FMS_RUNNING, m_index = 2, m_id = 2, m_name = ''interface'',
      m_input_queue = CreateQueue 20, m_output_queue = CreateQueue 20, m_event_sem = 0, m_switch_sem = 0, m_knobs = [],
      m_table = \<lparr>mt_link_list = Some [], mt_flows_num = 3, mt_flows = [ex_flow 1 1 4, ex_flow 2 n 6, ex_flow 3 1 5]\<rparr>,
      m_freed = [],
      m_data = \<lparr>io_if_list = [\<lparr>if_index = 3, if_name = ''eth0'', if_mac = mac, if_mode = 1, if_mtu = 1500, if_flags = 0, if_addr_list = Some []\<rparr>],
         io_cache_list = [], io_cache_max = 4, io_store_list = [], io_store_max = 4, io_brk = 0, io_serial = 0, io_writable = True,
         io_injected = [], io_announced = []\<rparr>\<rparr>"

definition ex_packet :: finsFrame where
  "ex_packet = zeroFrame\<lparr>dataOrCtrl := FF_DATA,
     metaData := Some [(''send_ether_type'', CInt ETH_TYPE_IP4), (''send_if_index'', CInt 3), (''send_src_ipv4'', CInt 1), (''send_dst_ipv4'', CInt 2)],
     dataFrame := \<lparr>directionFlag = DIR_DOWN, pduLength = 3, pdu = Some [7, 8, 9]\<rparr>\<rparr>"

definition ex_answer :: finsFrame where
  "ex_answer = zeroFrame\<lparr>dataOrCtrl := FF_CONTROL, metaData := Some [(''dst_mac'', CInt64 0xBB)],
     ctrlFrame := (ctrlFrame zeroFrame)\<lparr>serial_num := 1, opcode := CTRL_EXEC_REPLY, param_id := INTERFACE_EXEC_GET_ADDR, ret_val := FCF_TRUE\<rparr>\<rparr>"

section \<open>Injecting\<close>

lemma upd_io_simps [simp]:
  "m_data (upd_io f m) = f (m_data m)" "m_output_queue (upd_io f m) = m_output_queue m" "m_table (upd_io f m) = m_table m"
  "m_index (upd_io f m) = m_index m" "m_state (upd_io f m) = m_state m" "m_input_queue (upd_io f m) = m_input_queue m"
  "m_event_sem (upd_io f m) = m_event_sem m" "m_freed (upd_io f m) = m_freed m"
  by (simp_all add: upd_io_def)

lemma upd_io_env [simp]:
  "space (upd_io f m) xs n = space m xs n" "room (upd_io f m) xs = room m xs" "flow_to (upd_io f m) fl d = flow_to m fl d"
  by (simp_all add: upd_io_def space_def)

lemma upd_io_io [simp]: "upd_io f (upd_io g m) = upd_io (\<lambda>d. f (g d)) m"
  by (simp add: upd_io_def)

lemma upd_io_freed: "(upd_io f m)\<lparr>m_freed := fs\<rparr> = upd_io f (m\<lparr>m_freed := fs\<rparr>)"
  by (simp add: upd_io_def)

lemma inject_ok:
  assumes "packet_fits f" "io_writable (m_data m)" "t = ETH_TYPE_IP4 \<or> t = ETH_TYPE_ARP"
  shows "interface_inject_pdu m (pduLength (dataFrame f)) (pdu (dataFrame f)) dst_mac src_mac t
    = Inr (True, upd_io (\<lambda>d. d\<lparr>io_injected := io_injected d @ [eth_frame dst_mac src_mac t (payload f)]\<rparr>) m)"
  using assms by (auto simp: interface_inject_pdu_def packet_fits_def packet_frame_def payload_def eth_frame_def slice_def split: option.splits)

lemma inject_or_exit_ok:
  assumes "packet_fits f" "io_writable (m_data m)" "t = ETH_TYPE_IP4 \<or> t = ETH_TYPE_ARP"
  shows "inject_or_exit m f dst_mac src_mac t
    = Inr (upd_io (\<lambda>d. d\<lparr>io_injected := io_injected d @ [eth_frame dst_mac src_mac t (payload f)]\<rparr>) (m\<lparr>m_freed := m_freed m @ [f]\<rparr>))"
proof -
  have "dataOrCtrl f = FF_DATA" using assms(1) by (simp add: packet_fits_def packet_frame_def)
  then show ?thesis using inject_ok [OF assms] by (simp add: inject_or_exit_def upd_io_freed free_ff_ctrl)
qed

text \<open>The waiting packets are injected in the order in which they came.\<close>

lemma inject_all_ok:
  assumes "list_all io_req_ok rs" "io_writable (m_data m)"
  shows "inject_all dst_mac src_mac rs m
    = Inr (upd_io (\<lambda>d. d\<lparr>io_injected := io_injected d @ map (\<lambda>r. eth_frame dst_mac src_mac ETH_TYPE_IP4 (payload (ir_ff r))) rs\<rparr>)
        (m\<lparr>m_freed := m_freed m @ map ir_ff rs\<rparr>))"
  using assms
proof (induction rs arbitrary: m)
  case Nil
  then show ?case by (simp add: upd_io_def)
next
  case (Cons r rs)
  let ?m = "upd_io (\<lambda>d. d\<lparr>io_injected := io_injected d @ [eth_frame dst_mac src_mac ETH_TYPE_IP4 (payload (ir_ff r))]\<rparr>) m"
  have r: "packet_fits (ir_ff r)" "dataOrCtrl (ir_ff r) = FF_DATA" using Cons.prems(1) by (simp_all add: io_req_ok_def packet_fits_def packet_frame_def)
  have f: "interface_request_free r ?m = Inr (?m\<lparr>m_freed := m_freed m @ [ir_ff r]\<rparr>)"
    using free_ff_ctrl [of "ir_ff r" ?m] r(2) by (simp add: interface_request_free_def)
  show ?case using inject_ok [OF r(1) Cons.prems(2)] f Cons.IH [of "?m\<lparr>m_freed := m_freed m @ [ir_ff r]\<rparr>"] Cons.prems
    by (simp add: upd_io_def)
qed


section \<open>Caches and stores\<close>

lemma store_of_mono: "store_of cs s \<Longrightarrow> set cs \<subseteq> set ds \<Longrightarrow> store_of ds s"
  by (auto simp: store_of_def)

lemma store_of_rest: "store_of (pre @ c # post) s \<Longrightarrow> is_cache s \<noteq> ic_ptr c \<or> \<not> ic_seeking c \<Longrightarrow> store_of (pre @ post) s"
  by (auto simp: store_of_def)

lemma distinct_mid: "distinct (map f (xs @ y # ys)) \<longleftrightarrow> f y \<notin> f ` set (xs @ ys) \<and> distinct (map f (xs @ ys))"
  by auto

lemma distinct_concat_mid: "distinct (concat (map f (xs @ y # ys)))
    \<longleftrightarrow> distinct (f y) \<and> set (f y) \<inter> set (concat (map f (xs @ ys))) = {} \<and> distinct (concat (map f (xs @ ys)))"
  by (auto simp del: set_concat)

lemma caches_mid: "io_caches_ok brk (pre @ c # post) \<longleftrightarrow> joins brk c (pre @ post) \<and> io_caches_ok brk (pre @ post)"
proof -
  have 1: "list_all io_cache_ok (pre @ c # post) \<longleftrightarrow> io_cache_ok c \<and> list_all io_cache_ok (pre @ post)" by auto
  have 2: "(\<forall>d \<in> set (pre @ c # post). ic_ptr d < brk) \<longleftrightarrow> ic_ptr c < brk \<and> (\<forall>d \<in> set (pre @ post). ic_ptr d < brk)" by auto
  have 3: "(\<forall>p \<in> set (concat (map cache_ptrs (pre @ c # post))). p < brk)
      \<longleftrightarrow> (\<forall>p \<in> set (cache_ptrs c). p < brk) \<and> (\<forall>p \<in> set (concat (map cache_ptrs (pre @ post))). p < brk)" by auto
  have 4: "io_cache_ok c \<Longrightarrow> distinct (cache_ptrs c)" by (simp add: io_cache_ok_def)
  show ?thesis unfolding io_caches_ok_def joins_def 1 2 3 distinct_mid distinct_concat_mid using 4 by blast
qed

lemma idle_parts:
  assumes "\<not> ic_seeking c"
  shows "io_state_ok brk (pre @ c # post) ss \<longleftrightarrow> joins brk c (pre @ post) \<and> io_state_ok brk (pre @ post) ss"
proof -
  have "list_all (store_of (pre @ c # post)) ss = list_all (store_of (pre @ post)) ss"
    using assms store_of_rest [of pre c post] store_of_mono [of "pre @ post" _ "pre @ c # post"] by (auto simp: list_all_iff)
  then have "io_stores_ok (pre @ c # post) ss = io_stores_ok (pre @ post) ss" using assms by (simp add: io_stores_ok_def)
  then show ?thesis by (simp add: io_state_ok_def caches_mid)
qed

lemma seeking_stores:
  assumes "ic_seeking c" "is_cache s = ic_ptr c" "ic_ptr c \<notin> ic_ptr ` set (pre @ post)"
  shows "io_stores_ok (pre @ c # post) (spre @ s # spost) \<longleftrightarrow> is_live s \<and> is_sent s = 1 \<and> is_request s \<in> set (cache_ptrs c)
    \<and> is_serial_num s \<notin> is_serial_num ` set (spre @ spost) \<and> io_stores_ok (pre @ post) (spre @ spost)"
proof -
  let ?ss = "spre @ spost"
  have s: "store_of (pre @ c # post) s \<longleftrightarrow> is_live s \<and> is_sent s = 1 \<and> is_request s \<in> set (cache_ptrs c)"
  proof -
    have "d = c" if "d \<in> set (pre @ c # post)" "ic_ptr d = ic_ptr c" for d using that assms(3) imageI [of d "set (pre @ post)" ic_ptr] by auto
    then show ?thesis using assms(1,2) unfolding store_of_def by (metis in_set_conv_decomp)
  qed
  have sp: "list_all (store_of cs) (spre @ s # spost) \<longleftrightarrow> store_of cs s \<and> list_all (store_of cs) ?ss" for cs by auto
  have sk: "(\<forall>d \<in> set (pre @ c # post). ic_seeking d \<longrightarrow> ic_ptr d \<in> is_cache ` set (spre @ s # spost))
      \<longleftrightarrow> (\<forall>d \<in> set (pre @ post). ic_seeking d \<longrightarrow> ic_ptr d \<in> is_cache ` set ?ss)"
  proof -
    have ne: "ic_ptr d \<noteq> is_cache s" if "d \<in> set (pre @ post)" for d using that assms(2,3) by (metis imageI)
    have i: "is_cache ` set (spre @ s # spost) = insert (is_cache s) (is_cache ` set ?ss)" "set (pre @ c # post) = insert c (set (pre @ post))" by auto
    show ?thesis unfolding i using assms(2) ne by (simp only: ball_simps insert_iff) blast
  qed
  have own: "is_cache s \<notin> is_cache ` set ?ss" if "list_all (store_of (pre @ post)) ?ss"
  proof
    assume "is_cache s \<in> is_cache ` set ?ss"
    then obtain t where t: "t \<in> set ?ss" "is_cache t = is_cache s" by (metis imageE)
    then have "store_of (pre @ post) t" using that by (simp only: list_all_iff)
    then show False using t(2) assms(2,3) unfolding store_of_def by (metis imageI)
  qed
  have rest: "list_all (store_of (pre @ c # post)) ?ss \<longleftrightarrow> list_all (store_of (pre @ post)) ?ss" if "is_cache s \<notin> is_cache ` set ?ss"
  proof -
    have "store_of (pre @ c # post) t = store_of (pre @ post) t" if "t \<in> set ?ss" for t
    proof -
      have "is_cache t \<noteq> ic_ptr c" using that assms(2) \<open>is_cache s \<notin> is_cache ` set ?ss\<close> by (metis imageI)
      then show ?thesis using store_of_rest [of pre c post t] store_of_mono [of "pre @ post" t "pre @ c # post"] by auto
    qed
    then show ?thesis unfolding list_all_iff by blast
  qed
  show ?thesis unfolding io_stores_ok_def distinct_mid sp sk s using own rest by blast
qed

lemma seeking_parts:
  assumes "ic_seeking c" "is_cache s = ic_ptr c"
  shows "io_state_ok brk (pre @ c # post) (spre @ s # spost) \<longleftrightarrow> joins brk c (pre @ post) \<and> is_live s \<and> is_sent s = 1
    \<and> is_request s \<in> set (cache_ptrs c) \<and> is_serial_num s \<notin> is_serial_num ` set (spre @ spost) \<and> io_state_ok brk (pre @ post) (spre @ spost)"
proof (cases "joins brk c (pre @ post)")
  case True
  then have "ic_ptr c \<notin> ic_ptr ` set (pre @ post)" by (simp add: joins_def)
  then show ?thesis using True seeking_stores [OF assms, of pre post spre spost] unfolding io_state_ok_def caches_mid by blast
qed (simp add: io_state_ok_def caches_mid)

lemma io_state_ok_mono: "io_state_ok brk cs ss \<Longrightarrow> brk \<le> brk' \<Longrightarrow> io_state_ok brk' cs ss"
  by (fastforce simp: io_state_ok_def io_caches_ok_def)

lemma live_stores: "io_state_ok brk cs ss \<Longrightarrow> list_all is_live ss"
  by (simp add: io_state_ok_def io_stores_ok_def list_all_iff store_of_def)

lemma find_store_none: "list_all is_live ss \<Longrightarrow> find_store P ss = Inr None \<longleftrightarrow> \<not> list_ex P ss"
proof (induction ss)
  case (Cons s ss)
  then show ?case by (cases "find_store P ss") (auto simp: list_ex_iff list_all_iff)
qed simp

lemma find_store_cases:
  assumes "list_all is_live ss"
  obtains (none) "find_store P ss = Inr None" "\<not> list_ex P ss"
    | (some) spre s spost where "ss = spre @ s # spost" "P s" "find_store P ss = Inr (Some (length spre))"
proof -
  have "(find_store P ss = Inr None \<and> \<not> list_ex P ss) \<or> (\<exists>spre s spost. ss = spre @ s # spost \<and> P s \<and> find_store P ss = Inr (Some (length spre)))"
    using assms
  proof (induction ss)
    case (Cons t ss)
    show ?case
    proof (cases "P t")
      case True
      then show ?thesis using Cons.prems by (intro disjI2 exI [of _ "[]"] exI [of _ t] exI [of _ ss]) simp
    next
      case False
      from Cons.IH Cons.prems consider "find_store P ss = Inr None" "\<not> list_ex P ss"
        | spre s spost where "ss = spre @ s # spost" "P s" "find_store P ss = Inr (Some (length spre))" by auto
      then show ?thesis
      proof cases
        case 1
        then show ?thesis using False Cons.prems by simp
      next
        case 2
        then show ?thesis using False Cons.prems by (intro disjI2 exI [of _ "t # spre"] exI [of _ s] exI [of _ spost]) simp
      qed
    qed
  qed simp
  then show thesis using none some by blast
qed

text \<open>The pointers of a pending search lead to its cache and its request.\<close>

lemma extract_unique:
  assumes "x \<in> set xs" "P x"
  obtains pre y post where "List.extract P xs = Some (pre, y, post)" "xs = pre @ y # post" "P y"
proof (cases "List.extract P xs")
  case None
  then show thesis using assms by (auto simp: extract_None_iff)
next
  case (Some a)
  obtain pre y post where a: "a = (pre, y, post)" by (cases a)
  show thesis using that [of pre y post] Some extract_parts [of P xs pre y post] a by simp
qed

lemma store_target:
  assumes "io_state_ok brk (io_caches m) ss" "s \<in> set ss"
  obtains pre c post rpre r rpost where "cache_at m (is_cache s) = Inr (pre, c, post)" "io_caches m = pre @ c # post" "ic_ptr c = is_cache s"
    "ic_seeking c" "request_at c (is_request s) = Inr (rpre, r, rpost)" "ic_request_list c = rpre @ r # rpost" "ir_ptr r = is_request s"
proof -
  obtain c where c: "c \<in> set (io_caches m)" "ic_ptr c = is_cache s" "ic_seeking c" "is_request s \<in> set (cache_ptrs c)"
    using assms by (auto simp: io_state_ok_def io_stores_ok_def list_all_iff store_of_def)
  obtain pre c' post where x: "List.extract (\<lambda>c. ic_ptr c = is_cache s) (io_caches m) = Some (pre, c', post)" "io_caches m = pre @ c' # post"
      "ic_ptr c' = is_cache s" by (rule extract_unique [of c _ "\<lambda>c. ic_ptr c = is_cache s"]) (use c in auto)
  have "distinct (map ic_ptr (io_caches m))" using assms(1) by (simp only: io_state_ok_def io_caches_ok_def)
  then have "c' = c" using c(1,2) x(2,3) by (auto simp: image_iff)
  obtain r0 where r0: "r0 \<in> set (ic_request_list c)" "ir_ptr r0 = is_request s" using c(4) by (auto simp: cache_ptrs_def)
  obtain rpre r rpost where y: "List.extract (\<lambda>r. ir_ptr r = is_request s) (ic_request_list c) = Some (rpre, r, rpost)"
      "ic_request_list c = rpre @ r # rpost" "ir_ptr r = is_request s" by (rule extract_unique [of r0 _ "\<lambda>r. ir_ptr r = is_request s"]) (use r0 in auto)
  show thesis using that [of pre c post rpre r rpost] x y c \<open>c' = c\<close> by (simp add: cache_at_def request_at_def)
qed


section \<open>Asking and reporting\<close>

lemma io_moved_refl: "queue_rep (m_output_queue m) xs \<Longrightarrow> io_moved xs m [] [] m"
  by (simp add: io_moved_def)

lemma io_moved_trans: "io_moved xs m a v m1 \<Longrightarrow> io_moved (xs @ a) m1 b w m2 \<Longrightarrow> io_moved xs m (a @ b) (v @ w) m2"
  by (simp add: io_moved_def)

lemma sent_io_moved: "sent xs m fs m' \<Longrightarrow> io_moved xs m fs [] m'"
  using sent_fields [of xs m fs m'] by (simp add: io_moved_def sent_def)

lemma io_moved_freed [simp]: "io_moved xs m outs ws (m'\<lparr>m_freed := fs\<rparr>) = io_moved xs m outs ws m'"
  by (simp add: io_moved_def)

lemma interface_send_request_ok:
  assumes "room m xs" "flow_to m INTERFACE_FLOW_ARP d"
  obtains m' q where "interface_send_request m si di serial = Inr (1, m')" "sent xs m [q] m'" "destinationID q = d" "get_addr_frame q si di"
    "req_key q = (ucast (ucast (m_index m) :: u8), serial)" "\<not> is_report q"
proof -
  have p0: "meta_plain metadata_create" by (simp add: meta_plain_def metadata_create_def)
  have fr: "\<forall>t \<in> fst ` set [(''src_ip'', si), (''dst_ip'', di)]. free_u32 metadata_create t"
    using arp_names by (simp add: free_u32_def metadata_create_def)
  from writes_ok [OF p0 fr] obtain ms where ms: "meta_writes metadata_create [(''src_ip'', si), (''dst_ip'', di)] = Inr ms" "meta_plain ms"
    "map_of ms = [''src_ip'' \<mapsto> CInt si, ''dst_ip'' \<mapsto> CInt di]" by (auto simp: metadata_create_def)
  let ?f = "zeroFrame\<lparr>dataOrCtrl := FF_CONTROL, metaData := Some ms,
      ctrlFrame := (ctrlFrame zeroFrame)\<lparr>sender_id := ucast (m_index m), serial_num := serial, opcode := CTRL_EXEC,
        param_id := INTERFACE_EXEC_GET_ADDR, data_len := 0, ctrl_dat := CD_NULL\<rparr>\<rparr>"
  obtain m' where m': "module_send_flow m ?f INTERFACE_FLOW_ARP = Inr (1, m')" "sent xs m [?f\<lparr>destinationID := d\<rparr>] m'"
    by (rule flow_single [OF assms])
  have q: "get_addr_frame (?f\<lparr>destinationID := d\<rparr>) si di" using ms(2,3) arp_names ret_msg_valid
    by (simp add: get_addr_frame_def arp_query_def free_u64_def free_u32_def has_u32_def ARP_EXEC_GET_ADDR_def INTERFACE_EXEC_GET_ADDR_def)
  show thesis using that [of m' "?f\<lparr>destinationID := d\<rparr>"] m' ms(1) q
    by (simp add: interface_send_request_def Let_def req_key_def is_report_def CTRL_defs)
qed

lemma report_ok:
  assumes "room m xs" "flow_to m INTERFACE_FLOW_ICMP d" "io_req_ok r" "find_store (\<lambda>s. interface_store_request_test s (ir_ptr r)) (io_store_list (m_data m)) = Inr None"
  obtains m' q n where "io_report m r = Inr m'" "io_moved xs m [q] [] m'" "is_report q" "ctrl_bytes q = payload (ir_ff r)"
    "m_data m' = (m_data m)\<lparr>io_serial := n\<rparr>"
proof -
  obtain serial m2 where n: "next_serial m = (serial, m2)" by fastforce
  obtain k where m2: "m2 = upd_io (\<lambda>d. d\<lparr>io_serial := k\<rparr>) m" using n by (auto simp: next_serial_def split: prod.splits)
  let ?f = "ir_ff r"
  let ?e = "zeroFrame\<lparr>dataOrCtrl := FF_CONTROL, metaData := metaData ?f,
      ctrlFrame := (ctrlFrame zeroFrame)\<lparr>sender_id := ucast (m_index m2), serial_num := serial, opcode := CTRL_ERROR,
        param_id := INTERFACE_ERROR_GET_ADDR, data_len := pduLength (dataFrame ?f),
        ctrl_dat := (case pdu (dataFrame ?f) of None \<Rightarrow> CD_NULL | Some p \<Rightarrow> CD_BYTES p)\<rparr>\<rparr>"
  let ?h = "?f\<lparr>metaData := None, dataFrame := (dataFrame ?f)\<lparr>pduLength := 0, pdu := None\<rparr>\<rparr>"
  have "room m2 xs" "flow_to m2 INTERFACE_FLOW_ICMP d" using assms(1,2) m2 by simp_all
  then obtain m3 where m3: "send_or_free m2 ?e INTERFACE_FLOW_ICMP = Inr m3" "sent xs m2 [?e\<lparr>destinationID := d\<rparr>] m3" by (rule send_single)
  have fam: "sin_family (ir_src_ip r) = of_nat AF_INET" "dataOrCtrl ?f = FF_DATA"
    using assms(3) by (simp_all add: io_req_ok_def packet_fits_def packet_frame_def)
  have "interface_request_free (r\<lparr>ir_ff := ?h\<rparr>) m3 = Inr (m3\<lparr>m_freed := m_freed m3 @ [?h]\<rparr>)"
    using fam(2) free_ff_ctrl [of ?h m3] by (simp add: interface_request_free_def)
  then have e: "io_report m r = Inr (m3\<lparr>m_freed := m_freed m3 @ [?h]\<rparr>)"
    using assms(4) n m3(1) fam(1) by (simp add: io_report_def Let_def)
  have mv: "io_moved xs m [?e\<lparr>destinationID := d\<rparr>] [] m3"
    using sent_io_moved [OF m3(2)] m2 by (simp add: io_moved_def)
  show thesis using that [OF e, of "?e\<lparr>destinationID := d\<rparr>" k] mv sent_fields(3) [OF m3(2)] m2
    by (simp add: is_report_def ctrl_bytes_def payload_def split: option.splits)
qed

lemma report_all_ok:
  assumes "space m xs (length rs)" "flow_to m INTERFACE_FLOW_ICMP d" "list_all io_req_ok rs" "list_all is_live (io_store_list (m_data m))"
    "is_request ` set (io_store_list (m_data m)) \<inter> ir_ptr ` set rs = {}"
  shows "\<exists>m' outs n. io_report_all rs m = Inr m' \<and> io_moved xs m outs [] m' \<and> list_all is_report outs
    \<and> map ctrl_bytes outs = map (\<lambda>r. payload (ir_ff r)) rs \<and> m_data m' = (m_data m)\<lparr>io_serial := n\<rparr>"
  using assms
proof (induction rs arbitrary: m xs)
  case Nil
  then show ?case using io_moved_refl [of m xs]
    by (intro exI [of _ m] exI [of _ "[]"] exI [of _ "io_serial (m_data m)"]) (simp add: space_def)
next
  case (Cons r rs)
  have r: "room m xs" using space_room [OF Cons.prems(1)] by simp
  have f: "find_store (\<lambda>s. interface_store_request_test s (ir_ptr r)) (io_store_list (m_data m)) = Inr None"
  proof -
    have "is_request s \<noteq> ir_ptr r" if "s \<in> set (io_store_list (m_data m))" for s
      using that Cons.prems(5) by (metis disjoint_iff imageI list.set_intros(1))
    then show ?thesis using Cons.prems(4) by (simp add: find_store_none list_ex_iff interface_store_request_test_def)
  qed
  obtain m1 q k where 1: "io_report m r = Inr m1" "io_moved xs m [q] [] m1" "is_report q" "ctrl_bytes q = payload (ir_ff r)"
      "m_data m1 = (m_data m)\<lparr>io_serial := k\<rparr>"
    by (rule report_ok [OF r Cons.prems(2) _ f]) (use Cons.prems(3) in auto)
  have s: "space m1 (xs @ [q]) (length rs)" "flow_to m1 INTERFACE_FLOW_ICMP d"
    using 1(2) Cons.prems(1,2) by (simp_all add: io_moved_def space_def flow_to_def)
  obtain m' outs n where 2: "io_report_all rs m1 = Inr m'" "io_moved (xs @ [q]) m1 outs [] m'" "list_all is_report outs"
      "map ctrl_bytes outs = map (\<lambda>r. payload (ir_ff r)) rs" "m_data m' = (m_data m1)\<lparr>io_serial := n\<rparr>"
    using Cons.IH [OF s] Cons.prems(3-5) 1(5) by auto
  show ?case using 1 2 io_moved_trans [OF 1(2) 2(2)] by (intro exI [of _ m'] exI [of _ "q # outs"] exI [of _ n]) simp
qed


section \<open>Packets to send keep the invariant\<close>

lemma mac_bytes_length [simp]: "length (mac_bytes w) = 6"
  by (simp add: mac_bytes_def)

lemma eth_frame_type: "load16 (eth_frame d s t p) 12 = Inr (htons (ucast t))"
  by (simp add: eth_frame_def load16_def load8_def mem16_def nth_append)

lemma eth_frame_payload [simp]: "drop SIZE_ETHERNET (eth_frame d s t p) = p"
  by (simp add: eth_frame_def SIZE_ETHERNET_def mem16_def)

lemma eth_frame_is_ipv4 [simp]: "is_ipv4 (eth_frame d s ETH_TYPE_IP4 p)" "\<not> is_ipv4 (eth_frame d s ETH_TYPE_ARP p)"
  unfolding is_ipv4_def eth_frame_type by (simp, code_simp)

lemma injected_simps [simp]:
  "injected_ipv4 [] = {#}" "injected_ipv4 (p # ps) = (if is_ipv4 p then add_mset (drop SIZE_ETHERNET p) (injected_ipv4 ps) else injected_ipv4 ps)"
  by (simp_all add: injected_ipv4_def)

lemma reported_simps [simp]:
  "reported [] = {#}" "reported (f # fs) = (if is_report f then add_mset (ctrl_bytes f) (reported fs) else reported fs)"
  by (simp_all add: reported_def)

lemma io_waiting_simps [simp]:
  "io_waiting [] = {#}" "io_waiting (xs @ ys) = io_waiting xs + io_waiting ys"
  "io_waiting (c # cs) = mset (map (\<lambda>r. payload (ir_ff r)) (ic_request_list c)) + io_waiting cs"
  by (simp_all add: io_waiting_def)

lemma joins_add:
  assumes "joins brk c cs" "io_caches_ok brk cs" "io_req_ok r" "ir_ptr r = brk" "length (ic_request_list c) < ic_request_max c"
    "ic_request_list c' = ic_request_list c @ [r]" "ic_ptr c' = ic_ptr c" "ic_ip c' = ic_ip c" "ic_request_max c' = ic_request_max c" "ic_seeking c'"
  shows "joins (Suc brk) c' cs"
proof -
  have p: "cache_ptrs c' = cache_ptrs c @ [brk]" using assms(4,6) by (simp add: cache_ptrs_def)
  have "brk \<notin> set (cache_ptrs c)" "brk \<notin> set (concat (map cache_ptrs cs))" using assms(1,2) unfolding joins_def io_caches_ok_def by blast+
  moreover have "io_cache_ok c'" using assms p \<open>brk \<notin> set (cache_ptrs c)\<close> by (simp add: joins_def io_cache_ok_def)
  ultimately show ?thesis using assms(1,7,8) unfolding joins_def p by (auto simp: less_Suc_eq)
qed

lemma free_dropped:
  assumes "io_ok m" "queue_rep (m_output_queue m) xs" "packet_fits f" P
  shows "\<exists>m'. free_ff f m = Inr m' \<and> io_handled xs m {#payload f#} P m'"
proof -
  have "dataOrCtrl f = FF_DATA" using assms(3) by (simp add: packet_fits_def packet_frame_def)
  then have "free_ff f m = Inr (m\<lparr>m_freed := m_freed m @ [f]\<rparr>)" by (simp add: free_ff_ctrl)
  moreover have "io_handled xs m {#payload f#} P (m\<lparr>m_freed := m_freed m @ [f]\<rparr>)"
    using assms(1,4) io_moved_refl [OF assms(2)] unfolding io_handled_def
    by (intro conjI exI [of _ "[]"] exI [of _ "{#payload f#}"]) (simp_all add: io_ok_def)
  ultimately show ?thesis by simp
qed

text \<open>A packet that joins the waiting ones, behind a frame that is no report.\<close>

lemma wait_handled:
  assumes "io_moved xs m outs [] m'" "reported outs = {#}" "io_ok m'" "io_waiting (io_caches m') = io_waiting (io_caches m) + {#p#}"
  shows "io_handled xs m {#p#} P m'"
  unfolding io_handled_def using assms by (intro conjI exI [of _ outs] exI [of _ "[]"] exI [of _ "{#}"]) simp_all

lemma new_request_eq:
  "interface_new_request m si sm f = (\<lparr>ir_ptr = io_brk (m_data m), ir_src_ip = \<lparr>sin_family = of_nat AF_INET, sin_port = 0, sin_addr = si\<rparr>,
      ir_src_mac = sm, ir_ff = f\<rparr>, upd_io (\<lambda>d. d\<lparr>io_brk := Suc (io_brk d)\<rparr>) m)"
  by (simp add: interface_new_request_def addr4_set_ip_def)

lemma seeking_store:
  assumes "io_state_ok brk (pre @ c # post) ss" "ic_seeking c"
  obtains spre s spost where "ss = spre @ s # spost" "is_cache s = ic_ptr c"
proof -
  have "ic_ptr c \<in> is_cache ` set ss" using assms by (simp add: io_state_ok_def io_stores_ok_def)
  then obtain s where "s \<in> set ss" "is_cache s = ic_ptr c" by (metis imageE)
  with that show thesis by (metis in_set_conv_decomp)
qed

lemma out_cached_handled:
  assumes ok: "io_ok m" and room: "room m xs" and arp: "flow_to m INTERFACE_FLOW_ARP d" and f: "packet_fits f" and w: "io_writable (m_data m)"
    and cs: "io_caches m = pre @ c # post" and fresh: "fst (next_serial m) \<notin> is_serial_num ` set (io_store_list (m_data m))"
  shows "\<exists>m'. out_ipv4_cached current m f sm si di pre c post = Inr m' \<and> io_handled xs m {#payload f#} (io_full m) m'"
proof -
  let ?ss = "io_store_list (m_data m)" and ?brk = "io_brk (m_data m)"
  have st: "io_state_ok ?brk (pre @ c # post) ?ss" and len: "length (pre @ c # post) \<le> io_cache_max (m_data m)" "length ?ss \<le> io_store_max (m_data m)"
    using ok cs by (simp_all add: io_ok_def)
  have q: "queue_rep (m_output_queue m) xs" using room by (simp add: room_def)
  have mem: "c \<in> set (io_caches m)" using cs by simp
  consider (wait) "ic_seeking c" "length (ic_request_list c) < ic_request_max c"
    | (known) "\<not> ic_seeking c" "time_diff (ic_updated_stamp c) current \<le> 1000 * INTERFACE_CACHE_TO_DEFAULT"
    | (ask) "\<not> ic_seeking c" "\<not> time_diff (ic_updated_stamp c) current \<le> 1000 * INTERFACE_CACHE_TO_DEFAULT"
        "length (ic_request_list c) < ic_request_max c" "length ?ss < io_store_max (m_data m)"
    | (full) "ic_seeking c" "\<not> length (ic_request_list c) < ic_request_max c"
    | (no_room) "\<not> ic_seeking c" "\<not> time_diff (ic_updated_stamp c) current \<le> 1000 * INTERFACE_CACHE_TO_DEFAULT"
        "\<not> (length (ic_request_list c) < ic_request_max c \<and> length ?ss < io_store_max (m_data m))"
    by blast
  then show ?thesis
  proof cases
    case full
    then have "io_full m" using mem by (auto simp: io_full_def not_less)
    then show ?thesis using full free_dropped [OF ok q f] by (simp add: out_ipv4_cached_def)
  next
    case no_room
    then have "io_full m" using mem by (auto simp: io_full_def not_less)
    moreover have "out_ipv4_cached current m f sm si di pre c post = free_ff f m" using no_room unfolding out_ipv4_cached_def by (simp only: if_False)
    ultimately show ?thesis using free_dropped [OF ok q f] by simp
  next
    case known
    have "injected_ipv4 [eth_frame (ic_mac c) sm ETH_TYPE_IP4 (payload f)] = {#payload f#}" by simp
    then have "io_handled xs m {#payload f#} (io_full m) (upd_io (\<lambda>d. d\<lparr>io_injected := io_injected d @ [eth_frame (ic_mac c) sm ETH_TYPE_IP4 (payload f)]\<rparr>)
        (m\<lparr>m_freed := m_freed m @ [f]\<rparr>))"
      unfolding io_handled_def using ok q
      by (intro conjI exI [of _ "[]"] exI [of _ "[eth_frame (ic_mac c) sm ETH_TYPE_IP4 (payload f)]"] exI [of _ "{#}"])
        (simp_all add: io_ok_def io_moved_def)
    then show ?thesis using known inject_or_exit_ok [OF f w] by (simp add: out_ipv4_cached_def)
  next
    case wait
    obtain spre s spost where s: "?ss = spre @ s # spost" "is_cache s = ic_ptr c" by (rule seeking_store [OF st wait(1)])
    let ?r = "\<lparr>ir_ptr = ?brk, ir_src_ip = \<lparr>sin_family = of_nat AF_INET, sin_port = 0, sin_addr = si\<rparr>, ir_src_mac = sm, ir_ff = f\<rparr>"
    let ?c = "(io_add_request ?r c)\<lparr>ic_updated_stamp := current\<rparr>"
    have parts: "joins ?brk c (pre @ post)" "is_live s \<and> is_sent s = 1 \<and> is_request s \<in> set (cache_ptrs c) \<and> is_serial_num s \<notin> is_serial_num ` set (spre @ spost)"
        "io_state_ok ?brk (pre @ post) (spre @ spost)"
      using st seeking_parts [OF wait(1) s(2), of ?brk pre post spre spost] s(1) by simp_all
    have c: "ic_seeking ?c" "ic_ptr ?c = ic_ptr c" "set (cache_ptrs c) \<subseteq> set (cache_ptrs ?c)"
      using wait(1) by (auto simp: io_add_request_def cache_ptrs_def)
    have "joins (Suc ?brk) ?c (pre @ post)"
      by (rule joins_add [OF parts(1) _ _ _ wait(2)]) (use parts(3) f wait(1) in \<open>simp_all add: io_state_ok_def io_req_ok_def io_add_request_def\<close>)
    then have "io_state_ok (Suc ?brk) (pre @ ?c # post) ?ss"
      using seeking_parts [of ?c s "Suc ?brk" pre post spre spost] parts(2) io_state_ok_mono [OF parts(3), of "Suc ?brk"] c s by auto
    then have "io_handled xs m {#payload f#} (io_full m) (put_caches (pre @ ?c # post) (upd_io (\<lambda>d. d\<lparr>io_brk := Suc (io_brk d)\<rparr>) m))"
      by (intro wait_handled [of xs m "[]"]) (use len q cs in \<open>simp_all add: io_ok_def io_moved_def io_add_request_def\<close>)
    then show ?thesis using wait by (simp add: out_ipv4_cached_def new_request_eq)
  next
    case ask
    obtain serial m1 where n: "next_serial m = (serial, m1)" by fastforce
    obtain k where m1: "m1 = upd_io (\<lambda>d. d\<lparr>io_serial := k\<rparr>) m" using n by (auto simp: next_serial_def split: prod.splits)
    have "room m1 xs" "flow_to m1 INTERFACE_FLOW_ARP d" using room arp m1 by simp_all
    then obtain m2 qf where m2: "interface_send_request m1 si di serial = Inr (1, m2)" "sent xs m1 [qf] m2" "\<not> is_report qf"
      by (rule interface_send_request_ok)
    have d2: "m_data m2 = (m_data m)\<lparr>io_serial := k\<rparr>" using sent_fields(3) [OF m2(2)] m1 by simp
    let ?r = "\<lparr>ir_ptr = ?brk, ir_src_ip = \<lparr>sin_family = of_nat AF_INET, sin_port = 0, sin_addr = si\<rparr>, ir_src_mac = sm, ir_ff = f\<rparr>"
    let ?c = "(io_add_request ?r c)\<lparr>ic_seeking := True, ic_updated_stamp := current\<rparr>"
    let ?s = "interface_store_create serial 1 (ic_ptr c) ?brk"
    have parts: "joins ?brk c (pre @ post)" "io_state_ok ?brk (pre @ post) ?ss" using st idle_parts [OF ask(1)] by simp_all
    have c: "ic_seeking ?c" "ic_ptr ?c = ic_ptr c" "?brk \<in> set (cache_ptrs ?c)" by (simp_all add: io_add_request_def cache_ptrs_def)
    have "joins (Suc ?brk) ?c (pre @ post)"
      by (rule joins_add [OF parts(1) _ _ _ ask(3)]) (use parts(2) f in \<open>simp_all add: io_state_ok_def io_req_ok_def io_add_request_def\<close>)
    then have "io_state_ok (Suc ?brk) (pre @ ?c # post) (?ss @ [?s])"
      using seeking_parts [of ?c ?s "Suc ?brk" pre post ?ss "[]"] io_state_ok_mono [OF parts(2), of "Suc ?brk"] c fresh n
      by (simp add: interface_store_create_def)
    moreover have "io_moved xs m [qf] [] m2" using sent_io_moved [OF m2(2)] m1 by (simp add: io_moved_def)
    ultimately have "io_handled xs m {#payload f#} (io_full m) (put_stores (?ss @ [?s]) (put_caches (pre @ ?c # post) (upd_io (\<lambda>d. d\<lparr>io_brk := Suc (io_brk d)\<rparr>) m2)))"
      by (intro wait_handled [of xs m "[qf]"]) (use len ask cs m2(3) d2 in \<open>simp_all add: io_ok_def io_moved_def io_add_request_def\<close>)
    then show ?thesis using ask n m2(1) d2 by (simp add: out_ipv4_cached_def new_request_eq)
  qed
qed


lemma io_evict_ok:
  assumes "io_state_ok brk (io_caches m) ss"
  shows "io_evict m = Inr None \<or> (\<exists>cs. io_evict m = Inr (Some (put_caches cs m)) \<and> io_state_ok brk cs ss \<and> length cs < length (io_caches m)
      \<and> io_waiting cs = io_waiting (io_caches m) \<and> set cs \<subseteq> set (io_caches m))"
proof (cases "List.extract interface_cache_non_seeking_test (io_caches m)")
  case None
  then show ?thesis by (simp add: io_evict_def)
next
  case (Some a)
  then obtain pre c post where x: "List.extract interface_cache_non_seeking_test (io_caches m) = Some (pre, c, post)" by (cases a) auto
  have l: "io_caches m = pre @ c # post" "\<not> ic_seeking c" using extract_parts [OF x] by (simp_all add: interface_cache_non_seeking_test_def)
  have "joins brk c (pre @ post)" and ok: "io_state_ok brk (pre @ post) ss" using assms idle_parts [OF l(2)] l(1) by simp_all
  then have e: "ic_request_list c = []" using l(2) by (simp add: joins_def io_cache_ok_def)
  have "io_evict m = Inr (Some (put_caches (pre @ post) m))" using x e by (simp add: io_evict_def interface_cache_free_def)
  then show ?thesis using ok l(1) e by (intro disjI2 exI [of _ "pre @ post"]) auto
qed

lemma out_new_handled:
  assumes ok: "io_ok m" and room: "room m xs" and arp: "flow_to m INTERFACE_FLOW_ARP d" and f: "packet_fits f"
    and new: "di \<notin> (\<lambda>c. addr4_get_ip (ic_ip c)) ` set (io_caches m)" and fresh: "fst (next_serial m) \<notin> is_serial_num ` set (io_store_list (m_data m))"
  shows "\<exists>m'. out_ipv4_new current m f sm si di = Inr m' \<and> io_handled xs m {#payload f#} (io_full m) m'"
proof (cases "length (io_store_list (m_data m)) < io_store_max (m_data m)")
  case False
  have "queue_rep (m_output_queue m) xs" using room by (simp add: room_def)
  then show ?thesis using free_dropped [OF ok _ f, of xs "io_full m"] False by (simp add: out_ipv4_new_def io_full_def)
next
  case True
  let ?ss = "io_store_list (m_data m)" and ?brk = "io_brk (m_data m)"
  have st: "io_state_ok ?brk (io_caches m) ?ss" and len: "length (io_caches m) \<le> io_cache_max (m_data m)" using ok by (simp_all add: io_ok_def)
  obtain serial m1 where n: "next_serial m = (serial, m1)" by fastforce
  obtain k where m1: "m1 = upd_io (\<lambda>d. d\<lparr>io_serial := k\<rparr>) m" using n by (auto simp: next_serial_def split: prod.splits)
  have "room m1 xs" "flow_to m1 INTERFACE_FLOW_ARP d" using room arp m1 by simp_all
  then obtain m2 qf where m2: "interface_send_request m1 si di serial = Inr (1, m2)" "sent xs m1 [qf] m2" "\<not> is_report qf"
    by (rule interface_send_request_ok)
  have d2: "m_data m2 = (m_data m)\<lparr>io_serial := k\<rparr>" using sent_fields(3) [OF m2(2)] m1 by simp
  have mv: "io_moved xs m [qf] [] m2" using sent_io_moved [OF m2(2)] m1 by (simp add: io_moved_def)
  let ?r = "\<lparr>ir_ptr = Suc ?brk, ir_src_ip = \<lparr>sin_family = of_nat AF_INET, sin_port = 0, sin_addr = si\<rparr>, ir_src_mac = sm, ir_ff = f\<rparr>"
  let ?c = "\<lparr>ic_ptr = ?brk, ic_ip = \<lparr>sin_family = of_nat AF_INET, sin_port = 0, sin_addr = di\<rparr>, ic_mac = 0, ic_request_list = [?r],
      ic_request_max = INTERFACE_REQUEST_LIST_MAX, ic_seeking = True, ic_updated_stamp = current\<rparr>"
  let ?s = "interface_store_create serial 1 ?brk (Suc ?brk)"
  let ?m = "\<lambda>cs. put_stores (?ss @ [?s]) (put_caches (cs @ [?c]) (upd_io (\<lambda>d. d\<lparr>io_brk := Suc (Suc (io_brk d))\<rparr>) m2))"
  have put: "io_handled xs m {#payload f#} (io_full m) (?m cs)"
    if "io_state_ok ?brk cs ?ss" "length cs < io_cache_max (m_data m)" "io_waiting cs = io_waiting (io_caches m)" "set cs \<subseteq> set (io_caches m)" for cs
  proof -
    have p: "\<forall>d \<in> set cs. ic_ptr d < ?brk" "\<forall>p \<in> set (concat (map cache_ptrs cs)). p < ?brk"
      using that(1) unfolding io_state_ok_def io_caches_ok_def by blast+
    have "di \<notin> (\<lambda>c. addr4_get_ip (ic_ip c)) ` set cs" using new that(4) by blast
    moreover have "io_cache_ok ?c" using f by (simp add: io_cache_ok_def cache_ptrs_def io_req_ok_def INTERFACE_REQUEST_LIST_MAX_def)
    ultimately have j: "joins (Suc (Suc ?brk)) ?c cs" using p unfolding joins_def by (fastforce simp: cache_ptrs_def addr4_get_ip_def)
    have "io_state_ok (Suc (Suc ?brk)) cs ?ss" by (rule io_state_ok_mono [OF that(1)]) simp
    then have "io_state_ok (Suc (Suc ?brk)) (cs @ [?c]) (?ss @ [?s])"
      using seeking_parts [of ?c ?s "Suc (Suc ?brk)" cs "[]" ?ss "[]"] j fresh n by (simp add: interface_store_create_def cache_ptrs_def)
    then show ?thesis using mv by (intro wait_handled [of xs m "[qf]"]) (use that True m2(3) d2 in \<open>simp_all add: io_ok_def io_moved_def\<close>)
  qed
  have run: "out_ipv4_new current m f sm si di = (case (if length (io_caches m) < io_cache_max (m_data m) then Inr (Some m2) else io_evict m2) of
      Inl e \<Rightarrow> Inl e | Inr None \<Rightarrow> free_ff f m2 | Inr (Some m3) \<Rightarrow> Inr (put_stores (io_store_list (m_data m3) @ [interface_store_create serial 1 (io_brk (m_data m3)) (Suc (io_brk (m_data m3)))])
        (put_caches (io_caches m3 @ [?c\<lparr>ic_ptr := io_brk (m_data m3), ic_request_list := [?r\<lparr>ir_ptr := Suc (io_brk (m_data m3))\<rparr>]\<rparr>])
          (upd_io (\<lambda>d. d\<lparr>io_brk := Suc (Suc (io_brk d))\<rparr>) m3))))"
    using True n m2(1) d2 by (simp add: out_ipv4_new_def new_request_eq io_add_request_def addr4_set_ip_def Let_def split: sum.splits option.splits)
  have st2: "io_state_ok ?brk (io_caches m2) ?ss" using st d2 by simp
  have cs2: "io_caches m2 = io_caches m" using d2 by simp
  consider (space) "length (io_caches m) < io_cache_max (m_data m)"
    | (all_seeking) "\<not> length (io_caches m) < io_cache_max (m_data m)" "io_evict m2 = Inr None"
    | (evict) cs where "\<not> length (io_caches m) < io_cache_max (m_data m)" "io_evict m2 = Inr (Some (put_caches cs m2))" "io_state_ok ?brk cs ?ss"
        "length cs < length (io_caches m)" "io_waiting cs = io_waiting (io_caches m)" "set cs \<subseteq> set (io_caches m)"
    using io_evict_ok [OF st2] unfolding cs2 by blast
  then show ?thesis
  proof cases
    case space
    then show ?thesis using run put [of "io_caches m"] st d2 by simp
  next
    case evict
    then show ?thesis using run put [of cs] len d2 by simp
  next
    case all_seeking
    have "dataOrCtrl f = FF_DATA" using f by (simp add: packet_fits_def packet_frame_def)
    then have "out_ipv4_new current m f sm si di = Inr (m2\<lparr>m_freed := m_freed m2 @ [f]\<rparr>)"
      using run all_seeking by (simp add: free_ff_ctrl)
    moreover have "io_full m" using all_seeking(1) by (simp add: io_full_def)
    moreover have "io_handled xs m {#payload f#} True (m2\<lparr>m_freed := m_freed m2 @ [f]\<rparr>)"
      unfolding io_handled_def using mv ok m2(3) d2
      by (intro conjI exI [of _ "[qf]"] exI [of _ "[]"] exI [of _ "{#payload f#}"]) (simp_all add: io_ok_def)
    ultimately show ?thesis by simp
  qed
qed

lemma out_ipv4_handled:
  assumes "io_ok m" "room m xs" "flow_to m INTERFACE_FLOW_ARP d" "io_writable (m_data m)" "out_frame f ifx si di"
    "fst (next_serial m) \<notin> is_serial_num ` set (io_store_list (m_data m))"
  shows "\<exists>m'. interface_out_ipv4 current m f = Inr m' \<and> io_handled xs m {#payload f#} (io_full m \<or> no_interface m ifx) m'"
proof -
  obtain ms where ms: "metaData f = Some ms" "meta_plain ms" "has_u32 ms ''send_if_index'' ifx" "has_u32 ms ''send_src_ipv4'' si"
      "has_u32 ms ''send_dst_ipv4'' di" "packet_fits f"
    using assms(5) by (auto simp: out_frame_def split: option.splits)
  have q: "queue_rep (m_output_queue m) xs" using assms(2) by (simp add: room_def)
  have weak: "io_handled xs m n P m' \<Longrightarrow> io_handled xs m n (P \<or> Q) m'" for n P Q m' unfolding io_handled_def by blast
  note reads = has_read [OF ms(2) ms(3)] has_read [OF ms(2) ms(4)] has_read [OF ms(2) ms(5)]
  show ?thesis
  proof (cases "find (\<lambda>i. ifr_index_test i ifx) (io_if_list (m_data m))")
    case None
    then show ?thesis using free_dropped [OF assms(1) q ms(6), of "io_full m \<or> no_interface m ifx"] ms(1) reads
      by (simp add: interface_out_ipv4_def no_interface_def)
  next
    case (Some ifr)
    show ?thesis
    proof (cases "List.extract (\<lambda>c. interface_cache_ipv4_test c di) (io_caches m)")
      case None
      have "sin_family (ic_ip c) = of_nat AF_INET" if "c \<in> set (io_caches m)" for c
        using that assms(1) unfolding io_ok_def io_state_ok_def io_caches_ok_def list_all_iff io_cache_ok_def by blast
      then have "di \<notin> (\<lambda>c. addr4_get_ip (ic_ip c)) ` set (io_caches m)"
        using None by (auto simp: extract_None_iff interface_cache_ipv4_test_def)
      from out_new_handled [OF assms(1-3) ms(6) this assms(6), of current "if_mac ifr" si] obtain m' where
        "out_ipv4_new current m f (if_mac ifr) si di = Inr m'" "io_handled xs m {#payload f#} (io_full m) m'" by blast
      then show ?thesis using None Some ms(1) reads weak [of _ "io_full m" m'] by (simp add: interface_out_ipv4_def)
    next
      fix a assume x: "List.extract (\<lambda>c. interface_cache_ipv4_test c di) (io_caches m) = Some a"
      obtain pre c post where a: "a = (pre, c, post)" by (cases a)
      have "io_caches m = pre @ c # post" using extract_parts [of _ "io_caches m" pre c post] x a by blast
      from out_cached_handled [OF assms(1-3) ms(6) assms(4) this assms(6), of current "if_mac ifr" si di] obtain m' where
        "out_ipv4_cached current m f (if_mac ifr) si di pre c post = Inr m'" "io_handled xs m {#payload f#} (io_full m) m'" by blast
      then show ?thesis using x a Some ms(1) reads weak [of _ "io_full m" m'] by (simp add: interface_out_ipv4_def)
    qed
  qed
qed


section \<open>Answers keep the invariant\<close>

text \<open>An answer that belongs to no search is freed.\<close>

lemma reply_unknown:
  assumes "io_ok m" "dataOrCtrl f = FF_CONTROL" "\<not> list_ex (\<lambda>s. interface_store_serial_test s (serial_num (ctrlFrame f))) (io_store_list (m_data m))"
  shows "interface_exec_reply_get_addr current m f = Inr (m\<lparr>m_freed := m_freed m @ [f]\<rparr>)"
proof -
  have "list_all is_live (io_store_list (m_data m))" using assms(1) live_stores by (auto simp: io_ok_def)
  then show ?thesis using assms(2,3) find_store_none [of "io_store_list (m_data m)" "\<lambda>s. interface_store_serial_test s (serial_num (ctrlFrame f))"]
    by (simp add: interface_exec_reply_get_addr_def free_ff_ctrl)
qed

text \<open>The address was found: the packets that waited for it are injected in order, with the address of the first sender.\<close>

lemma reply_injects:
  assumes ok: "io_ok m" and w: "io_writable (m_data m)" and f: "dataOrCtrl f = FF_CONTROL" "ret_val (ctrlFrame f) = FCF_TRUE"
      "metaData f = Some ms" "meta_plain ms" "has_u64 ms ''dst_mac'' mac"
    and ss: "io_store_list (m_data m) = spre @ s # spost"
      "find_store (\<lambda>s. interface_store_serial_test s (serial_num (ctrlFrame f))) (io_store_list (m_data m)) = Inr (Some (length spre))"
  obtains pre c post r where "io_caches m = pre @ c # post" "ic_ptr c = is_cache s" "ic_seeking c" "r \<in> set (ic_request_list c)" "ir_ptr r = is_request s"
    "interface_exec_reply_get_addr current m f = Inr (upd_io (\<lambda>d. d\<lparr>io_store_list := spre @ spost,
        io_cache_list := pre @ c\<lparr>ic_mac := mac, ic_seeking := False, ic_updated_stamp := current, ic_request_list := []\<rparr> # post,
        io_injected := io_injected d @ map (\<lambda>q. eth_frame mac (ir_src_mac r) ETH_TYPE_IP4 (payload (ir_ff q))) (ic_request_list c)\<rparr>)
      (m\<lparr>m_freed := m_freed m @ map ir_ff (ic_request_list c) @ [f]\<rparr>))"
proof -
  let ?s = "s\<lparr>is_sent := is_sent s - 1\<rparr>" and ?m = "put_stores (spre @ spost) m"
  have st: "io_state_ok (io_brk (m_data m)) (io_caches m) (io_store_list (m_data m))" using ok by (simp add: io_ok_def)
  have mem: "s \<in> set (io_store_list (m_data m))" using ss(1) by simp
  then have sent: "is_sent s = 1" using st by (auto simp: io_state_ok_def io_stores_ok_def list_all_iff store_of_def)
  obtain pre c post rpre r rpost where t: "cache_at m (is_cache s) = Inr (pre, c, post)" "io_caches m = pre @ c # post" "ic_ptr c = is_cache s"
      "ic_seeking c" "request_at c (is_request s) = Inr (rpre, r, rpost)" "ic_request_list c = rpre @ r # rpost" "ir_ptr r = is_request s"
    by (rule store_target [OF st mem])
  have reqs: "list_all io_req_ok (ic_request_list c)" using st t(2) by (simp add: io_state_ok_def io_caches_ok_def io_cache_ok_def)
  let ?c = "c\<lparr>ic_mac := mac, ic_seeking := False, ic_updated_stamp := current, ic_request_list := []\<rparr>"
  have "cache_at ?m (is_cache ?s) = Inr (pre, c, post)" using t(1) by (simp add: cache_at_def)
  then have "reply_found current ?m f ?s = inject_all mac (ir_src_mac r) (ic_request_list c) (put_caches (pre @ ?c # post) ?m)"
    using t(4,5) f(3) read_u64 [OF f(4,5)] by (simp add: reply_found_def)
  then have e: "interface_exec_reply_get_addr current m f = Inr (upd_io (\<lambda>d. d\<lparr>io_store_list := spre @ spost,
        io_cache_list := pre @ ?c # post,
        io_injected := io_injected d @ map (\<lambda>q. eth_frame mac (ir_src_mac r) ETH_TYPE_IP4 (payload (ir_ff q))) (ic_request_list c)\<rparr>)
      (m\<lparr>m_freed := m_freed m @ map ir_ff (ic_request_list c) @ [f]\<rparr>))"
    using ss sent f(1,2) inject_all_ok [OF reqs] w
    by (simp add: interface_exec_reply_get_addr_def Let_def free_ff_ctrl upd_io_freed)
  have "r \<in> set (ic_request_list c)" using t(6) by simp
  then show thesis by (rule that [OF t(2-4) _ t(7) e])
qed

lemma reply_found_handled:
  assumes "io_ok m" "queue_rep (m_output_queue m) xs" "io_writable (m_data m)" "dataOrCtrl f = FF_CONTROL" "ret_val (ctrlFrame f) = FCF_TRUE"
    "metaData f = Some ms" "meta_plain ms" "has_u64 ms ''dst_mac'' mac" "io_store_list (m_data m) = spre @ s # spost"
    "find_store (\<lambda>s. interface_store_serial_test s (serial_num (ctrlFrame f))) (io_store_list (m_data m)) = Inr (Some (length spre))"
  shows "\<exists>m'. interface_exec_reply_get_addr current m f = Inr m' \<and> io_handled xs m {#} False m'"
proof -
  obtain pre c post r where c: "io_caches m = pre @ c # post" "ic_ptr c = is_cache s" "ic_seeking c" "r \<in> set (ic_request_list c)" "ir_ptr r = is_request s"
    "interface_exec_reply_get_addr current m f = Inr (upd_io (\<lambda>d. d\<lparr>io_store_list := spre @ spost,
        io_cache_list := pre @ c\<lparr>ic_mac := mac, ic_seeking := False, ic_updated_stamp := current, ic_request_list := []\<rparr> # post,
        io_injected := io_injected d @ map (\<lambda>q. eth_frame mac (ir_src_mac r) ETH_TYPE_IP4 (payload (ir_ff q))) (ic_request_list c)\<rparr>)
      (m\<lparr>m_freed := m_freed m @ map ir_ff (ic_request_list c) @ [f]\<rparr>))"
    by (rule reply_injects [OF assms(1,3-10)])
  let ?c = "c\<lparr>ic_mac := mac, ic_seeking := False, ic_updated_stamp := current, ic_request_list := []\<rparr>"
  let ?ws = "map (\<lambda>q. eth_frame mac (ir_src_mac r) ETH_TYPE_IP4 (payload (ir_ff q))) (ic_request_list c)"
  have st: "io_state_ok (io_brk (m_data m)) (pre @ c # post) (spre @ s # spost)" using assms(1,9) c(1) by (simp add: io_ok_def)
  then have parts: "joins (io_brk (m_data m)) c (pre @ post)" "io_state_ok (io_brk (m_data m)) (pre @ post) (spre @ spost)"
    using seeking_parts [OF c(3) c(2) [symmetric]] by simp_all
  have "joins (io_brk (m_data m)) ?c (pre @ post)" using parts(1) by (simp add: joins_def io_cache_ok_def cache_ptrs_def)
  then have "io_state_ok (io_brk (m_data m)) (pre @ ?c # post) (spre @ spost)" using parts(2) idle_parts [of ?c] by simp
  moreover have "injected_ipv4 ?ws = mset (map (\<lambda>q. payload (ir_ff q)) (ic_request_list c))"
    by (induction "ic_request_list c") (simp_all add: injected_ipv4_def comp_def)
  ultimately have "io_handled xs m {#} False (upd_io (\<lambda>d. d\<lparr>io_store_list := spre @ spost, io_cache_list := pre @ ?c # post,
      io_injected := io_injected d @ ?ws\<rparr>) (m\<lparr>m_freed := m_freed m @ map ir_ff (ic_request_list c) @ [f]\<rparr>))"
    unfolding io_handled_def using assms(1,2,9) c(1)
    by (intro conjI exI [of _ "[]"] exI [of _ ?ws] exI [of _ "{#}"]) (simp_all add: io_ok_def io_moved_def)
  then show ?thesis using c(6) by blast
qed


text \<open>The address was not found: the packets that waited for it are reported to ICMP and the cache is gone.\<close>

lemma reply_not_found_handled:
  assumes ok: "io_ok m" and sp: "space m xs (size (io_waiting (io_caches m)))" and icmp: "flow_to m INTERFACE_FLOW_ICMP d"
    and f: "dataOrCtrl f = FF_CONTROL" "ret_val (ctrlFrame f) \<noteq> FCF_TRUE" and ss: "io_store_list (m_data m) = spre @ s # spost"
      "find_store (\<lambda>s. interface_store_serial_test s (serial_num (ctrlFrame f))) (io_store_list (m_data m)) = Inr (Some (length spre))"
  shows "\<exists>m'. interface_exec_reply_get_addr current m f = Inr m' \<and> io_handled xs m {#} False m'"
proof -
  let ?s = "s\<lparr>is_sent := is_sent s - 1\<rparr>" and ?m = "put_stores (spre @ spost) m" and ?brk = "io_brk (m_data m)"
  have st: "io_state_ok ?brk (io_caches m) (io_store_list (m_data m))" using ok by (simp add: io_ok_def)
  have mem: "s \<in> set (io_store_list (m_data m))" using ss(1) by simp
  then have sent: "is_sent s = 1" using st by (auto simp: io_state_ok_def io_stores_ok_def list_all_iff store_of_def)
  obtain pre c post rpre r rpost where t: "cache_at m (is_cache s) = Inr (pre, c, post)" "io_caches m = pre @ c # post" "ic_ptr c = is_cache s"
      "ic_seeking c" "request_at c (is_request s) = Inr (rpre, r, rpost)" "ic_request_list c = rpre @ r # rpost" "ir_ptr r = is_request s"
    by (rule store_target [OF st mem])
  have "io_state_ok ?brk (pre @ c # post) (spre @ s # spost)" using st t(2) ss(1) by simp
  then have parts: "joins ?brk c (pre @ post)" "io_state_ok ?brk (pre @ post) (spre @ spost)" using seeking_parts [OF t(4) t(3) [symmetric]] by simp_all
  have reqs: "list_all io_req_ok (ic_request_list c)" using parts(1) by (simp add: joins_def io_cache_ok_def)
  have other: "is_request ` set (spre @ spost) \<inter> ir_ptr ` set (ic_request_list c) = {}"
  proof -
    have "is_request ` set (spre @ spost) \<subseteq> set (concat (map cache_ptrs (pre @ post)))"
      using parts(2) unfolding io_state_ok_def io_stores_ok_def list_all_iff store_of_def by fastforce
    moreover have "set (cache_ptrs c) \<inter> set (concat (map cache_ptrs (pre @ post))) = {}" using parts(1) unfolding joins_def by blast
    moreover have "ir_ptr ` set (ic_request_list c) = set (cache_ptrs c)" by (simp add: cache_ptrs_def)
    ultimately show ?thesis by blast
  qed
  let ?m1 = "put_caches (pre @ post) ?m"
  have "space ?m1 xs (length (ic_request_list c))" "flow_to ?m1 INTERFACE_FLOW_ICMP d" using sp icmp t(2) by (simp_all add: space_def)
  from report_all_ok [OF this reqs] obtain m2 outs n where
    r: "io_report_all (ic_request_list c) ?m1 = Inr m2" "io_moved xs ?m1 outs [] m2" "list_all is_report outs"
      "map ctrl_bytes outs = map (\<lambda>r. payload (ir_ff r)) (ic_request_list c)" "m_data m2 = (m_data ?m1)\<lparr>io_serial := n\<rparr>"
    using live_stores [OF parts(2)] other by auto
  have "cache_at ?m (is_cache ?s) = Inr (pre, c, post)" using t(1) by (simp add: cache_at_def)
  then have "reply_not_found ?m ?s = Inr m2" using t(4,5) sent r(1) by (simp add: reply_not_found_def interface_cache_free_def)
  then have e: "interface_exec_reply_get_addr current m f = Inr (m2\<lparr>m_freed := m_freed m2 @ [f]\<rparr>)"
    using ss sent f by (simp add: interface_exec_reply_get_addr_def Let_def free_ff_ctrl)
  have "filter is_report outs = outs" using r(3) by (simp add: filter_id_conv list_all_iff)
  then have "reported outs = mset (map (\<lambda>r. payload (ir_ff r)) (ic_request_list c))" unfolding reported_def using r(4) by simp
  moreover have "io_moved xs m outs [] m2" using r(2) by (simp add: io_moved_def)
  ultimately have "io_handled xs m {#} False (m2\<lparr>m_freed := m_freed m2 @ [f]\<rparr>)"
    unfolding io_handled_def using ok ss(1) t(2) r(5) parts(2)
    by (intro conjI exI [of _ outs] exI [of _ "[]"] exI [of _ "{#}"]) (simp_all add: io_ok_def)
  with e show ?thesis by blast
qed

lemma addr_reply_handled:
  assumes "io_ok m" "space m xs (size (io_waiting (io_caches m)))" "flow_to m INTERFACE_FLOW_ICMP d" "io_writable (m_data m)" "addr_reply f"
  shows "\<exists>m'. interface_exec_reply_get_addr current m f = Inr m' \<and> io_handled xs m {#} False m'"
proof -
  have q: "queue_rep (m_output_queue m) xs" and d: "dataOrCtrl f = FF_CONTROL" using assms(2,5) by (simp_all add: space_def addr_reply_def)
  have "list_all is_live (io_store_list (m_data m))" using assms(1) live_stores by (auto simp: io_ok_def)
  then show ?thesis
  proof (cases rule: find_store_cases [of _ "\<lambda>s. interface_store_serial_test s (serial_num (ctrlFrame f))"])
    case none
    have "io_handled xs m {#} False (m\<lparr>m_freed := m_freed m @ [f]\<rparr>)"
      unfolding io_handled_def using assms(1) io_moved_refl [OF q]
      by (intro conjI exI [of _ "[]"] exI [of _ "{#}"]) (simp_all add: io_ok_def)
    then show ?thesis using reply_unknown [OF assms(1) d none(2)] by simp
  next
    case (some spre s spost)
    show ?thesis
    proof (cases "ret_val (ctrlFrame f) = FCF_TRUE")
      case True
      then obtain ms mac where "metaData f = Some ms" "meta_plain ms" "has_u64 ms ''dst_mac'' mac"
        using assms(5) by (auto simp: addr_reply_def split: option.splits)
      from reply_found_handled [OF assms(1) q assms(4) d True this some(1,3)] show ?thesis .
    next
      case False
      from reply_not_found_handled [OF assms(1-3) d False some(1,3)] show ?thesis .
    qed
  qed
qed

lemma out_arp_ok:
  assumes "io_writable (m_data m)" "arp_out_frame f dst_mac src_mac"
  shows "interface_dispatch current m f = Inr (upd_io (\<lambda>d. d\<lparr>io_injected := io_injected d @ [eth_frame dst_mac src_mac ETH_TYPE_ARP (payload f)]\<rparr>)
    (m\<lparr>m_freed := m_freed m @ [f]\<rparr>))"
proof -
  obtain ms where ms: "metaData f = Some ms" "meta_plain ms" "has_u32 ms ''send_ether_type'' ETH_TYPE_ARP" "has_u64 ms ''send_dst_mac'' dst_mac"
      "has_u64 ms ''send_src_mac'' src_mac" and f: "packet_fits f" "directionFlag (dataFrame f) = DIR_DOWN"
    using assms(2) by (auto simp: arp_out_frame_def split: option.splits)
  have "dataOrCtrl f = FF_DATA" using f(1) by (simp add: packet_fits_def packet_frame_def)
  moreover have "ETH_TYPE_ARP \<noteq> ETH_TYPE_IP4" "FF_DATA \<noteq> FF_CONTROL" "DIR_DOWN \<noteq> DIR_UP"
    by (simp_all add: ETH_TYPE_ARP_def ETH_TYPE_IP4_def FF_defs DIR_UP_def DIR_DOWN_def)
  ultimately show ?thesis using ms(1) f(2) has_read [OF ms(2,3)] read_u64 [OF ms(2,4)] read_u64 [OF ms(2,5)] inject_or_exit_ok [OF f(1) assms(1)]
    by (simp add: interface_dispatch_def interface_out_fdf_def interface_out_arp_def)
qed

lemma out_frame_dispatch:
  assumes "out_frame f ifx si di"
  shows "interface_dispatch current m f = interface_out_ipv4 current m f"
proof -
  obtain ms where ms: "metaData f = Some ms" "meta_plain ms" "has_u32 ms ''send_ether_type'' ETH_TYPE_IP4" and f: "packet_fits f" "directionFlag (dataFrame f) = DIR_DOWN"
    using assms by (auto simp: out_frame_def split: option.splits)
  have "dataOrCtrl f = FF_DATA" using f(1) by (simp add: packet_fits_def packet_frame_def)
  moreover have "FF_DATA \<noteq> FF_CONTROL" "DIR_DOWN \<noteq> DIR_UP" by (simp_all add: FF_defs DIR_UP_def DIR_DOWN_def)
  ultimately show ?thesis using ms(1) f(2) has_read [OF ms(2,3)] by (simp add: interface_dispatch_def interface_out_fdf_def)
qed

lemma addr_reply_dispatch:
  assumes "addr_reply f"
  shows "interface_dispatch current m f = interface_exec_reply_get_addr current m f"
  using assms by (auto simp: addr_reply_def interface_dispatch_def interface_fcf_def interface_exec_reply_def Let_def CTRL_defs split: option.splits)

section \<open>Capturing\<close>

lemma mac_bytes_conversion: "mac_bytes w = MAC_addrs_conversion w"
proof -
  have "(0xff :: u64) = mask 8" by (simp add: mask_eq_exp_minus_1)
  moreover have "ucast (drop_bit k w AND mask 8) = (ucast (drop_bit k w) :: u8)" for k
    by (rule bit_word_eqI) (auto simp: bit_simps)
  ultimately show ?thesis unfolding mac_bytes_def MAC_bytes by simp
qed

lemma recv_names:
  "config_validate_name ''recv_dst_mac''" "config_validate_name ''recv_src_mac''" "config_validate_name ''recv_ether_type''"
  "config_validate_name ''recv_stamp''"
  by code_simp+

lemma capture_ok:
  assumes room: "room m xs" and t: "t = ETH_TYPE_IP4 \<or> t = ETH_TYPE_ARP" and fl: "flow_to m (capture_flow t) d"
    and mac: "unat dst_mac < 281474976710656" "unat src_mac < 281474976710656" and len: "length p + 14 \<le> 10000"
  obtains m' r ms where "capturer_to_interface current m (int (length p + 14)) (eth_frame dst_mac src_mac t p @ rest) = Inr m'"
    "sent xs m [r] m'" "destinationID r = d" "dataOrCtrl r = FF_DATA" "directionFlag (dataFrame r) = DIR_UP" "pdu (dataFrame r) = Some p"
    "pduLength (dataFrame r) = of_nat (length p)" "metaData r = Some ms" "meta_plain ms"
    "map_of ms = [''recv_dst_mac'' \<mapsto> CInt64 dst_mac, ''recv_src_mac'' \<mapsto> CInt64 src_mac, ''recv_ether_type'' \<mapsto> CInt t,
       ''recv_stamp'' \<mapsto> CInt64 (of_int (tv_sec current))]"
proof -
  let ?e = "eth_frame dst_mac src_mac t p"
  have p0: "meta_plain metadata_create" "free_u64 metadata_create ''recv_dst_mac''"
    using recv_names by (simp_all add: meta_plain_def metadata_create_def free_u64_def)
  obtain m1 where m1: "secure_metadata_writeToElement metadata_create ''recv_dst_mac'' (DInt64 dst_mac) = Inr m1" "meta_plain m1"
      "map_of m1 = (map_of metadata_create)(''recv_dst_mac'' \<mapsto> CInt64 dst_mac)" by (rule write_u64 [OF p0])
  have f1: "free_u64 m1 ''recv_src_mac''" using recv_names m1(3) by (simp add: free_u64_def metadata_create_def)
  obtain m2 where m2: "secure_metadata_writeToElement m1 ''recv_src_mac'' (DInt64 src_mac) = Inr m2" "meta_plain m2"
      "map_of m2 = (map_of m1)(''recv_src_mac'' \<mapsto> CInt64 src_mac)" by (rule write_u64 [OF m1(2) f1])
  have f2: "free_u32 m2 ''recv_ether_type''" using recv_names m1(3) m2(3) by (simp add: free_u32_def metadata_create_def)
  obtain m3 where m3: "secure_metadata_writeToElement m2 ''recv_ether_type'' (DInt32 t) = Inr m3" "meta_plain m3"
      "map_of m3 = (map_of m2)(''recv_ether_type'' \<mapsto> CInt t)" by (rule write_u32 [OF m2(2) f2])
  have f3: "free_u64 m3 ''recv_stamp''" using recv_names m1(3) m2(3) m3(3) by (simp add: free_u64_def metadata_create_def)
  obtain m4 where m4: "secure_metadata_writeToElement m3 ''recv_stamp'' (DInt64 (of_int (tv_sec current))) = Inr m4" "meta_plain m4"
      "map_of m4 = (map_of m3)(''recv_stamp'' \<mapsto> CInt64 (of_int (tv_sec current)))" by (rule write_u64 [OF m3(2) f3])
  have l: "length ?e = length p + 14" "take (length p + 14) (?e @ rest) = ?e" by (simp_all add: eth_frame_def mem16_def)
  have a: "mac_at ?e 0 = Inr dst_mac" using mac_at_mid [OF mac(1), of "[]" 0] by (simp add: eth_frame_def mac_bytes_conversion)
  have b: "mac_at ?e 6 = Inr src_mac" using mac_at_mid [OF mac(2), of "MAC_addrs_conversion dst_mac" 6] by (simp add: eth_frame_def mac_bytes_conversion)
  have ty: "ucast (ucast t :: u16) = t" using t by (auto simp: ETH_TYPE_IP4_def ETH_TYPE_ARP_def)
  let ?r = "zeroFrame\<lparr>dataOrCtrl := FF_DATA, metaData := Some m4,
      dataFrame := \<lparr>directionFlag = DIR_UP, pduLength = of_nat (length p), pdu = Some p\<rparr>\<rparr>"
  obtain m' where m': "send_or_free m ?r (capture_flow t) = Inr m'" "sent xs m [?r\<lparr>destinationID := d\<rparr>] m'" by (rule send_single [OF room fl])
  have dp: "drop SIZE_ETHERNET ?e = p" by simp
  have "capturer_to_interface current m (int (length p + 14)) (?e @ rest) = Inr m'"
    unfolding capturer_to_interface_def Let_def nat_int length_append l(1)
    using len l(2) a b eth_frame_type [of dst_mac src_mac t p] ty m1(1) m2(1) m3(1) m4(1) m'(1) dp
    by (simp add: ETH_FRAME_LEN_MAX_def SIZE_ETHERNET_def capture_flow_def) (use t in blast)
  then show thesis by (rule that [OF _ m'(2)]) (use m1(3) m2(3) m3(3) m4 in \<open>simp_all add: metadata_create_def\<close>)
qed

section \<open>Two modules answer\<close>

lemma reply_step:
  assumes "find_store (\<lambda>s. interface_store_serial_test s (serial_num (ctrlFrame f))) (io_store_list (m_data m)) = Inr (Some 0)"
    "io_store_list (m_data m) = [s]" "s' = s\<lparr>is_sent := is_sent s - 1\<rparr>"
  shows "interface_exec_reply_get_addr current m f
    = andThen (if ret_val (ctrlFrame f) = FCF_TRUE then reply_found current (put_stores (if is_sent s' = 0 then [] else [s']) m) f s'
        else reply_not_found (put_stores (if is_sent s' = 0 then [] else [s']) m) s') (free_ff f)"
  using assms by (simp add: interface_exec_reply_get_addr_def Let_def)

text \<open>A search that waits for two answers does not survive the second one.\<close>

lemma second_answer:
  assumes m: "io_store_list (m_data m) = [s]" "io_caches m = [c]" "io_writable (m_data m)"
    and s: "is_live s" "is_sent s = 2" "ic_ptr c = is_cache s" "ic_seeking c" "ic_request_list c = [r]" "ir_ptr r = is_request s" "io_req_ok r"
    and a: "dataOrCtrl a = FF_CONTROL" "serial_num (ctrlFrame a) = is_serial_num s" "ret_val (ctrlFrame a) = FCF_TRUE" "metaData a = Some ms"
      "meta_plain ms" "has_u64 ms ''dst_mac'' mac"
    and b: "serial_num (ctrlFrame b) = is_serial_num s"
  shows "\<exists>m2. interface_exec_reply_get_addr current m a = Inr m2
    \<and> io_injected (m_data m2) = io_injected (m_data m) @ [eth_frame mac (ir_src_mac r) ETH_TYPE_IP4 (payload (ir_ff r))]
    \<and> interface_exec_reply_get_addr current m2 b = Inl MemFault"
proof -
  let ?s = "s\<lparr>is_sent := is_sent s - 1\<rparr>" and ?c = "c\<lparr>ic_mac := mac, ic_seeking := False, ic_updated_stamp := current, ic_request_list := []\<rparr>"
  let ?m = "put_stores [?s] m"
  have ex: "List.extract (\<lambda>x. ic_ptr x = is_cache s) [d] = Some ([], d, [])" if "ic_ptr d = is_cache s" for d
    using that by (simp add: extract_Cons_code)
  have exr: "List.extract (\<lambda>x. ir_ptr x = is_request s) [r] = Some ([], r, [])" using s(6) by (simp add: extract_Cons_code)
  have "reply_found current ?m a ?s = inject_all mac (ir_src_mac r) (ic_request_list c) (put_caches [?c] ?m)"
    using a(4) read_u64 [OF a(5,6)] ex [OF s(3)] exr m(2) s(4,5) by (simp add: reply_found_def cache_at_def request_at_def del: inject_all.simps)
  then have rf: "reply_found current ?m a ?s = Inr (upd_io (\<lambda>d. d\<lparr>io_injected := io_injected d @ [eth_frame mac (ir_src_mac r) ETH_TYPE_IP4 (payload (ir_ff r))]\<rparr>)
      ((put_caches [?c] ?m)\<lparr>m_freed := m_freed m @ [ir_ff r]\<rparr>))"
    using inject_all_ok [of "ic_request_list c" "put_caches [?c] ?m"] s(5,7) m(3) by simp
  have f: "find_store (\<lambda>x. interface_store_serial_test x (is_serial_num s)) [t] = Inr (Some 0)" if "is_live t" "is_serial_num t = is_serial_num s" for t
    using that by (simp add: interface_store_serial_test_def)
  obtain m2 where m2: "interface_exec_reply_get_addr current m a = Inr m2" "io_store_list (m_data m2) = [?s]" "io_caches m2 = [?c]"
      "io_injected (m_data m2) = io_injected (m_data m) @ [eth_frame mac (ir_src_mac r) ETH_TYPE_IP4 (payload (ir_ff r))]"
    using reply_step [of a m s ?s current] f [of s] m(1) s(1,2) a(1-3) rf by (simp add: free_ff_ctrl)
  have "interface_exec_reply_get_addr current m2 b = Inl MemFault"
    using reply_step [of b m2 ?s "?s\<lparr>is_sent := 0\<rparr>" current] f [of ?s] m2(2,3) s(1,2,3) b ex [of ?c]
    by (simp add: reply_found_def reply_not_found_def cache_at_def request_at_def extract_Nil_code)
  with m2(1,4) show ?thesis by blast
qed

lemma send_request_twice:
  assumes "space m xs 2" "flow_to_two m INTERFACE_FLOW_ARP"
  obtains m' outs where "interface_send_request m si di serial = Inr (2, m')" "sent xs m outs m'"
proof -
  have p0: "meta_plain metadata_create" by (simp add: meta_plain_def metadata_create_def)
  have fr: "\<forall>t \<in> fst ` set [(''src_ip'', si), (''dst_ip'', di)]. free_u32 metadata_create t"
    using arp_names by (simp add: free_u32_def metadata_create_def)
  from writes_ok [OF p0 fr] obtain ms where ms: "meta_writes metadata_create [(''src_ip'', si), (''dst_ip'', di)] = Inr ms" "meta_plain ms" by blast
  let ?f = "zeroFrame\<lparr>dataOrCtrl := FF_CONTROL, metaData := Some ms,
      ctrlFrame := (ctrlFrame zeroFrame)\<lparr>sender_id := ucast (m_index m), serial_num := serial, opcode := CTRL_EXEC,
        param_id := INTERFACE_EXEC_GET_ADDR, data_len := 0, ctrl_dat := CD_NULL\<rparr>\<rparr>"
  obtain l where l: "INTERFACE_FLOW_ARP < mt_flows_num (m_table m)" "unat (mt_flows_num (m_table m)) \<le> length (mt_flows (m_table m))"
      "fl_link_id (mt_flows (m_table m) ! unat INTERFACE_FLOW_ARP) \<noteq> LINK_NULL" "fl_link (mt_flows (m_table m) ! unat INTERFACE_FLOW_ARP) = Some l"
      "lk_dsts_num l = 2" "2 \<le> length (lk_dsts_index l)"
    using assms(2) by (auto simp: flow_to_two_def split: option.splits)
  have fok: "frame_ok ?f" using ms(2) by (simp add: frame_ok_def meta_plain_def ctrl_data_ok_def)
  have q: "queue_rep (m_output_queue m) xs" "length xs + unat (lk_dsts_num l) \<le> queue_cap (m_output_queue m)" using assms(1) l(5) by (simp_all add: space_def)
  have n: "lk_dsts_num l \<noteq> 0" "unat (lk_dsts_num l) \<le> length (lk_dsts_index l)" using l(5,6) by simp_all
  from send_flow_ok [OF q disjI2 [OF fok] l(1-4) n] obtain m' outs where "module_send_flow m ?f INTERFACE_FLOW_ARP = Inr (2, m')" "sent xs m outs m'" using l(5) by auto
  then show thesis using that ms(1) by (simp add: interface_send_request_def Let_def)
qed

section \<open>The theorems\<close>

text \<open>
  C5: the interface never follows a dangling pointer and loses no packet that waits. When its flows to ARP and ICMP have one
  destination each, serving a packet to send, an ARP frame to send or an answer of ARP returns, and keeps the invariant that
  each pending search owns one seeking cache and one of its requests. The packets that then wait, were injected, were reported
  to ICMP or were dropped are those that waited before and the new one; only the new packet can be dropped, and only when
  it names no interface or a list of the module is full.
\<close>

theorem interface_packets_conserved:
  assumes "io_ok m" "io_linked m" "io_writable (m_data m)" "space m xs (1 + size (io_waiting (io_caches m)))" "io_event_ok m e"
  shows "\<exists>m' outs ws dropped. interface_dispatch current m (io_frame e) = Inr m' \<and> io_ok m' \<and> io_linked m'
    \<and> queue_rep (m_output_queue m') (xs @ outs) \<and> io_injected (m_data m') = io_injected (m_data m) @ ws
    \<and> dropped \<subseteq># new_packets e
    \<and> (dropped \<noteq> {#} \<longrightarrow> io_full m \<or> (\<exists>ifx. has_u32 (the (metaData (io_frame e))) ''send_if_index'' ifx \<and> no_interface m ifx))
    \<and> io_waiting (io_caches m') + injected_ipv4 ws + reported outs + dropped = io_waiting (io_caches m) + new_packets e"
proof -
  obtain da di where fl: "flow_to m INTERFACE_FLOW_ARP da" "flow_to m INTERFACE_FLOW_ICMP di" using assms(2) by (auto simp: io_linked_def)
  have sp: "room m xs" "space m xs (size (io_waiting (io_caches m)))" "queue_rep (m_output_queue m) xs"
    using assms(4) space_room [OF assms(4)] by (simp_all add: space_def)
  let ?P = "io_full m \<or> (\<exists>ifx. has_u32 (the (metaData (io_frame e))) ''send_if_index'' ifx \<and> no_interface m ifx)"
  have "\<exists>m'. interface_dispatch current m (io_frame e) = Inr m' \<and> io_handled xs m (new_packets e) ?P m'"
  proof (cases e)
    case (IoPacket f)
    then obtain ifx si dst where f: "out_frame f ifx si dst" and n: "fst (next_serial m) \<notin> is_serial_num ` set (io_store_list (m_data m))"
      using assms(5) by auto
    have h: "has_u32 (the (metaData f)) ''send_if_index'' ifx" using f by (auto simp: out_frame_def split: option.splits)
    from out_ipv4_handled [OF assms(1) sp(1) fl(1) assms(3) f n] obtain m' where
      m': "interface_out_ipv4 current m f = Inr m'" "io_handled xs m {#payload f#} (io_full m \<or> no_interface m ifx) m'" by blast
    then have "io_handled xs m {#payload f#} ?P m'" using h IoPacket unfolding io_handled_def by fastforce
    then show ?thesis using m'(1) IoPacket out_frame_dispatch [OF f] by simp
  next
    case (IoArp f)
    then obtain d s where f: "arp_out_frame f d s" using assms(5) by auto
    let ?w = "eth_frame d s ETH_TYPE_ARP (payload f)"
    have "io_handled xs m {#} ?P (upd_io (\<lambda>d. d\<lparr>io_injected := io_injected d @ [?w]\<rparr>) (m\<lparr>m_freed := m_freed m @ [f]\<rparr>))"
      unfolding io_handled_def using assms(1) sp(3)
      by (intro conjI exI [of _ "[]"] exI [of _ "[?w]"] exI [of _ "{#}"]) (simp_all add: io_ok_def io_moved_def)
    then show ?thesis using out_arp_ok [OF assms(3) f] IoArp by simp
  next
    case (IoReply f)
    then have f: "addr_reply f" using assms(5) by simp
    from addr_reply_handled [OF assms(1) sp(2) fl(2) assms(3) f] obtain m' where
      m': "interface_exec_reply_get_addr current m f = Inr m'" "io_handled xs m {#} False m'" by blast
    then have "io_handled xs m {#} ?P m'" unfolding io_handled_def by blast
    then show ?thesis using m'(1) IoReply addr_reply_dispatch [OF f] by simp
  qed
  then obtain m' outs ws dropped where h: "interface_dispatch current m (io_frame e) = Inr m'" "io_ok m'" "io_moved xs m outs ws m'"
      "dropped \<subseteq># new_packets e" "dropped \<noteq> {#} \<longrightarrow> ?P"
      "io_waiting (io_caches m') + injected_ipv4 ws + reported outs + dropped = io_waiting (io_caches m) + new_packets e"
    unfolding io_handled_def by blast
  have "io_linked m'" using assms(2) h(3) by (simp add: io_linked_def io_moved_def flow_to_def)
  then show ?thesis using h by (intro exI [of _ m'] exI [of _ outs] exI [of _ ws] exI [of _ dropped]) (simp add: io_moved_def)
qed


lemma ex_io_ready: "io_ok (ex_io n mac)" "io_linked (ex_io 1 mac)" "space (ex_io n mac) [] 10" "flow_to (ex_io n mac) INTERFACE_FLOW_IPV4 4"
  "flow_to (ex_io 1 mac) INTERFACE_FLOW_ARP 6" "flow_to_two (ex_io 2 mac) INTERFACE_FLOW_ARP"
proof -
  show fl: "flow_to (ex_io n mac) INTERFACE_FLOW_IPV4 4" "flow_to (ex_io 1 mac) INTERFACE_FLOW_ARP 6"
    by (simp_all add: flow_to_def ex_io_def ex_flow_def INTERFACE_FLOW_ARP_def INTERFACE_FLOW_IPV4_def LINK_NULL_def)
  have "flow_to (ex_io 1 mac) INTERFACE_FLOW_ICMP 5" by (simp add: flow_to_def ex_io_def ex_flow_def INTERFACE_FLOW_ICMP_def LINK_NULL_def)
  then show "io_linked (ex_io 1 mac)" using fl(2) by (auto simp: io_linked_def)
  show "io_ok (ex_io n mac)" by (simp add: io_ok_def io_state_ok_def io_caches_ok_def io_stores_ok_def ex_io_def)
  have q: "m_output_queue (ex_io n mac) = CreateQueue 20" by (simp add: ex_io_def)
  show "space (ex_io n mac) [] 10" unfolding space_def q by (simp add: CreateQueue_rep) (simp add: queue_cap_def CreateQueue_def MakeEmpty_def)
  show "flow_to_two (ex_io 2 mac) INTERFACE_FLOW_ARP"
    by (simp add: flow_to_two_def ex_io_def ex_flow_def INTERFACE_FLOW_ARP_def LINK_NULL_def)
qed

lemma send_names:
  "config_validate_name ''send_if_index''" "config_validate_name ''send_src_ipv4''" "config_validate_name ''send_dst_ipv4''"
  by code_simp+

lemma ex_packet_frame: "out_frame ex_packet 3 1 2" "payload ex_packet = [7, 8, 9]"
  using arp_names send_names
  by (simp_all add: out_frame_def ex_packet_def packet_fits_def packet_frame_def payload_def meta_plain_def has_u32_def plain_def SIZE_ETHERNET_def)

theorem interface_packets_conserved_witness:
  "\<exists>m' outs ws dropped. interface_dispatch \<lparr>tv_sec = 0, tv_usec = 0\<rparr> (ex_io 1 0xAA) ex_packet = Inr m' \<and> io_ok m' \<and> io_linked m'
    \<and> queue_rep (m_output_queue m') outs \<and> io_injected (m_data m') = ws \<and> dropped \<subseteq># {#[7, 8, 9]#}
    \<and> io_waiting (io_caches m') + injected_ipv4 ws + reported outs + dropped = {#[7, 8, 9]#}"
proof -
  have sp: "space (ex_io 1 0xAA) [] (1 + size (io_waiting (io_caches (ex_io 1 0xAA))))"
    using ex_io_ready(3) [of 1 "0xAA"] by (simp add: space_def) (simp add: ex_io_def)
  have w: "io_writable (m_data (ex_io 1 0xAA))" by (simp add: ex_io_def)
  have ev: "io_event_ok (ex_io 1 0xAA) (IoPacket ex_packet)" using ex_packet_frame(1) by (auto simp: ex_io_def)
  have e: "io_injected (m_data (ex_io 1 0xAA)) = []" "io_waiting (io_caches (ex_io 1 0xAA)) = {#}" by (simp_all add: ex_io_def)
  show ?thesis using interface_packets_conserved [OF ex_io_ready(1,2) w sp ev, of "\<lparr>tv_sec = 0, tv_usec = 0\<rparr>"] ex_packet_frame(2)
    unfolding e by (elim exE conjE) (intro exI conjI, simp_all)
qed

text \<open>
  C30: a packet survives the network, if it is not too long. The bytes one host injects for a packet, with 48 bit hardware
  addresses, are captured by another host: when the frame has at most 10000 bytes the packet goes up to IPv4 or ARP unchanged,
  with both hardware addresses and the type in its metadata. A longer frame, which the sender injects all the same, overflows
  the buffer of the receiver, because its length is compared with the size of the buffer only after it was read.
\<close>

theorem interface_wire_roundtrip:
  assumes "packet_fits f" "io_writable (m_data m)" "t = ETH_TYPE_IP4 \<or> t = ETH_TYPE_ARP"
    "unat dst_mac < 281474976710656" "unat src_mac < 281474976710656" "room k xs" "flow_to k (capture_flow t) d"
  shows "\<exists>m' w. interface_inject_pdu m (pduLength (dataFrame f)) (pdu (dataFrame f)) dst_mac src_mac t = Inr (True, m')
    \<and> io_injected (m_data m') = io_injected (m_data m) @ [w] \<and> length w = length (payload f) + 14
    \<and> (length w \<le> 10000 \<longrightarrow> (\<exists>k' r. capturer_to_interface current k (int (length w)) (w @ rest) = Inr k' \<and> sent xs k [r] k'
         \<and> destinationID r = d \<and> dataOrCtrl r = FF_DATA \<and> directionFlag (dataFrame r) = DIR_UP \<and> payload r = payload f
         \<and> has_u64 (the (metaData r)) ''recv_dst_mac'' dst_mac \<and> has_u64 (the (metaData r)) ''recv_src_mac'' src_mac
         \<and> has_u32 (the (metaData r)) ''recv_ether_type'' t))
    \<and> (10000 < length w \<longrightarrow> capturer_to_interface current k (int (length w)) (w @ rest) = Inl MemFault)"
proof -
  let ?w = "eth_frame dst_mac src_mac t (payload f)"
  have l: "length ?w = length (payload f) + 14" by (simp add: eth_frame_def mem16_def)
  have good: "\<exists>k' r. capturer_to_interface current k (int (length ?w)) (?w @ rest) = Inr k' \<and> sent xs k [r] k'
         \<and> destinationID r = d \<and> dataOrCtrl r = FF_DATA \<and> directionFlag (dataFrame r) = DIR_UP \<and> payload r = payload f
         \<and> has_u64 (the (metaData r)) ''recv_dst_mac'' dst_mac \<and> has_u64 (the (metaData r)) ''recv_src_mac'' src_mac
         \<and> has_u32 (the (metaData r)) ''recv_ether_type'' t" if len: "length ?w \<le> 10000"
  proof -
    have len': "length (payload f) + 14 \<le> 10000" using len l by simp
    obtain k' r ms where c: "capturer_to_interface current k (int (length (payload f) + 14)) (?w @ rest) = Inr k'" "sent xs k [r] k'"
        "destinationID r = d" "dataOrCtrl r = FF_DATA" "directionFlag (dataFrame r) = DIR_UP" "pdu (dataFrame r) = Some (payload f)"
        "pduLength (dataFrame r) = of_nat (length (payload f))" "metaData r = Some ms" "meta_plain ms"
        "map_of ms = [''recv_dst_mac'' \<mapsto> CInt64 dst_mac, ''recv_src_mac'' \<mapsto> CInt64 src_mac, ''recv_ether_type'' \<mapsto> CInt t,
          ''recv_stamp'' \<mapsto> CInt64 (of_int (tv_sec current))]"
      by (rule capture_ok [OF assms(6,3,7,4,5) len'])
    then show ?thesis unfolding l using recv_names by (intro exI [of _ k'] exI [of _ r]) (simp add: payload_def has_u64_def has_u32_def)
  qed
  have bad: "capturer_to_interface current k (int (length ?w)) (?w @ rest) = Inl MemFault" if "10000 < length ?w"
    using that by (simp add: capturer_to_interface_def ETH_FRAME_LEN_MAX_def)
  let ?m = "upd_io (\<lambda>d. d\<lparr>io_injected := io_injected d @ [?w]\<rparr>) m"
  show ?thesis using inject_ok [OF assms(1-3)] good bad l by (intro exI [of _ ?m] exI [of _ ?w]) (simp del: of_nat_add)
qed

theorem interface_wire_roundtrip_witness:
  "\<exists>m' w k' r. interface_inject_pdu (ex_io 1 0xAA) 3 (Some [7, 8, 9]) 0xBB 0xAA ETH_TYPE_IP4 = Inr (True, m')
    \<and> io_injected (m_data m') = [w] \<and> length w = 17 \<and> capturer_to_interface \<lparr>tv_sec = 0, tv_usec = 0\<rparr> (ex_io 1 0xBB) 17 w = Inr k'
    \<and> queue_rep (m_output_queue k') [r] \<and> destinationID r = 4 \<and> payload r = [7, 8, 9] \<and> has_u64 (the (metaData r)) ''recv_src_mac'' 0xAA"
proof -
  have f: "packet_fits ex_packet" using ex_packet_frame(1) by (simp add: out_frame_def)
  have w: "io_writable (m_data (ex_io 1 0xAA))" by (simp add: ex_io_def)
  have fl: "flow_to (ex_io 1 0xBB) (capture_flow ETH_TYPE_IP4) 4" using ex_io_ready(4) by (simp add: capture_flow_def)
  have rm: "room (ex_io 1 0xBB) []" using space_room [OF ex_io_ready(3)] by simp
  have e: "pduLength (dataFrame ex_packet) = 3" "pdu (dataFrame ex_packet) = Some [7, 8, 9]" "io_injected (m_data (ex_io 1 0xAA)) = []"
    by (simp_all add: ex_packet_def ex_io_def)
  have s: "sent [] k [r] k' \<Longrightarrow> queue_rep (m_output_queue k') [r]" for k r and k' :: interface_module by (simp add: sent_def)
  have u: "unat (0xBB :: u64) < 281474976710656" "unat (0xAA :: u64) < 281474976710656" by simp_all
  obtain m' w k' r where x: "interface_inject_pdu (ex_io 1 0xAA) 3 (Some [7, 8, 9]) 0xBB 0xAA ETH_TYPE_IP4 = Inr (True, m')"
      "io_injected (m_data m') = [w]" "length w = 17" "capturer_to_interface \<lparr>tv_sec = 0, tv_usec = 0\<rparr> (ex_io 1 0xBB) (int (length w)) w = Inr k'"
      "sent [] (ex_io 1 0xBB) [r] k'" "destinationID r = 4" "payload r = [7, 8, 9]" "has_u64 (the (metaData r)) ''recv_src_mac'' 0xAA"
    using interface_wire_roundtrip [OF f w disjI1 [OF refl] u rm fl, of "\<lparr>tv_sec = 0, tv_usec = 0\<rparr>" "[]"] unfolding e ex_packet_frame(2) by auto
  then show ?thesis using s [OF x(5)] by (intro exI [of _ m'] exI [of _ w] exI [of _ k'] exI [of _ r]) simp
qed


text \<open>
  C31: a second answer makes the interface use freed memory. When its flow to ARP has two destinations, both modules answer
  the request for an unknown next hop. The first answer that brings the address injects the waiting packet and frees its
  request, but the search keeps its pointer to the request and waits for the other answer, which then reads the freed
  request, whether it brings an address or not.
\<close>

theorem interface_second_answer_faults:
  assumes "space m xs 2" "flow_to_two m INTERFACE_FLOW_ARP" "io_writable (m_data m)" "out_frame f ifx si di"
    "find (\<lambda>i. ifr_index_test i ifx) (io_if_list (m_data m)) = Some ifr"
    "io_caches m = []" "io_store_list (m_data m) = []" "0 < io_store_max (m_data m)" "0 < io_cache_max (m_data m)"
    "addr_reply a" "ret_val (ctrlFrame a) = FCF_TRUE" "serial_num (ctrlFrame a) = fst (next_serial m)"
    "addr_reply b" "serial_num (ctrlFrame b) = fst (next_serial m)"
  shows "\<exists>m1 m2. interface_dispatch current m f = Inr m1 \<and> interface_dispatch current m1 a = Inr m2
    \<and> io_injected (m_data m2) = io_injected (m_data m) @ [eth_frame (the_mac a) (if_mac ifr) ETH_TYPE_IP4 (payload f)]
    \<and> interface_dispatch current m2 b = Inl MemFault"
proof -
  obtain ms where ms: "metaData f = Some ms" "meta_plain ms" "has_u32 ms ''send_if_index'' ifx" "has_u32 ms ''send_src_ipv4'' si"
      "has_u32 ms ''send_dst_ipv4'' di" "packet_fits f" using assms(4) by (auto simp: out_frame_def split: option.splits)
  obtain msa mac where a: "metaData a = Some msa" "meta_plain msa" "has_u64 msa ''dst_mac'' mac" "dataOrCtrl a = FF_CONTROL"
    using assms(10,11) by (auto simp: addr_reply_def split: option.splits)
  have mac: "the_mac a = mac" using a(1-3) read_u64 [OF a(2,3)] by (simp add: the_mac_def)
  obtain serial m0 where n: "next_serial m = (serial, m0)" by fastforce
  obtain k where m0: "m0 = upd_io (\<lambda>d. d\<lparr>io_serial := k\<rparr>) m" using n by (auto simp: next_serial_def split: prod.splits)
  have "space m0 xs 2" "flow_to_two m0 INTERFACE_FLOW_ARP" using assms(1,2) m0 by (simp_all add: flow_to_two_def)
  then obtain m' outs where m': "interface_send_request m0 si di serial = Inr (2, m')" "sent xs m0 outs m'" by (rule send_request_twice)
  have d: "m_data m' = (m_data m)\<lparr>io_serial := k\<rparr>" using sent_fields(3) [OF m'(2)] m0 by simp
  let ?brk = "io_brk (m_data m)"
  let ?r = "\<lparr>ir_ptr = Suc ?brk, ir_src_ip = \<lparr>sin_family = of_nat AF_INET, sin_port = 0, sin_addr = si\<rparr>, ir_src_mac = if_mac ifr, ir_ff = f\<rparr>"
  let ?c = "\<lparr>ic_ptr = ?brk, ic_ip = \<lparr>sin_family = of_nat AF_INET, sin_port = 0, sin_addr = di\<rparr>, ic_mac = 0, ic_request_list = [?r],
      ic_request_max = INTERFACE_REQUEST_LIST_MAX, ic_seeking = True, ic_updated_stamp = current\<rparr>"
  let ?s = "\<lambda>k. interface_store_create serial k ?brk (Suc ?brk)"
  let ?m1 = "put_stores [?s 2] (put_caches [?c] (upd_io (\<lambda>d. d\<lparr>io_brk := Suc (Suc (io_brk d))\<rparr>) m'))"
  have run: "interface_out_ipv4 current m f = Inr ?m1"
    using ms(1) has_read [OF ms(2,3)] has_read [OF ms(2,4)] has_read [OF ms(2,5)] assms(5-9) n m'(1) d
    by (simp add: interface_out_ipv4_def extract_Nil_code out_ipv4_new_def new_request_eq io_add_request_def addr4_set_ip_def Let_def)
  have 1: "interface_dispatch current m f = Inr ?m1" using run out_frame_dispatch [OF assms(4)] by simp
  have req: "io_req_ok ?r" using ms(6) by (simp add: io_req_ok_def)
  have sa: "serial_num (ctrlFrame a) = is_serial_num (?s 2)" "serial_num (ctrlFrame b) = is_serial_num (?s 2)"
    using assms(12,14) n by (simp_all add: interface_store_create_def)
  have "\<exists>m2. interface_exec_reply_get_addr current ?m1 a = Inr m2
    \<and> io_injected (m_data m2) = io_injected (m_data ?m1) @ [eth_frame mac (ir_src_mac ?r) ETH_TYPE_IP4 (payload (ir_ff ?r))]
    \<and> interface_exec_reply_get_addr current m2 b = Inl MemFault"
    by (rule second_answer [of ?m1 "?s 2" ?c ?r a msa mac b, OF _ _ _ _ _ _ _ _ _ req a(4) sa(1) assms(11) a(1-3) sa(2)])
      (use assms(3) d in \<open>simp_all add: interface_store_create_def\<close>)
  then obtain m2 where m2: "interface_exec_reply_get_addr current ?m1 a = Inr m2"
      "io_injected (m_data m2) = io_injected (m_data m) @ [eth_frame mac (if_mac ifr) ETH_TYPE_IP4 (payload f)]"
      "interface_exec_reply_get_addr current m2 b = Inl MemFault" using d by auto
  show ?thesis using 1 m2 mac addr_reply_dispatch [OF assms(10)] addr_reply_dispatch [OF assms(13)]
    by (intro exI [of _ ?m1] exI [of _ m2]) simp
qed

theorem interface_second_answer_faults_witness:
  "\<exists>m1 m2. interface_dispatch \<lparr>tv_sec = 0, tv_usec = 0\<rparr> (ex_io 2 0xAA) ex_packet = Inr m1
    \<and> interface_dispatch \<lparr>tv_sec = 0, tv_usec = 0\<rparr> m1 ex_answer = Inr m2
    \<and> io_injected (m_data m2) = [eth_frame 0xBB 0xAA ETH_TYPE_IP4 [7, 8, 9]]
    \<and> interface_dispatch \<lparr>tv_sec = 0, tv_usec = 0\<rparr> m2 ex_answer = Inl MemFault"
proof -
  have sp: "space (ex_io 2 0xAA) [] 2" using ex_io_ready(3) [of 2 "0xAA"] by (simp add: space_def)
  have h: "has_u64 [(''dst_mac'', CInt64 0xBB)] ''dst_mac'' 0xBB" "meta_plain [(''dst_mac'', CInt64 0xBB)]"
    using arp_names by (simp_all add: has_u64_def meta_plain_def plain_def)
  have a: "addr_reply ex_answer" "ret_val (ctrlFrame ex_answer) = FCF_TRUE" "serial_num (ctrlFrame ex_answer) = fst (next_serial (ex_io 2 0xAA))"
      "the_mac ex_answer = 0xBB"
    using h read_u64 [OF h(2,1)] by (auto simp: addr_reply_def ex_answer_def next_serial_def gen_control_serial_num_def ex_io_def the_mac_def)
  have i: "find (\<lambda>i. ifr_index_test i 3) (io_if_list (m_data (ex_io 2 0xAA))) = Some (hd (io_if_list (m_data (ex_io 2 0xAA))))"
    by (simp add: ex_io_def ifr_index_test_def)
  have e: "io_writable (m_data (ex_io 2 0xAA))" "io_caches (ex_io 2 0xAA) = []" "io_store_list (m_data (ex_io 2 0xAA)) = []"
      "0 < io_store_max (m_data (ex_io 2 0xAA))" "0 < io_cache_max (m_data (ex_io 2 0xAA))" "io_injected (m_data (ex_io 2 0xAA)) = []"
      "if_mac (hd (io_if_list (m_data (ex_io 2 0xAA)))) = 0xAA"
    by (simp_all add: ex_io_def)
  show ?thesis using interface_second_answer_faults [OF sp ex_io_ready(6) e(1) ex_packet_frame(1) i e(2-5) a(1-3) a(1,3)]
    unfolding e(6,7) a(4) ex_packet_frame(2) by simp
qed

end
