(* ===== verification/Link_Layer.thy ===== *)
theory Link_Layer
  imports Interface_Module
begin

text \<open>
  The interface and ARP modules of two hosts that share a network: how a packet for an unknown neighbour gets through. The
  frames go from module to module as the switch hands them over, and from host to host as the bytes that one interface
  injects and the other captures.
\<close>

section \<open>Two hosts\<close>

text \<open>
  What both hosts need: links, space in their queues and lists, and 48 bit hardware addresses. The asking host has no cache for
  the neighbour; the neighbour has its address.
\<close>

definition asks :: "interface_module \<Rightarrow> arp_module \<Rightarrow> u32 \<Rightarrow> u32 \<Rightarrow> if_record \<Rightarrow> if_record \<Rightarrow> u32 \<Rightarrow> bool" where
  "asks n a ifx si ifr ra di \<longleftrightarrow> io_ok n \<and> io_writable (m_data n) \<and> (\<exists>d. flow_to n INTERFACE_FLOW_ARP d)
     \<and> find (\<lambda>i. ifr_index_test i ifx) (io_if_list (m_data n)) = Some ifr \<and> di \<notin> (\<lambda>c. addr4_get_ip (ic_ip c)) ` set (io_caches n)
     \<and> length (io_caches n) < io_cache_max (m_data n) \<and> length (io_store_list (m_data n)) < io_store_max (m_data n)
     \<and> fst (next_serial n) \<notin> is_serial_num ` set (io_store_list (m_data n))
     \<and> (\<exists>e. flow_to a ARP_FLOW_INTERFACE e) \<and> find (\<lambda>i. ifr_ipv4_test i si) (ar_if_list (m_data a)) = Some ra
     \<and> di \<notin> ac_ip ` set (ar_cache_list (m_data a)) \<and> length (ar_cache_list (m_data a)) < ar_cache_max (m_data a)
     \<and> if_mac ra \<noteq> 0 \<and> unat (if_mac ra) < 281474976710656 \<and> unat (if_mac ifr) < 281474976710656 \<and> si \<noteq> 0 \<and> di \<noteq> 0"

definition owns :: "interface_module \<Rightarrow> arp_module \<Rightarrow> u32 \<Rightarrow> if_record \<Rightarrow> bool" where
  "owns n a di rb \<longleftrightarrow> io_writable (m_data n) \<and> (\<exists>d. flow_to n INTERFACE_FLOW_ARP d) \<and> (\<exists>e. flow_to a ARP_FLOW_INTERFACE e)
     \<and> find (\<lambda>i. ifr_ipv4_test i di) (ar_if_list (m_data a)) = Some rb \<and> if_mac rb \<noteq> 0 \<and> unat (if_mac rb) < 281474976710656"

text \<open>The frame is captured whole and at once.\<close>

definition captures :: "timeval \<Rightarrow> interface_module \<Rightarrow> byte list \<Rightarrow> interface_module res" where
  "captures current m w = capturer_to_interface current m (int (length w)) w"

text \<open>The bytes an interface injected last.\<close>

definition last_wire :: "interface_module \<Rightarrow> byte list" where
  "last_wire m = last (io_injected (m_data m))"

text \<open>
  The frames that go around when the interface \<open>n\<close> of a host, whose ARP module is \<open>a\<close>, sends \<open>f\<close> to a neighbour with the
  modules \<open>n'\<close> and \<open>a'\<close>: the interface asks ARP, which broadcasts a question; the neighbour replies; ARP answers the
  interface, which injects the packet; the neighbour captures it as \<open>r\<close>. The \<open>i\<close>-th step happens at time \<open>t i\<close>.
\<close>

definition exchange :: "(nat \<Rightarrow> timeval) \<Rightarrow> interface_module \<Rightarrow> arp_module \<Rightarrow> interface_module \<Rightarrow> arp_module \<Rightarrow> finsFrame \<Rightarrow> finsFrame \<Rightarrow> bool" where
  "exchange t n a n' a' f r \<longleftrightarrow> (\<exists>n1 q a1 p n2 n1' c1 a1' p' n2' n3 c2 a2 ans n4 n3'.
     interface_dispatch (t 1) n f = Inr n1 \<and> newest n1 q \<and> arp_dispatch (t 2) a q = Inr a1 \<and> newest a1 p
     \<and> interface_dispatch (t 3) n1 p = Inr n2 \<and> captures (t 4) n' (last_wire n2) = Inr n1' \<and> newest n1' c1
     \<and> arp_dispatch (t 5) a' c1 = Inr a1' \<and> newest a1' p' \<and> interface_dispatch (t 6) n1' p' = Inr n2'
     \<and> captures (t 7) n2 (last_wire n2') = Inr n3 \<and> newest n3 c2 \<and> arp_dispatch (t 8) a1 c2 = Inr a2 \<and> newest a2 ans
     \<and> destinationID ans = ucast (ucast (m_index n) :: u8) \<and> interface_dispatch (t 9) n3 ans = Inr n4
     \<and> captures (t 10) n2' (last_wire n4) = Inr n3' \<and> newest n3' r)"

section \<open>Single steps\<close>

lemma query_dispatch: "get_addr_frame f si di \<Longrightarrow> arp_dispatch current m f = arp_exec current m f"
  by (auto simp: get_addr_frame_def arp_query_def arp_dispatch_def arp_fcf_def CTRL_defs split: option.splits)

lemma message_dispatch:
  "dataOrCtrl f = FF_DATA \<Longrightarrow> directionFlag (dataFrame f) = DIR_UP \<Longrightarrow> metaData f = Some ms \<Longrightarrow> arp_dispatch current m f = arp_in_fdf current m f"
  by (simp add: arp_dispatch_def FF_defs)

lemma find_store_last:
  "list_all is_live (ss @ [s]) \<Longrightarrow> P s \<Longrightarrow> \<not> list_ex P ss \<Longrightarrow> find_store P (ss @ [s]) = Inr (Some (length ss))"
  by (induction ss) auto

lemma answer_reply: "dataOrCtrl f = FF_CONTROL \<Longrightarrow> addr_answer mac f \<Longrightarrow> addr_reply f"
  by (auto simp: addr_answer_def addr_reply_def INTERFACE_EXEC_GET_ADDR_def ARP_EXEC_GET_ADDR_def split: option.splits)

lemma message_out:
  assumes "arp_meta q msg" "dataOrCtrl q = FF_DATA" "pdu (dataFrame q) = Some (arp_hdr_bytes msg)" "pduLength (dataFrame q) = SIZEOF_ARP_HDR"
  shows "arp_out_frame q (am_target_MAC_addrs msg) (am_sender_MAC_addrs msg)" "payload q = arp_hdr_bytes msg"
proof -
  have ty: "ETH_TYPE_ARP = ARP_TYPE" by (simp add: ARP_TYPE_def ETH_TYPE_ARP_def)
  have "length (arp_hdr_bytes msg) = 28" by (simp add: arp_hdr_bytes_def mem16_def)
  then show "arp_out_frame q (am_target_MAC_addrs msg) (am_sender_MAC_addrs msg)" "payload q = arp_hdr_bytes msg"
    using assms ty by (auto simp: arp_meta_def arp_out_frame_def packet_fits_def packet_frame_def payload_def SIZEOF_ARP_HDR_def SIZE_ETHERNET_def
        split: option.splits)
qed

text \<open>A packet for an unknown neighbour waits, and ARP is asked.\<close>

lemma interface_starts_search:
  assumes ok: "io_ok m" and room: "room m xs" and fl: "flow_to m INTERFACE_FLOW_ARP d" and w: "io_writable (m_data m)" and f: "out_frame f ifx si di"
    and ifr: "find (\<lambda>i. ifr_index_test i ifx) (io_if_list (m_data m)) = Some ifr"
    and new: "di \<notin> (\<lambda>c. addr4_get_ip (ic_ip c)) ` set (io_caches m)"
    and len: "length (io_caches m) < io_cache_max (m_data m)" "length (io_store_list (m_data m)) < io_store_max (m_data m)"
    and fresh: "fst (next_serial m) \<notin> is_serial_num ` set (io_store_list (m_data m))"
  obtains m' q c s r where "interface_dispatch current m f = Inr m'" "io_moved xs m [q] [] m'" "destinationID q = d" "get_addr_frame q si di"
    "req_key q = (ucast (ucast (m_index m) :: u8), fst (next_serial m))" "io_ok m'" "io_caches m' = io_caches m @ [c]"
    "io_store_list (m_data m') = io_store_list (m_data m) @ [s]" "is_serial_num s = fst (next_serial m)" "is_cache s = ic_ptr c"
    "ic_request_list c = [r]" "ir_ff r = f" "ir_src_mac r = if_mac ifr"
proof -
  obtain ms where ms: "metaData f = Some ms" "meta_plain ms" "has_u32 ms ''send_if_index'' ifx" "has_u32 ms ''send_src_ipv4'' si"
      "has_u32 ms ''send_dst_ipv4'' di" using f by (auto simp: out_frame_def split: option.splits)
  obtain serial m0 where n: "next_serial m = (serial, m0)" by fastforce
  obtain k where m0: "m0 = upd_io (\<lambda>d. d\<lparr>io_serial := k\<rparr>) m" using n by (auto simp: next_serial_def split: prod.splits)
  have "room m0 xs" "flow_to m0 INTERFACE_FLOW_ARP d" using room fl m0 by simp_all
  then obtain m1 q where m1: "interface_send_request m0 si di serial = Inr (1, m1)" "sent xs m0 [q] m1" "destinationID q = d" "get_addr_frame q si di"
      "req_key q = (ucast (ucast (m_index m0) :: u8), serial)" "\<not> is_report q" by (rule interface_send_request_ok)
  have d1: "m_data m1 = (m_data m)\<lparr>io_serial := k\<rparr>" using sent_fields(3) [OF m1(2)] m0 by simp
  let ?brk = "io_brk (m_data m)"
  let ?r = "\<lparr>ir_ptr = Suc ?brk, ir_src_ip = \<lparr>sin_family = of_nat AF_INET, sin_port = 0, sin_addr = si\<rparr>, ir_src_mac = if_mac ifr, ir_ff = f\<rparr>"
  let ?c = "\<lparr>ic_ptr = ?brk, ic_ip = \<lparr>sin_family = of_nat AF_INET, sin_port = 0, sin_addr = di\<rparr>, ic_mac = 0, ic_request_list = [?r],
      ic_request_max = INTERFACE_REQUEST_LIST_MAX, ic_seeking = True, ic_updated_stamp = current\<rparr>"
  let ?s = "interface_store_create serial 1 ?brk (Suc ?brk)"
  let ?m = "put_stores (io_store_list (m_data m) @ [?s]) (put_caches (io_caches m @ [?c]) (upd_io (\<lambda>d. d\<lparr>io_brk := Suc (Suc (io_brk d))\<rparr>) m1))"
  have x: "List.extract (\<lambda>c. interface_cache_ipv4_test c di) (io_caches m) = None" using new by (auto simp: extract_None_iff interface_cache_ipv4_test_def)
  have run: "interface_out_ipv4 current m f = Inr ?m"
    using ms(1) has_read [OF ms(2,3)] has_read [OF ms(2,4)] has_read [OF ms(2,5)] ifr x len n m1(1) d1
    by (simp add: interface_out_ipv4_def out_ipv4_new_def new_request_eq io_add_request_def addr4_set_ip_def Let_def)
  have "io_ok ?m" using out_ipv4_handled [OF ok room fl w f fresh, of current] run by (auto simp: io_handled_def)
  moreover have "io_moved xs m [q] [] ?m" using sent_io_moved [OF m1(2)] m0 by (simp add: io_moved_def)
  ultimately show thesis using that [of ?m q ?c ?s ?r] run out_frame_dispatch [OF f, of current m] m1(3-5) n m0 d1
    by (simp add: interface_store_create_def)
qed

text \<open>The answer to the last search injects its packet.\<close>

lemma last_search_answered:
  assumes ok: "io_ok m" and w: "io_writable (m_data m)" and f: "dataOrCtrl f = FF_CONTROL" "addr_answer mac f"
    and m: "io_caches m = cs @ [c]" "io_store_list (m_data m) = ss @ [s]" "is_serial_num s = serial_num (ctrlFrame f)" "is_cache s = ic_ptr c"
      "ic_request_list c = [r]"
  obtains m' where "interface_dispatch current m f = Inr m'" "m_output_queue m' = m_output_queue m"
    "io_injected (m_data m') = io_injected (m_data m) @ [eth_frame mac (ir_src_mac r) ETH_TYPE_IP4 (payload (ir_ff r))]"
proof -
  obtain ms where ms: "metaData f = Some ms" "meta_plain ms" "has_u64 ms ''dst_mac'' mac" "ret_val (ctrlFrame f) = FCF_TRUE"
    using f(2) by (auto simp: addr_answer_def split: option.splits)
  have st: "io_state_ok (io_brk (m_data m)) (cs @ [c]) (ss @ [s])" using ok m(1,2) by (simp add: io_ok_def)
  have "is_serial_num s \<notin> is_serial_num ` set ss" using st by (auto simp: io_state_ok_def io_stores_ok_def)
  then have none: "\<not> list_ex (\<lambda>s. interface_store_serial_test s (serial_num (ctrlFrame f))) ss"
    using m(3) unfolding list_ex_iff interface_store_serial_test_def by (metis imageI)
  have fs: "find_store (\<lambda>s. interface_store_serial_test s (serial_num (ctrlFrame f))) (io_store_list (m_data m)) = Inr (Some (length ss))"
    unfolding m(2) by (rule find_store_last [OF live_stores [OF st] _ none]) (use m(3) in \<open>simp add: interface_store_serial_test_def\<close>)
  obtain pre c' post r' where p: "io_caches m = pre @ c' # post" "ic_ptr c' = is_cache s" "ic_seeking c'" "r' \<in> set (ic_request_list c')" "ir_ptr r' = is_request s"
    "interface_exec_reply_get_addr current m f = Inr (upd_io (\<lambda>d. d\<lparr>io_store_list := ss @ [],
        io_cache_list := pre @ c'\<lparr>ic_mac := mac, ic_seeking := False, ic_updated_stamp := current, ic_request_list := []\<rparr> # post,
        io_injected := io_injected d @ map (\<lambda>q. eth_frame mac (ir_src_mac r') ETH_TYPE_IP4 (payload (ir_ff q))) (ic_request_list c')\<rparr>)
      (m\<lparr>m_freed := m_freed m @ map ir_ff (ic_request_list c') @ [f]\<rparr>))"
    by (rule reply_injects [OF ok w f(1) ms(4,1-3) m(2) fs])
  have "c' = c"
  proof -
    have "distinct (map ic_ptr (io_caches m))" using ok by (simp only: io_ok_def io_state_ok_def io_caches_ok_def)
    moreover have "c' \<in> set (io_caches m)" unfolding p(1) by simp
    moreover have "c \<in> set (io_caches m)" unfolding m(1) by simp
    ultimately show ?thesis using p(2) m(4) by (auto simp: distinct_map dest: inj_onD)
  qed
  then have inj: "io_injected (m_data m) @ map (\<lambda>q. eth_frame mac (ir_src_mac r') ETH_TYPE_IP4 (payload (ir_ff q))) (ic_request_list c')
      = io_injected (m_data m) @ [eth_frame mac (ir_src_mac r) ETH_TYPE_IP4 (payload (ir_ff r))]" using p(4) m(5) by simp
  show thesis using that p(6) inj addr_reply_dispatch [OF answer_reply [OF f], of current m] by simp
qed


section \<open>The first packet to a neighbour\<close>

lemma eth_frame_length: "length (eth_frame d s t p) = length p + 14"
  by (simp add: eth_frame_def mem16_def)

lemma arp_captured:
  assumes "room m xs" "flow_to m INTERFACE_FLOW_ARP d" "unat dst_mac < 281474976710656" "unat src_mac < 281474976710656"
  obtains m' r ms where "captures current m (eth_frame dst_mac src_mac ETH_TYPE_ARP (arp_hdr_bytes msg)) = Inr m'" "sent xs m [r] m'" "destinationID r = d"
    "dataOrCtrl r = FF_DATA" "directionFlag (dataFrame r) = DIR_UP" "pdu (dataFrame r) = Some (arp_hdr_bytes msg)" "pduLength (dataFrame r) = SIZEOF_ARP_HDR"
    "metaData r = Some ms"
proof -
  have l: "length (arp_hdr_bytes msg) = 28" by (simp add: arp_hdr_bytes_def mem16_def)
  have fl: "flow_to m (capture_flow ETH_TYPE_ARP) d" using assms(2) by (simp add: capture_flow_def ETH_TYPE_ARP_def ETH_TYPE_IP4_def)
  have len: "length (arp_hdr_bytes msg) + 14 \<le> 10000" using l by simp
  obtain m' r ms where "capturer_to_interface current m (int (length (arp_hdr_bytes msg) + 14))
        (eth_frame dst_mac src_mac ETH_TYPE_ARP (arp_hdr_bytes msg) @ []) = Inr m'"
      "sent xs m [r] m'" "destinationID r = d" "dataOrCtrl r = FF_DATA" "directionFlag (dataFrame r) = DIR_UP"
      "pdu (dataFrame r) = Some (arp_hdr_bytes msg)" "pduLength (dataFrame r) = of_nat (length (arp_hdr_bytes msg))" "metaData r = Some ms"
    by (rule capture_ok [OF assms(1) disjI2 [OF refl] fl assms(3,4) len])
  then show thesis using that [of m' r ms] l by (simp add: captures_def eth_frame_length SIZEOF_ARP_HDR_def)
qed

lemma ipv4_captured:
  assumes "room m xs" "flow_to m INTERFACE_FLOW_IPV4 d" "unat dst_mac < 281474976710656" "unat src_mac < 281474976710656" "length p + 14 \<le> 10000"
  obtains m' r ms where "captures current m (eth_frame dst_mac src_mac ETH_TYPE_IP4 p) = Inr m'" "sent xs m [r] m'" "destinationID r = d"
    "dataOrCtrl r = FF_DATA" "directionFlag (dataFrame r) = DIR_UP" "pdu (dataFrame r) = Some p" "pduLength (dataFrame r) = of_nat (length p)"
    "metaData r = Some ms" "meta_plain ms"
    "map_of ms = [''recv_dst_mac'' \<mapsto> CInt64 dst_mac, ''recv_src_mac'' \<mapsto> CInt64 src_mac, ''recv_ether_type'' \<mapsto> CInt ETH_TYPE_IP4,
       ''recv_stamp'' \<mapsto> CInt64 (of_int (tv_sec current))]"
proof -
  have fl: "flow_to m (capture_flow ETH_TYPE_IP4) d" using assms(2) by (simp add: capture_flow_def)
  obtain m' r ms where "capturer_to_interface current m (int (length p + 14)) (eth_frame dst_mac src_mac ETH_TYPE_IP4 p @ []) = Inr m'"
    "sent xs m [r] m'" "destinationID r = d" "dataOrCtrl r = FF_DATA" "directionFlag (dataFrame r) = DIR_UP" "pdu (dataFrame r) = Some p"
    "pduLength (dataFrame r) = of_nat (length p)" "metaData r = Some ms" "meta_plain ms"
    "map_of ms = [''recv_dst_mac'' \<mapsto> CInt64 dst_mac, ''recv_src_mac'' \<mapsto> CInt64 src_mac, ''recv_ether_type'' \<mapsto> CInt ETH_TYPE_IP4,
       ''recv_stamp'' \<mapsto> CInt64 (of_int (tv_sec current))]"
    by (rule capture_ok [OF assms(1) disjI1 [OF refl] fl assms(3-5)])
  then show thesis using that [of m' r ms] by (simp add: captures_def eth_frame_length)
qed

text \<open>The search: the question of one host reaches the other, and the answer comes back to its ARP module.\<close>

lemma search_answered:
  assumes as: "asks n a ifx si ifr ra di" and ow: "owns n' a' di rb" and f: "out_frame f ifx si di"
    and sp: "space n xs 2" "space a ys 2" "space n' zs 1" "space a' vs 1"
  obtains n1 q a1 p n2 w1 n1' c1 a1' p' n2' w2 n3 c2 a2 ans c s r where
    "interface_dispatch (t 1) n f = Inr n1" "queue_rep (m_output_queue n1) (xs @ [q])"
    "arp_dispatch (t 2) a q = Inr a1" "queue_rep (m_output_queue a1) (ys @ [p])"
    "interface_dispatch (t 3) n1 p = Inr n2" "io_injected (m_data n2) = io_injected (m_data n) @ [w1]"
    "captures (t 4) n' w1 = Inr n1'" "queue_rep (m_output_queue n1') (zs @ [c1])"
    "arp_dispatch (t 5) a' c1 = Inr a1'" "queue_rep (m_output_queue a1') (vs @ [p'])"
    "interface_dispatch (t 6) n1' p' = Inr n2'" "io_injected (m_data n2') = io_injected (m_data n') @ [w2]"
    "captures (t 7) n2 w2 = Inr n3" "queue_rep (m_output_queue n3) (xs @ [q, c2])"
    "arp_dispatch (t 8) a1 c2 = Inr a2" "queue_rep (m_output_queue a2) (ys @ [p, ans])"
    "ans_key ans = (ucast (ucast (m_index n) :: u8), fst (next_serial n))" "dataOrCtrl ans = FF_CONTROL" "addr_answer (if_mac rb) ans"
    "io_ok n3" "io_writable (m_data n3)" "io_caches n3 = io_caches n @ [c]" "io_store_list (m_data n3) = io_store_list (m_data n) @ [s]"
    "is_serial_num s = fst (next_serial n)" "is_cache s = ic_ptr c" "ic_request_list c = [r]" "ir_ff r = f" "ir_src_mac r = if_mac ifr"
    "io_injected (m_data n3) = io_injected (m_data n) @ [w1]" "io_moved (zs @ [c1]) n1' [] [w2] n2'" "io_moved zs n' [c1] [] n1'"
proof -
  obtain d e where fl: "flow_to n INTERFACE_FLOW_ARP d" "flow_to a ARP_FLOW_INTERFACE e" using as by (auto simp: asks_def)
  obtain d' e' where fl': "flow_to n' INTERFACE_FLOW_ARP d'" "flow_to a' ARP_FLOW_INTERFACE e'" using ow by (auto simp: owns_def)
  have w: "io_writable (m_data n)" "io_writable (m_data n')" using as ow by (simp_all add: asks_def owns_def)
  have mac: "unat (if_mac ra) < 281474976710656" "unat (if_mac rb) < 281474976710656" "unat ARP_MAC_BROADCAST < 281474976710656"
      "if_mac ra \<noteq> 0" "if_mac rb \<noteq> 0" "si \<noteq> 0" "di \<noteq> 0"
    using as ow by (simp_all add: asks_def owns_def ARP_MAC_BROADCAST_def)
  have fa: "find (\<lambda>i. ifr_ipv4_test i si) (ar_if_list (m_data a)) = Some ra" "di \<notin> ac_ip ` set (ar_cache_list (m_data a))"
      "length (ar_cache_list (m_data a)) < ar_cache_max (m_data a)" "find (\<lambda>i. ifr_ipv4_test i di) (ar_if_list (m_data a')) = Some rb"
    using as ow by (simp_all add: asks_def owns_def)
  have rm: "room n xs" "space a ys 1" "room n' zs" using space_room [OF sp(1)] space_room [OF sp(3)] sp(2) by (simp_all add: space_def)
  obtain n1 q c s r where 1: "interface_dispatch (t 1) n f = Inr n1" "io_moved xs n [q] [] n1" "destinationID q = d" "get_addr_frame q si di"
      "req_key q = (ucast (ucast (m_index n) :: u8), fst (next_serial n))" "io_ok n1" "io_caches n1 = io_caches n @ [c]"
      "io_store_list (m_data n1) = io_store_list (m_data n) @ [s]" "is_serial_num s = fst (next_serial n)" "is_cache s = ic_ptr c"
      "ic_request_list c = [r]" "ir_ff r = f" "ir_src_mac r = if_mac ifr"
    by (rule interface_starts_search [of n xs d f ifx si di ifr "t 1"]) (use as rm(1) fl(1) f in \<open>simp_all add: asks_def\<close>)
  let ?rq = "gen_requestARP (if_mac ra) si ARP_MAC_BROADCAST di" and ?rp = "gen_replyARP (if_mac rb) di (if_mac ra) si"
  obtain a1 p g ac where 2: "arp_exec (t 2) a q = Inr a1" "moved ys a [p] a1" "destinationID p = e" "dataOrCtrl p = FF_DATA"
      "pdu (dataFrame p) = Some (arp_hdr_bytes ?rq)" "pduLength (dataFrame p) = SIZEOF_ARP_HDR"
      "ar_cache_list (m_data a1) = ar_cache_list (m_data a) @ [ac]" "ac_ip ac = di" "ac_seeking ac"
      "ac_request_list ac = [arp_request_create g (if_mac ra) si]" "arp_query g" "req_key g = req_key q"
      "ac_retries ac = 0" "ac_to_flag ac = False" "ac_timer ac = Some ARP_RETRANS_TO_DEFAULT" "ac_request_max ac = ARP_REQUEST_LIST_MAX" "arp_meta p ?rq"
    by (rule get_addr_starts [OF rm(2) fl(2) 1(4) fa(1-3)])
  have o1: "arp_out_frame p ARP_MAC_BROADCAST (if_mac ra)" "payload p = arp_hdr_bytes ?rq"
    using message_out [OF 2(17) 2(4-6)] by (simp_all add: gen_requestARP_def)
  let ?w1 = "eth_frame ARP_MAC_BROADCAST (if_mac ra) ETH_TYPE_ARP (arp_hdr_bytes ?rq)"
  obtain n2 where 3: "interface_dispatch (t 3) n1 p = Inr n2" "n2 = upd_io (\<lambda>d. d\<lparr>io_injected := io_injected d @ [?w1]\<rparr>) (n1\<lparr>m_freed := m_freed n1 @ [p]\<rparr>)"
    using out_arp_ok [OF _ o1(1), of n1 "t 3"] o1(2) w(1) 1(2) by (simp add: io_moved_def)
  obtain n1' c1 mc1 where 4: "captures (t 4) n' ?w1 = Inr n1'" "sent zs n' [c1] n1'" "destinationID c1 = d'" "dataOrCtrl c1 = FF_DATA"
      "directionFlag (dataFrame c1) = DIR_UP" "pdu (dataFrame c1) = Some (arp_hdr_bytes ?rq)" "pduLength (dataFrame c1) = SIZEOF_ARP_HDR" "metaData c1 = Some mc1"
    by (rule arp_captured [OF rm(3) fl'(1) mac(3,1)])
  obtain a1' p' where 5: "arp_in_fdf (t 5) a' c1 = Inr a1'" "moved vs a' [p'] a1'" "destinationID p' = e'" "dataOrCtrl p' = FF_DATA" "m_data a1' = m_data a'"
      "pdu (dataFrame p') = Some (arp_hdr_bytes ?rp)" "pduLength (dataFrame p') = SIZEOF_ARP_HDR" "arp_meta p' ?rp"
    by (rule arp_in_request_answered [OF sp(4) fl'(2) 4(6,7,4) mac(1,3,4,6,7) fa(4)])
  have o2: "arp_out_frame p' (if_mac ra) (if_mac rb)" "payload p' = arp_hdr_bytes ?rp"
    using message_out [OF 5(8,4,6,7)] by (simp_all add: gen_replyARP_def)
  let ?w2 = "eth_frame (if_mac ra) (if_mac rb) ETH_TYPE_ARP (arp_hdr_bytes ?rp)"
  obtain n2' where 6: "interface_dispatch (t 6) n1' p' = Inr n2'" "n2' = upd_io (\<lambda>d. d\<lparr>io_injected := io_injected d @ [?w2]\<rparr>) (n1'\<lparr>m_freed := m_freed n1' @ [p']\<rparr>)"
    using out_arp_ok [OF _ o2(1), of n1' "t 6"] o2(2) w(2) sent_fields(3) [OF 4(2)] by simp
  have "room n2 (xs @ [q])" "flow_to n2 INTERFACE_FLOW_ARP d" using sp(1) fl(1) 1(2) 3(2) by (simp_all add: io_moved_def space_def room_def flow_to_def)
  then obtain n3 c2 mc2 where 7: "captures (t 7) n2 ?w2 = Inr n3" "sent (xs @ [q]) n2 [c2] n3" "destinationID c2 = d" "dataOrCtrl c2 = FF_DATA"
      "directionFlag (dataFrame c2) = DIR_UP" "pdu (dataFrame c2) = Some (arp_hdr_bytes ?rp)" "pduLength (dataFrame c2) = SIZEOF_ARP_HDR" "metaData c2 = Some mc2"
    by (rule arp_captured [OF _ _ mac(1,2)])
  have i1: "find (\<lambda>i. ifr_ipv4_test i si) (ar_if_list (m_data a1)) = Some ra" using fa(1) 2(2) by (simp add: moved_def)
  have sp1: "space a1 (ys @ [p]) (length (ac_request_list ac))" using sp(2) 2(2,10) by (simp add: space_def moved_def)
  have ok: "list_all req_ok (ac_request_list ac)" "cache_requests ac = [req_key q]"
    using 2(10-12) by (simp_all add: req_ok_def arp_request_create_def cache_requests_def)
  obtain a2 outs ac' where 8: "arp_in_fdf (t 8) a1 c2 = Inr a2" "moved (ys @ [p]) a1 outs a2" "map ans_key outs = cache_requests ac"
      "list_all (\<lambda>r. dataOrCtrl r = FF_CONTROL \<and> addr_answer (if_mac rb) r) outs"
      "ar_cache_list (m_data a2) = ar_cache_list (m_data a) @ [ac']" "ac_ip ac' = di" "\<not> ac_seeking ac'" "ac_mac ac' = if_mac rb" "ac_updated_stamp ac' = t 8"
    by (rule arp_in_reply_answers [OF sp1 7(6,7,4) mac(2,1,5,7,6) i1 2(7,8) fa(2) 2(9) ok(1)])
  obtain ans where ans: "outs = [ans]" "ans_key ans = req_key q" using 8(3) ok(2) by auto
  have d3: "m_data n3 = (m_data n1)\<lparr>io_injected := io_injected (m_data n1) @ [?w1]\<rparr>" using sent_fields(3) [OF 7(2)] 3(2) by simp
  have n3: "io_ok n3" "io_writable (m_data n3)" using 1(2,6) d3 w(1) by (simp_all add: io_ok_def io_moved_def)
  have mv': "io_moved (zs @ [c1]) n1' [] [?w2] n2'" "io_moved zs n' [c1] [] n1'"
    using sent_io_moved [OF 4(2)] 6(2) by (simp_all add: io_moved_def)
  have inj: "io_injected (m_data n1) = io_injected (m_data n)" "io_injected (m_data n1') = io_injected (m_data n')"
    using 1(2) mv'(2) by (simp_all add: io_moved_def)
  have qs: "queue_rep (m_output_queue n1) (xs @ [q])" "queue_rep (m_output_queue a1) (ys @ [p])" "queue_rep (m_output_queue n1') (zs @ [c1])"
      "queue_rep (m_output_queue a1') (vs @ [p'])" "queue_rep (m_output_queue n3) (xs @ [q, c2])" "queue_rep (m_output_queue a2) (ys @ [p, ans])"
    using 1(2) 2(2) 4(2) 5(2) 7(2) 8(2) ans(1) by (simp_all add: io_moved_def moved_def sent_def)
  have ds: "arp_dispatch (t 2) a q = Inr a1" "arp_dispatch (t 5) a' c1 = Inr a1'" "arp_dispatch (t 8) a1 c2 = Inr a2"
    using query_dispatch [OF 1(4)] message_dispatch [OF 4(4,5,8)] message_dispatch [OF 7(4,5,8)] 2(1) 5(1) 8(1) by simp_all
  show thesis
    by (rule that [of n1 q a1 p n2 ?w1 n1' c1 a1' p' n2' ?w2 n3 c2 a2 ans c s r, OF 1(1) qs(1) ds(1) qs(2) 3(1) _ 4(1) qs(3) ds(2) qs(4) 6(1) _ 7(1) qs(5) ds(3) qs(6) _ _ _ n3])
      (use 1 3(2) 6(2) inj ans 8(4) d3 mv' in simp_all)
qed


lemma link_delivers:
  assumes as: "asks n a ifx si ifr ra di" and ow: "owns n' a' di rb" and f: "out_frame f ifx si di" and len: "length (payload f) + 14 \<le> 10000"
    and sp: "space n xs 2" "space a ys 2" "space n' zs 2" "space a' vs 1" and fl: "flow_to n' INTERFACE_FLOW_IPV4 d"
  obtains r ms where "exchange t n a n' a' f r" "destinationID r = d" "dataOrCtrl r = FF_DATA" "directionFlag (dataFrame r) = DIR_UP"
    "pdu (dataFrame r) = Some (payload f)" "pduLength (dataFrame r) = of_nat (length (payload f))" "metaData r = Some ms" "meta_plain ms"
    "map_of ms = [''recv_dst_mac'' \<mapsto> CInt64 (if_mac rb), ''recv_src_mac'' \<mapsto> CInt64 (if_mac ifr), ''recv_ether_type'' \<mapsto> CInt ETH_TYPE_IP4,
       ''recv_stamp'' \<mapsto> CInt64 (of_int (tv_sec (t 10)))]"
proof -
  have sp3: "space n' zs 1" using sp(3) by (simp add: space_def)
  obtain n1 q a1 p n2 w1 n1' c1 a1' p' n2' w2 n3 c2 a2 ans c s r where x:
    "interface_dispatch (t 1) n f = Inr n1" "queue_rep (m_output_queue n1) (xs @ [q])"
    "arp_dispatch (t 2) a q = Inr a1" "queue_rep (m_output_queue a1) (ys @ [p])"
    "interface_dispatch (t 3) n1 p = Inr n2" "io_injected (m_data n2) = io_injected (m_data n) @ [w1]"
    "captures (t 4) n' w1 = Inr n1'" "queue_rep (m_output_queue n1') (zs @ [c1])"
    "arp_dispatch (t 5) a' c1 = Inr a1'" "queue_rep (m_output_queue a1') (vs @ [p'])"
    "interface_dispatch (t 6) n1' p' = Inr n2'" "io_injected (m_data n2') = io_injected (m_data n') @ [w2]"
    "captures (t 7) n2 w2 = Inr n3" "queue_rep (m_output_queue n3) (xs @ [q, c2])"
    "arp_dispatch (t 8) a1 c2 = Inr a2" "queue_rep (m_output_queue a2) (ys @ [p, ans])"
    "ans_key ans = (ucast (ucast (m_index n) :: u8), fst (next_serial n))" "dataOrCtrl ans = FF_CONTROL" "addr_answer (if_mac rb) ans"
    "io_ok n3" "io_writable (m_data n3)" "io_caches n3 = io_caches n @ [c]" "io_store_list (m_data n3) = io_store_list (m_data n) @ [s]"
    "is_serial_num s = fst (next_serial n)" "is_cache s = ic_ptr c" "ic_request_list c = [r]" "ir_ff r = f" "ir_src_mac r = if_mac ifr"
    "io_injected (m_data n3) = io_injected (m_data n) @ [w1]" "io_moved (zs @ [c1]) n1' [] [w2] n2'" "io_moved zs n' [c1] [] n1'"
    by (rule search_answered [OF as ow f sp(1,2) sp3 sp(4), of t])
  have sn: "is_serial_num s = serial_num (ctrlFrame ans)" and dst: "destinationID ans = ucast (ucast (m_index n) :: u8)"
    using x(17,24) by (simp_all add: ans_key_def)
  obtain n4 where n4: "interface_dispatch (t 9) n3 ans = Inr n4" "m_output_queue n4 = m_output_queue n3"
      "io_injected (m_data n4) = io_injected (m_data n3) @ [eth_frame (if_mac rb) (ir_src_mac r) ETH_TYPE_IP4 (payload (ir_ff r))]"
    by (rule last_search_answered [OF x(20,21,18,19,22,23) sn x(25,26)])
  have rm: "room n2' (zs @ [c1])" "flow_to n2' INTERFACE_FLOW_IPV4 d"
    using x(30,31) sp(3) fl by (simp_all add: io_moved_def space_def room_def flow_to_def)
  have mac: "unat (if_mac rb) < 281474976710656" "unat (if_mac ifr) < 281474976710656" using as ow by (simp_all add: asks_def owns_def)
  obtain n3' r' ms where cap: "captures (t 10) n2' (eth_frame (if_mac rb) (if_mac ifr) ETH_TYPE_IP4 (payload f)) = Inr n3'"
      "sent (zs @ [c1]) n2' [r'] n3'" "destinationID r' = d"
      "dataOrCtrl r' = FF_DATA" "directionFlag (dataFrame r') = DIR_UP" "pdu (dataFrame r') = Some (payload f)" "pduLength (dataFrame r') = of_nat (length (payload f))"
      "metaData r' = Some ms" "meta_plain ms"
      "map_of ms = [''recv_dst_mac'' \<mapsto> CInt64 (if_mac rb), ''recv_src_mac'' \<mapsto> CInt64 (if_mac ifr), ''recv_ether_type'' \<mapsto> CInt ETH_TYPE_IP4,
        ''recv_stamp'' \<mapsto> CInt64 (of_int (tv_sec (t 10)))]"
    by (rule ipv4_captured [OF rm mac len])
  have w: "last_wire n2 = w1" "last_wire n2' = w2" "last_wire n4 = eth_frame (if_mac rb) (if_mac ifr) ETH_TYPE_IP4 (payload f)"
    using x(6,12,27,28) n4(3) by (simp_all add: last_wire_def)
  have q3: "queue_rep (m_output_queue n3) ((xs @ [q]) @ [c2])" "queue_rep (m_output_queue a2) ((ys @ [p]) @ [ans])"
      "queue_rep (m_output_queue n3') ((zs @ [c1]) @ [r'])" using x(14,16) cap(2) by (simp_all add: sent_def)
  have e: "captures (t 4) n' (last_wire n2) = Inr n1'" "captures (t 7) n2 (last_wire n2') = Inr n3" "captures (t 10) n2' (last_wire n4) = Inr n3'"
    using x(7,13) cap(1) w by simp_all
  note nw = newestI [OF x(2)] newestI [OF x(4)] newestI [OF x(8)] newestI [OF x(10)] newestI [OF q3(1)] newestI [OF q3(2)] newestI [OF q3(3)]
  have "exchange t n a n' a' f r'" unfolding exchange_def
    by (intro exI conjI) (rule x(1,3,5,9,11,15) n4(1) e dst nw)+
  then show thesis by (rule that [OF _ cap(3-10)])
qed

end
