(* ===== verification/Tcp_Queue.thy ===== *)
theory Tcp_Queue
  imports FINS_Prelude
begin

text \<open>
  Sequence numbers and segment queues of the TCP module, \<^verbatim>\<open>trunk/modules/tcp/tcp.c\<close>: the tests whether a segment lies in a
  window, the comparison of two segments of a window, and the queues that hold requests, data to write, sent segments and
  segments received out of order. A queue is the list of its nodes from \<^verbatim>\<open>front\<close> along \<^verbatim>\<open>next\<close>; \<^verbatim>\<open>end\<close> is its last node
  and is only used when the queue is not empty. \<open>tq_len\<close> is the stored sum of the lengths of the nodes. What a node points
  to is a parameter of the type.
\<close>

section \<open>Sequence numbers\<close>

definition tcp_in_window :: "u32 \<Rightarrow> u32 \<Rightarrow> u32 \<Rightarrow> u32 \<Rightarrow> bool" where
  "tcp_in_window seq_num seq_end win_seq_num win_seq_end =
    (if win_seq_num \<le> win_seq_end then
       (if seq_num \<le> seq_end then win_seq_num \<le> seq_num \<and> seq_end \<le> win_seq_end else False)
     else
       (if seq_num \<le> seq_end then
          (if win_seq_num \<le> seq_num then True else if seq_end \<le> win_seq_end then True else False)
        else win_seq_num \<le> seq_num \<and> seq_end \<le> win_seq_end))"

definition tcp_in_window_overlaps :: "u32 \<Rightarrow> u32 \<Rightarrow> u32 \<Rightarrow> u32 \<Rightarrow> bool" where
  "tcp_in_window_overlaps seq_num seq_end win_seq_num win_seq_end =
    (if seq_num = seq_end then
       (if win_seq_num = win_seq_end then win_seq_num = seq_num
        else if win_seq_num \<le> win_seq_end then win_seq_num \<le> seq_num \<and> seq_num \<le> win_seq_end
        else if win_seq_num \<le> seq_num then True
        else if seq_num \<le> win_seq_end then True
        else False)
     else
       (if win_seq_num = win_seq_end then False
        else if win_seq_num \<le> win_seq_end then
          (if seq_num \<le> seq_end then
             (if win_seq_num \<le> seq_num \<and> seq_num \<le> win_seq_end then True
              else if win_seq_num \<le> seq_end \<and> seq_end \<le> win_seq_end then True
              else False)
           else
             (if win_seq_num \<le> seq_num \<and> seq_num \<le> win_seq_end then True
              else if win_seq_num \<le> seq_end \<and> seq_end \<le> win_seq_end then True
              else False))
        else
          (if seq_num \<le> seq_end then
             (if win_seq_num \<le> seq_num then True
              else if win_seq_num \<le> seq_end then True
              else if seq_end \<le> win_seq_end then True
              else False)
           else
             (if win_seq_num \<le> seq_num then True
              else if seq_end \<le> win_seq_end then True
              else False))))"

section \<open>Nodes\<close>

record 'a tcp_node =
  tn_data :: 'a
  tn_len :: u32
  tn_seq_num :: u32
  tn_seq_end :: u32

definition tcp_node_create :: "'a \<Rightarrow> u32 \<Rightarrow> u32 \<Rightarrow> u32 \<Rightarrow> 'a tcp_node" where
  "tcp_node_create data len seq_num seq_end =
    \<lparr>tn_data = data, tn_len = len, tn_seq_num = seq_num, tn_seq_end = seq_end\<rparr>"

text \<open>The tests are those of the code, in its order; \<^verbatim>\<open>win_seq_end\<close> is not used.\<close>

definition tcp_node_compare :: "'a tcp_node \<Rightarrow> 'a tcp_node \<Rightarrow> u32 \<Rightarrow> u32 \<Rightarrow> int" where
  "tcp_node_compare node cmp win_seq_num win_seq_end =
    (if win_seq_num \<le> tn_seq_num node then
       (if win_seq_num \<le> tn_seq_end node then
          (if win_seq_num \<le> tn_seq_num cmp then
             (if win_seq_num \<le> tn_seq_end cmp then
                (if tn_seq_num node < tn_seq_num cmp then
                   (if tn_seq_end node \<le> tn_seq_num cmp then - 1 else 0)
                 else if tn_seq_num node = tn_seq_num cmp then 0
                 else (if tn_seq_end cmp \<le> tn_seq_num node then 1 else 0))
              else
                (if tn_seq_num node < tn_seq_num cmp then
                   (if tn_seq_end node \<le> tn_seq_num cmp then - 1 else 0)
                 else 0))
           else - 1)
        else
          (if win_seq_num \<le> tn_seq_num cmp then
             (if tn_seq_num node \<le> tn_seq_num cmp then 0
              else (if tn_seq_end cmp \<le> tn_seq_num node then 1 else 0))
           else (if tn_seq_end node \<le> tn_seq_num cmp then - 1 else 0)))
     else
       (if win_seq_num \<le> tn_seq_num cmp then
          (if win_seq_num \<le> tn_seq_end cmp then 1
           else (if tn_seq_end cmp \<le> tn_seq_num node then 1 else 0))
        else
          (if tn_seq_num node < tn_seq_num cmp then
             (if tn_seq_end node \<le> tn_seq_num cmp then - 1 else 0)
           else if tn_seq_num node = tn_seq_num cmp then 0
           else (if tn_seq_end cmp \<le> tn_seq_num node then 1 else 0))))"

section \<open>Queues\<close>

record 'a tcp_queue =
  tq_max :: u32
  tq_len :: u32
  tq_nodes :: "'a tcp_node list"

definition tcp_queue_create :: "u32 \<Rightarrow> 'a tcp_queue" where
  "tcp_queue_create mx = \<lparr>tq_max = mx, tq_len = 0, tq_nodes = []\<rparr>"

definition tcp_queue_is_empty :: "'a tcp_queue \<Rightarrow> bool" where
  "tcp_queue_is_empty queue \<longleftrightarrow> tq_nodes queue = []"

definition tcp_queue_is_full :: "'a tcp_queue \<Rightarrow> bool" where
  "tcp_queue_is_full queue \<longleftrightarrow> tq_len queue = tq_max queue"

definition tcp_queue_has_space :: "'a tcp_queue \<Rightarrow> u32 \<Rightarrow> bool" where
  "tcp_queue_has_space queue len \<longleftrightarrow> tq_len queue + len \<le> tq_max queue"

definition tcp_queue_append :: "'a tcp_queue \<Rightarrow> 'a tcp_node \<Rightarrow> 'a tcp_queue" where
  "tcp_queue_append queue node =
    queue\<lparr>tq_nodes := tq_nodes queue @ [node], tq_len := tq_len queue + tn_len node\<rparr>"

definition tcp_queue_prepend :: "'a tcp_queue \<Rightarrow> 'a tcp_node \<Rightarrow> 'a tcp_queue" where
  "tcp_queue_prepend queue node =
    queue\<lparr>tq_nodes := node # tq_nodes queue, tq_len := tq_len queue + tn_len node\<rparr>"

text \<open>\<open>tcp_queue_add\<close> puts the node behind the node at position \<open>i\<close>.\<close>

definition tcp_queue_add :: "'a tcp_queue \<Rightarrow> 'a tcp_node \<Rightarrow> nat \<Rightarrow> 'a tcp_queue" where
  "tcp_queue_add queue node i =
    queue\<lparr>tq_nodes := take (i + 1) (tq_nodes queue) @ node # drop (i + 1) (tq_nodes queue),
      tq_len := tq_len queue + tn_len node\<rparr>"

text \<open>The loop of \<^verbatim>\<open>tcp_queue_insert\<close>; \<open>i\<close> is the position of \<^verbatim>\<open>temp_node\<close>, \<open>xs\<close> are the nodes behind it.\<close>

fun insert_loop :: "'a tcp_queue \<Rightarrow> 'a tcp_node \<Rightarrow> u32 \<Rightarrow> u32 \<Rightarrow> nat \<Rightarrow> 'a tcp_node list \<Rightarrow> bool \<times> 'a tcp_queue" where
  "insert_loop queue node win_seq_num win_seq_end i [] = (False, queue)"
| "insert_loop queue node win_seq_num win_seq_end i (x # xs) =
    (let ret = tcp_node_compare node x win_seq_num win_seq_end in
     if ret = - 1 then (True, tcp_queue_add queue node i)
     else if ret = 0 then (False, queue)
     else insert_loop queue node win_seq_num win_seq_end (i + 1) xs)"

definition tcp_queue_insert :: "'a tcp_queue \<Rightarrow> 'a tcp_node \<Rightarrow> u32 \<Rightarrow> u32 \<Rightarrow> bool \<times> 'a tcp_queue" where
  "tcp_queue_insert queue node win_seq_num win_seq_end =
    (case tq_nodes queue of
       [] \<Rightarrow> (True, tcp_queue_prepend queue node)
     | x # xs \<Rightarrow>
       (let ret = tcp_node_compare node x win_seq_num win_seq_end in
        if ret = - 1 then (True, tcp_queue_prepend queue node)
        else if ret = 0 then (False, queue)
        else
          (let ret2 = tcp_node_compare node (last (tq_nodes queue)) win_seq_num win_seq_end in
           if ret2 = 1 then (True, tcp_queue_append queue node)
           else if ret2 = 0 then (False, queue)
           else insert_loop queue node win_seq_num win_seq_end 0 xs)))"

definition tcp_queue_find :: "'a tcp_queue \<Rightarrow> u32 \<Rightarrow> 'a tcp_node option" where
  "tcp_queue_find queue seq_num = find (\<lambda>node. tn_seq_num node = seq_num) (tq_nodes queue)"

definition tcp_queue_remove_front :: "'a tcp_queue \<Rightarrow> 'a tcp_node option \<times> 'a tcp_queue" where
  "tcp_queue_remove_front queue =
    (case tq_nodes queue of
       [] \<Rightarrow> (None, queue\<lparr>tq_len := 0\<rparr>)
     | x # xs \<Rightarrow> (Some x, queue\<lparr>tq_nodes := xs, tq_len := tq_len queue - tn_len x\<rparr>))"

text \<open>\<open>tcp_queue_remove\<close> takes out the node at position \<open>i\<close>.\<close>

definition tcp_queue_remove :: "'a tcp_queue \<Rightarrow> nat \<Rightarrow> 'a tcp_queue" where
  "tcp_queue_remove queue i =
    (if i < length (tq_nodes queue)
     then queue\<lparr>tq_nodes := take i (tq_nodes queue) @ drop (i + 1) (tq_nodes queue),
            tq_len := tq_len queue - tn_len (tq_nodes queue ! i)\<rparr>
     else queue)"

text \<open>
  \<^verbatim>\<open>tcp_queue_check\<close>: the walk stops when the sum of the lengths passes the maximum. When the sum is not the stored length
  the code walks again, to print the nodes, and goes on counting.
\<close>

fun check_loop :: "u32 \<Rightarrow> u32 \<Rightarrow> 'a tcp_node list \<Rightarrow> u32" where
  "check_loop mx count [] = count"
| "check_loop mx count (x # xs) = (if count \<le> mx then check_loop mx (count + tn_len x) xs else count)"

definition tcp_queue_check :: "'a tcp_queue \<Rightarrow> bool" where
  "tcp_queue_check queue =
    (let count = check_loop (tq_max queue) 0 (tq_nodes queue) in
     if count = tq_len queue then True else check_loop (tq_max queue) count (tq_nodes queue) = tq_len queue)"

section \<open>Specification\<close>

text \<open>
  Positions relative to the start of a window: \<open>seq_off w x\<close> is how far \<open>x\<close> is behind \<open>w\<close>, modulo \<open>2 ^ 32\<close>. A segment is
  the interval from \<open>node_from\<close> to \<open>node_to\<close> of these positions; it lies in a window of size \<open>seq_off w e\<close> when it ends
  there or before.
\<close>

definition seq_off :: "u32 \<Rightarrow> u32 \<Rightarrow> nat" where
  "seq_off w x = unat (x - w)"

definition node_from :: "u32 \<Rightarrow> 'a tcp_node \<Rightarrow> nat" where
  "node_from w node = seq_off w (tn_seq_num node)"

definition node_to :: "u32 \<Rightarrow> 'a tcp_node \<Rightarrow> nat" where
  "node_to w node = node_from w node + seq_off (tn_seq_num node) (tn_seq_end node)"

definition node_in :: "u32 \<Rightarrow> u32 \<Rightarrow> 'a tcp_node \<Rightarrow> bool" where
  "node_in w e node \<longleftrightarrow> node_to w node \<le> seq_off w e"

text \<open>A node crosses the wrap around when its end number is below its start number.\<close>

definition node_wraps :: "'a tcp_node \<Rightarrow> bool" where
  "node_wraps node \<longleftrightarrow> tn_seq_end node < tn_seq_num node"

definition node_before :: "u32 \<Rightarrow> 'a tcp_node \<Rightarrow> 'a tcp_node \<Rightarrow> bool" where
  "node_before w x y \<longleftrightarrow> node_from w x < node_from w y \<and> node_to w x \<le> node_from w y"

definition node_apart :: "u32 \<Rightarrow> 'a tcp_node \<Rightarrow> 'a tcp_node \<Rightarrow> bool" where
  "node_apart w x y \<longleftrightarrow> node_before w x y \<or> node_before w y x"

definition order_spec :: "u32 \<Rightarrow> 'a tcp_node \<Rightarrow> 'a tcp_node \<Rightarrow> int" where
  "order_spec w x y = (if node_before w x y then - 1 else if node_before w y x then 1 else 0)"

definition insert_spec :: "u32 \<Rightarrow> 'a tcp_node \<Rightarrow> 'a tcp_node list \<Rightarrow> 'a tcp_node list" where
  "insert_spec w node xs = filter (\<lambda>x. node_before w x node) xs @ node # filter (\<lambda>x. node_before w node x) xs"

definition queue_ordered :: "u32 \<Rightarrow> u32 \<Rightarrow> 'a tcp_node list \<Rightarrow> bool" where
  "queue_ordered w e xs \<longleftrightarrow> list_all (node_in w e) xs \<and> sorted_wrt (node_before w) xs"

definition ex_queue :: "unit tcp_queue" where
  "ex_queue = \<lparr>tq_max = 100, tq_len = 20, tq_nodes = [tcp_node_create () 10 (- 40) (- 30), tcp_node_create () 10 (- 5) 5]\<rparr>"

section \<open>Windows\<close>

lemma seq_off_cases: "seq_off w x = (if w \<le> x then unat x - unat w else 2 ^ 32 + unat x - unat w)"
proof (cases "w \<le> x")
  case True
  then show ?thesis by (simp add: seq_off_def unat_sub)
next
  case False
  then have "unat x < unat w" by (simp add: word_less_nat_alt not_le)
  then show ?thesis using False unat_u32_bound [of w] by (simp add: seq_off_def unat_sub_if' word_le_nat_alt)
qed

lemma seq_off_bound: "seq_off w x < 2 ^ 32"
  using unat_u32_bound by (simp add: seq_off_def)

lemma seq_off_self [simp]: "seq_off w w = 0"
  by (simp add: seq_off_def)

text \<open>
  C36: a segment is accepted by \<^verbatim>\<open>tcp_in_window\<close> exactly when it starts and ends between the two ends of the window on the
  circle of sequence numbers, for all start and end numbers, wrapped around or not.
\<close>

theorem tcp_in_window_modular:
  "tcp_in_window seq_num seq_end win_seq_num win_seq_end \<longleftrightarrow>
    unat (seq_num - win_seq_num) + unat (seq_end - seq_num) \<le> unat (win_seq_end - win_seq_num)"
proof -
  have 1: "a \<le> b \<longleftrightarrow> unat a \<le> unat b" for a b :: u32 by (rule word_le_nat_alt)
  have "tcp_in_window seq_num seq_end win_seq_num win_seq_end \<longleftrightarrow>
    seq_off win_seq_num seq_num + seq_off seq_num seq_end \<le> seq_off win_seq_num win_seq_end"
    unfolding tcp_in_window_def seq_off_cases 1
    using unat_u32_bound [of seq_num] unat_u32_bound [of seq_end] unat_u32_bound [of win_seq_num] unat_u32_bound [of win_seq_end]
    by auto
  then show ?thesis by (simp only: seq_off_def)
qed

lemma in_window_off: "tcp_in_window s t w e \<longleftrightarrow> seq_off w s + seq_off s t \<le> seq_off w e"
proof -
  have 1: "a \<le> b \<longleftrightarrow> unat a \<le> unat b" for a b :: u32 by (rule word_le_nat_alt)
  show ?thesis
    unfolding tcp_in_window_def seq_off_cases 1
    using unat_u32_bound [of s] unat_u32_bound [of t] unat_u32_bound [of w] unat_u32_bound [of e]
    by auto
qed

text \<open>The numbers of a node in a window, by its positions; \<open>2 ^ 32 - unat w\<close> is the position of the wrap around.\<close>

lemma node_numbers:
  assumes "node_in w e x"
  shows "unat (tn_seq_num x) = (if node_from w x < 2 ^ 32 - unat w then unat w + node_from w x else node_from w x - (2 ^ 32 - unat w))"
    and "unat (tn_seq_end x) = (if node_to w x < 2 ^ 32 - unat w then unat w + node_to w x else node_to w x - (2 ^ 32 - unat w))"
    and "node_from w x \<le> node_to w x"
    and "node_wraps x \<longleftrightarrow> node_from w x < 2 ^ 32 - unat w \<and> 2 ^ 32 - unat w \<le> node_to w x"
proof -
  have 1: "a \<le> b \<longleftrightarrow> unat a \<le> unat b" "a < b \<longleftrightarrow> unat a < unat b" for a b :: u32
    by (auto simp: word_le_nat_alt word_less_nat_alt)
  have b: "unat w < 4294967296" "unat (tn_seq_num x) < 4294967296" "unat (tn_seq_end x) < 4294967296"
    by (rule unat_u32_bound)+
  have t: "node_to w x < 2 ^ 32" using assms seq_off_bound [of w e] by (simp add: node_in_def)
  show "unat (tn_seq_num x) = (if node_from w x < 2 ^ 32 - unat w then unat w + node_from w x else node_from w x - (2 ^ 32 - unat w))"
    using b by (auto simp: node_from_def seq_off_cases 1)
  show "unat (tn_seq_end x) = (if node_to w x < 2 ^ 32 - unat w then unat w + node_to w x else node_to w x - (2 ^ 32 - unat w))"
    using b t by (auto simp: node_to_def node_from_def seq_off_cases 1 split: if_splits)
  show "node_from w x \<le> node_to w x" by (simp add: node_to_def)
  show "node_wraps x \<longleftrightarrow> node_from w x < 2 ^ 32 - unat w \<and> 2 ^ 32 - unat w \<le> node_to w x"
    using b t by (auto simp: node_wraps_def node_to_def node_from_def seq_off_cases 1 split: if_splits)
qed

text \<open>The comparison, as a function of the positions of both nodes and of the wrap around.\<close>

lemma compare_positions:
  fixes W :: nat
  assumes W: "W = 2 ^ 32 - unat w" and x: "node_in w e x" and y: "node_in w e y"
  shows "tcp_node_compare x y w e =
    (if node_from w x < node_from w y then (if node_to w x \<le> node_from w y then - 1 else 0)
     else if node_from w x = node_from w y then 0
     else if node_wraps x \<and> node_wraps y then 1
     else (if node_to w y \<le> node_from w x then 1 else 0))"
proof -
  have 1: "a \<le> b \<longleftrightarrow> unat a \<le> unat b" "a < b \<longleftrightarrow> unat a < unat b" "a = b \<longleftrightarrow> unat a = unat b" for a b :: u32
    by (auto simp: word_le_nat_alt word_less_nat_alt word_unat_eq_iff)
  obtain wn where wn: "unat w = wn" "wn < 4294967296" using unat_u32_bound by blast
  have b: "W + wn = 4294967296" using W wn by simp
  obtain a c f g where n: "node_from w x = a" "node_to w x = c" "node_from w y = f" "node_to w y = g" by blast
  have t: "c < 4294967296" "g < 4294967296" using x y n seq_off_bound [of w e] by (auto simp: node_in_def)
  note nx = node_numbers [OF x, unfolded n, folded W, unfolded wn]
  note ny = node_numbers [OF y, unfolded n, folded W, unfolded wn]
  show ?thesis
    unfolding tcp_node_compare_def 1 n nx(4) ny(4) wn nx(1,2) ny(1,2)
    using b t nx(3) ny(3) by (cases "a < W"; cases "f < W"; cases "c < W"; cases "g < W"; auto)
qed

lemma compare_order:
  assumes "node_in w e x" "node_in w e y" "\<not> (node_wraps x \<and> node_wraps y)"
  shows "tcp_node_compare x y w e = order_spec w x y"
  using assms compare_positions [OF refl assms(1,2)]
  by (auto simp: order_spec_def node_before_def)

section \<open>Insertion\<close>

lemma node_before_trans: "node_before w x y \<Longrightarrow> node_before w y z \<Longrightarrow> node_before w x z"
  by (auto simp: node_before_def)

lemma node_before_asym: "node_before w x y \<Longrightarrow> \<not> node_before w y x"
  by (auto simp: node_before_def)

lemma order_spec_iff:
  "order_spec w x y = - 1 \<longleftrightarrow> node_before w x y"
  "order_spec w x y = 1 \<longleftrightarrow> node_before w y x"
  "order_spec w x y = 0 \<longleftrightarrow> \<not> node_apart w x y"
  by (auto simp: order_spec_def node_apart_def dest: node_before_asym)

text \<open>When a node goes in front of \<open>ys\<close> and behind \<open>xs\<close>, this is where the specification puts it.\<close>

lemma insert_spec_between:
  assumes "list_all (\<lambda>x. node_before w x n) xs" "list_all (node_before w n) ys"
  shows "insert_spec w n (xs @ ys) = xs @ n # ys" "list_all (node_apart w n) (xs @ ys)"
proof -
  have "filter (node_before w n) xs = []" "filter (\<lambda>x. node_before w x n) ys = []"
    using assms by (auto simp: filter_empty_conv list_all_iff dest: node_before_asym)
  moreover have "filter (\<lambda>x. node_before w x n) xs = xs" "filter (node_before w n) ys = ys"
    using assms by (auto simp: list_all_iff intro: filter_True)
  ultimately show "insert_spec w n (xs @ ys) = xs @ n # ys" by (simp add: insert_spec_def)
  show "list_all (node_apart w n) (xs @ ys)" using assms by (auto simp: list_all_iff node_apart_def)
qed

lemma insert_loop_spec:
  assumes "list_all (\<lambda>x. tcp_node_compare n x w e = order_spec w n x) xs" "sorted_wrt (node_before w) xs"
    "tq_nodes q = pre @ xs" "length pre = i + 1" "list_all (\<lambda>x. node_before w x n) pre" "\<exists>x \<in> set xs. \<not> node_before w x n"
  shows "insert_loop q n w e i xs =
    (if list_all (node_apart w n) (pre @ xs)
     then (True, q\<lparr>tq_nodes := insert_spec w n (pre @ xs), tq_len := tq_len q + tn_len n\<rparr>) else (False, q))"
  using assms
proof (induction xs arbitrary: i pre)
  case Nil
  then show ?case by simp
next
  case (Cons x xs)
  consider "node_before w n x" | "node_before w x n" | "\<not> node_apart w n x" by (auto simp: node_apart_def)
  then show ?case
  proof cases
    case 1
    have "list_all (node_before w n) (x # xs)"
      using Cons.prems(2) 1 by (auto simp: list_all_iff intro: node_before_trans)
    from insert_spec_between [OF Cons.prems(5) this] show ?thesis
      using Cons.prems(1,3,4) 1 by (simp add: order_spec_iff tcp_queue_add_def)
  next
    case 2
    have s: "order_spec w n x = 1" using 2 by (simp add: order_spec_iff)
    have "insert_loop q n w e (i + 1) xs =
      (if list_all (node_apart w n) ((pre @ [x]) @ xs)
       then (True, q\<lparr>tq_nodes := insert_spec w n ((pre @ [x]) @ xs), tq_len := tq_len q + tn_len n\<rparr>) else (False, q))"
      by (rule Cons.IH) (use Cons.prems 2 in auto)
    then show ?thesis using Cons.prems(1) s by simp
  next
    case 3
    then have "order_spec w n x = 0" by (simp add: order_spec_iff)
    then show ?thesis using Cons.prems(1) 3 by simp
  qed
qed

lemma insert_by_order:
  assumes ord: "sorted_wrt (node_before w) (tq_nodes q)"
    and ocmp: "list_all (\<lambda>y. tcp_node_compare n y w e = order_spec w n y) (tq_nodes q)"
  shows "tcp_queue_insert q n w e =
    (if list_all (node_apart w n) (tq_nodes q)
     then (True, q\<lparr>tq_nodes := insert_spec w n (tq_nodes q), tq_len := tq_len q + tn_len n\<rparr>) else (False, q))"
proof (cases "tq_nodes q")
  case Nil
  then show ?thesis by (simp add: tcp_queue_insert_def tcp_queue_prepend_def insert_spec_def)
next
  case (Cons x xs)
  have so: "sorted_wrt (node_before w) (x # xs)" using ord Cons by simp
  have cmp: "list_all (\<lambda>y. tcp_node_compare n y w e = order_spec w n y) (x # xs)" using ocmp Cons by simp
  have la: "tcp_node_compare n (last (x # xs)) w e = order_spec w n (last (x # xs))"
    using cmp last_in_set [of "x # xs"] unfolding list_all_iff by blast
  consider "node_before w n x" | "\<not> node_apart w n x" | "node_before w x n" by (auto simp: node_apart_def)
  then show ?thesis
  proof cases
    case 1
    have "list_all (node_before w n) (x # xs)" using so 1 by (auto simp: list_all_iff intro: node_before_trans)
    from insert_spec_between [of w n "[]", OF _ this] show ?thesis
      using cmp 1 Cons by (simp add: tcp_queue_insert_def order_spec_iff tcp_queue_prepend_def)
  next
    case 2
    then show ?thesis using cmp Cons by (simp add: tcp_queue_insert_def order_spec_iff(3) [THEN iffD2])
  next
    case 3
    then have s: "order_spec w n x = 1" by (simp add: order_spec_iff)
    consider "node_before w (last (x # xs)) n" | "\<not> node_apart w n (last (x # xs))" | "node_before w n (last (x # xs))"
      by (auto simp: node_apart_def)
    then show ?thesis
    proof cases
      case 1
      have "node_before w y (last (x # xs)) \<or> y = last (x # xs)" if "y \<in> set (x # xs)" for y
      proof -
        have "sorted_wrt (node_before w) (butlast (x # xs) @ [last (x # xs)])" using so by simp
        moreover have "y \<in> set (butlast (x # xs)) \<or> y = last (x # xs)"
          using that append_butlast_last_id [of "x # xs"] by (metis Un_iff list.distinct(1) set_ConsD set_append list.set(1) empty_iff)
        ultimately show ?thesis by (auto simp: sorted_wrt_append)
      qed
      then have "list_all (\<lambda>y. node_before w y n) (x # xs)"
        unfolding list_all_iff using 1 by (blast intro: node_before_trans)
      from insert_spec_between [of w n _ "[]", OF this] show ?thesis
        using cmp la s 1 Cons by (simp add: tcp_queue_insert_def order_spec_iff(2) [THEN iffD2] tcp_queue_append_def)
    next
      case 2
      then have "order_spec w n (last (x # xs)) = 0" by (simp only: order_spec_iff) simp
      moreover have "\<not> list_all (node_apart w n) (x # xs)"
        using 2 last_in_set [of "x # xs"] unfolding list_all_iff by blast
      ultimately show ?thesis using cmp la s Cons by (simp add: tcp_queue_insert_def)
    next
      case 3
      then have l: "order_spec w n (last (x # xs)) = - 1" by (simp only: order_spec_iff)
      have xs: "xs \<noteq> []" using 3 \<open>node_before w x n\<close> by (auto dest: node_before_asym)
      have "insert_loop q n w e 0 xs =
        (if list_all (node_apart w n) ([x] @ xs)
         then (True, q\<lparr>tq_nodes := insert_spec w n ([x] @ xs), tq_len := tq_len q + tn_len n\<rparr>) else (False, q))"
      proof (rule insert_loop_spec)
        show "\<exists>y \<in> set xs. \<not> node_before w y n" using 3 xs by (auto intro!: bexI [of _ "last xs"] dest: node_before_asym)
      qed (use cmp so Cons \<open>node_before w x n\<close> in auto)
      then show ?thesis using cmp la s l Cons by (simp add: tcp_queue_insert_def)
    qed
  qed
qed

lemma insert_correct:
  assumes ord: "queue_ordered w e (tq_nodes q)" and n: "node_in w e n"
    and wr: "list_all (\<lambda>x. \<not> (node_wraps n \<and> node_wraps x)) (tq_nodes q)"
  shows "tcp_queue_insert q n w e =
    (if list_all (node_apart w n) (tq_nodes q)
     then (True, q\<lparr>tq_nodes := insert_spec w n (tq_nodes q), tq_len := tq_len q + tn_len n\<rparr>) else (False, q))"
  using assms by (intro insert_by_order) (auto simp: queue_ordered_def list_all_iff compare_order)

lemma insert_spec_ordered:
  assumes "queue_ordered w e xs" "node_in w e n" "list_all (node_apart w n) xs"
  shows "queue_ordered w e (insert_spec w n xs)"
  using assms
  by (auto simp: queue_ordered_def insert_spec_def sorted_wrt_append sorted_wrt_filter list_all_iff intro: node_before_trans)

lemma insert_spec_set: "list_all (node_apart w n) xs \<Longrightarrow> set (insert_spec w n xs) = insert n (set xs)"
  by (auto simp: insert_spec_def list_all_iff node_apart_def)

lemma node_in_window: "node_in w e n \<longleftrightarrow> tcp_in_window (tn_seq_num n) (tn_seq_end n) w e"
  by (simp add: node_in_def node_to_def node_from_def in_window_off)

text \<open>
  C35: a queue of segments that lie in the window, in order and without overlap, stays so under \<^verbatim>\<open>tcp_queue_insert\<close>, provided
  the new segment does not cross the wrap around together with a queued one: a segment that overlaps no queued one is
  inserted at its place and counted, any other leaves the queue as it is.
\<close>

theorem tcp_queue_insert_ordered:
  assumes "queue_ordered w e (tq_nodes q)" "tcp_in_window (tn_seq_num n) (tn_seq_end n) w e"
    and "\<forall>x \<in> set (tq_nodes q). \<not> (node_wraps n \<and> node_wraps x)"
  shows "(\<forall>x \<in> set (tq_nodes q). node_apart w n x) \<and>
      (\<exists>q'. tcp_queue_insert q n w e = (True, q') \<and> queue_ordered w e (tq_nodes q') \<and>
        tq_nodes q' = insert_spec w n (tq_nodes q) \<and> set (tq_nodes q') = insert n (set (tq_nodes q)) \<and>
        tq_len q' = tq_len q + tn_len n \<and> tq_max q' = tq_max q)
    \<or> \<not> (\<forall>x \<in> set (tq_nodes q). node_apart w n x) \<and> tcp_queue_insert q n w e = (False, q)"
  using assms insert_correct [of w e q n] insert_spec_ordered [of w e "tq_nodes q" n] insert_spec_set [of w n "tq_nodes q"]
  by (auto simp: node_in_window list_all_iff)

lemmas node_defs = node_apart_def node_before_def node_to_def node_from_def node_wraps_def seq_off_def tcp_node_create_def

theorem tcp_queue_insert_ordered_witness:
  "tcp_queue_insert ex_queue (tcp_node_create () 10 (- 20) (- 10)) (- 50) 50 =
    (True, ex_queue\<lparr>tq_nodes := [tcp_node_create () 10 (- 40) (- 30), tcp_node_create () 10 (- 20) (- 10), tcp_node_create () 10 (- 5) 5],
       tq_len := 30\<rparr>)"
proof -
  have 1: "queue_ordered (- 50) 50 (tq_nodes ex_queue)"
    by (simp add: ex_queue_def queue_ordered_def node_in_def node_defs)
  have 2: "tcp_in_window (tn_seq_num (tcp_node_create () 10 (- 20) (- 10))) (tn_seq_end (tcp_node_create () 10 (- 20) (- 10))) (- 50) 50"
    by (simp add: tcp_in_window_def tcp_node_create_def)
  have 3: "\<forall>x \<in> set (tq_nodes ex_queue). \<not> (node_wraps (tcp_node_create () 10 (- 20) (- 10)) \<and> node_wraps x)"
    by (simp add: node_defs)
  have 4: "\<forall>x \<in> set (tq_nodes ex_queue). node_apart (- 50) (tcp_node_create () 10 (- 20) (- 10)) x"
    by (simp add: ex_queue_def node_defs)
  show ?thesis
    using tcp_queue_insert_ordered [OF 1 2 3] 4
    by (auto simp: ex_queue_def insert_spec_def node_defs)
qed

text \<open>
  C37: two segments that both cross the wrap around overlap, but \<^verbatim>\<open>tcp_node_compare\<close> reports the later one as behind the
  other, so that \<^verbatim>\<open>tcp_queue_insert\<close> stores it next to the segment it overlaps.
\<close>

theorem tcp_insert_overlapping_wrap:
  assumes "tq_nodes q = [x]" "tcp_in_window (tn_seq_num x) (tn_seq_end x) w e" "tcp_in_window (tn_seq_num n) (tn_seq_end n) w e"
    and "node_wraps x" "node_wraps n" "node_from w x < node_from w n"
  shows "node_from w n < node_to w x \<and> tcp_node_compare n x w e = 1 \<and>
    tcp_queue_insert q n w e = (True, q\<lparr>tq_nodes := [x, n], tq_len := tq_len q + tn_len n\<rparr>)"
proof -
  have x: "node_in w e x" and n: "node_in w e n" using assms(2,3) by (simp_all add: node_in_window)
  have "node_from w n < node_to w x"
    using assms(4,5) node_numbers(4) [OF x] node_numbers(4) [OF n] by simp
  moreover have "tcp_node_compare n x w e = 1" using compare_positions [OF refl n x] assms(4-6) by simp
  ultimately show ?thesis using assms(1) by (simp add: tcp_queue_insert_def tcp_queue_append_def)
qed

theorem tcp_insert_overlapping_wrap_witness:
  "tcp_queue_insert \<lparr>tq_max = 100, tq_len = 20, tq_nodes = [tcp_node_create () 20 (- 10) 10]\<rparr> (tcp_node_create () 20 (- 5) 15) (- 50) 50 =
    (True, \<lparr>tq_max = 100, tq_len = 40, tq_nodes = [tcp_node_create () 20 (- 10) 10, tcp_node_create () 20 (- 5) 15]\<rparr>)"
  using tcp_insert_overlapping_wrap [of "\<lparr>tq_max = 100, tq_len = 20, tq_nodes = [tcp_node_create () 20 (- 10) 10]\<rparr>"
      "tcp_node_create () 20 (- 10) 10" "- 50" 50 "tcp_node_create () 20 (- 5) 15"]
  by (simp add: tcp_in_window_def node_defs)

text \<open>
  The test \<^verbatim>\<open>tcp_in_window_overlaps\<close>, which nothing calls, misses a segment that starts in a window that is wrapped around
  and ends behind it, and one that contains the whole window.
\<close>

lemma overlaps_misses_end:
  assumes "seq_num \<le> win_seq_end" "win_seq_end < seq_end" "seq_end < win_seq_num"
  shows "\<not> tcp_in_window_overlaps seq_num seq_end win_seq_num win_seq_end"
  using assms by (auto simp: tcp_in_window_overlaps_def)

lemma overlaps_misses_all:
  assumes "seq_num < win_seq_num" "win_seq_num < win_seq_end" "win_seq_end < seq_end"
  shows "\<not> tcp_in_window_overlaps seq_num seq_end win_seq_num win_seq_end"
  using assms by (auto simp: tcp_in_window_overlaps_def)

end
