(* ===== verification/Tcp_Segment.thy ===== *)
theory Tcp_Segment
  imports Tcp_Queue Module_Common
begin

text \<open>
  Segments of the TCP module, \<^verbatim>\<open>trunk/modules/tcp/tcp.c\<close>: the conversion between a segment and the frame that carries it to or
  from IPv4, the checksum, and taking the data of a segment from the queue of written data. The fields \<^verbatim>\<open>opt_len\<close> and
  \<^verbatim>\<open>data_len\<close> are C integers of 32 bits with sign; \<open>sg_options\<close> is the array of 40 bytes.
\<close>

section \<open>Segments\<close>

record tcp_seg =
  sg_src_port :: u16
  sg_dst_port :: u16
  sg_seq_num :: u32
  sg_ack_num :: u32
  sg_flags :: u16
  sg_win_size :: u16
  sg_checksum :: u16
  sg_urg_pointer :: u16
  sg_options :: "byte list"
  sg_opt_len :: int
  sg_data :: "byte list option"
  sg_data_len :: int
  sg_src_ip :: u32
  sg_dst_ip :: u32
  sg_seq_end :: u32

definition FLAG_FIN :: u16 where "FLAG_FIN = 0x01"
definition FLAG_SYN :: u16 where "FLAG_SYN = 0x02"
definition FLAG_RST :: u16 where "FLAG_RST = 0x04"
definition FLAG_ACK :: u16 where "FLAG_ACK = 0x10"
definition FLAG_DATAOFFSET :: u16 where "FLAG_DATAOFFSET = 0xF000"
definition FLAG_ECN :: u16 where "FLAG_ECN = 0x01C0"
definition FLAG_CONTROL :: u16 where "FLAG_CONTROL = 0x003F"
definition FLAG_ACK_NOW :: u16 where "FLAG_ACK_NOW = 0x1000"
definition FLAG_ACK_SAME :: u16 where "FLAG_ACK_SAME = 0x2000"
definition MIN_TCP_HEADER_BYTES :: nat where "MIN_TCP_HEADER_BYTES = 20"
definition MAX_TCP_OPTIONS_BYTES :: nat where "MAX_TCP_OPTIONS_BYTES = 40"
definition TCP_PT_TCP :: u32 where "TCP_PT_TCP = 6"

definition TCP_HEADER_BYTES :: "u16 \<Rightarrow> int" where
  "TCP_HEADER_BYTES flags = 4 * int (unat (drop_bit 12 (flags AND FLAG_DATAOFFSET)))"

definition TCP_OPTIONS_BYTES :: "u16 \<Rightarrow> int" where
  "TCP_OPTIONS_BYTES flags = TCP_HEADER_BYTES flags - 20"

definition tcp_seg_create :: "u32 \<Rightarrow> u16 \<Rightarrow> u32 \<Rightarrow> u16 \<Rightarrow> u32 \<Rightarrow> u32 \<Rightarrow> tcp_seg" where
  "tcp_seg_create src_ip src_port dst_ip dst_port seq_num seq_end =
    \<lparr>sg_src_port = src_port, sg_dst_port = dst_port, sg_seq_num = seq_num, sg_ack_num = 0, sg_flags = 0, sg_win_size = 0,
     sg_checksum = 0, sg_urg_pointer = 0, sg_options = replicate MAX_TCP_OPTIONS_BYTES 0, sg_opt_len = 0, sg_data = None,
     sg_data_len = 0, sg_src_ip = src_ip, sg_dst_ip = dst_ip, sg_seq_end = seq_end\<rparr>"

section \<open>Frames for IPv4\<close>

text \<open>The first 20 bytes of \<^verbatim>\<open>struct tcpv4_header\<close>; the numbers are in the byte order the code stores.\<close>

definition tcpv4_header :: "u16 \<Rightarrow> u16 \<Rightarrow> u32 \<Rightarrow> u32 \<Rightarrow> u16 \<Rightarrow> u16 \<Rightarrow> u16 \<Rightarrow> u16 \<Rightarrow> byte list" where
  "tcpv4_header src_port dst_port seq_num ack_num flags win_size checksum urg_pointer =
    mem16 src_port @ mem16 dst_port @ mem32 seq_num @ mem32 ack_num @ mem16 flags @ mem16 win_size @ mem16 checksum @ mem16 urg_pointer"

definition seg_header :: "tcp_seg \<Rightarrow> u16 \<Rightarrow> byte list" where
  "seg_header seg checksum =
    tcpv4_header (htons (sg_src_port seg)) (htons (sg_dst_port seg)) (htonl (sg_seq_num seg)) (htonl (sg_ack_num seg))
      (htons (sg_flags seg)) (htons (sg_win_size seg)) checksum (htons (sg_urg_pointer seg))"

text \<open>\<^verbatim>\<open>struct ipv4_header\<close>, the pseudo header of the checksum.\<close>

definition ipv4_pseudo :: "u32 \<Rightarrow> u32 \<Rightarrow> u16 \<Rightarrow> byte list" where
  "ipv4_pseudo src_ip dst_ip tcp_len = mem32 (htonl src_ip) @ mem32 (htonl dst_ip) @ [0, 6] @ mem16 (htons tcp_len)"

text \<open>\<^verbatim>\<open>memcpy\<close> into a buffer.\<close>

definition blit :: "byte list \<Rightarrow> nat \<Rightarrow> byte list \<Rightarrow> byte list res" where
  "blit buf i bs = (if i + length bs \<le> length buf then Inr (take i buf @ bs @ drop (i + length bs) buf) else Inl MemFault)"

text \<open>The data of a segment; the pointer may be NULL.\<close>

definition seg_bytes :: "tcp_seg \<Rightarrow> byte list res" where
  "seg_bytes seg = (case sg_data seg of None \<Rightarrow> Inl MemFault | Some d \<Rightarrow> slice d 0 (nat (sg_data_len seg)))"

definition copy_options_data :: "tcp_seg \<Rightarrow> byte list \<Rightarrow> byte list res" where
  "copy_options_data seg p =
    (if sg_opt_len seg > 0 then
       andThen (slice (sg_options seg) 0 (nat (sg_opt_len seg))) (\<lambda>os.
       andThen (blit p MIN_TCP_HEADER_BYTES os) (\<lambda>p1.
         if sg_data_len seg > 0
         then andThen (seg_bytes seg) (\<lambda>d. blit p1 (MIN_TCP_HEADER_BYTES + nat (sg_opt_len seg)) d)
         else Inr p1))
     else if sg_data_len seg > 0 then andThen (seg_bytes seg) (\<lambda>d. blit p MIN_TCP_HEADER_BYTES d)
     else Inr p)"

text \<open>The sum over the pseudo header and the packet, and its complement.\<close>

definition pdu_checksum :: "byte list \<Rightarrow> byte list \<Rightarrow> u32 \<Rightarrow> u16 res" where
  "pdu_checksum ip_hdr p len =
    andThen (sum_words ip_hdr 0 6 0) (\<lambda>s1.
    andThen (sum_words p 0 (unat len div 2) s1) (\<lambda>s2.
    andThen (if odd (unat len) then andThen (load8 p (int (unat len - 1))) (\<lambda>b. Inr (s2 + push_bit 8 (ucast b))) else Inr s2) (\<lambda>s3.
      Inr (ucast (NOT (fold_carry s3))))))"

definition tcp_to_fdf :: "tcp_seg \<Rightarrow> finsFrame res" where
  "tcp_to_fdf seg =
    andThen (meta_writes metadata_create [(''send_protocol'', TCP_PT_TCP), (''send_family'', of_nat AF_INET),
       (''send_src_ipv4'', sg_src_ip seg), (''send_src_port'', ucast (sg_src_port seg)),
       (''send_dst_ipv4'', sg_dst_ip seg), (''send_dst_port'', ucast (sg_dst_port seg))]) (\<lambda>meta.
    let len = of_int (sg_data_len seg + TCP_HEADER_BYTES (sg_flags seg)) :: u32 in
    andThen (blit (replicate (unat len) 0) 0 (seg_header seg 0)) (\<lambda>p1.
    andThen (copy_options_data seg p1) (\<lambda>p2.
    andThen (pdu_checksum (ipv4_pseudo (sg_src_ip seg) (sg_dst_ip seg) (ucast len)) p2 len) (\<lambda>sum.
    andThen (blit p2 16 (mem16 (htons sum))) (\<lambda>p3.
      Inr (zeroFrame\<lparr>dataOrCtrl := FF_DATA, metaData := Some meta,
             dataFrame := \<lparr>directionFlag = DIR_DOWN, pduLength = len, pdu = Some p3\<rparr>\<rparr>))))))"

text \<open>
  \<^verbatim>\<open>fdf_to_tcp\<close>; \<open>Inr None\<close> is the result NULL. With a data offset below 5 words \<^verbatim>\<open>opt_len\<close> is negative and the data starts
  inside the header.
\<close>

definition seg_of_header :: "byte list \<Rightarrow> u32 \<Rightarrow> u32 \<Rightarrow> tcp_seg res" where
  "seg_of_header p src_ip dst_ip =
    andThen (load16 p 0) (\<lambda>src_port.
    andThen (load16 p 2) (\<lambda>dst_port.
    andThen (load32 p 4) (\<lambda>seq_num.
    andThen (load32 p 8) (\<lambda>ack_num.
    andThen (load16 p 12) (\<lambda>flags.
    andThen (load16 p 14) (\<lambda>win_size.
    andThen (load16 p 16) (\<lambda>checksum.
    andThen (load16 p 18) (\<lambda>urg_pointer.
      Inr ((tcp_seg_create src_ip (ntohs src_port) dst_ip (ntohs dst_port) (ntohl seq_num) 0)
        \<lparr>sg_ack_num := ntohl ack_num, sg_flags := ntohs flags, sg_win_size := ntohs win_size,
         sg_checksum := ntohs checksum, sg_urg_pointer := ntohs urg_pointer\<rparr>)))))))))"

definition fdf_to_tcp :: "finsFrame \<Rightarrow> tcp_seg option res" where
  "fdf_to_tcp ff =
    (if unat (pduLength (dataFrame ff)) < MIN_TCP_HEADER_BYTES then Inr None
     else case metaData ff of None \<Rightarrow> Inl MemFault | Some meta \<Rightarrow>
     andThen (secure_metadata_read_u32 meta ''recv_protocol'') (\<lambda>protocol.
     if protocol \<noteq> TCP_PT_TCP then Inr None
     else
     andThen (secure_metadata_read_u32 meta ''recv_family'') (\<lambda>family.
     andThen (secure_metadata_read_u32 meta ''recv_src_ipv4'') (\<lambda>src_ip.
     andThen (secure_metadata_read_u32 meta ''recv_dst_ipv4'') (\<lambda>dst_ip.
     case pdu (dataFrame ff) of None \<Rightarrow> Inl MemFault | Some p \<Rightarrow>
     andThen (seg_of_header p src_ip dst_ip) (\<lambda>seg.
     let n = TCP_OPTIONS_BYTES (sg_flags seg); k = sint (pduLength (dataFrame ff) - of_int (TCP_HEADER_BYTES (sg_flags seg))) in
     andThen (if n > 0 then slice p MIN_TCP_HEADER_BYTES (nat n) else Inr []) (\<lambda>os.
     andThen (if k > 0 then andThen (slice p (nat (20 + n)) (nat k)) (\<lambda>d. Inr (Some d)) else Inr None) (\<lambda>d.
       Inr (Some (seg\<lparr>sg_opt_len := n, sg_options := os @ drop (length os) (sg_options seg), sg_data_len := k, sg_data := d,
                   sg_seq_end := sg_seq_num seg + of_int k\<rparr>))))))))))"

section \<open>Checksum of a received segment\<close>

definition tcp_seg_checksum :: "tcp_seg \<Rightarrow> u16 res" where
  "tcp_seg_checksum seg =
    (let pkt = ipv4_pseudo (sg_src_ip seg) (sg_dst_ip seg) (of_int (TCP_HEADER_BYTES (sg_flags seg) + sg_data_len seg))
               @ seg_header seg (htons (sg_checksum seg)) in
     andThen (sum_words pkt 0 16 0) (\<lambda>s1.
     andThen (sum_words (sg_options seg) 0 (nat ((sg_opt_len seg + 1) div 2)) s1) (\<lambda>s2.
     let data = (case sg_data seg of None \<Rightarrow> [] | Some d \<Rightarrow> d); n = nat (sg_data_len seg div 2) in
     andThen (sum_words data 0 n s2) (\<lambda>s3.
     andThen (if odd (sg_data_len seg) then andThen (load8 data (2 * int n)) (\<lambda>b. Inr (s3 + push_bit 8 (ucast b))) else Inr s3) (\<lambda>s4.
       Inr (htons (ucast (NOT (fold_carry s4)))))))))"

section \<open>Data of a segment\<close>

text \<open>
  The loop of \<^verbatim>\<open>tcp_seg_add_data\<close>: it copies from the nodes of the queue, from \<^verbatim>\<open>index\<close> of the first one on, and frees the nodes
  it has used up. \<open>len\<close> is the length stored in the queue, \<open>n\<close> the number of bytes still to copy.
\<close>

fun add_data_loop ::
  "byte list tcp_node list \<Rightarrow> u32 \<Rightarrow> u32 \<Rightarrow> u32 \<Rightarrow> byte list \<Rightarrow> (byte list \<times> byte list tcp_node list \<times> u32 \<times> u32) res" where
  "add_data_loop [] len index n acc = Inr (acc, [], len, index)"
| "add_data_loop (x # xs) len index n acc =
    (if n = 0 then Inr (acc, x # xs, len, index)
     else let avail = tn_len x - index in
       if n < avail then andThen (slice (tn_data x) (unat index) (unat n)) (\<lambda>b. Inr (acc @ b, x # xs, len, index + n))
       else andThen (slice (tn_data x) (unat index) (unat avail)) (\<lambda>b.
              add_data_loop xs (len - tn_len x) 0 (n - avail) (acc @ b)))"

definition tcp_seg_add_data ::
  "tcp_seg \<Rightarrow> byte list tcp_queue \<Rightarrow> u32 \<Rightarrow> u32 \<Rightarrow> (u32 \<times> tcp_seg \<times> byte list tcp_queue) res" where
  "tcp_seg_add_data seg queue index n =
    andThen (add_data_loop (tq_nodes queue) (tq_len queue) index n []) (\<lambda>(d, xs, len, index1).
      Inr (index1,
        seg\<lparr>sg_data_len := sint n, sg_seq_end := sg_seq_num seg + n, sg_data := Some (d @ replicate (unat n - length d) 0)\<rparr>,
        queue\<lparr>tq_nodes := xs, tq_len := len\<rparr>))"

section \<open>Specification\<close>

text \<open>
  A segment whose lengths fit its flags, its options and its data, and the packet it stands for. \<open>tcp_total\<close> is the sum the
  checksum is computed from.
\<close>

definition seg_payload :: "tcp_seg \<Rightarrow> byte list" where
  "seg_payload seg = (if sg_data_len seg > 0 then (case sg_data seg of None \<Rightarrow> [] | Some d \<Rightarrow> d) else [])"

definition seg_ok :: "tcp_seg \<Rightarrow> bool" where
  "seg_ok seg \<longleftrightarrow> length (sg_options seg) = 40 \<and> 0 \<le> sg_opt_len seg \<and> sg_opt_len seg \<le> 40 \<and> even (sg_opt_len seg)
     \<and> TCP_OPTIONS_BYTES (sg_flags seg) = sg_opt_len seg \<and> sg_data_len seg = int (length (seg_payload seg))
     \<and> 20 + sg_opt_len seg + sg_data_len seg < 65536"

definition seg_packet :: "tcp_seg \<Rightarrow> u16 \<Rightarrow> byte list" where
  "seg_packet seg checksum = seg_header seg (htons checksum) @ take (nat (sg_opt_len seg)) (sg_options seg) @ seg_payload seg"

definition tcp_total :: "u32 \<Rightarrow> u32 \<Rightarrow> byte list \<Rightarrow> nat" where
  "tcp_total src_ip dst_ip bs = be_total (ipv4_pseudo src_ip dst_ip (of_nat (length bs)) @ bs)"

text \<open>The segment as the receiver sees it: with the checksum of the packet, and nothing behind its options.\<close>

definition seg_received :: "tcp_seg \<Rightarrow> tcp_seg" where
  "seg_received seg =
    seg\<lparr>sg_checksum := inet_cksum (tcp_total (sg_src_ip seg) (sg_dst_ip seg) (seg_packet seg 0)),
      sg_options := take (nat (sg_opt_len seg)) (sg_options seg) @ replicate (40 - nat (sg_opt_len seg)) 0,
      sg_data := (if sg_data_len seg > 0 then Some (seg_payload seg) else None),
      sg_seq_end := sg_seq_num seg + of_int (sg_data_len seg)\<rparr>"

text \<open>The metadata TCP needs with a packet from IPv4, and the metadata it sends one with.\<close>

definition tcp_recv_meta :: "settings \<Rightarrow> u32 \<Rightarrow> u32 \<Rightarrow> bool" where
  "tcp_recv_meta meta src_ip dst_ip \<longleftrightarrow> meta_plain meta \<and> has_u32 meta ''recv_protocol'' TCP_PT_TCP
     \<and> (\<exists>f. has_u32 meta ''recv_family'' f) \<and> has_u32 meta ''recv_src_ipv4'' src_ip \<and> has_u32 meta ''recv_dst_ipv4'' dst_ip"

definition tcp_send_meta :: "settings \<Rightarrow> tcp_seg \<Rightarrow> bool" where
  "tcp_send_meta meta seg \<longleftrightarrow> meta_plain meta \<and> map_of meta =
     [''send_protocol'' \<mapsto> CInt TCP_PT_TCP, ''send_family'' \<mapsto> CInt (of_nat AF_INET), ''send_src_ipv4'' \<mapsto> CInt (sg_src_ip seg),
      ''send_src_port'' \<mapsto> CInt (ucast (sg_src_port seg)), ''send_dst_ipv4'' \<mapsto> CInt (sg_dst_ip seg),
      ''send_dst_port'' \<mapsto> CInt (ucast (sg_dst_port seg))]"

text \<open>
  The bytes that wait in a queue of written data, \<open>index\<close> of them being sent already, and the queues this makes sense for:
  the nodes are not empty, have the length of their data, and \<open>index\<close> is a position in the first one.
\<close>

definition queue_stream :: "byte list tcp_node list \<Rightarrow> u32 \<Rightarrow> byte list" where
  "queue_stream xs index = drop (unat index) (concat (map tn_data xs))"

definition stream_ok :: "byte list tcp_queue \<Rightarrow> u32 \<Rightarrow> bool" where
  "stream_ok q index \<longleftrightarrow> list_all (\<lambda>x. unat (tn_len x) = length (tn_data x) \<and> tn_data x \<noteq> []) (tq_nodes q)
     \<and> tq_len q = sum_list (map tn_len (tq_nodes q))
     \<and> (case tq_nodes q of [] \<Rightarrow> index = 0 | x # xs \<Rightarrow> unat index < length (tn_data x))"

definition ex_seg :: tcp_seg where
  "ex_seg = (tcp_seg_create 1 80 2 1025 7 7)\<lparr>sg_flags := 0x5010, sg_data := Some [1, 2, 3], sg_data_len := 3\<rparr>"

definition ex_tcp_recv :: settings where
  "ex_tcp_recv = [(''recv_protocol'', CInt 6), (''recv_family'', CInt 2), (''recv_src_ipv4'', CInt 1), (''recv_dst_ipv4'', CInt 2)]"

definition ex_tcp_frame :: "byte list \<Rightarrow> finsFrame" where
  "ex_tcp_frame p = zeroFrame\<lparr>dataOrCtrl := FF_DATA, metaData := Some ex_tcp_recv,
     dataFrame := \<lparr>directionFlag = DIR_UP, pduLength = of_nat (length p), pdu = Some p\<rparr>\<rparr>"

definition ex_write_queue :: "byte list tcp_queue" where
  "ex_write_queue = \<lparr>tq_max = 100, tq_len = 5, tq_nodes = [tcp_node_create [1, 2, 3] 3 0 2, tcp_node_create [4, 5] 2 0 1]\<rparr>"

section \<open>Lengths\<close>

lemma header_length [simp]: "length (tcpv4_header a b c d e f g h) = 20" "length (seg_header seg ck) = 20"
  by (simp_all add: tcpv4_header_def seg_header_def)

lemma pseudo_length [simp]: "length (ipv4_pseudo s d n) = 12"
  by (simp add: ipv4_pseudo_def)

lemma seg_packet_length: "seg_ok seg \<Longrightarrow> length (seg_packet seg ck) = nat (20 + sg_opt_len seg + sg_data_len seg)"
  by (auto simp: seg_ok_def seg_packet_def nat_add_distrib)

lemma seg_packet_size:
  assumes "seg_ok seg"
  shows "int (length (seg_packet seg ck)) = 20 + sg_opt_len seg + sg_data_len seg" "length (seg_packet seg ck) < 65536"
    "20 \<le> length (seg_packet seg ck)"
proof -
  have a: "0 \<le> sg_opt_len seg" "0 \<le> sg_data_len seg" "20 + sg_opt_len seg + sg_data_len seg < 65536"
    using assms by (auto simp: seg_ok_def)
  then show i: "int (length (seg_packet seg ck)) = 20 + sg_opt_len seg + sg_data_len seg"
    using seg_packet_length [OF assms, of ck] by simp
  show "length (seg_packet seg ck) < 65536" "20 \<le> length (seg_packet seg ck)" using a i by linarith+
qed

lemma blit_zeros: "length bs \<le> n \<Longrightarrow> blit (replicate n 0) 0 bs = Inr (bs @ replicate (n - length bs) 0)"
  by (simp add: blit_def)

lemma blit_append: "length cs \<le> k \<Longrightarrow> blit (bs @ replicate k 0) (length bs) cs = Inr (bs @ cs @ replicate (k - length cs) 0)"
  by (simp add: blit_def)

lemma seg_packet_put: "seg_packet seg ck = put16 16 (seg_packet seg 0) ck"
  by (simp add: seg_packet_def seg_header_def tcpv4_header_def put16_def mem16_def mem32_def htons_def)

lemma blit_checksum: "18 \<le> length p \<Longrightarrow> blit p 16 (mem16 (htons c)) = Inr (put16 16 p c)"
  by (simp add: blit_def put16_def mem16_def htons_def)

section \<open>Checksum\<close>

lemma tcp_total_bound: "length bs < 65536 \<Longrightarrow> tcp_total s d bs < 2 ^ 32"
  using be_total_bound [of "ipv4_pseudo s d (of_nat (length bs)) @ bs"] by (simp add: tcp_total_def)

lemma tcp_total_sum: "tcp_total s d bs = be_total (ipv4_pseudo s d (of_nat (length bs))) + be_total bs"
  by (simp add: tcp_total_def be_total_append)

interpretation tcp_ck: checksum_field "tcp_total s d" "put16 16" "\<lambda>bs. 18 \<le> length bs" for s d
proof unfold_locales
  fix bs :: "byte list" and c
  assume len: "18 \<le> length bs"
  have l: "length (put16 16 bs c) = length bs" for c using len by (simp add: put16_def)
  show "tcp_total s d (put16 16 bs c) = tcp_total s d (put16 16 bs 0) + unat c"
    unfolding tcp_total_sum l using put16_total [of 16 bs c] len by simp
  have "be_total (ipv4_pseudo s d n) > 0" for n by (simp add: ipv4_pseudo_def mem32_def mem16_def)
  then show "0 < tcp_total s d (put16 16 bs 0)" unfolding tcp_total_sum l by simp
qed

lemma sum_words_all:
  assumes "n = length bs div 2"
  shows "sum_words bs 0 n acc = Inr (acc + of_nat (be_total (take (2 * n) bs)))"
  using sum_words_total [of 0 n bs acc] assms by simp

text \<open>The words of a buffer and its last byte, if it has one more.\<close>

lemma sum_tail:
  assumes "length bs = n"
  shows "andThen (sum_words bs 0 (n div 2) acc) (\<lambda>s.
      andThen (if odd n then andThen (load8 bs (2 * int (n div 2))) (\<lambda>b. Inr (s + push_bit 8 (ucast b))) else Inr s) f) =
    f (acc + of_nat (be_total bs))"
proof (cases "odd n")
  case True
  then have n: "2 * (n div 2) = n - 1" "2 * int (n div 2) = int (n - 1)" "n - 1 < length bs"
    using assms by (auto simp: odd_two_times_div_two_nat elim!: oddE)
  have "be_total bs = be_total (take (n - 1) bs) + 256 * unat (bs ! (n - 1))" using be_total_odd [of bs] True assms by simp
  then show ?thesis
    using sum_words_all [of "n div 2" bs acc] load8_ok [OF n(3)] word_pair [of "bs ! (n - 1)" 0] True assms n(1,2)
    by (simp add: add.assoc)
next
  case False
  then show ?thesis using sum_words_all [of "n div 2" bs acc] assms by simp
qed

lemma pdu_checksum_spec:
  assumes "length p = unat len" "length p < 65536"
  shows "pdu_checksum (ipv4_pseudo s d (ucast len)) p len = Inr (inet_cksum (tcp_total s d p))"
proof -
  let ?h = "ipv4_pseudo s d (ucast len)"
  have h: "sum_words ?h 0 6 0 = Inr (of_nat (be_total ?h))" using sum_words_all [of 6 ?h 0] by simp
  have l: "ucast len = (of_nat (length p) :: u16)" unfolding assms(1) by simp
  have o: "odd (unat len) \<Longrightarrow> int (unat len - 1) = 2 * int (unat len div 2)" by (auto elim!: oddE)
  have "pdu_checksum ?h p len = Inr (ucast (NOT (fold_carry (of_nat (be_total ?h) + of_nat (be_total p)))))"
    using sum_tail [OF assms(1), of "of_nat (be_total ?h)" "\<lambda>s. Inr (ucast (NOT (fold_carry s)))"] o
    by (simp add: pdu_checksum_def h cong: if_cong)
  also have "of_nat (be_total ?h) + of_nat (be_total p) = (of_nat (tcp_total s d p) :: u32)" by (simp add: tcp_total_sum l)
  also have "(ucast (NOT (fold_carry (of_nat (tcp_total s d p)))) :: u16) = inet_cksum (tcp_total s d p)"
    unfolding fold_complement unat_of_nat using tcp_total_bound [OF assms(2), of s d] by simp
  finally show ?thesis .
qed

lemma seg_checksum_spec:
  assumes "seg_ok seg"
  shows "tcp_seg_checksum seg = Inr (htons (inet_cksum (tcp_total (sg_src_ip seg) (sg_dst_ip seg) (seg_packet seg (sg_checksum seg)))))"
proof -
  let ?p = "seg_packet seg (sg_checksum seg)" and ?o = "take (nat (sg_opt_len seg)) (sg_options seg)"
  let ?h = "ipv4_pseudo (sg_src_ip seg) (sg_dst_ip seg) (of_nat (length ?p))" and ?t = "seg_header seg (htons (sg_checksum seg))"
  have len: "length ?p < 65536" by (rule seg_packet_size(2) [OF assms])
  have n: "of_int (TCP_HEADER_BYTES (sg_flags seg) + sg_data_len seg) = (of_nat (length ?p) :: u16)"
  proof -
    have "TCP_HEADER_BYTES (sg_flags seg) + sg_data_len seg = int (length ?p)"
      using assms seg_packet_size(1) [OF assms] by (simp add: seg_ok_def TCP_OPTIONS_BYTES_def)
    then show ?thesis by simp
  qed
  have s1: "sum_words (?h @ ?t) 0 16 0 = Inr (of_nat (be_total (?h @ ?t)))" using sum_words_all [of 16 "?h @ ?t" 0] by simp
  have k: "nat ((sg_opt_len seg + 1) div 2) = nat (sg_opt_len seg) div 2" "2 * (nat (sg_opt_len seg) div 2) = nat (sg_opt_len seg)"
    "nat (sg_opt_len seg) \<le> length (sg_options seg)" "even (nat (sg_opt_len seg))"
  proof -
    have o: "0 \<le> sg_opt_len seg" "sg_opt_len seg \<le> 40" "even (sg_opt_len seg)" "length (sg_options seg) = 40"
      using assms by (auto simp: seg_ok_def)
    then obtain b :: nat where b: "sg_opt_len seg = 2 * int b" by (metis evenE nonneg_int_cases zero_le_mult_iff zero_less_numeral not_less)
    show "nat ((sg_opt_len seg + 1) div 2) = nat (sg_opt_len seg) div 2" "2 * (nat (sg_opt_len seg) div 2) = nat (sg_opt_len seg)"
      "nat (sg_opt_len seg) \<le> length (sg_options seg)" "even (nat (sg_opt_len seg))"
      using o unfolding b by (simp_all add: nat_mult_distrib)
  qed
  have s2: "sum_words (sg_options seg) 0 (nat ((sg_opt_len seg + 1) div 2)) acc = Inr (acc + of_nat (be_total ?o))" for acc
    using sum_words_total [of 0 "nat (sg_opt_len seg) div 2" "sg_options seg" acc] k by simp
  have d: "(case sg_data seg of None \<Rightarrow> [] | Some d \<Rightarrow> d) = seg_payload seg" if "sg_data_len seg > 0"
    using that by (simp add: seg_payload_def)
  have m: "sg_data_len seg = int (length (seg_payload seg))" using assms by (simp add: seg_ok_def)
  have e: "even (length ?o)" using k(3,4) by (simp add: min_def)
  have tot: "tcp_total (sg_src_ip seg) (sg_dst_ip seg) ?p = be_total (?h @ ?t) + be_total ?o + be_total (seg_payload seg)"
    using e by (simp add: tcp_total_def seg_packet_def be_total_append)
  have "tcp_seg_checksum seg = Inr (htons (ucast (NOT (fold_carry
      (of_nat (be_total (?h @ ?t)) + of_nat (be_total ?o) + of_nat (be_total (seg_payload seg)))))))"
  proof (cases "sg_data_len seg > 0")
    case True
    have o: "even (sg_data_len seg) \<longleftrightarrow> even (length (seg_payload seg))"
      "nat (sg_data_len seg div 2) = length (seg_payload seg) div 2" using m by simp_all
    show ?thesis
      unfolding tcp_seg_checksum_def Let_def n s1 andThen_Inr s2 d [OF True] o
      by (rule sum_tail [OF refl, of "seg_payload seg" _ "\<lambda>s. Inr (htons (ucast (NOT (fold_carry s))))"])
  next
    case False
    then have "sg_data_len seg = 0" "seg_payload seg = []" using m by auto
    then show ?thesis unfolding tcp_seg_checksum_def Let_def n s1 andThen_Inr s2 by simp
  qed
  also have "of_nat (be_total (?h @ ?t)) + of_nat (be_total ?o) + of_nat (be_total (seg_payload seg)) =
      (of_nat (tcp_total (sg_src_ip seg) (sg_dst_ip seg) ?p) :: u32)" unfolding tot by simp
  finally show ?thesis
    unfolding fold_complement unat_of_nat using tcp_total_bound [OF len, of "sg_src_ip seg" "sg_dst_ip seg"] by simp
qed

section \<open>Frames\<close>

lemma copy_ok:
  assumes "seg_ok seg"
  shows "copy_options_data seg (seg_header seg 0 @ replicate (nat (sg_opt_len seg + sg_data_len seg)) 0) = Inr (seg_packet seg 0)"
proof -
  let ?o = "take (nat (sg_opt_len seg)) (sg_options seg)" and ?h = "seg_header seg 0"
  have ol: "length ?o = nat (sg_opt_len seg)" using assms by (auto simp: seg_ok_def)
  have dl: "length (seg_payload seg) = nat (sg_data_len seg)" using assms by (simp add: seg_ok_def)
  have sl: "slice (sg_options seg) 0 (nat (sg_opt_len seg)) = Inr ?o" using assms by (auto simp: seg_ok_def slice_def)
  have k: "nat (sg_opt_len seg + sg_data_len seg) = nat (sg_opt_len seg) + nat (sg_data_len seg)"
    using assms by (simp add: seg_ok_def nat_add_distrib)
  have d: "seg_bytes seg = Inr (seg_payload seg)" if "sg_data_len seg > 0"
    using that dl by (auto simp: seg_bytes_def seg_payload_def slice_def split: option.splits)
  have z: "seg_payload seg = []" if "\<not> sg_data_len seg > 0" using that by (simp add: seg_payload_def)
  have h: "htons 0 = 0" by (simp add: htons_def mk16_def lo8_def hi8_def)
  have b1: "blit (?h @ replicate (nat (sg_opt_len seg) + nat (sg_data_len seg)) 0) MIN_TCP_HEADER_BYTES ?o =
      Inr ((?h @ ?o) @ replicate (nat (sg_data_len seg)) 0)"
    using blit_append [of ?o "nat (sg_opt_len seg) + nat (sg_data_len seg)" ?h] ol by (simp add: MIN_TCP_HEADER_BYTES_def)
  have b2: "blit ((?h @ ?o) @ replicate (nat (sg_data_len seg)) 0) (MIN_TCP_HEADER_BYTES + nat (sg_opt_len seg)) (seg_payload seg) =
      Inr ((?h @ ?o) @ seg_payload seg)"
    using blit_append [of "seg_payload seg" "nat (sg_data_len seg)" "?h @ ?o"] ol dl by (simp add: MIN_TCP_HEADER_BYTES_def)
  show ?thesis
  proof (cases "sg_opt_len seg > 0")
    case True
    then show ?thesis using sl b1 b2 d z
      by (cases "sg_data_len seg > 0") (auto simp: copy_options_data_def k seg_packet_def h)
  next
    case False
    then have o: "?o = []" "nat (sg_opt_len seg) = 0" by simp_all
    show ?thesis using False b2 d z
      by (cases "sg_data_len seg > 0") (auto simp: copy_options_data_def k seg_packet_def h o)
  qed
qed

lemma tcp_names: "config_validate_name ''send_protocol''" "config_validate_name ''send_family''" "config_validate_name ''send_src_ipv4''"
    "config_validate_name ''send_src_port''" "config_validate_name ''send_dst_ipv4''" "config_validate_name ''send_dst_port''"
  by code_simp+

lemma tcp_to_fdf_ok:
  assumes "seg_ok seg"
  obtains ff meta where "tcp_to_fdf seg = Inr ff" "ff = zeroFrame\<lparr>dataOrCtrl := FF_DATA, metaData := Some meta,
      dataFrame := \<lparr>directionFlag = DIR_DOWN, pduLength = of_nat (length (seg_packet seg 0)),
        pdu = Some (seg_packet seg (sg_checksum (seg_received seg)))\<rparr>\<rparr>" "tcp_send_meta meta seg"
proof -
  let ?ws = "[(''send_protocol'', TCP_PT_TCP), (''send_family'', of_nat AF_INET),
       (''send_src_ipv4'', sg_src_ip seg), (''send_src_port'', ucast (sg_src_port seg)),
       (''send_dst_ipv4'', sg_dst_ip seg), (''send_dst_port'', ucast (sg_dst_port seg))]"
  have "meta_plain metadata_create" by (simp add: meta_plain_def metadata_create_def)
  moreover have "\<forall>t \<in> fst ` set ?ws. free_u32 metadata_create t" using tcp_names by (simp add: free_u32_def metadata_create_def)
  ultimately obtain meta where meta: "meta_writes metadata_create ?ws = Inr meta" "meta_plain meta"
    "map_of meta = map_of metadata_create ++ map_of (rev (map (\<lambda>(t, v). (t, CInt v)) ?ws))"
    using writes_ok [of metadata_create ?ws] by blast
  then have sm: "tcp_send_meta meta seg" by (auto simp: tcp_send_meta_def metadata_create_def fun_eq_iff)
  let ?n = "length (seg_packet seg 0)" and ?len = "of_int (sg_data_len seg + TCP_HEADER_BYTES (sg_flags seg)) :: u32"
  have n: "int ?n = sg_data_len seg + TCP_HEADER_BYTES (sg_flags seg)" "?n < 65536" "?n - 20 = nat (sg_opt_len seg + sg_data_len seg)" "20 \<le> ?n"
    using assms seg_packet_size [OF assms, of 0] by (auto simp: seg_ok_def TCP_OPTIONS_BYTES_def)
  have len: "?len = of_nat ?n" by (simp flip: n(1))
  have ul: "unat (of_nat ?n :: u32) = ?n" unfolding unat_of_nat using n(2) by simp
  have b: "blit (replicate ?n 0) 0 (seg_header seg 0) = Inr (seg_header seg 0 @ replicate (nat (sg_opt_len seg + sg_data_len seg)) 0)"
    using blit_zeros [of "seg_header seg 0" ?n] n(3,4) by simp
  have c: "pdu_checksum (ipv4_pseudo (sg_src_ip seg) (sg_dst_ip seg) (ucast (of_nat ?n :: u32))) (seg_packet seg 0) (of_nat ?n) =
      Inr (sg_checksum (seg_received seg))"
    using pdu_checksum_spec [of "seg_packet seg 0" "of_nat ?n"] ul n(2) by (simp add: seg_received_def)
  have e: "blit (seg_packet seg 0) 16 (mem16 (htons (sg_checksum (seg_received seg)))) = Inr (seg_packet seg (sg_checksum (seg_received seg)))"
    using blit_checksum [of "seg_packet seg 0"] n(4) seg_packet_put [of seg "sg_checksum (seg_received seg)"] by simp
  have "tcp_to_fdf seg = Inr (zeroFrame\<lparr>dataOrCtrl := FF_DATA, metaData := Some meta,
      dataFrame := \<lparr>directionFlag = DIR_DOWN, pduLength = of_nat ?n, pdu = Some (seg_packet seg (sg_checksum (seg_received seg)))\<rparr>\<rparr>)"
    unfolding tcp_to_fdf_def meta(1) andThen_Inr Let_def len ul b copy_ok [OF assms] c e ..
  from that [OF this refl sm] show thesis .
qed

lemma header_loads:
  assumes "p = seg_header seg (htons ck) @ rest"
  shows "seg_of_header p s d = Inr ((tcp_seg_create s (sg_src_port seg) d (sg_dst_port seg) (sg_seq_num seg) 0)
    \<lparr>sg_ack_num := sg_ack_num seg, sg_flags := sg_flags seg, sg_win_size := sg_win_size seg,
     sg_checksum := ck, sg_urg_pointer := sg_urg_pointer seg\<rparr>)"
proof -
  have l16: "load16 (xs @ mem16 w @ ys) (int (length xs)) = Inr w" for xs w ys
    by (simp add: load16_def mem16_def load8_append load8_Cons)
  have l32: "load32 (xs @ mem32 w @ ys) (int (length xs)) = Inr w" for xs w ys
    by (simp add: load32_def mem32_def load8_append load8_Cons)
  let ?a = "mem16 (htons (sg_src_port seg))" and ?b = "mem16 (htons (sg_dst_port seg))" and ?c = "mem32 (htonl (sg_seq_num seg))"
    and ?d = "mem32 (htonl (sg_ack_num seg))" and ?e = "mem16 (htons (sg_flags seg))" and ?f = "mem16 (htons (sg_win_size seg))"
    and ?g = "mem16 (htons ck)" and ?h = "mem16 (htons (sg_urg_pointer seg))"
  have p: "p = ?a @ ?b @ ?c @ ?d @ ?e @ ?f @ ?g @ ?h @ rest" using assms by (simp add: seg_header_def tcpv4_header_def)
  have "load16 p 0 = Inr (htons (sg_src_port seg))" using l16 [of "[]"] p by simp
  moreover have "load16 p 2 = Inr (htons (sg_dst_port seg))" using l16 [of ?a] p by simp
  moreover have "load32 p 4 = Inr (htonl (sg_seq_num seg))" using l32 [of "?a @ ?b"] p by simp
  moreover have "load32 p 8 = Inr (htonl (sg_ack_num seg))" using l32 [of "?a @ ?b @ ?c"] p by simp
  moreover have "load16 p 12 = Inr (htons (sg_flags seg))" using l16 [of "?a @ ?b @ ?c @ ?d"] p by simp
  moreover have "load16 p 14 = Inr (htons (sg_win_size seg))" using l16 [of "?a @ ?b @ ?c @ ?d @ ?e"] p by simp
  moreover have "load16 p 16 = Inr (htons ck)" using l16 [of "?a @ ?b @ ?c @ ?d @ ?e @ ?f"] p by simp
  moreover have "load16 p 18 = Inr (htons (sg_urg_pointer seg))" using l16 [of "?a @ ?b @ ?c @ ?d @ ?e @ ?f @ ?g"] p by simp
  ultimately show ?thesis by (simp add: seg_of_header_def)
qed

lemma recv_meta_tcp:
  assumes "tcp_recv_meta meta s d"
  shows "secure_metadata_read_u32 meta ''recv_protocol'' = Inr TCP_PT_TCP" "secure_metadata_read_u32 meta ''recv_src_ipv4'' = Inr s"
    "secure_metadata_read_u32 meta ''recv_dst_ipv4'' = Inr d" "\<exists>f. secure_metadata_read_u32 meta ''recv_family'' = Inr f"
  using assms by (auto simp: tcp_recv_meta_def intro: has_read)

lemma sint_of_small: "0 \<le> k \<Longrightarrow> k < 2147483648 \<Longrightarrow> sint (of_int k :: u32) = k"
  by (simp add: sint_word_ariths signed_of_int signed_take_bit_int_eq_self)

lemma fdf_to_tcp_ok:
  assumes ok: "seg_ok seg" and ff: "pdu (dataFrame ff) = Some (seg_packet seg (sg_checksum (seg_received seg)))"
    "pduLength (dataFrame ff) = of_nat (length (seg_packet seg 0))" "metaData ff = Some meta"
    and meta: "tcp_recv_meta meta (sg_src_ip seg) (sg_dst_ip seg)"
  shows "fdf_to_tcp ff = Inr (Some (seg_received seg))"
proof -
  let ?ck = "sg_checksum (seg_received seg)" and ?n = "sg_opt_len seg" and ?k = "sg_data_len seg"
  let ?p = "seg_packet seg ?ck" and ?o = "take (nat (sg_opt_len seg)) (sg_options seg)"
  have sz: "int (length (seg_packet seg 0)) = 20 + ?n + ?k" "length (seg_packet seg 0) < 65536" "20 \<le> length (seg_packet seg 0)"
    "length ?p = length (seg_packet seg 0)"
    using seg_packet_size [OF ok, of 0] seg_packet_size(1) [OF ok, of ?ck] by simp_all
  have n: "0 \<le> ?n" "?n \<le> 40" "length (sg_options seg) = 40" "0 \<le> ?k" "?k = int (length (seg_payload seg))"
    "TCP_OPTIONS_BYTES (sg_flags seg) = ?n" using ok by (auto simp: seg_ok_def)
  have ul: "unat (of_nat (length (seg_packet seg 0)) :: u32) = length (seg_packet seg 0)" unfolding unat_of_nat using sz(2) by simp
  have k: "sint (of_nat (length (seg_packet seg 0)) - of_int (TCP_HEADER_BYTES (sg_flags seg)) :: u32) = ?k"
  proof -
    have "TCP_HEADER_BYTES (sg_flags seg) = 20 + ?n" using n(6) by (simp add: TCP_OPTIONS_BYTES_def)
    then have "of_nat (length (seg_packet seg 0)) - of_int (TCP_HEADER_BYTES (sg_flags seg)) = (of_int ?k :: u32)"
      using sz(1) by (metis add_diff_cancel_left' of_int_diff of_int_of_nat_eq)
    moreover have "?k < 2147483648" using sz(1,2) n(1) by linarith
    ultimately show ?thesis using sint_of_small [OF n(4)] by simp
  qed
  have h: "seg_of_header ?p s d = Inr ((tcp_seg_create s (sg_src_port seg) d (sg_dst_port seg) (sg_seq_num seg) 0)
    \<lparr>sg_ack_num := sg_ack_num seg, sg_flags := sg_flags seg, sg_win_size := sg_win_size seg,
     sg_checksum := ?ck, sg_urg_pointer := sg_urg_pointer seg\<rparr>)" for s d
    by (rule header_loads) (simp add: seg_packet_def)
  have ol: "length ?o = nat ?n" using n by simp
  have so: "(if ?n > 0 then slice ?p MIN_TCP_HEADER_BYTES (nat ?n) else Inr []) = Inr ?o"
    using ol by (simp add: slice_def MIN_TCP_HEADER_BYTES_def seg_packet_def)
  have tn: "nat (20 + ?n) = 20 + nat ?n" using n(1) by simp
  have sd: "(if ?k > 0 then andThen (slice ?p (nat (20 + ?n)) (nat ?k)) (\<lambda>d. Inr (Some d)) else Inr None) =
      Inr (if ?k > 0 then Some (seg_payload seg) else None)"
    using ol n(5) unfolding tn by (simp add: slice_def seg_packet_def)
  have st: "take (nat ?n) (sg_options seg) @ drop (nat ?n) (replicate 40 0) = sg_options (seg_received seg)"
    by (simp add: seg_received_def)
  obtain f where fam: "secure_metadata_read_u32 meta ''recv_family'' = Inr f" using recv_meta_tcp(4) [OF meta] by blast
  have big: "\<not> length (seg_packet seg 0) < MIN_TCP_HEADER_BYTES" using sz(3) by (simp add: MIN_TCP_HEADER_BYTES_def)
  let ?g = "(tcp_seg_create (sg_src_ip seg) (sg_src_port seg) (sg_dst_ip seg) (sg_dst_port seg) (sg_seq_num seg) 0)
    \<lparr>sg_ack_num := sg_ack_num seg, sg_flags := sg_flags seg, sg_win_size := sg_win_size seg,
     sg_checksum := ?ck, sg_urg_pointer := sg_urg_pointer seg\<rparr>"
  have g: "sg_flags ?g = sg_flags seg" "sg_seq_num ?g = sg_seq_num seg" "sg_options ?g = replicate 40 0"
    by (simp_all add: tcp_seg_create_def MAX_TCP_OPTIONS_BYTES_def)
  show ?thesis
    unfolding fdf_to_tcp_def ff(2) ul if_not_P [OF big] ff(3) option.case recv_meta_tcp(1-3) [OF meta] fam andThen_Inr
      simp_thms(6) not_not if_True ff(1) h Let_def g n(6) k so sd ol
    by (cases seg) (simp add: seg_received_def tcp_seg_create_def)
qed

text \<open>
  C38: a segment of consistent lengths survives the way to IPv4 and back: \<^verbatim>\<open>tcp_to_fdf\<close> makes a frame whose metadata names the
  two ends, and from a frame with the same packet \<^verbatim>\<open>fdf_to_tcp\<close> of the receiver makes a segment with the same ports,
  numbers, flags, window, options and data, for which \<^verbatim>\<open>tcp_seg_checksum\<close> gives 0.
\<close>

theorem tcp_segment_roundtrip:
  assumes "seg_ok seg" "tcp_recv_meta meta (sg_src_ip seg) (sg_dst_ip seg)"
  shows "\<exists>ff sm. tcp_to_fdf seg = Inr ff \<and> metaData ff = Some sm \<and> tcp_send_meta sm seg \<and>
    (\<exists>seg'. fdf_to_tcp (ff\<lparr>metaData := Some meta, dataFrame := (dataFrame ff)\<lparr>directionFlag := DIR_UP\<rparr>\<rparr>) = Inr (Some seg')
      \<and> tcp_seg_checksum seg' = Inr 0 \<and> seg_payload seg' = seg_payload seg
      \<and> take (nat (sg_opt_len seg)) (sg_options seg') = take (nat (sg_opt_len seg)) (sg_options seg)
      \<and> seg' = seg\<lparr>sg_checksum := sg_checksum seg', sg_options := sg_options seg', sg_data := sg_data seg',
                 sg_seq_end := sg_seq_num seg + of_int (sg_data_len seg)\<rparr>)"
proof -
  let ?r = "seg_received seg"
  obtain ff sm where ff: "tcp_to_fdf seg = Inr ff" "ff = zeroFrame\<lparr>dataOrCtrl := FF_DATA, metaData := Some sm,
      dataFrame := \<lparr>directionFlag = DIR_DOWN, pduLength = of_nat (length (seg_packet seg 0)),
        pdu = Some (seg_packet seg (sg_checksum ?r))\<rparr>\<rparr>" "tcp_send_meta sm seg"
    by (rule tcp_to_fdf_ok [OF assms(1)])
  let ?f = "ff\<lparr>metaData := Some meta, dataFrame := (dataFrame ff)\<lparr>directionFlag := DIR_UP\<rparr>\<rparr>"
  have bk: "fdf_to_tcp ?f = Inr (Some ?r)" by (rule fdf_to_tcp_ok [OF assms(1) _ _ _ assms(2)]) (simp_all add: ff(2))
  have pay: "seg_payload ?r = seg_payload seg" by (simp add: seg_received_def seg_payload_def)
  have opt: "take (nat (sg_opt_len seg)) (sg_options ?r) = take (nat (sg_opt_len seg)) (sg_options seg)"
    using assms(1) by (auto simp: seg_received_def seg_ok_def)
  have ok: "seg_ok ?r" using assms(1) pay by (auto simp: seg_ok_def seg_received_def)
  have "sg_opt_len ?r = sg_opt_len seg" "seg_header ?r c = seg_header seg c" for c by (simp_all add: seg_received_def seg_header_def)
  then have "seg_packet ?r c = seg_packet seg c" for c using pay opt by (simp add: seg_packet_def)
  moreover have "18 \<le> length (seg_packet seg 0)" using seg_packet_size(3) [OF assms(1), of 0] by simp
  ultimately have "tcp_seg_checksum ?r = Inr (htons 0)"
    using seg_checksum_spec [OF ok] tcp_ck.verifies [of "seg_packet seg 0" "sg_src_ip seg" "sg_dst_ip seg"]
      seg_packet_put [of seg "sg_checksum ?r"] seg_packet_put [of seg 0]
    by (simp add: seg_received_def)
  then have "tcp_seg_checksum ?r = Inr 0" by (simp add: htons_def mk16_def lo8_def hi8_def)
  moreover have "?r = seg\<lparr>sg_checksum := sg_checksum ?r, sg_options := sg_options ?r, sg_data := sg_data ?r,
      sg_seq_end := sg_seq_num seg + of_int (sg_data_len seg)\<rparr>" by (simp add: seg_received_def)
  ultimately show ?thesis using ff bk pay opt by (intro exI [of _ ff] exI [of _ sm]) auto
qed

lemma ex_tcp_recv_ok: "tcp_recv_meta ex_tcp_recv 1 2"
proof -
  have "meta_plain ex_tcp_recv" unfolding meta_plain_def by code_simp
  moreover have "config_validate_name ''recv_protocol''" "config_validate_name ''recv_family''"
    "config_validate_name ''recv_src_ipv4''" "config_validate_name ''recv_dst_ipv4''" by code_simp+
  ultimately show ?thesis by (simp add: tcp_recv_meta_def ex_tcp_recv_def has_u32_def TCP_PT_TCP_def)
qed

theorem tcp_segment_roundtrip_witness:
  "\<exists>ff seg'. tcp_to_fdf ex_seg = Inr ff
    \<and> fdf_to_tcp (ff\<lparr>metaData := Some ex_tcp_recv, dataFrame := (dataFrame ff)\<lparr>directionFlag := DIR_UP\<rparr>\<rparr>) = Inr (Some seg')
    \<and> tcp_seg_checksum seg' = Inr 0 \<and> seg_payload seg' = [1, 2, 3]"
proof -
  have f: "TCP_OPTIONS_BYTES (sg_flags ex_seg) = 0" by code_simp
  then have "seg_ok ex_seg"
    by (simp add: seg_ok_def ex_seg_def tcp_seg_create_def MAX_TCP_OPTIONS_BYTES_def seg_payload_def)
  moreover have "sg_src_ip ex_seg = 1" "sg_dst_ip ex_seg = 2" "seg_payload ex_seg = [1, 2, 3]"
    by (simp_all add: ex_seg_def tcp_seg_create_def seg_payload_def)
  ultimately show ?thesis using tcp_segment_roundtrip [of ex_seg ex_tcp_recv] ex_tcp_recv_ok by auto
qed

lemma header_flags:
  assumes "20 \<le> length p"
  obtains seg where "seg_of_header p s d = Inr seg" "sg_flags seg = mk16 (p ! 12) (p ! 13)" "sg_options seg = replicate 40 0"
    "sg_seq_num seg = mk32 (p ! 4) (p ! 5) (p ! 6) (p ! 7)"
proof -
  have l8: "load8 p n = Inr (p ! nat n)" if "0 \<le> n" "n < 20" for n using that assms by (simp add: load8_def)
  then show thesis
    using that by (simp add: seg_of_header_def load16_def load32_def tcp_seg_create_def ntohl_def MAX_TCP_OPTIONS_BYTES_def)
qed

lemma header_bytes_bounds: "0 \<le> TCP_HEADER_BYTES flags" "TCP_HEADER_BYTES flags \<le> 60"
proof -
  have "unat (drop_bit 12 (flags AND FLAG_DATAOFFSET)) = unat (flags AND FLAG_DATAOFFSET) div 4096"
    by (simp only: unat_drop_bit_eq) (simp add: drop_bit_eq_div)
  moreover have "unat (flags AND FLAG_DATAOFFSET) < 2 ^ LENGTH(16)" by (rule unsigned_less)
  then have "unat (flags AND FLAG_DATAOFFSET) div 4096 < 16" by (simp add: less_mult_imp_div_less)
  ultimately show "TCP_HEADER_BYTES flags \<le> 60" by (simp add: TCP_HEADER_BYTES_def)
  show "0 \<le> TCP_HEADER_BYTES flags" by (simp add: TCP_HEADER_BYTES_def)
qed

text \<open>
  C39: \<^verbatim>\<open>fdf_to_tcp\<close> trusts the data offset of the header. An offset behind the end of the packet makes it copy options from
  outside the packet; an offset below the 20 bytes of the header makes it deliver the rest of the header as data.
\<close>

theorem tcp_offset_trusted:
  assumes "metaData ff = Some meta" "tcp_recv_meta meta src dst" "pdu (dataFrame ff) = Some p"
    "pduLength (dataFrame ff) = of_nat (length p)" "20 \<le> length p" "length p < 65536"
  shows "(int (length p) < TCP_HEADER_BYTES (mk16 (p ! 12) (p ! 13)) \<longrightarrow> fdf_to_tcp ff = Inl MemFault) \<and>
    (TCP_HEADER_BYTES (mk16 (p ! 12) (p ! 13)) < 20 \<longrightarrow>
      (\<exists>seg. fdf_to_tcp ff = Inr (Some seg) \<and> sg_data seg = Some (drop (nat (TCP_HEADER_BYTES (mk16 (p ! 12) (p ! 13)))) p)))"
proof -
  let ?hb = "TCP_HEADER_BYTES (mk16 (p ! 12) (p ! 13))"
  obtain seg where seg: "seg_of_header p src dst = Inr seg" "sg_flags seg = mk16 (p ! 12) (p ! 13)"
    by (rule header_flags [OF assms(5)])
  obtain f where f: "secure_metadata_read_u32 meta ''recv_family'' = Inr f" using recv_meta_tcp(4) [OF assms(2)] by blast
  have ul: "unat (of_nat (length p) :: u32) = length p" unfolding unat_of_nat using assms(6) by simp
  have big: "\<not> length p < MIN_TCP_HEADER_BYTES" using assms(5) by (simp add: MIN_TCP_HEADER_BYTES_def)
  let ?n = "TCP_OPTIONS_BYTES (sg_flags seg)" and ?k = "sint (of_nat (length p) - of_int (TCP_HEADER_BYTES (sg_flags seg)) :: u32)"
  have run: "fdf_to_tcp ff =
     andThen (if ?n > 0 then slice p MIN_TCP_HEADER_BYTES (nat ?n) else Inr []) (\<lambda>os.
     andThen (if ?k > 0 then andThen (slice p (nat (20 + ?n)) (nat ?k)) (\<lambda>d. Inr (Some d)) else Inr None) (\<lambda>d.
       Inr (Some (seg\<lparr>sg_opt_len := ?n, sg_options := os @ drop (length os) (sg_options seg), sg_data_len := ?k, sg_data := d,
                   sg_seq_end := sg_seq_num seg + of_int ?k\<rparr>))))"
    unfolding fdf_to_tcp_def assms(4) ul if_not_P [OF big] assms(1) option.case recv_meta_tcp(1-3) [OF assms(2)] f andThen_Inr
      simp_thms(6) not_not if_True assms(3) seg(1) Let_def by simp
  have n: "?n = ?hb - 20" by (simp add: seg(2) TCP_OPTIONS_BYTES_def)
  have "fdf_to_tcp ff = Inl MemFault" if "int (length p) < ?hb"
  proof -
    have "?n > 0" "\<not> MIN_TCP_HEADER_BYTES + nat ?n \<le> length p" using that n assms(5) by (auto simp: MIN_TCP_HEADER_BYTES_def)
    then show ?thesis unfolding run by (simp add: slice_def)
  qed
  moreover have "\<exists>seg. fdf_to_tcp ff = Inr (Some seg) \<and> sg_data seg = Some (drop (nat ?hb) p)" if "?hb < 20"
  proof -
    have b: "0 \<le> ?hb" by (rule header_bytes_bounds)
    have "of_nat (length p) - of_int ?hb = (of_int (int (length p) - ?hb) :: u32)" by simp
    then have k: "?k = int (length p) - ?hb"
      using sint_of_small [of "int (length p) - ?hb"] assms(5,6) b that seg(2) by simp
    have "nat (20 + ?n) + nat ?k \<le> length p" "?k > 0" "nat (20 + ?n) = nat ?hb" "nat ?k = length p - nat ?hb" "\<not> ?n > 0"
      using k n b that assms(5) by auto
    then show ?thesis unfolding run by (simp add: slice_def)
  qed
  ultimately show ?thesis by blast
qed

theorem tcp_offset_trusted_witness:
  "fdf_to_tcp (ex_tcp_frame (replicate 12 0 @ [0x60] @ replicate 8 0)) = Inl MemFault \<and>
    (\<exists>seg. fdf_to_tcp (ex_tcp_frame (replicate 12 0 @ [0x40] @ replicate 8 0)) = Inr (Some seg) \<and> sg_data seg = Some (replicate 5 0))"
proof -
  have h: "TCP_HEADER_BYTES (mk16 0x60 0) = 24" "TCP_HEADER_BYTES (mk16 0x40 0) = 16" by code_simp+
  have 1: "(replicate 12 0 @ [x] @ replicate 8 0) ! 12 = x" "(replicate 12 0 @ [x] @ replicate 8 0) ! 13 = 0" for x :: u8
    by (simp_all add: nth_append)
  have 2: "drop 16 (replicate 12 0 @ [x] @ replicate 8 0) = replicate 5 0" for x :: u8 by simp
  show ?thesis
    using tcp_offset_trusted [of "ex_tcp_frame (replicate 12 0 @ [0x60] @ replicate 8 0)" ex_tcp_recv 1 2 "replicate 12 0 @ [0x60] @ replicate 8 0"]
      tcp_offset_trusted [of "ex_tcp_frame (replicate 12 0 @ [0x40] @ replicate 8 0)" ex_tcp_recv 1 2 "replicate 12 0 @ [0x40] @ replicate 8 0"]
      ex_tcp_recv_ok h 1 2 by (simp add: ex_tcp_frame_def)
qed

section \<open>Taking data\<close>

lemma add_data_takes:
  assumes "list_all (\<lambda>x. unat (tn_len x) = length (tn_data x) \<and> tn_data x \<noteq> []) xs"
    and "case xs of [] \<Rightarrow> index = 0 | x # ys \<Rightarrow> unat index < length (tn_data x)"
    and "unat n \<le> length (queue_stream xs index)"
  shows "\<exists>ys len' index'. add_data_loop xs len index n acc = Inr (acc @ take (unat n) (queue_stream xs index), ys, len', index')
    \<and> queue_stream ys index' = drop (unat n) (queue_stream xs index)
    \<and> len' = len - sum_list (map tn_len xs) + sum_list (map tn_len ys)
    \<and> list_all (\<lambda>x. unat (tn_len x) = length (tn_data x) \<and> tn_data x \<noteq> []) ys
    \<and> (case ys of [] \<Rightarrow> index' = 0 | x # zs \<Rightarrow> unat index' < length (tn_data x))"
  using assms
proof (induction xs arbitrary: len index n acc)
  case Nil
  then show ?case by (simp add: queue_stream_def)
next
  case (Cons x xs)
  have x: "unat (tn_len x) = length (tn_data x)" "unat index < length (tn_data x)" using Cons.prems(1,2) by auto
  have le: "index \<le> tn_len x" using x by (simp add: word_le_nat_alt)
  have av: "unat (tn_len x - index) = length (tn_data x) - unat index" using le x(1) by (simp add: unat_sub)
  have st: "queue_stream (x # xs) index = drop (unat index) (tn_data x) @ concat (map tn_data xs)" using x(2) by (simp add: queue_stream_def)
  show ?case
  proof (cases "n = 0")
    case True
    then show ?thesis using Cons.prems by (intro exI [of _ "x # xs"] exI [of _ len] exI [of _ index]) simp
  next
    case False
    show ?thesis
    proof (cases "n < tn_len x - index")
      case True
      then have t: "unat n < length (tn_data x) - unat index" using av by (simp add: word_less_nat_alt)
      have "unat index + unat n < 2 ^ LENGTH(32)" using t x(1) unat_u32_bound [of "tn_len x"] by simp
      then have un: "unat (index + n) = unat index + unat n" using unat_add_lem by blast
      have sl: "slice (tn_data x) (unat index) (unat n) = Inr (take (unat n) (queue_stream (x # xs) index))"
        using t st by (simp add: slice_def)
      have "queue_stream (x # xs) (index + n) = drop (unat n) (queue_stream (x # xs) index)"
        unfolding queue_stream_def un drop_drop by (simp only: add.commute)
      then show ?thesis using False True sl Cons.prems(1) t un
        by (intro exI [of _ "x # xs"] exI [of _ len] exI [of _ "index + n"]) simp
    next
      case nl: False
      then have t: "length (tn_data x) - unat index \<le> unat n" using av by (simp add: word_less_nat_alt)
      have sl: "slice (tn_data x) (unat index) (unat (tn_len x - index)) = Inr (drop (unat index) (tn_data x))"
        using av x(2) by (simp add: slice_def)
      have un: "unat (n - (tn_len x - index)) = unat n - (length (tn_data x) - unat index)"
        using nl av by (simp add: unat_sub)
      have "\<exists>ys len' index'. add_data_loop xs (len - tn_len x) 0 (n - (tn_len x - index)) (acc @ drop (unat index) (tn_data x)) =
          Inr ((acc @ drop (unat index) (tn_data x)) @ take (unat (n - (tn_len x - index))) (queue_stream xs 0), ys, len', index')
        \<and> queue_stream ys index' = drop (unat (n - (tn_len x - index))) (queue_stream xs 0)
        \<and> len' = len - tn_len x - sum_list (map tn_len xs) + sum_list (map tn_len ys)
        \<and> list_all (\<lambda>x. unat (tn_len x) = length (tn_data x) \<and> tn_data x \<noteq> []) ys
        \<and> (case ys of [] \<Rightarrow> index' = 0 | x # zs \<Rightarrow> unat index' < length (tn_data x))"
      proof (rule Cons.IH)
        show "case xs of [] \<Rightarrow> 0 = 0 | x # ys \<Rightarrow> unat 0 < length (tn_data x)" using Cons.prems(1) by (cases xs) auto
        show "unat (n - (tn_len x - index)) \<le> length (queue_stream xs 0)" using Cons.prems(3) st un x(2) by (simp add: queue_stream_def)
      qed (use Cons.prems(1) in auto)
      then obtain ys len' index' where r: "add_data_loop xs (len - tn_len x) 0 (n - (tn_len x - index)) (acc @ drop (unat index) (tn_data x)) =
          Inr ((acc @ drop (unat index) (tn_data x)) @ take (unat (n - (tn_len x - index))) (queue_stream xs 0), ys, len', index')"
        "queue_stream ys index' = drop (unat (n - (tn_len x - index))) (queue_stream xs 0)"
        "len' = len - tn_len x - sum_list (map tn_len xs) + sum_list (map tn_len ys)"
        "list_all (\<lambda>x. unat (tn_len x) = length (tn_data x) \<and> tn_data x \<noteq> []) ys"
        "case ys of [] \<Rightarrow> index' = 0 | x # zs \<Rightarrow> unat index' < length (tn_data x)" by blast
      have "drop (unat index) (tn_data x) @ take (unat (n - (tn_len x - index))) (queue_stream xs 0) = take (unat n) (queue_stream (x # xs) index)"
        "drop (unat (n - (tn_len x - index))) (queue_stream xs 0) = drop (unat n) (queue_stream (x # xs) index)"
        using t un st by (simp_all add: queue_stream_def)
      then show ?thesis using False nl sl r
        by (intro exI [of _ ys] exI [of _ len'] exI [of _ index']) (simp add: Let_def diff_diff_eq)
    qed
  qed
qed

text \<open>
  C40: \<^verbatim>\<open>tcp_seg_add_data\<close> moves the next bytes of the written data into the segment: as many as asked for, in order, across
  the nodes of the queue, leaving exactly the rest; the end number of the segment follows its data.
\<close>

theorem tcp_seg_add_data_moves:
  assumes "stream_ok q index" "unat n \<le> length (queue_stream (tq_nodes q) index)" "unat n < 2 ^ 31"
  shows "\<exists>index' seg' q'. tcp_seg_add_data seg q index n = Inr (index', seg', q')
    \<and> seg' = seg\<lparr>sg_data := Some (take (unat n) (queue_stream (tq_nodes q) index)), sg_data_len := int (unat n), sg_seq_end := sg_seq_num seg + n\<rparr>
    \<and> queue_stream (tq_nodes q') index' = drop (unat n) (queue_stream (tq_nodes q) index)
    \<and> stream_ok q' index' \<and> tq_max q' = tq_max q"
proof -
  obtain ys len' index' where r: "add_data_loop (tq_nodes q) (tq_len q) index n [] =
      Inr ([] @ take (unat n) (queue_stream (tq_nodes q) index), ys, len', index')"
    "queue_stream ys index' = drop (unat n) (queue_stream (tq_nodes q) index)"
    "len' = tq_len q - sum_list (map tn_len (tq_nodes q)) + sum_list (map tn_len ys)"
    "list_all (\<lambda>x. unat (tn_len x) = length (tn_data x) \<and> tn_data x \<noteq> []) ys"
    "case ys of [] \<Rightarrow> index' = 0 | x # zs \<Rightarrow> unat index' < length (tn_data x)"
    using add_data_takes [of "tq_nodes q" index n "tq_len q" "[]"] assms(1,2) unfolding stream_ok_def by blast
  have "unat n < 2147483648" using assms(3) by simp
  then have "int (unat n) < 2147483648" by linarith
  from sint_of_small [OF _ this] have "sint n = int (unat n)" by simp
  then show ?thesis using r assms(1,2) by (simp add: tcp_seg_add_data_def stream_ok_def)
qed

theorem tcp_seg_add_data_moves_witness:
  "\<exists>index' seg' q'. tcp_seg_add_data ex_seg ex_write_queue 1 3 = Inr (index', seg', q') \<and> sg_data seg' = Some [2, 3, 4]
    \<and> queue_stream (tq_nodes q') index' = [5]"
proof -
  have "stream_ok ex_write_queue 1" "queue_stream (tq_nodes ex_write_queue) 1 = [2, 3, 4, 5]"
    by (simp_all add: stream_ok_def ex_write_queue_def queue_stream_def tcp_node_create_def)
  then show ?thesis using tcp_seg_add_data_moves [of ex_write_queue 1 3 ex_seg] by auto
qed

end
