(* ===== verification/Spec2Isabelle.thy ===== *)
theory Spec2Isabelle
  imports List_Props Switch_Module Icmp_Paths Link_Layer Tcp_Segment
begin

text \<open>
  \<^bold>\<open>Verification of the FINS framework\<close>, a TCP/IP stack in user space written in C. The stack is a set of modules (UDP,
  IPv4, ICMP, ARP, interface and others), each with an input and an output queue of frames and a thread that serves the input
  queue. A module sends a frame along one of its flows: the frame gets the number of the destination and goes into the
  output queue, from where the switch moves it to the input queue of the destination. Data frames carry a packet up or
  down the stack, control frames carry requests, replies, parameters and errors; both carry a metadata, a small dictionary
  of typed values. The theories model the libraries below the modules, then the modules, then what they do together.

  \<^bold>\<open>Conventions.\<close> A function that can fail returns \<open>'a res\<close>: \<open>Inr x\<close> is the result, \<open>Inl MemFault\<close> an access the C
  language leaves undefined (NULL, freed memory, an index outside an array), \<open>Inl ExitFailure\<close> a call of \<^verbatim>\<open>exit(-1)\<close>,
  \<open>Inl Diverge\<close> a loop whose fuel ran out. Integers are words of their C width, so they wrap around. Memory that is freed is
  recorded: \<open>m_freed\<close> lists the frames a module freed, so that leaks and double frees can be stated. Memory allocation
  succeeds; \<^verbatim>\<open>secure_malloc\<close> ends the process otherwise, and fills the memory with zeros.

  \<^bold>\<open>Theories.\<close>
  \<^item> \<open>FINS_Prelude\<close>: the result type, its sequencing \<open>andThen\<close> and the lemmas all theories share.
  \<^item> \<open>Linked_List\<close>: the doubly linked list of \<^verbatim>\<open>libs/common/finstypes.c\<close> on an explicit heap of nodes, one definition per
    \<^verbatim>\<open>list_\<close> function; \<open>List_Refine\<close> and \<open>List_Transfer\<close> relate heaps to HOL lists, \<open>List_Interface\<close> states the contract of a
    bounded list (locale \<open>bounded_list\<close>) and interprets it, \<open>List_Props\<close> holds the theorems. The loops run with fuel, one
    more than the length stored in the list, which is enough on a well formed list; the theorems prove that the functions
    return there. Later theories use HOL lists with the capacity of the C list beside them.
  \<^item> \<open>Metadata\<close>: \<^verbatim>\<open>libs/common/metadata.c\<close> and the part of \<^verbatim>\<open>libs/config/lib/libconfig.c\<close> it calls, as a list of named
    settings (locale \<open>typed_store\<close>): a value that was written is read back, others stay, a clone is equal.
  \<^item> \<open>Net_Bytes\<close> and \<open>Net_Checksum\<close>: bytes in memory, byte order, and the one's complement sum with the contract of a
    checksum (locale \<open>checksum_place\<close>, extended to \<open>checksum_field\<close> where the field may be anything), which the UDP, IPv4 and
    ICMP checksums interpret.
  \<^item> \<open>Fins_Frame\<close>: the frames and the address records of \<^verbatim>\<open>finstypes.c\<close>: clone, copy, free, serialisation, counters.
  \<^item> \<open>Fins_Queue\<close>: \<^verbatim>\<open>libs/data_structure/queue.c\<close> and \<^verbatim>\<open>finsqueue.c\<close>, a circular buffer that refines a bounded FIFO
    (locale \<open>fifo\<close>).
  \<^item> \<open>Fins_Module\<close> and \<open>Module_Common\<close>: \<^verbatim>\<open>libs/data_structure/finsmodule.c\<close>, the links and flows of a module, sending, replies,
    table parameters, and what the modules share: waiting for a frame, sending or freeing, metadata that is written and read.
    \<open>sent xs m fs m'\<close> says that \<open>m'\<close> is \<open>m\<close> with the frames \<open>fs\<close> put into its output queue behind \<open>xs\<close>; \<open>flow_to m flow d\<close>
    that a flow has the one destination \<open>d\<close>; \<open>flow_dsts t flow\<close> are the destinations of a flow in the table \<open>t\<close>, and \<open>table_request\<close>
    and \<open>table_after\<close> say what a request to set the table means.
  \<^item> \<open>Switch_Module\<close>: \<^verbatim>\<open>modules/switch/switch.c\<close>, the loop that moves frames, with the interleavings of modules and switch as a
    step relation: no wake-up is lost, every frame is delivered or dropped once, one pass routes the first frame of each module,
    a frame to index 32 is read past the array, and every control frame for the switch itself is answered or freed.
  \<^item> \<open>Udp_Module\<close>: \<^verbatim>\<open>modules/udp\<close>, all handlers, the list of sent datagrams and the checksum: a payload survives sending and
    receiving, wrong datagrams are freed, and what happens beyond 16 bit lengths.
  \<^item> \<open>Ipv4_Module\<close>: \<^verbatim>\<open>modules/ipv4\<close> (the files the running module uses), header, checksum, routing, input and output: round
    trip, the exact fate of every packet (\<open>ip4_fate\<close>: lost, refused or passed to a flow), the treatment of options.
  \<^item> \<open>Icmp_Module\<close>: \<^verbatim>\<open>modules/icmp\<close>, echo requests and replies, errors about packets of this host, the list of sent packets:
    what an unresolved address leads to, and two faults in the treatment of received errors. \<open>Icmp_Paths\<close> composes it with
    IPv4 and UDP: a ping is answered, and an error about a datagram reaches the daemon together with the first remembered
    datagram that resembles the quoted bytes.
  \<^item> \<open>Tcp_Queue\<close>: the sequence numbers and segment queues of \<^verbatim>\<open>modules/tcp/tcp.c\<close>: the window test is containment on the circle
    of 32 bit numbers, and insertion keeps a queue ordered and without overlaps, except where two segments cross the wrap
    around.
  \<^item> \<open>Tcp_Segment\<close>: the segments of \<^verbatim>\<open>modules/tcp/tcp.c\<close>, between \<^verbatim>\<open>struct tcp_seg\<close> and packets, their checksum, and how the
    bytes to send are taken from the write queue. A segment survives the trip and its checksum is accepted; the data offset
    of a received header is trusted.
  \<^item> \<open>Arp_Module\<close>: \<^verbatim>\<open>modules/arp\<close>, messages, the cache of addresses, the requests that wait and the retransmission timer. Every
    request is answered exactly once (locale \<open>arp_replier\<close> for the two loops that answer), a search finds the address of the
    host that has it or gives up after three timeouts, and a retry that cannot be sent leaves its requests waiting for ever.
  \<^item> \<open>Interface_Module\<close>: \<^verbatim>\<open>modules/interface\<close>, packets that wait for a hardware address, the searches and their pointers to
    caches and requests, injecting and capturing. The invariant \<open>io_ok\<close> says that every pending search owns one live cache and
    one live request; under it no pointer dangles and no waiting packet is lost.
  \<^item> \<open>Link_Layer\<close>: interface and ARP of two hosts together; \<open>exchange\<close> lists the frames that go around before the first packet
    to a neighbour is captured there.
  \<^item> This theory: UDP, IPv4, interface and ARP of two hosts together.

  \<^bold>\<open>Bounds.\<close> List loops have fuel as above. \<open>wait_ff\<close> and \<open>arp_wait_ff\<close> run at most once per event of the semaphore, the
  value they get as fuel; \<open>None\<close> is a thread that waits for the next event. The switch loop has one iteration per event. All
  other definitions are structurally recursive or not recursive.

  \<^bold>\<open>Abstractions.\<close> A thread's iteration is one step; semaphores are counters, and the locks around a queue operation make it
  atomic. Clocks are arguments of the operations that read them. \<^verbatim>\<open>time_diff\<close> computes in double precision what the model
  computes in microseconds; its results are only compared with whole milliseconds. Timers are data: an expired timer is an
  event. Sockets of the interface are a flag and the list of injected frames;
  a write to an open socket takes the whole frame. \<open>CreateQueue\<close> gets the array it asks for; the length it computes in 32 bits
  would wrap around from 2^29 slots on, and the modules ask for \<^verbatim>\<open>MAX_QUEUE_SIZE\<close>, 100000. Addresses of the heap are never used again
  after a free, so an access through a stale pointer always shows as \<open>MemFault\<close>.

  \<^bold>\<open>Not modelled.\<close> The connections, timers and handlers of TCP; the daemon, run time manager and logger modules; thread pools and timer threads
  (\<^verbatim>\<open>finsthreads.c\<close>, most of \<^verbatim>\<open>finstime.c\<close>); \<^verbatim>\<open>library_load\<close> and the start-up in \<^verbatim>\<open>execs/core\<close>, which load modules with
  \<^verbatim>\<open>dlopen\<close>; the capturer, console, launcher and kernel module under \<^verbatim>\<open>execs\<close>; the generated parser of libconfig and its
  output of files; the copy of libpcap; debug output; the files \<^verbatim>\<open>IP4_*.c\<close>, which the running IPv4 module does not call; IPv6
  addresses, which the code mostly leaves as TODO.
\<close>

text \<open>The metadata of a datagram that an application sends: addresses and ports, no time to live and no service type.\<close>

definition stack_meta :: "settings \<Rightarrow> u32 \<Rightarrow> u32 \<Rightarrow> u32 \<Rightarrow> u32 \<Rightarrow> bool" where
  "stack_meta ms src sp dst dp \<longleftrightarrow> send_meta ms src sp dst dp \<and> map_of ms ''send_ttl'' = None \<and> map_of ms ''send_tos'' = None
     \<and> free_u32 ms ''send_ether_type'' \<and> free_u32 ms ''send_if_index''"

lemma stack_ip_meta:
  assumes "stack_meta ms src sp dst dp" "meta_plain ms1" "map_of ms1 = (map_of ms)(''send_protocol'' \<mapsto> CInt UDP_PT_UDP)"
  shows "ip4_send_meta ms1 17 src dst None"
proof -
  have ms: "\<exists>f. has_u32 ms ''send_family'' f" "has_u32 ms ''send_src_ipv4'' src" "has_u32 ms ''send_dst_ipv4'' dst"
    "map_of ms ''send_ttl'' = None" "map_of ms ''send_tos'' = None" "free_u32 ms ''send_ether_type''" "free_u32 ms ''send_if_index''"
    using assms(1) by (auto simp: stack_meta_def send_meta_def)
  have "read_opt_u32 ms1 ''send_ttl'' = Inr None" "read_opt_u32 ms1 ''send_tos'' = Inr None"
    using read_opt_none [OF assms(2)] ip_names ms(4,5) assms(3) by simp_all
  then show ?thesis using assms(2,3) ms ip_names
    by (simp add: ip4_send_meta_def has_u32_def free_u32_def UDP_PT_UDP_def)
qed

lemma stack_recv_meta:
  assumes "meta_plain ms'" "free_u32 rms ''recv_src_port''" "free_u32 rms ''recv_dst_port''"
    "map_of ms' = (map_of rms)(''recv_protocol'' \<mapsto> CInt (ucast (17 :: u8)), ''recv_family'' \<mapsto> CInt 2, ''recv_src_ipv4'' \<mapsto> CInt src,
        ''recv_dst_ipv4'' \<mapsto> CInt dst, ''recv_ttl'' \<mapsto> CInt ttl)"
  shows "recv_meta ms' src dst"
  using assms ip_names by (simp add: recv_meta_def has_u32_def free_u32_def UDP_PT_UDP_def)

text \<open>The packet of IPv4 as the interface gets it, and the metadata of a captured packet.\<close>

lemma ipv4_out_frame:
  assumes "wire_meta ms ifx src a" "metaData r = Some ms" "dataOrCtrl r = FF_DATA" "directionFlag (dataFrame r) = DIR_DOWN"
    "pdu (dataFrame r) = Some p" "pduLength (dataFrame r) = of_nat (length p)" "length p < 65536"
  shows "out_frame r ifx src a" "payload r = p"
proof -
  have "unat (pduLength (dataFrame r)) = length p" using assms(7) unfolding assms(6) unat_of_nat by simp
  then show "out_frame r ifx src a" "payload r = p" using assms
    by (simp_all add: out_frame_def packet_fits_def packet_frame_def payload_def wire_meta_def IP4_ETH_TYPE_def ETH_TYPE_IP4_def SIZE_ETHERNET_def)
qed

lemma captured_recv_free:
  assumes "meta_plain ms" "map_of ms = [''recv_dst_mac'' \<mapsto> x, ''recv_src_mac'' \<mapsto> y, ''recv_ether_type'' \<mapsto> z, ''recv_stamp'' \<mapsto> v]"
  shows "ip4_recv_free ms" "free_u32 ms ''recv_src_port''" "free_u32 ms ''recv_dst_port''"
  using assms ip_names udp_names by (simp_all add: ip4_recv_free_def free_u32_def)

text \<open>
  C2: a datagram crosses the whole stack. A payload of up to 65507 bytes that an application hands to UDP goes down through
  \<^verbatim>\<open>udp_out_fdf\<close> and \<^verbatim>\<open>ipv4_out_fdf\<close> and leaves on the interface of the first matching route; on the host that
  has the destination address it goes up through \<^verbatim>\<open>ipv4_in_fdf\<close> and \<^verbatim>\<open>udp_in_fdf\<close>, both checksums are accepted, and
  the daemon gets exactly the payload with both ports.
\<close>

theorem udp_over_ipv4:
  assumes "dataOrCtrl ff = FF_DATA" "metaData ff = Some ms" "stack_meta ms src sp dst dp"
    "pdu (dataFrame ff) = Some data" "length data = unat (pduLength (dataFrame ff))" "length data + 28 < 65536"
    "room u xs" "flow_to u UDP_FLOW_IPV4 d1" "length (ud_sent_packet_list (m_data u)) < ud_sent_max (m_data u)"
    "find (\<lambda>r. ipv4_route_dst_test r dst) (i4_route_list (m_data i)) = Some route"
    "i4_addr_loopback (m_data i) = Some lo" "ad_if_index lo \<noteq> rt_if_index route" "room i ys" "flow_to i IPV4_FLOW_INTERFACE d2"
    "metaData rf = Some rms" "ip4_recv_free rms" "free_u32 rms ''recv_src_port''" "free_u32 rms ''recv_dst_port''"
    "ip4_local ri dst" "room ri zs" "flow_to ri IPV4_FLOW_UDP d3" "room ru ws" "flow_to ru UDP_FLOW_DAEMON d4"
  shows "\<exists>u' r1 i' r2 ri' r3 ru' r4.
      udp_out_fdf u ff = Inr u' \<and> queue_rep (m_output_queue u') (xs @ [r1]) \<and> destinationID r1 = d1
    \<and> ipv4_out_fdf now i r1 = Inr i' \<and> queue_rep (m_output_queue i') (ys @ [r2]) \<and> destinationID r2 = d2
    \<and> has_u32 (the (metaData r2)) ''send_if_index'' (rt_if_index route)
    \<and> ipv4_in_fdf ri (arrives rf r2) = Inr ri' \<and> queue_rep (m_output_queue ri') (zs @ [r3]) \<and> destinationID r3 = d3
    \<and> udp_in_fdf ru r3 = Inr ru' \<and> queue_rep (m_output_queue ru') (ws @ [r4]) \<and> destinationID r4 = d4
    \<and> pdu (dataFrame r4) = Some data \<and> unat (pduLength (dataFrame r4)) = length data
    \<and> has_u32 (the (metaData r4)) ''recv_src_port'' (ucast (ucast sp :: u16))
    \<and> has_u32 (the (metaData r4)) ''recv_dst_port'' (ucast (ucast dp :: u16))"
proof -
  let ?dg = "datagram src sp dst dp data"
  have l8: "length data + 8 < 65536" using assms(6) by simp
  have sm: "send_meta ms src sp dst dp" using assms(3) by (simp add: stack_meta_def)
  note dg = datagram_facts [OF l8, where src = src and sp = sp and dst = dst and dp = dp]
  obtain u' r1 ms1 where r1: "udp_out_fdf u ff = Inr u'" "queue_rep (m_output_queue u') (xs @ [r1])" "destinationID r1 = d1"
      "pdu (dataFrame r1) = Some ?dg" "pduLength (dataFrame r1) = of_nat (length data + 8)" "metaData r1 = Some ms1"
      "meta_plain ms1" "map_of ms1 = (map_of ms)(''send_protocol'' \<mapsto> CInt UDP_PT_UDP)"
    using udp_out_sends [OF assms(1,2) sm assms(4,5) l8 assms(7-9)] by blast
  have len: "length ?dg = length data + 8" using dg by simp
  have l1: "length ?dg = unat (pduLength (dataFrame r1))" using l8 unfolding r1(5) len unat_of_nat by simp
  have l2: "length ?dg + 20 < 65536" using assms(6) len by simp
  obtain i' r2 h where r2: "ipv4_out_fdf now i r1 = Inr i'" "queue_rep (m_output_queue i') (ys @ [r2])" "destinationID r2 = d2"
      "pdu (dataFrame r2) = Some (ip4_bytes h @ ?dg)" "pduLength (dataFrame r2) = of_nat (length ?dg + 20)"
      "ip4_good h (length ?dg + 20) (ucast (17 :: u32)) (case None of None \<Rightarrow> IP4_INIT_TTL | Some (v :: u32) \<Rightarrow> ucast v) src dst"
      "has_u32 (the (metaData r2)) ''send_if_index'' (rt_if_index route)"
    using ipv4_out_sends [OF r1(6) stack_ip_meta [OF assms(3) r1(7,8)] r1(4) l1 l2 assms(10-14), of now] by blast
  have good: "ip4_good h (length ?dg + 20) 17 IP4_INIT_TTL src dst" using r2(6) by simp
  have f: "metaData (arrives rf r2) = Some rms" "pdu (dataFrame (arrives rf r2)) = Some (ip4_bytes h @ ?dg)"
    "pduLength (dataFrame (arrives rf r2)) = of_nat (length ?dg + 20)"
    using assms(15) r2(4,5) by (simp_all add: arrives_def)
  have ttl: "IP4_INIT_TTL \<noteq> 0" "(17 :: u8) = 17 \<and> IPV4_FLOW_UDP = IPV4_FLOW_UDP \<or> (17 :: u8) = 6 \<and> IPV4_FLOW_UDP = IPV4_FLOW_TCP"
    by (simp_all add: IP4_INIT_TTL_def)
  obtain ri' r3 ms3 where r3: "ipv4_in_fdf ri (arrives rf r2) = Inr ri'" "queue_rep (m_output_queue ri') (zs @ [r3])" "destinationID r3 = d3"
      "pdu (dataFrame r3) = Some ?dg" "pduLength (dataFrame r3) = of_nat (length ?dg)" "metaData r3 = Some ms3" "meta_plain ms3"
      "map_of ms3 = (map_of rms)(''recv_protocol'' \<mapsto> CInt (ucast (17 :: u8)), ''recv_family'' \<mapsto> CInt 2, ''recv_src_ipv4'' \<mapsto> CInt src,
        ''recv_dst_ipv4'' \<mapsto> CInt dst, ''recv_ttl'' \<mapsto> CInt (ucast IP4_INIT_TTL))"
    using ipv4_in_delivers [OF f(1) assms(16) f(2,3) l2 good ttl(1) assms(19) ttl(2) assms(20,21)] by blast
  have rm: "recv_meta ms3 src dst" by (rule stack_recv_meta [OF r3(7) assms(17,18) r3(8)])
  have ck: "udp_len_ok ?dg" "inet_cksum (udp_total (htonl src) (htonl dst) ?dg) = 0 \<or> mk16 (?dg ! 7) (?dg ! 6) = 0" using dg by auto
  obtain ru' r4 where "udp_in_fdf ru r3 = Inr ru'" "queue_rep (m_output_queue ru') (ws @ [r4])" "destinationID r4 = d4"
      "pdu (dataFrame r4) = Some (drop 8 ?dg)" "unat (pduLength (dataFrame r4)) = length ?dg - 8"
      "has_u32 (the (metaData r4)) ''recv_src_port'' (ucast (mk16 (?dg ! 0) (?dg ! 1)))"
      "has_u32 (the (metaData r4)) ''recv_dst_port'' (ucast (mk16 (?dg ! 2) (?dg ! 3)))"
    using udp_in_delivers [OF r3(6) rm r3(4) ck(1) r3(5) ck(2) assms(22,23)] by blast
  with r1(1-3) r2(1-3,7) r3(1-3) dg show ?thesis by simp blast
qed

theorem udp_over_ipv4_witness:
  "\<exists>u' r1 i' r2 ri' r3 ru' r4. udp_out_fdf ex_udp (ex_frame\<lparr>metaData := Some ex_udp_meta\<rparr>) = Inr u' \<and> queue_rep (m_output_queue u') [r1]
    \<and> ipv4_out_fdf 0 ex_ipv4 r1 = Inr i' \<and> queue_rep (m_output_queue i') [r2]
    \<and> ipv4_in_fdf ex_ipv4 (arrives (zeroFrame\<lparr>metaData := Some []\<rparr>) r2) = Inr ri' \<and> queue_rep (m_output_queue ri') [r3]
    \<and> udp_in_fdf ex_udp r3 = Inr ru' \<and> queue_rep (m_output_queue ru') [r4]
    \<and> pdu (dataFrame r4) = Some [9] \<and> has_u32 (the (metaData r4)) ''recv_dst_port'' 53"
proof -
  let ?f = "ex_frame\<lparr>metaData := Some ex_udp_meta\<rparr>" and ?g = "zeroFrame\<lparr>metaData := Some []\<rparr>"
  have sm: "stack_meta ex_udp_meta 0xC0A80101 5000 0xC0A80102 53"
    using ex_udp_send_meta ip_names by (simp add: stack_meta_def free_u32_def ex_udp_meta_def)
  have fr: "free_u32 [] ''recv_src_port''" "free_u32 [] ''recv_dst_port''" using udp_names by (simp_all add: free_u32_def)
  have f: "dataOrCtrl ?f = FF_DATA" "metaData ?f = Some ex_udp_meta" "pdu (dataFrame ?f) = Some [9]"
    "length [9 :: byte] = unat (pduLength (dataFrame ?f))" "length [9 :: byte] + 28 < 65536" "metaData ?g = Some []"
    by (simp_all add: ex_frame_def)
  have mx: "length (ud_sent_packet_list (m_data ex_udp)) < ud_sent_max (m_data ex_udp)" by (simp add: ex_udp_def)
  have eq: "ucast (ucast (53 :: u32) :: u16) = (53 :: u32)" by simp
  from udp_over_ipv4 [OF f(1,2) sm f(3-5) ex_udp_ready(1,2) mx ex_ipv4_route ex_ipv4_ready(1,2) f(6)
      ex_ip_recv_free fr ex_ip_local ex_ipv4_ready(1,3) ex_udp_ready(1,3), of 0, unfolded eq append_Nil]
  show ?thesis by (elim exE conjE) (intro exI conjI, assumption+)
qed


text \<open>
  C1: the first datagram to a neighbour arrives. A payload that an application hands to UDP goes down through UDP and IPv4 to
  the interface, which does not know the hardware address of the next hop. The packet waits while the interface asks ARP, the
  broadcast reaches the neighbour, its reply comes back and ARP answers; then the interface injects the packet. The neighbour
  captures it, and the daemon there gets exactly the payload with both ports from IPv4 and UDP.
\<close>

theorem udp_first_contact:
  assumes "dataOrCtrl ff = FF_DATA" "directionFlag (dataFrame ff) = DIR_DOWN" "metaData ff = Some ms" "stack_meta ms src sp dst dp"
    "pdu (dataFrame ff) = Some data" "length data = unat (pduLength (dataFrame ff))" "length data + 42 \<le> 10000"
    "room u xs" "flow_to u UDP_FLOW_IPV4 d1" "length (ud_sent_packet_list (m_data u)) < ud_sent_max (m_data u)"
    "find (\<lambda>r. ipv4_route_dst_test r dst) (i4_route_list (m_data i)) = Some route"
    "i4_addr_loopback (m_data i) = Some lo" "ad_if_index lo \<noteq> rt_if_index route" "room i ys" "flow_to i IPV4_FLOW_INTERFACE d2"
    "asks n a (rt_if_index route) src ifr ra (if sin_addr (rt_gw route) = 0 then dst else sin_addr (rt_gw route))"
    "owns n' a' (if sin_addr (rt_gw route) = 0 then dst else sin_addr (rt_gw route)) rb"
    "space n ns 2" "space a as 2" "space n' ns' 2" "space a' as' 1" "flow_to n' INTERFACE_FLOW_IPV4 d3"
    "ip4_local ri dst" "room ri zs" "flow_to ri IPV4_FLOW_UDP d4" "room ru ws" "flow_to ru UDP_FLOW_DAEMON d5"
  shows "\<exists>u' r1 i' r2 r3 ri' r4 ru' r5.
      udp_out_fdf u ff = Inr u' \<and> newest u' r1 \<and> destinationID r1 = d1 \<and> ipv4_out_fdf now i r1 = Inr i' \<and> newest i' r2 \<and> destinationID r2 = d2
    \<and> exchange t n a n' a' r2 r3 \<and> destinationID r3 = d3
    \<and> ipv4_in_fdf ri r3 = Inr ri' \<and> newest ri' r4 \<and> destinationID r4 = d4 \<and> udp_in_fdf ru r4 = Inr ru' \<and> newest ru' r5 \<and> destinationID r5 = d5
    \<and> pdu (dataFrame r5) = Some data \<and> unat (pduLength (dataFrame r5)) = length data
    \<and> has_u32 (the (metaData r5)) ''recv_src_port'' (ucast (ucast sp :: u16))
    \<and> has_u32 (the (metaData r5)) ''recv_dst_port'' (ucast (ucast dp :: u16))"
proof -
  let ?dg = "datagram src sp dst dp data" and ?hop = "if sin_addr (rt_gw route) = 0 then dst else sin_addr (rt_gw route)"
  have l8: "length data + 8 < 65536" using assms(7) by simp
  have sm: "send_meta ms src sp dst dp" using assms(4) by (simp add: stack_meta_def)
  note dg = datagram_facts [OF l8, where src = src and sp = sp and dst = dst and dp = dp]
  obtain u' r1 ms1 where r1: "udp_out_fdf u ff = Inr u'" "queue_rep (m_output_queue u') (xs @ [r1])" "destinationID r1 = d1"
      "pdu (dataFrame r1) = Some ?dg" "pduLength (dataFrame r1) = of_nat (length data + 8)" "metaData r1 = Some ms1"
      "meta_plain ms1" "map_of ms1 = (map_of ms)(''send_protocol'' \<mapsto> CInt UDP_PT_UDP)"
      "directionFlag (dataFrame r1) = DIR_DOWN" "dataOrCtrl r1 = FF_DATA"
    using udp_out_sends [OF assms(1,3) sm assms(5,6) l8 assms(8-10)] assms(2) by auto
  have len: "length ?dg = length data + 8" using dg by simp
  have l1: "length ?dg = unat (pduLength (dataFrame r1))" using l8 unfolding r1(5) len unat_of_nat by simp
  have l2: "length ?dg + 20 < 65536" using assms(7) len by simp
  obtain i' r2 h ms2 where r2: "ipv4_out_fdf now i r1 = Inr i'" "queue_rep (m_output_queue i') (ys @ [r2])" "destinationID r2 = d2"
      "pdu (dataFrame r2) = Some (ip4_bytes h @ ?dg)" "pduLength (dataFrame r2) = of_nat (length ?dg + 20)"
      "ip4_good h (length ?dg + 20) (ucast (17 :: u32)) (case None of None \<Rightarrow> IP4_INIT_TTL | Some (v :: u32) \<Rightarrow> ucast v) src dst"
      "metaData r2 = Some ms2" "wire_meta ms2 (rt_if_index route) src ?hop" "dataOrCtrl r2 = FF_DATA" "directionFlag (dataFrame r2) = DIR_DOWN"
    using ipv4_out_sends [OF r1(6) stack_ip_meta [OF assms(4) r1(7,8)] r1(4) l1 l2 assms(11-15), of now] r1(9,10) by auto
  have good: "ip4_good h (length ?dg + 20) 17 IP4_INIT_TTL src dst" using r2(6) by simp
  have pl: "length (ip4_bytes h @ ?dg) = length ?dg + 20" by (simp add: ip4_bytes_length)
  have r2l: "pduLength (dataFrame r2) = of_nat (length (ip4_bytes h @ ?dg))" "length (ip4_bytes h @ ?dg) < 65536" unfolding pl using r2(5) l2 by simp_all
  note of = ipv4_out_frame [OF r2(8,7,9,10,4) r2l]
  have lw: "length (payload r2) + 14 \<le> 10000" unfolding of(2) pl len using assms(7) by simp
  obtain r3 rms where r3: "exchange t n a n' a' r2 r3" "destinationID r3 = d3" "dataOrCtrl r3 = FF_DATA" "directionFlag (dataFrame r3) = DIR_UP"
      "pdu (dataFrame r3) = Some (payload r2)" "pduLength (dataFrame r3) = of_nat (length (payload r2))" "metaData r3 = Some rms" "meta_plain rms"
      "map_of rms = [''recv_dst_mac'' \<mapsto> CInt64 (if_mac rb), ''recv_src_mac'' \<mapsto> CInt64 (if_mac ifr), ''recv_ether_type'' \<mapsto> CInt ETH_TYPE_IP4,
         ''recv_stamp'' \<mapsto> CInt64 (of_int (tv_sec (t 10)))]"
    by (rule link_delivers [OF assms(16,17) of(1) lw assms(18-22), of t])
  note fr = captured_recv_free [OF r3(8,9)]
  have p3: "pdu (dataFrame r3) = Some (ip4_bytes h @ ?dg)" "pduLength (dataFrame r3) = of_nat (length ?dg + 20)"
    using r3(5,6) unfolding of(2) pl by simp_all
  have ttl: "IP4_INIT_TTL \<noteq> 0" "(17 :: u8) = 17 \<and> IPV4_FLOW_UDP = IPV4_FLOW_UDP \<or> (17 :: u8) = 6 \<and> IPV4_FLOW_UDP = IPV4_FLOW_TCP"
    by (simp_all add: IP4_INIT_TTL_def)
  obtain ri' r4 ms4 where r4: "ipv4_in_fdf ri r3 = Inr ri'" "queue_rep (m_output_queue ri') (zs @ [r4])" "destinationID r4 = d4"
      "pdu (dataFrame r4) = Some ?dg" "pduLength (dataFrame r4) = of_nat (length ?dg)" "metaData r4 = Some ms4" "meta_plain ms4"
      "map_of ms4 = (map_of rms)(''recv_protocol'' \<mapsto> CInt (ucast (17 :: u8)), ''recv_family'' \<mapsto> CInt 2, ''recv_src_ipv4'' \<mapsto> CInt src,
        ''recv_dst_ipv4'' \<mapsto> CInt dst, ''recv_ttl'' \<mapsto> CInt (ucast IP4_INIT_TTL))"
    using ipv4_in_delivers [OF r3(7) fr(1) p3 l2 good ttl(1) assms(23) ttl(2) assms(24,25)] by blast
  have rm: "recv_meta ms4 src dst" by (rule stack_recv_meta [OF r4(7) fr(2,3) r4(8)])
  have ck: "udp_len_ok ?dg" "inet_cksum (udp_total (htonl src) (htonl dst) ?dg) = 0 \<or> mk16 (?dg ! 7) (?dg ! 6) = 0" using dg by auto
  obtain ru' r5 where r5: "udp_in_fdf ru r4 = Inr ru'" "queue_rep (m_output_queue ru') (ws @ [r5])" "destinationID r5 = d5"
      "pdu (dataFrame r5) = Some (drop 8 ?dg)" "unat (pduLength (dataFrame r5)) = length ?dg - 8"
      "has_u32 (the (metaData r5)) ''recv_src_port'' (ucast (mk16 (?dg ! 0) (?dg ! 1)))"
      "has_u32 (the (metaData r5)) ''recv_dst_port'' (ucast (mk16 (?dg ! 2) (?dg ! 3)))"
    using udp_in_delivers [OF r4(6) rm r4(4) ck(1) r4(5) ck(2) assms(26,27)] by blast
  show ?thesis
    using r1(1,3) r2(1,3) r3(1,2) r4(1,3) r5(1,3-7) dg newestI [OF r1(2)] newestI [OF r2(2)] newestI [OF r4(2)] newestI [OF r5(2)] by simp blast
qed


theorem udp_first_contact_witness:
  "\<exists>u' r1 i' r2 r3 ri' r4 ru' r5. udp_out_fdf ex_udp (ex_frame\<lparr>metaData := Some ex_udp_meta\<rparr>) = Inr u' \<and> newest u' r1
    \<and> ipv4_out_fdf 0 ex_ipv4 r1 = Inr i' \<and> newest i' r2
    \<and> exchange (\<lambda>i. \<lparr>tv_sec = int i, tv_usec = 0\<rparr>) (ex_io 1 0xAA) (ex_host 0xC0A80101 0xAA) (ex_io 1 0xBB) (ex_host 0xC0A801FE 0xBB) r2 r3
    \<and> ipv4_in_fdf ex_ipv4 r3 = Inr ri' \<and> newest ri' r4 \<and> udp_in_fdf ex_udp r4 = Inr ru' \<and> newest ru' r5
    \<and> pdu (dataFrame r5) = Some [9] \<and> has_u32 (the (metaData r5)) ''recv_dst_port'' 53"
proof -
  let ?f = "ex_frame\<lparr>metaData := Some ex_udp_meta\<rparr>" and ?n = "ex_io 1 0xAA" and ?a = "ex_host 0xC0A80101 0xAA"
    and ?n' = "ex_io 1 0xBB" and ?a' = "ex_host 0xC0A801FE 0xBB"
  have sm: "stack_meta ex_udp_meta 0xC0A80101 5000 0xC0A80102 53"
    using ex_udp_send_meta ip_names by (simp add: stack_meta_def free_u32_def ex_udp_meta_def)
  have f: "dataOrCtrl ?f = FF_DATA" "directionFlag (dataFrame ?f) = DIR_DOWN" "metaData ?f = Some ex_udp_meta" "pdu (dataFrame ?f) = Some [9]"
    "length [9 :: byte] = unat (pduLength (dataFrame ?f))" "length [9 :: byte] + 42 \<le> 10000"
    by (simp_all add: ex_frame_def)
  have mx: "length (ud_sent_packet_list (m_data ex_udp)) < ud_sent_max (m_data ex_udp)" by (simp add: ex_udp_def)
  let ?hop = "if sin_addr (rt_gw ex_route) = 0 then 0xC0A80102 else sin_addr (rt_gw ex_route)"
  have hop: "?hop = 0xC0A801FE" "rt_if_index ex_route = 3" by (simp_all add: ex_route_def ex_addr4_def)
  let ?i = "hd (io_if_list (m_data ?n))"
  have i: "find (\<lambda>i. ifr_index_test i 3) (io_if_list (m_data ?n)) = Some ?i" "if_mac ?i = 0xAA" "io_caches ?n = []" "io_store_list (m_data ?n) = []"
      "io_cache_max (m_data ?n) = 4" "io_store_max (m_data ?n) = 4" "io_writable (m_data ?n)" "io_writable (m_data ?n')"
    by (simp_all add: ex_io_def ifr_index_test_def)
  have fl: "\<exists>d. flow_to (ex_io 1 mac) INTERFACE_FLOW_ARP d" "\<exists>e. flow_to (ex_host ip mac) ARP_FLOW_INTERFACE e" for mac ip
    using ex_io_ready(5) ex_host_ready(2) by blast+
  have as: "asks ?n ?a (rt_if_index ex_route) 0xC0A80101 ?i (hd (ar_if_list (m_data ?a))) ?hop"
    unfolding hop asks_def using ex_io_ready(1) [of 1 "0xAA"] fl i by (simp add: ex_host_if)
  have ow: "owns ?n' ?a' ?hop (hd (ar_if_list (m_data ?a')))"
    unfolding hop owns_def using fl i by (simp add: ex_host_if)
  have sp: "space ?n [] 2" "space ?a [] 2" "space ?n' [] 2" "space ?a' [] 1"
    using ex_io_ready(3) [of 1 "0xAA"] ex_io_ready(3) [of 1 "0xBB"] ex_host_ready(4) [of "0xC0A80101" "0xAA"] ex_host_ready(4) [of "0xC0A801FE" "0xBB"]
    by (simp_all add: space_def)
  have eq: "ucast (ucast (53 :: u32) :: u16) = (53 :: u32)" by simp
  from udp_first_contact [OF f(1-3) sm f(4-6) ex_udp_ready(1,2) mx ex_ipv4_route ex_ipv4_ready(1,2) as ow sp ex_io_ready(4)
      ex_ip_local ex_ipv4_ready(1,3) ex_udp_ready(1,3), of 0 "\<lambda>i. \<lparr>tv_sec = int i, tv_usec = 0\<rparr>", unfolded eq]
  show ?thesis by (elim exE conjE) (intro exI conjI, assumption+)
qed

end
